(* ===== verification/Prelude.thy ===== *)
theory Prelude
  imports Main "HOL-Library.Word" "HOL-Library.Monad_Syntax"
begin

text \<open>
  Shared vocabulary of the development.

  \<^item> A call that changes state is a function \<open>state \<Rightarrow> ('a \<times> state) option\<close> in the option
    monad: \<open>None\<close> is a call that never comes back (a failed \<open>assert\<close> and \<open>Kernel::perish\<close>
    execute \<open>hlt\<close> for ever, an infinite loop spins, a division by zero faults) or whose
    outcome C++ leaves undefined; \<open>Some (x, s)\<close> is a return of \<open>x\<close> in the state \<open>s\<close>.
  \<^item> \<open>wp m Q\<close> says that the call \<open>m\<close> comes back and that \<open>Q\<close> holds of its value and state:
    total correctness.
  \<^item> \<open>u32\<close>, \<open>u64\<close>, \<open>i32\<close> write out the conversions of C++ to \<open>uint32_t\<close>, \<open>size_t\<close> and \<open>int\<close>.
  \<^item> Byte ranges: \<open>rd\<close> reads a range of a byte-addressed store, \<open>upd\<close> writes one.
  \<^item> Little-endian integers: \<open>le_bytes\<close> and \<open>le_nat\<close>.
\<close>

type_synonym byte = "8 word"

named_theorems wp_rules "rules that take a weakest precondition apart"


section \<open>Calls that may not come back\<close>

definition wp :: "('a \<times> 's) option \<Rightarrow> ('a \<Rightarrow> 's \<Rightarrow> bool) \<Rightarrow> bool" where
  "wp m Q = (case m of None \<Rightarrow> False | Some (x, s) \<Rightarrow> Q x s)"

lemma wp_None [simp]: "wp None Q = False"
  by (simp add: wp_def)

lemma wp_Some [simp]: "wp (Some p) Q = Q (fst p) (snd p)"
  by (cases p) (simp add: wp_def)

lemma wp_bind [simp]: "wp (Option.bind m f) Q = wp m (\<lambda>x s. wp (f (x, s)) Q)"
  by (cases m) (auto simp: wp_def)

lemma wp_if [simp]: "wp (if b then m else n) Q = (if b then wp m Q else wp n Q)"
  by simp

lemma wp_mono: "wp m P \<Longrightarrow> (\<And>x s. P x s \<Longrightarrow> Q x s) \<Longrightarrow> wp m Q"
  by (cases m) (auto simp: wp_def)

lemma wp_then: "wp m P \<Longrightarrow> (\<And>x s. P x s \<Longrightarrow> wp (f (x, s)) Q) \<Longrightarrow> wp (Option.bind m f) Q"
  by (cases m) (auto simp: wp_def)

lemma wp_conj: "wp m P \<Longrightarrow> wp m Q \<Longrightarrow> wp m (\<lambda>x s. P x s \<and> Q x s)"
  by (cases m) (auto simp: wp_def)

lemma wp_all: "m \<noteq> None \<Longrightarrow> (\<And>i. C i \<Longrightarrow> wp m (Q i)) \<Longrightarrow> wp m (\<lambda>x s. \<forall>i. C i \<longrightarrow> Q i x s)"
  by (cases m) (auto simp: wp_def)

lemma wp_ex: "wp m Q \<longleftrightarrow> (\<exists>x s. m = Some (x, s) \<and> Q x s)"
  by (cases m) (auto simp: wp_def)

lemma wpI: "m = Some (x, s) \<Longrightarrow> Q x s \<Longrightarrow> wp m Q"
  by simp

lemma wpE:
  assumes "wp m Q"
  obtains x s where "m = Some (x, s)" and "Q x s"
  using assms by (auto simp: wp_ex)


section \<open>Integer conversions of C++\<close>

definition u32 :: "int \<Rightarrow> nat" where
  "u32 x = nat (x mod 2 ^ 32)"

definition u64 :: "int \<Rightarrow> nat" where
  "u64 x = nat (x mod 2 ^ 64)"

definition wrap64 :: "nat \<Rightarrow> nat" where
  "wrap64 n = n mod 2 ^ 64"

definition i32 :: "nat \<Rightarrow> int" where
  "i32 n = (let m = int (n mod 2 ^ 32) in if m < 2 ^ 31 then m else m - 2 ^ 32)"

definition i64 :: "nat \<Rightarrow> int" where
  "i64 n = (let m = int (n mod 2 ^ 64) in if m < 2 ^ 63 then m else m - 2 ^ 64)"

lemma u32_small [simp]: "0 \<le> x \<Longrightarrow> x < 2 ^ 32 \<Longrightarrow> u32 x = nat x"
  by (simp add: u32_def)

lemma u64_small [simp]: "0 \<le> x \<Longrightarrow> x < 2 ^ 64 \<Longrightarrow> u64 x = nat x"
  by (simp add: u64_def)

lemma u64_of_nat [simp]: "n < 2 ^ 64 \<Longrightarrow> u64 (int n) = n"
  by (simp add: u64_def zmod_int flip: nat_mod_distrib)

lemma wrap64_small [simp]: "n < 2 ^ 64 \<Longrightarrow> wrap64 n = n"
  by (simp add: wrap64_def)

lemma u32_bound: "u32 x < 2 ^ 32"
  by (simp add: u32_def nat_less_iff)

lemma u64_bound: "u64 x < 2 ^ 64"
  by (simp add: u64_def nat_less_iff)

lemma i32_u32: "- (2 ^ 31) \<le> x \<Longrightarrow> x < 2 ^ 31 \<Longrightarrow> i32 (u32 x) = x"
proof (cases "0 \<le> x")
  case True
  moreover assume "x < 2 ^ 31"
  ultimately show ?thesis by (simp add: i32_def Let_def)
next
  case False
  moreover assume "- (2 ^ 31) \<le> x"
  ultimately have "x mod 2 ^ 32 = x + 2 ^ 32"
    by (subst mod_add_self2 [symmetric], subst mod_pos_pos_trivial) auto
  with False \<open>- (2 ^ 31) \<le> x\<close> show ?thesis
    by (simp add: i32_def u32_def Let_def)
qed

lemma i32_range: "- (2 ^ 31) \<le> i32 n" "i32 n < 2 ^ 31"
proof -
  have "int (n mod 2 ^ 32) < 2 ^ 32"
    by (simp add: zmod_int)
  then show "- (2 ^ 31) \<le> i32 n" "i32 n < 2 ^ 31"
    by (auto simp: i32_def Let_def)
qed


section \<open>Lists\<close>

lemma length_takeWhile_less: "\<exists>x \<in> set xs. \<not> P x \<Longrightarrow> length (takeWhile P xs) < length xs"
  by (induction xs) auto

lemma takeWhile_prefix: "\<forall>x \<in> set xs. P x \<Longrightarrow> \<not> P y \<Longrightarrow> takeWhile P (xs @ y # ys) = xs"
  by (induction xs) auto

lemma length_concat_replicate [simp]: "length (concat (replicate k xs)) = k * length xs"
  by (induction k) simp_all


section \<open>Byte ranges\<close>

definition rd :: "(nat \<Rightarrow> 'b) \<Rightarrow> nat \<Rightarrow> nat \<Rightarrow> 'b list" where
  "rd f off n = map f [off..<off + n]"

definition upd :: "(nat \<Rightarrow> 'b) \<Rightarrow> nat \<Rightarrow> 'b list \<Rightarrow> nat \<Rightarrow> 'b" where
  "upd f off bs = (\<lambda>i. if off \<le> i \<and> i < off + length bs then bs ! (i - off) else f i)"

lemma length_rd [simp]: "length (rd f off n) = n"
  by (simp add: rd_def)

lemma rd_0 [simp]: "rd f off 0 = []"
  by (simp add: rd_def)

lemma nth_rd [simp]: "i < n \<Longrightarrow> rd f off n ! i = f (off + i)"
  by (simp add: rd_def)

lemma rd_append: "rd f off (m + n) = rd f off m @ rd f (off + m) n"
  by (rule nth_equalityI) (auto simp: nth_append)

lemma take_rd [simp]: "take m (rd f off n) = rd f off (min m n)"
  by (rule nth_equalityI) auto

lemma drop_rd [simp]: "drop m (rd f off n) = rd f (off + m) (n - m)"
  by (rule nth_equalityI) (auto simp: add.assoc)

lemma rd_cong: "(\<And>i. off \<le> i \<Longrightarrow> i < off + n \<Longrightarrow> f i = g i) \<Longrightarrow> rd f off n = rd g off n"
  by (rule nth_equalityI) auto

lemma upd_Nil [simp]: "upd f off [] = f"
  by (rule ext) (auto simp: upd_def)

lemma upd_outside [simp]: "i < off \<or> off + length bs \<le> i \<Longrightarrow> upd f off bs i = f i"
  by (auto simp: upd_def)

lemma upd_inside [simp]: "off \<le> i \<Longrightarrow> i < off + length bs \<Longrightarrow> upd f off bs i = bs ! (i - off)"
  by (auto simp: upd_def)

lemma rd_upd_same [simp]: "length bs = n \<Longrightarrow> rd (upd f off bs) off n = bs"
  by (rule nth_equalityI) auto

lemma rd_upd_disjoint:
  "off' + n \<le> off \<or> off + length bs \<le> off' \<Longrightarrow> rd (upd f off bs) off' n = rd f off' n"
  by (rule rd_cong) auto

lemma upd_append: "upd f off (as @ bs) = upd (upd f off as) (off + length as) bs"
  by (rule ext) (auto simp: upd_def nth_append)

lemma upd_shift: "(\<lambda>i. upd f (k + off) bs (k + i)) = upd (\<lambda>i. f (k + i)) off bs"
  by (rule ext) (auto simp: upd_def)

lemma rd_shift: "rd f (k + off) n = rd (\<lambda>i. f (k + i)) off n"
  by (rule nth_equalityI) (auto simp: add.assoc)

lemma rd_prefix: "sz \<le> m \<Longrightarrow> rd f a m = rd g b m \<Longrightarrow> rd f a sz = rd g b sz"
  by (metis min.absorb1 take_rd)

text \<open>Bytes written back as they were change nothing.\<close>

lemma upd_rd: "upd m a (rd m a j) = m"
  by (rule ext) (auto simp: upd_def)

lemma upd_keep: "upd m a (bs @ rd m (a + length bs) j) = upd m a bs"
proof -
  have "rd m (a + length bs) j = rd (upd m a bs) (a + length bs) j" by (rule rd_cong) simp
  then show ?thesis by (simp add: upd_append upd_rd)
qed

lemma upd_keep_both: "upd m a (rd m a i @ bs @ rd m (a + i + length bs) j) = upd m (a + i) bs"
  using upd_keep [of m "a + i" bs j] by (simp add: upd_append [of _ _ "rd m a i"] upd_rd)


section \<open>Little-endian integers\<close>

primrec le_bytes :: "nat \<Rightarrow> nat \<Rightarrow> byte list" where
  "le_bytes 0 x = []"
| "le_bytes (Suc n) x = word_of_nat (x mod 256) # le_bytes n (x div 256)"

primrec le_nat :: "byte list \<Rightarrow> nat" where
  "le_nat [] = 0"
| "le_nat (b # bs) = unat b + 256 * le_nat bs"

lemma length_le_bytes [simp]: "length (le_bytes n x) = n"
  by (induction n arbitrary: x) auto

lemma unat_word_of_nat_mod [simp]: "unat (word_of_nat (x mod 256) :: byte) = x mod 256"
  by (simp add: unat_of_nat)

lemma le_bytes_append: "le_bytes m x @ le_bytes n (x div 256 ^ m) = le_bytes (m + n) x"
  by (induction m arbitrary: x) (simp_all add: div_mult2_eq)

lemma nth_le_bytes: "i < n \<Longrightarrow> le_bytes n x ! i = word_of_nat (x div 256 ^ i mod 256)"
proof (induction n arbitrary: i x)
  case (Suc n)
  then show ?case by (cases i) (simp_all add: div_mult2_eq)
qed simp

lemma le_nat_le_bytes: "le_nat (le_bytes n x) = x mod 256 ^ n"
proof (induction n arbitrary: x)
  case (Suc n)
  have "x mod 256 ^ Suc n = x mod 256 + 256 * (x div 256 mod 256 ^ n)"
    by (simp add: mod_mult2_eq)
  then show ?case using Suc.IH by simp
qed simp

lemma le_nat_bound: "le_nat bs < 256 ^ length bs"
proof (induction bs)
  case (Cons b bs)
  have "unat b < 256" using unsigned_less [where w = b] by simp
  with Cons.IH show ?case by simp
qed simp

lemma le_nat_append: "le_nat (as @ bs) = le_nat as + 256 ^ length as * le_nat bs"
  by (induction as) (simp_all add: algebra_simps)

lemma le_bytes_le_nat: "le_bytes (length bs) (le_nat bs) = bs"
proof (induction bs)
  case (Cons b bs)
  have "unat b < 256" using unsigned_less [where w = b] by simp
  then have "(unat b + 256 * le_nat bs) mod 256 = unat b"
    and "(unat b + 256 * le_nat bs) div 256 = le_nat bs" by simp_all
  with Cons.IH show ?case by simp
qed simp

lemma le_nat_zeros [simp]: "le_nat (replicate n 0) = 0"
  by (induction n) auto

end
