(* ===== verification/Storage.thy ===== *)
theory Storage
  imports Prelude
begin

text \<open>
  The abstract class \<open>StorageDeviceBase\<close> of \<open>include/device/Storage.h\<close>. Its virtual table is a
  record of functions on the device's own state \<open>'d\<close>; a caller that holds a
  \<open>StorageDeviceBase *\<close> takes such a record. A read gives the status and the bytes it put into
  the buffer, a write takes the bytes of the buffer.

  The locale \<open>sector_device\<close> is the contract of a device with transfers of a bounded size that writes
  whole units: below its capacity \<open>cap\<close>, nonempty reads, and writes on a boundary of \<open>unit\<close> bytes, of
  at most \<open>lim\<close> bytes succeed and behave as on an array of bytes (the abstraction \<open>bytes\<close>), as long as
  the device keeps its own invariant \<open>good\<close>. A \<open>transfer_device\<close> writes single bytes, and
  \<open>storage_device\<close> extends it to what a file system needs.
\<close>

record 'd storage =
  sread :: "nat \<Rightarrow> nat \<Rightarrow> 'd \<Rightarrow> ((int \<times> byte list) \<times> 'd) option"
  swrite :: "byte list \<Rightarrow> nat \<Rightarrow> 'd \<Rightarrow> (int \<times> 'd) option"
  sclear :: "nat \<Rightarrow> nat \<Rightarrow> 'd \<Rightarrow> (int \<times> 'd) option"

text \<open>A sequence of requests, served by a device and by an array of bytes.\<close>

datatype request = Get nat nat | Put nat "byte list"

fun serve :: "'d storage \<Rightarrow> request list \<Rightarrow> 'd \<Rightarrow> ((int \<times> byte list) list \<times> 'd) option" where
  "serve ops [] d = Some ([], d)"
| "serve ops (Get off n # rs) d = do {
     (r, d) \<leftarrow> sread ops n off d;
     (out, d) \<leftarrow> serve ops rs d;
     Some (r # out, d)
   }"
| "serve ops (Put off bs # rs) d = do {
     (st, d) \<leftarrow> swrite ops bs off d;
     (out, d) \<leftarrow> serve ops rs d;
     Some ((st, []) # out, d)
   }"

fun array_serve :: "request list \<Rightarrow> (nat \<Rightarrow> byte) \<Rightarrow> (int \<times> byte list) list" where
  "array_serve [] a = []"
| "array_serve (Get off n # rs) a = (0, rd a off n) # array_serve rs a"
| "array_serve (Put off bs # rs) a = (0, []) # array_serve rs (upd a off bs)"

definition request_ok :: "nat \<Rightarrow> nat \<Rightarrow> request \<Rightarrow> bool" where
  "request_ok cap lim r = (case r of
     Get off n \<Rightarrow> 0 < n \<and> n \<le> lim \<and> off + n \<le> cap
   | Put off bs \<Rightarrow> bs \<noteq> [] \<and> length bs \<le> lim \<and> off + length bs \<le> cap)"

definition aligned :: "nat \<Rightarrow> request \<Rightarrow> bool" where
  "aligned unit r = (case r of Get off n \<Rightarrow> True | Put off bs \<Rightarrow> unit dvd off \<and> unit dvd length bs)"

lemma aligned_1 [simp]: "aligned (Suc 0) r"
  by (simp add: aligned_def split: request.split)

locale sector_device =
  fixes ops :: "'d storage"
    and bytes :: "'d \<Rightarrow> nat \<Rightarrow> byte"
    and good :: "'d \<Rightarrow> bool"
    and cap :: nat
    and lim :: nat
    and unit :: nat
  assumes transfer_read: "good d \<Longrightarrow> 0 < n \<Longrightarrow> n \<le> lim \<Longrightarrow> off + n \<le> cap \<Longrightarrow>
      wp (sread ops n off d) (\<lambda>r d'. r = (0, rd (bytes d) off n) \<and> good d' \<and> bytes d' = bytes d)"
    and transfer_write: "good d \<Longrightarrow> bs \<noteq> [] \<Longrightarrow> length bs \<le> lim \<Longrightarrow> off + length bs \<le> cap \<Longrightarrow>
      unit dvd off \<Longrightarrow> unit dvd length bs \<Longrightarrow>
      wp (swrite ops bs off d) (\<lambda>st d'. st = 0 \<and> good d' \<and> bytes d' = upd (bytes d) off bs)"
begin

text \<open>What is written is what is read back, and nothing else changes.\<close>

lemma write_read:
  assumes "good d" and "bs \<noteq> []" and "length bs \<le> lim" and "off + length bs \<le> cap"
    and "unit dvd off" and "unit dvd length bs"
  shows "wp (do { (st, d) \<leftarrow> swrite ops bs off d; sread ops (length bs) off d })
           (\<lambda>r d'. r = (0, bs) \<and> good d')"
  using transfer_write [OF assms] assms
  by (auto elim!: wp_mono intro: wp_mono [OF transfer_read])

lemma write_frame:
  assumes "good d" and "bs \<noteq> []" and "length bs \<le> lim" and "off + length bs \<le> cap"
    and "unit dvd off" and "unit dvd length bs"
    and "0 < n" and "n \<le> lim" and "k + n \<le> cap" and "k + n \<le> off \<or> off + length bs \<le> k"
  shows "wp (do { (st, d) \<leftarrow> swrite ops bs off d; sread ops n k d })
           (\<lambda>r d'. r = (0, rd (bytes d) k n) \<and> good d')"
  using transfer_write [OF assms(1-6)] assms
  by (auto elim!: wp_mono intro!: wp_mono [OF transfer_read] simp: rd_upd_disjoint)

lemma serve_aligned:
  "good d \<Longrightarrow> list_all (\<lambda>r. request_ok cap lim r \<and> aligned unit r) rs \<Longrightarrow>
   wp (serve ops rs d) (\<lambda>out d'. out = array_serve rs (bytes d) \<and> good d')"
proof (induction rs arbitrary: d)
  case (Cons r rs)
  have IH: "good d' \<Longrightarrow> wp (serve ops rs d') (\<lambda>out d''. out = array_serve rs (bytes d') \<and> good d'')" for d'
    using Cons by simp
  show ?case
  proof (cases r)
    case (Get off n)
    then show ?thesis using Cons.prems
      by (auto simp: request_ok_def intro!: wp_mono [OF transfer_read] wp_mono [OF IH])
  next
    case (Put off bs)
    then show ?thesis using Cons.prems
      by (auto simp: request_ok_def aligned_def intro!: wp_mono [OF transfer_write] wp_mono [OF IH])
  qed
qed simp

end

locale transfer_device = sector_device ops bytes good cap lim 1
  for ops :: "'d storage" and bytes :: "'d \<Rightarrow> nat \<Rightarrow> byte" and good :: "'d \<Rightarrow> bool" and cap :: nat and lim :: nat
begin

lemma serve_ok:
  "good d \<Longrightarrow> list_all (request_ok cap lim) rs \<Longrightarrow>
   wp (serve ops rs d) (\<lambda>out d'. out = array_serve rs (bytes d) \<and> good d')"
  by (rule serve_aligned) (simp_all add: list_all_iff)

end

text \<open>A file system asks for transfers of any size, and that clearing a range leaves the rest alone.\<close>

locale storage_device = transfer_device ops bytes good cap cap
  for ops :: "'d storage" and bytes :: "'d \<Rightarrow> nat \<Rightarrow> byte" and good :: "'d \<Rightarrow> bool" and cap :: nat +
  assumes cap_addressable: "cap \<le> 2 ^ 64"
    and clear_law: "good d \<Longrightarrow> 0 < n \<Longrightarrow> off + n \<le> cap \<Longrightarrow>
      wp (sclear ops off n d) (\<lambda>st d'. st = 0 \<and> good d' \<and>
        (\<forall>i. i < off \<or> off + n \<le> i \<longrightarrow> bytes d' i = bytes d i))"
begin

lemma read_law: "good d \<Longrightarrow> 0 < n \<Longrightarrow> off + n \<le> cap \<Longrightarrow>
    wp (sread ops n off d) (\<lambda>r d'. r = (0, rd (bytes d) off n) \<and> good d' \<and> bytes d' = bytes d)"
  by (rule transfer_read) simp_all

lemma write_law: "good d \<Longrightarrow> bs \<noteq> [] \<Longrightarrow> off + length bs \<le> cap \<Longrightarrow>
    wp (swrite ops bs off d) (\<lambda>st d'. st = 0 \<and> good d' \<and> bytes d' = upd (bytes d) off bs)"
  by (rule transfer_write) simp_all

end

end
