(* ===== verification/Cache.thy ===== *)
theory Cache
  imports Prelude "HOL-Library.AList"
begin

text \<open>
  The least-recently-used cache of \<open>include/Cache.h\<close> (class \<open>Cache\<close>, used as \<open>TreeCache\<close>).
  \<open>cmap\<close> is the \<open>std::map\<close>, an association list without repeated keys; \<open>clist\<close> is the
  \<open>std::list\<close> of map iterators, the most recently used first, an iterator being its key. The
  list iterator that each map entry keeps (cast to \<open>void *\<close>) is the place of the key in
  \<open>clist\<close>, which is unique because the invariant keeps \<open>clist\<close> free of repetitions.
\<close>

record ('k, 'v) cache =
  maxSize :: nat
  cmap :: "('k \<times> 'v) list"
  clist :: "'k list"

text \<open>The constructor asserts \<open>max_size != 0\<close>.\<close>

definition new_cache :: "nat \<Rightarrow> ('k, 'v) cache option" where
  "new_cache max_size =
     (if max_size \<noteq> 0 then Some \<lparr>maxSize = max_size, cmap = [], clist = []\<rparr> else None)"

text \<open>\<open>list.back()\<close> of an empty list is undefined.\<close>

function ensureSpace :: "nat \<Rightarrow> ('k, 'v) cache \<Rightarrow> (unit \<times> ('k, 'v) cache) option" where
  "ensureSpace cnt c =
     (if maxSize c < length (cmap c) + cnt then
        (if clist c = [] then None
         else ensureSpace cnt (c\<lparr>cmap := AList.delete (last (clist c)) (cmap c), clist := butlast (clist c)\<rparr>))
      else Some ((), c))"
  by pat_completeness auto
termination
  by (relation "measure (\<lambda>(cnt, c). length (clist c))") auto

declare ensureSpace.simps [simp del]

definition moveFront :: "'k \<Rightarrow> ('k, 'v) cache \<Rightarrow> ('k, 'v) cache" where
  "moveFront key c = c\<lparr>clist := key # remove1 key (clist c)\<rparr>"

text \<open>\<open>emplace\<close>; the bool of the returned pair says that the entry is new.\<close>

definition emplace :: "'k \<Rightarrow> 'v \<Rightarrow> ('k, 'v) cache \<Rightarrow> (bool \<times> ('k, 'v) cache) option" where
  "emplace key val c =
     (if map_of (cmap c) key \<noteq> None then
        (let c = moveFront key c in Some (False, c\<lparr>cmap := AList.update key val (cmap c)\<rparr>))
      else do {
        (_, c) \<leftarrow> ensureSpace 1 c;
        let c = c\<lparr>cmap := AList.update key val (cmap c)\<rparr>;
        Some (True, c\<lparr>clist := key # clist c\<rparr>)
      })"

text \<open>\<open>at\<close> asserts that the key is present.\<close>

definition cache_at :: "'k \<Rightarrow> ('k, 'v) cache \<Rightarrow> ('v \<times> ('k, 'v) cache) option" where
  "cache_at key c = (case map_of (cmap c) key of None \<Rightarrow> None | Some v \<Rightarrow> Some (v, moveFront key c))"

text \<open>
  \<open>operator[]\<close>; \<open>fresh\<close> is the value-initialised \<open>V()\<close>. The reference it returns is used through
  \<open>cache_ref\<close> (reading) and \<open>cache_set\<close> (assigning), which leave the order alone.
\<close>

definition cache_index :: "'v \<Rightarrow> 'k \<Rightarrow> ('k, 'v) cache \<Rightarrow> (bool \<times> ('k, 'v) cache) option" where
  "cache_index fresh key c =
     (if map_of (cmap c) key \<noteq> None then Some (False, moveFront key c) else emplace key fresh c)"

definition cache_ref :: "'k \<Rightarrow> ('k, 'v) cache \<Rightarrow> 'v" where
  "cache_ref key c = the (map_of (cmap c) key)"

definition cache_set :: "'k \<Rightarrow> 'v \<Rightarrow> ('k, 'v) cache \<Rightarrow> ('k, 'v) cache" where
  "cache_set key v c = c\<lparr>cmap := AList.update key v (cmap c)\<rparr>"

text \<open>
  \<open>erase\<close>, which nothing calls: as it stands it hands a \<open>void *\<close> to \<open>list.erase\<close>, so that a call would not
  compile. This is what it says: the key leaves the list and the map, an absent key changes nothing.
\<close>

definition cache_erase :: "'k \<Rightarrow> ('k, 'v) cache \<Rightarrow> ('k, 'v) cache" where
  "cache_erase key c =
     (if map_of (cmap c) key = None then c
      else c\<lparr>clist := remove1 key (clist c), cmap := AList.delete key (cmap c)\<rparr>)"


section \<open>Invariant\<close>

definition cache_inv :: "('k, 'v) cache \<Rightarrow> bool" where
  "cache_inv c \<longleftrightarrow>
     0 < maxSize c \<and> distinct (map fst (cmap c)) \<and> distinct (clist c) \<and>
     set (clist c) = fst ` set (cmap c) \<and> length (cmap c) \<le> maxSize c"

abbreviation cache_lookup :: "('k, 'v) cache \<Rightarrow> 'k \<rightharpoonup> 'v" where
  "cache_lookup c \<equiv> map_of (cmap c)"

lemma cache_inv_lengths: "cache_inv c \<Longrightarrow> length (cmap c) = length (clist c)"
  unfolding cache_inv_def by (metis distinct_card length_map list.set_map)

lemma cache_inv_mem: "cache_inv c \<Longrightarrow> k \<in> set (clist c) \<longleftrightarrow> cache_lookup c k \<noteq> None"
  by (auto simp: cache_inv_def map_of_eq_None_iff)

lemma new_cache_inv: "new_cache n = Some c \<Longrightarrow> cache_inv c \<and> cache_lookup c = Map.empty"
  by (auto simp: new_cache_def cache_inv_def split: if_splits)

lemma moveFront_lookup [simp]: "cmap (moveFront k c) = cmap c"
  by (simp add: moveFront_def)

lemma moveFront_maxSize [simp]: "maxSize (moveFront k c) = maxSize c"
  by (simp add: moveFront_def)

lemma moveFront_clist [simp]: "clist (moveFront k c) = k # remove1 k (clist c)"
  by (simp add: moveFront_def)

lemma moveFront_inv: "cache_inv c \<Longrightarrow> cache_lookup c k \<noteq> None \<Longrightarrow> cache_inv (moveFront k c)"
  by (auto simp: cache_inv_def map_of_eq_None_iff)

lemma cache_erase_inv: "cache_inv c \<Longrightarrow> cache_inv (cache_erase k c)"
  by (auto simp: cache_inv_def cache_erase_def AList.distinct_delete delete_conv' simp flip: dom_map_of_conv_image_fst
    intro: le_trans [OF AList.length_delete_le])

lemma cache_erase_lookup: "cache_lookup (cache_erase k c) = (cache_lookup c)(k := None)"
  by (auto simp: cache_erase_def delete_conv')

lemma length_update_present:
  "k \<in> fst ` set al \<Longrightarrow> length (AList.update k v al) = length al"
  by (induction al) auto

lemma length_update_absent:
  "k \<notin> fst ` set al \<Longrightarrow> length (AList.update k v al) = Suc (length al)"
  by (induction al) auto

lemma cache_set_lookup [simp]: "cache_lookup (cache_set k v c) = (cache_lookup c)(k \<mapsto> v)"
  by (simp add: cache_set_def update_conv')

lemma cache_set_fields [simp]:
  "clist (cache_set k v c) = clist c" "maxSize (cache_set k v c) = maxSize c"
  by (simp_all add: cache_set_def)

lemma cache_set_inv: "cache_inv c \<Longrightarrow> cache_lookup c k \<noteq> None \<Longrightarrow> cache_inv (cache_set k v c)"
proof -
  assume c: "cache_inv c" and "cache_lookup c k \<noteq> None"
  then have k: "k \<in> fst ` set (cmap c)" by (simp add: map_of_eq_None_iff)
  then show ?thesis
    using c unfolding cache_set_def cache_inv_def
    by (simp add: dom_update length_update_present distinct_update insert_absorb)
qed

lemma dom_delete: "fst ` set (AList.delete k al) = fst ` set al - {k}"
proof -
  have "set (map fst (AList.delete k al)) = set (removeAll k (map fst al))"
    by (simp only: delete_keys)
  then show ?thesis by (simp only: set_removeAll list.set_map)
qed

lemma length_delete_present:
  assumes "distinct (map fst al)" and "k \<in> fst ` set al"
  shows "length (AList.delete k al) = length al - 1"
proof -
  have "length (AList.delete k al) = length (removeAll k (map fst al))"
    by (metis delete_keys length_map)
  also have "\<dots> = length (map fst al) - 1"
    using assms by (metis distinct_remove1_removeAll length_remove1 list.set_map)
  finally show ?thesis by simp
qed

text \<open>Dropping the entry at the back of the list, as one round of \<open>ensureSpace\<close> does.\<close>

definition evict :: "('k, 'v) cache \<Rightarrow> ('k, 'v) cache" where
  "evict c = c\<lparr>cmap := AList.delete (last (clist c)) (cmap c), clist := butlast (clist c)\<rparr>"

lemma evict_lookup: "cache_lookup (evict c) = (cache_lookup c)(last (clist c) := None)"
  by (simp add: evict_def delete_conv')

lemma evict_fields [simp]: "maxSize (evict c) = maxSize c" "clist (evict c) = butlast (clist c)"
  by (simp_all add: evict_def)

lemma evict_inv:
  assumes "cache_inv c" and "clist c \<noteq> []"
  shows "cache_inv (evict c)" and "length (cmap (evict c)) = length (cmap c) - 1"
proof -
  let ?l = "last (clist c)"
  have l: "?l \<in> fst ` set (cmap c)"
    using assms by (metis cache_inv_def last_in_set)
  have d: "distinct (map fst (cmap c))" using assms by (simp add: cache_inv_def)
  show len: "length (cmap (evict c)) = length (cmap c) - 1"
    using length_delete_present [OF d l] by (simp add: evict_def)
  have split: "clist c = butlast (clist c) @ [?l]" using assms by simp
  then have "distinct (butlast (clist c) @ [?l])" and "set (clist c) = set (butlast (clist c) @ [?l])"
    using assms(1) unfolding cache_inv_def by argo+
  then have b: "distinct (butlast (clist c))" "set (butlast (clist c)) = set (clist c) - {?l}"
    by auto
  then show "cache_inv (evict c)"
    using assms(1) len d unfolding cache_inv_def
    by (auto simp: evict_def distinct_delete dom_delete)
qed


section \<open>Operations\<close>

text \<open>One free place is all \<open>emplace\<close> asks for: at most one entry is dropped.\<close>

lemma ensureSpace_one:
  assumes "cache_inv c"
  shows "ensureSpace 1 c = Some ((), if length (cmap c) < maxSize c then c else evict c)"
proof (cases "length (cmap c) < maxSize c")
  case True
  then show ?thesis by (simp add: ensureSpace.simps)
next
  case False
  with assms have full: "length (cmap c) = maxSize c" and "0 < maxSize c"
    by (auto simp: cache_inv_def)
  then have ne: "clist c \<noteq> []" using cache_inv_lengths [OF assms] by auto
  have "length (cmap (evict c)) + 1 \<le> maxSize (evict c)"
    using evict_inv(2) [OF assms ne] full \<open>0 < maxSize c\<close> by simp
  then have "ensureSpace 1 (evict c) = Some ((), evict c)"
    by (subst ensureSpace.simps) simp
  then show ?thesis
    using full ne by (subst ensureSpace.simps) (simp add: evict_def)
qed

lemma insert_inv:
  assumes "cache_inv c" and "length (cmap c) < maxSize c" and "cache_lookup c k = None"
  shows "cache_inv (c\<lparr>cmap := AList.update k v (cmap c), clist := k # clist c\<rparr>)"
proof -
  have "k \<notin> fst ` set (cmap c)" using assms(3) by (simp add: map_of_eq_None_iff)
  then show ?thesis
    using assms unfolding cache_inv_def
    by (simp add: dom_update length_update_absent distinct_update)
qed

text \<open>The cache before an insertion of a new key: one entry shorter when it was full.\<close>

definition make_room :: "('k, 'v) cache \<Rightarrow> ('k, 'v) cache" where
  "make_room c = (if length (cmap c) < maxSize c then c else evict c)"

lemma make_room_inv:
  assumes "cache_inv c"
  shows "cache_inv (make_room c)" and "length (cmap (make_room c)) < maxSize (make_room c)"
proof -
  have "clist c \<noteq> []" "0 < length (cmap c)" if "\<not> length (cmap c) < maxSize c"
    using that assms cache_inv_lengths [OF assms] by (auto simp: cache_inv_def)
  then show "cache_inv (make_room c)" "length (cmap (make_room c)) < maxSize (make_room c)"
    using assms evict_inv [OF assms] by (auto simp: make_room_def cache_inv_def)
qed

lemma make_room_lookup:
  "cache_lookup (make_room c) =
     (if length (cmap c) < maxSize c then cache_lookup c else (cache_lookup c)(last (clist c) := None))"
  by (simp add: make_room_def evict_lookup)

lemma make_room_fields [simp]: "maxSize (make_room c) = maxSize c"
  by (simp add: make_room_def)

lemma emplace_present:
  "cache_lookup c k \<noteq> None \<Longrightarrow>
   emplace k v c = Some (False, cache_set k v (moveFront k c))"
  by (simp add: emplace_def Let_def cache_set_def)

lemma emplace_absent:
  "cache_inv c \<Longrightarrow> cache_lookup c k = None \<Longrightarrow>
   emplace k v c =
     Some (True, (make_room c)\<lparr>cmap := AList.update k v (cmap (make_room c)), clist := k # clist (make_room c)\<rparr>)"
  by (simp add: emplace_def Let_def ensureSpace_one [unfolded One_nat_def] make_room_def)

lemma emplace_spec:
  assumes "cache_inv c"
  shows "\<exists>c'. emplace k v c = Some (cache_lookup c k = None, c') \<and> cache_inv c' \<and>
           maxSize c' = maxSize c \<and> hd (clist c') = k \<and>
           cache_lookup c' =
             (if cache_lookup c k \<noteq> None then cache_lookup c else cache_lookup (make_room c))(k \<mapsto> v)"
proof (cases "cache_lookup c k = None")
  case True
  then have "cache_lookup (make_room c) k = None" by (simp add: make_room_lookup)
  from insert_inv [OF make_room_inv [OF assms] this] show ?thesis
    using True emplace_absent [OF assms True] by (simp add: update_conv')
next
  case False
  then show ?thesis
    using emplace_present [OF False] cache_set_inv [OF moveFront_inv [OF assms False]] by simp
qed

lemma cache_index_spec:
  assumes "cache_inv c"
  shows "\<exists>c'. cache_index fresh k c = Some (cache_lookup c k = None, c') \<and> cache_inv c' \<and>
           maxSize c' = maxSize c \<and> hd (clist c') = k \<and>
           cache_lookup c' =
             (if cache_lookup c k \<noteq> None then cache_lookup c else (cache_lookup (make_room c))(k \<mapsto> fresh))"
proof (cases "cache_lookup c k = None")
  case True
  then show ?thesis using emplace_spec [OF assms, of k fresh] by (simp add: cache_index_def)
next
  case False
  then show ?thesis using moveFront_inv [OF assms False] by (auto simp: cache_index_def)
qed

lemma cache_at_spec:
  "cache_inv c \<Longrightarrow> cache_at k c =
     (case cache_lookup c k of None \<Rightarrow> None | Some v \<Rightarrow> Some (v, moveFront k c))"
  by (simp add: cache_at_def)

text \<open>
  Below its capacity the cache never forgets: if all keys come from a set no larger than
  \<open>maxSize\<close>, an insertion drops nothing.
\<close>

lemma make_room_none:
  assumes "cache_inv c" and "fst ` set (cmap c) \<subseteq> K" and "finite K" and "card K \<le> maxSize c"
    and "k \<in> K" and "cache_lookup c k = None"
  shows "make_room c = c"
proof -
  have "k \<notin> fst ` set (cmap c)" using assms(6) by (simp add: map_of_eq_None_iff)
  with assms have "fst ` set (cmap c) \<subset> K" by auto
  then have "card (fst ` set (cmap c)) < card K" using assms(3) by (rule psubset_card_mono [rotated])
  moreover have "card (fst ` set (cmap c)) = length (cmap c)"
    using assms(1) unfolding cache_inv_def by (metis distinct_card length_map list.set_map)
  ultimately show ?thesis using assms(4) by (simp add: make_room_def)
qed

section \<open>Properties\<close>

text \<open>C14. Looking a key up through \<open>operator[]\<close> keeps the invariant of the cache (the list names exactly the keys of
  the map, without repetition, and no more than the maximum), puts the key first, keeps a value that is
  there and enters a fresh one otherwise; only the key used longest ago can be lost, and only when the
  cache is full.\<close>

theorem cache_index_keeps:
  assumes "cache_inv c"
  shows "\<exists>c'. cache_index fresh k c = Some (cache_lookup c k = None, c') \<and> cache_inv c' \<and> hd (clist c') = k \<and>
    cache_lookup c' k = Some (case cache_lookup c k of Some v \<Rightarrow> v | None \<Rightarrow> fresh) \<and>
    (\<forall>j. j \<noteq> k \<longrightarrow> cache_lookup c' j =
       (if cache_lookup c k = None \<and> length (cmap c) = maxSize c \<and> j = last (clist c) then None else cache_lookup c j))"
proof -
  obtain c' where c': "cache_index fresh k c = Some (cache_lookup c k = None, c')" "cache_inv c'" "hd (clist c') = k"
    "cache_lookup c' = (if cache_lookup c k \<noteq> None then cache_lookup c else (cache_lookup (make_room c))(k \<mapsto> fresh))"
    using cache_index_spec [OF assms, of fresh k] by blast
  have "length (cmap c) \<le> maxSize c" using assms by (simp add: cache_inv_def)
  then show ?thesis
    using c' by (intro exI [of _ c']) (auto simp: make_room_lookup split: option.splits)
qed

theorem cache_index_keeps_witness:
  "\<exists>c' :: (nat, nat) cache. cache_index 0 2 \<lparr>maxSize = 1, cmap = [(1, 5)], clist = [1]\<rparr> = Some (True, c') \<and>
     cache_lookup c' 2 = Some 0 \<and> cache_lookup c' 1 = None"
  using cache_index_keeps [of "\<lparr>maxSize = 1, cmap = [(1, 5)], clist = [1]\<rparr>" 0 "2 :: nat"]
  by (auto simp: cache_inv_def)

end
