(* ===== verification/AHCI_Device.thy ===== *)
theory AHCI_Device
  imports Storage Cache
begin

text \<open>
  The cached disk of \<open>src/device/AHCIDevice.cpp\<close>, the device behind a partition in AHCI mode.
  \<open>AHCI::Port\<close> drives the disk; its state is the type \<open>'p\<close>, and \<open>port_write\<close>, the call
  \<open>port->write(block, BlockSize, data)\<close> with its status as an integer, is an argument of
  \<open>flush\<close>. Neither \<open>read\<close> nor \<open>write\<close> of the device calls the port.
\<close>

record entry =
  edata :: "byte list"
  flushed :: bool

record 'p ahci_device =
  acache :: "(nat, entry) cache"
  port :: 'p

text \<open>\<open>AHCI::Port::BLOCKSIZE\<close>, and the length \<open>1 << 20 >> 3\<close> of the cache in blocks.\<close>

abbreviation BlockSize :: nat where
  "BlockSize \<equiv> 512"

definition CacheLength :: nat where
  "CacheLength = drop_bit 3 (push_bit 20 1)"

definition fresh_entry :: entry where
  "fresh_entry = \<lparr>edata = replicate BlockSize 0, flushed = False\<rparr>"

definition new_ahci_device :: "'p \<Rightarrow> 'p ahci_device option" where
  "new_ahci_device p = map_option (\<lambda>c. \<lparr>acache = c, port = p\<rparr>) (new_cache CacheLength)"

text \<open>The lookup \<open>cache[block]\<close>, and the entry it refers to.\<close>

definition cache_access :: "nat \<Rightarrow> 'p ahci_device \<Rightarrow> (bool \<times> 'p ahci_device) option" where
  "cache_access block d = do {
     (created, c) \<leftarrow> cache_index fresh_entry block (acache d);
     Some (created, d\<lparr>acache := c\<rparr>)
   }"

definition entry_of :: "nat \<Rightarrow> 'p ahci_device \<Rightarrow> entry" where
  "entry_of block d = cache_ref block (acache d)"

definition set_entry :: "nat \<Rightarrow> entry \<Rightarrow> 'p ahci_device \<Rightarrow> 'p ahci_device" where
  "set_entry block e d = d\<lparr>acache := cache_set block e (acache d)\<rparr>"

text \<open>The effect of \<open>memmove(&entry.data[at], bytes, n)\<close>.\<close>

definition put_data :: "nat \<Rightarrow> byte list \<Rightarrow> entry \<Rightarrow> entry" where
  "put_data at bytes e =
     e\<lparr>edata := take at (edata e) @ bytes @ drop (at + length bytes) (edata e)\<rparr>"

text \<open>
  \<open>readCache\<close>; \<open>read\<close> is this function too. Once \<open>advance\<close> has brought the offset to a block
  boundary the first branch is passed over, so going on with the loop is a call on what is
  left. A size of zero at a block boundary fails \<open>assert(size > 0)\<close>.
\<close>

partial_function (option) readCache ::
  "nat \<Rightarrow> nat \<Rightarrow> 'p ahci_device \<Rightarrow> ((int \<times> byte list) \<times> 'p ahci_device) option" where
  "readCache sz offset d =
     (let rem = offset mod BlockSize; block = offset div BlockSize in
      if rem \<noteq> 0 then do {
        (created, d) \<leftarrow> cache_access block d;
        (status, d) \<leftarrow>
          (if created then do {
             ((status, got), d) \<leftarrow> readCache BlockSize (offset - rem) d;
             Some (status, if status \<noteq> 0 then d
                           else set_entry block ((put_data 0 got (entry_of block d))\<lparr>flushed := True\<rparr>) d)
           } else Some (0, d));
        if status \<noteq> 0 then Some ((status, []), d)
        else
          let affected = min sz (BlockSize - rem);
              bytes = take affected (drop rem (edata (entry_of block d)))
          in if sz - affected = 0 then Some ((0, bytes), d)
             else do {
               ((status, more), d) \<leftarrow> readCache (sz - affected) ((offset + affected) mod 2 ^ 64) d;
               Some ((status, bytes @ more), d)
             }
      }
      else if BlockSize \<le> sz then do {
        (created, d) \<leftarrow> cache_access block d;
        let d = set_entry block ((entry_of block d)\<lparr>flushed := False\<rparr>) d;
        let bytes = edata (entry_of block d);
        if sz - BlockSize = 0 then Some ((0, bytes), d)
        else do {
          ((status, more), d) \<leftarrow> readCache (sz - BlockSize) ((offset + BlockSize) mod 2 ^ 64) d;
          Some ((status, bytes @ more), d)
        }
      }
      else if sz = 0 then None
      else do {
        (created, d) \<leftarrow> cache_access block d;
        (status, d) \<leftarrow>
          (if created then do {
             ((status, got), d) \<leftarrow> readCache sz offset d;
             Some (status, if status \<noteq> 0 then d
                           else set_entry block ((put_data 0 got (entry_of block d))\<lparr>flushed := True\<rparr>) d)
           } else Some (0, d));
        if status \<noteq> 0 then Some ((status, []), d)
        else Some ((0, take sz (edata (entry_of block d))), d)
      })"

text \<open>\<open>writeCache\<close>, which reads through \<open>readCache\<close>; \<open>write\<close> is this function.\<close>

partial_function (option) writeCache ::
  "byte list \<Rightarrow> nat \<Rightarrow> 'p ahci_device \<Rightarrow> (int \<times> 'p ahci_device) option" where
  "writeCache buffer offset d =
     (let rem = offset mod BlockSize; block = offset div BlockSize; sz = length buffer in
      if rem \<noteq> 0 then do {
        (created, d) \<leftarrow> cache_access block d;
        (status, d) \<leftarrow>
          (if created then do {
             ((status, got), d) \<leftarrow> readCache BlockSize (offset - rem) d;
             Some (status, if status \<noteq> 0 then d else set_entry block (put_data 0 got (entry_of block d)) d)
           } else Some (0, set_entry block ((entry_of block d)\<lparr>flushed := False\<rparr>) d));
        if status \<noteq> 0 then Some (status, d)
        else
          let affected = min sz (BlockSize - rem);
              d = set_entry block (put_data rem (take affected buffer) (entry_of block d)) d
          in if sz - affected = 0 then Some (0, d)
             else writeCache (drop affected buffer) ((offset + affected) mod 2 ^ 64) d
      }
      else if BlockSize \<le> sz then do {
        (created, d) \<leftarrow> cache_access block d;
        let d = set_entry block ((entry_of block d)\<lparr>flushed := False\<rparr>) d;
        let d = set_entry block (put_data 0 (take BlockSize buffer) (entry_of block d)) d;
        if sz - BlockSize = 0 then Some (0, d)
        else writeCache (drop BlockSize buffer) ((offset + BlockSize) mod 2 ^ 64) d
      }
      else if sz = 0 then None
      else do {
        (created, d) \<leftarrow> cache_access block d;
        (status, d) \<leftarrow>
          (if created then do {
             ((status, got), d) \<leftarrow> readCache sz offset d;
             Some (status, if status \<noteq> 0 then d else set_entry block (put_data 0 got (entry_of block d)) d)
           } else Some (0, set_entry block ((entry_of block d)\<lparr>flushed := False\<rparr>) d));
        if status \<noteq> 0 then Some (status, d)
        else Some (0, set_entry block (put_data 0 buffer (entry_of block d)) d)
      })"

text \<open>
  \<open>clear\<close> writes a stack buffer named \<open>zeroes\<close> that nothing initialises: \<open>junk\<close> is what the
  stack happened to hold (\<open>BlockSize\<close> bytes).
\<close>

partial_function (option) clearDevice ::
  "byte list \<Rightarrow> nat \<Rightarrow> nat \<Rightarrow> 'p ahci_device \<Rightarrow> (int \<times> 'p ahci_device) option" where
  "clearDevice junk offset sz d =
     (if BlockSize < sz then do {
        (status, d) \<leftarrow> writeCache junk offset d;
        if status \<noteq> 0 then Some (status, d)
        else clearDevice junk ((offset + BlockSize) mod 2 ^ 64) (sz - BlockSize) d
      }
      else writeCache (take sz junk) offset d)"

text \<open>
  \<open>flush\<close> of one entry: \<open>if (!status)\<close> takes a status of zero, which is
  \<open>AccessStatus::Success\<close>, for the failure; \<open>None\<close> is the call of \<open>Kernel::perish\<close> that follows, which stops the
  machine.
\<close>

definition flush_entry ::
  "(nat \<Rightarrow> byte list \<Rightarrow> 'p \<Rightarrow> int \<times> 'p) \<Rightarrow> nat \<Rightarrow> 'p ahci_device \<Rightarrow> (unit \<times> 'p ahci_device) option" where
  "flush_entry port_write block d =
     (let e = entry_of block d in
      if flushed e then Some ((), d)
      else let (status, p) = port_write block (edata e) (port d) in
        if status = 0 then None
        else Some ((), set_entry block (e\<lparr>flushed := True\<rparr>) (d\<lparr>port := p\<rparr>)))"

primrec flush_blocks ::
  "(nat \<Rightarrow> byte list \<Rightarrow> 'p \<Rightarrow> int \<times> 'p) \<Rightarrow> nat list \<Rightarrow> 'p ahci_device \<Rightarrow> (unit \<times> 'p ahci_device) option" where
  "flush_blocks port_write [] d = Some ((), d)"
| "flush_blocks port_write (block # blocks) d = do {
     (_, d) \<leftarrow> flush_entry port_write block d;
     flush_blocks port_write blocks d
   }"

text \<open>The loop over the \<open>std::map\<close> goes through the blocks in increasing order.\<close>

definition flush ::
  "(nat \<Rightarrow> byte list \<Rightarrow> 'p \<Rightarrow> int \<times> 'p) \<Rightarrow> 'p ahci_device \<Rightarrow> (unit \<times> 'p ahci_device) option" where
  "flush port_write d = flush_blocks port_write (sort (map fst (cmap (acache d)))) d"

text \<open>The virtual table of the class; \<open>junk\<close> are the bytes on the stack where \<open>zeroes\<close> lies.\<close>

definition ahci_ops :: "(nat \<Rightarrow> byte) \<Rightarrow> 'p ahci_device storage" where
  "ahci_ops junk =
     \<lparr>sread = readCache, swrite = writeCache, sclear = clearDevice (map junk [0..<BlockSize])\<rparr>"


section \<open>The device as an array of bytes\<close>

text \<open>
  Below \<open>ahci_cap\<close> every block has a place in the cache, so the device is a memory: a block that
  was never touched reads as zeros.
\<close>

abbreviation entries :: "'p ahci_device \<Rightarrow> nat \<rightharpoonup> entry" where
  "entries d \<equiv> cache_lookup (acache d)"

definition ahci_cap :: nat where
  "ahci_cap = CacheLength * BlockSize"

definition ahci_inv :: "'p ahci_device \<Rightarrow> bool" where
  "ahci_inv d \<longleftrightarrow>
     cache_inv (acache d) \<and> maxSize (acache d) = CacheLength \<and>
     (\<forall>block e. entries d block = Some e \<longrightarrow> block < CacheLength \<and> length (edata e) = BlockSize)"

definition ahci_abs :: "'p ahci_device \<Rightarrow> nat \<Rightarrow> byte" where
  "ahci_abs d i =
     (case entries d (i div BlockSize) of None \<Rightarrow> 0 | Some e \<Rightarrow> edata e ! (i mod BlockSize))"

lemma CacheLength_val: "CacheLength = 131072"
  by (simp add: CacheLength_def push_bit_eq_mult drop_bit_eq_div)

lemma ahci_cap_val: "ahci_cap = 67108864"
  by (simp add: ahci_cap_def CacheLength_val)

lemma length_fresh_entry [simp]: "length (edata fresh_entry) = BlockSize"
  by (simp add: fresh_entry_def)

lemma new_ahci_device_spec:
  "new_ahci_device p = Some d \<Longrightarrow> ahci_inv d \<and> ahci_abs d = (\<lambda>_. 0) \<and> port d = p"
proof -
  assume "new_ahci_device p = Some d"
  then obtain c where c: "new_cache CacheLength = Some c" and d: "d = \<lparr>acache = c, port = p\<rparr>"
    by (auto simp: new_ahci_device_def)
  from c have "maxSize c = CacheLength" by (auto simp: new_cache_def split: if_splits)
  with new_cache_inv [OF c] d show ?thesis by (simp add: ahci_inv_def ahci_abs_def fun_eq_iff)
qed

text \<open>What a lookup does to the device: the entry is there afterwards, and the bytes are the same.\<close>

definition entry_at :: "'p ahci_device \<Rightarrow> nat \<Rightarrow> entry" where
  "entry_at d block = (case entries d block of None \<Rightarrow> fresh_entry | Some e \<Rightarrow> e)"

lemma ahci_abs_entry_at: "ahci_abs d i = edata (entry_at d (i div BlockSize)) ! (i mod BlockSize)"
  by (auto simp: ahci_abs_def entry_at_def fresh_entry_def split: option.splits)

lemma length_entry_at: "ahci_inv d \<Longrightarrow> length (edata (entry_at d block)) = BlockSize"
  by (auto simp: ahci_inv_def entry_at_def split: option.splits)

lemma cache_access_spec:
  assumes "ahci_inv d" and "block < CacheLength"
  shows "wp (cache_access block d) (\<lambda>created d'. created = (entries d block = None) \<and> ahci_inv d' \<and>
           port d' = port d \<and> entries d' = (entries d)(block \<mapsto> entry_at d block))"
proof -
  let ?c = "acache d"
  have c: "cache_inv ?c" using assms by (simp add: ahci_inv_def)
  obtain c' where c': "cache_index fresh_entry block ?c = Some (cache_lookup ?c block = None, c')"
    "cache_inv c'" "maxSize c' = maxSize ?c"
    "cache_lookup c' = (if cache_lookup ?c block \<noteq> None then cache_lookup ?c
       else (cache_lookup (make_room ?c))(block \<mapsto> fresh_entry))"
    using cache_index_spec [OF c, of fresh_entry block] by blast
  have "make_room ?c = ?c" if "cache_lookup ?c block = None"
  proof (rule make_room_none [OF c, of "{..<CacheLength}"])
    show "fst ` set (cmap ?c) \<subseteq> {..<CacheLength}"
      using assms(1) by (auto simp: ahci_inv_def simp flip: dom_map_of_conv_image_fst)
    show "card {..<CacheLength} \<le> maxSize ?c"
      using assms(1) by (simp add: ahci_inv_def)
  qed (use that assms(2) in auto)
  with c' have l: "cache_lookup c' = (cache_lookup ?c)(block \<mapsto> entry_at d block)"
    by (auto simp: entry_at_def split: option.splits)
  then have "ahci_inv (d\<lparr>acache := c'\<rparr>)"
    using assms c' length_entry_at [OF assms(1)] by (auto simp: ahci_inv_def)
  then show ?thesis using c'(1) l by (auto simp: cache_access_def)
qed

lemma entry_of_entries: "entries d block = Some e \<Longrightarrow> entry_of block d = e"
  by (simp add: entry_of_def cache_ref_def)

lemma set_entry_simps [simp]:
  "entries (set_entry block e d) = (entries d)(block \<mapsto> e)"
  "port (set_entry block e d) = port d"
  "entry_of block (set_entry block e d) = e"
  by (simp_all add: set_entry_def entry_of_def cache_ref_def)

lemma set_entry_inv:
  "ahci_inv d \<Longrightarrow> entries d block = Some e0 \<Longrightarrow> length (edata e) = BlockSize \<Longrightarrow>
   ahci_inv (set_entry block e d)"
  by (auto simp: ahci_inv_def set_entry_def intro: cache_set_inv)

lemma edata_put_data [simp]:
  "edata (put_data at bytes e) = take at (edata e) @ bytes @ drop (at + length bytes) (edata e)"
  by (simp add: put_data_def)

lemma abs_cong:
  assumes "\<And>b. edata (entry_at d' b) = edata (entry_at d b)"
  shows "ahci_abs d' = ahci_abs d"
  by (rule ext) (simp add: ahci_abs_entry_at assms)

text \<open>The bytes of an entry are those of its block.\<close>

lemma entry_bytes:
  assumes "ahci_inv d" and "k + n \<le> BlockSize"
  shows "take n (drop k (edata (entry_at d block))) = rd (ahci_abs d) (block * BlockSize + k) n"
proof (rule nth_equalityI)
  fix i assume "i < length (take n (drop k (edata (entry_at d block))))"
  then have i: "i < n" by simp
  have "(block * BlockSize + k + i) div BlockSize = block" and "(block * BlockSize + k + i) mod BlockSize = k + i"
    using i assms(2) by (simp_all add: add.assoc)
  then show "take n (drop k (edata (entry_at d block))) ! i = rd (ahci_abs d) (block * BlockSize + k) n ! i"
    using i assms length_entry_at [OF assms(1), of block] by (simp add: ahci_abs_entry_at)
qed (use assms length_entry_at [OF assms(1), of block] in simp)


section \<open>Reading\<close>

text \<open>
  The relation between the device before and after a read: its bytes and its port are the same.
\<close>

definition ahci_same :: "'p ahci_device \<Rightarrow> 'p ahci_device \<Rightarrow> bool" where
  "ahci_same d d' \<longleftrightarrow> ahci_inv d' \<and> ahci_abs d' = ahci_abs d \<and> port d' = port d"

lemma entry_at_Some: "entries d block = Some e \<Longrightarrow> entry_at d block = e"
  by (simp add: entry_at_def)

lemma entry_at_upd: "entries d' = (entries d)(block \<mapsto> e) \<Longrightarrow> entry_at d' b = (if b = block then e else entry_at d b)"
  by (simp add: entry_at_def)

lemma same_upd:
  assumes "ahci_inv d'" "port d' = port d" "entries d' = (entries d)(block \<mapsto> e)"
    and "edata e = edata (entry_at d block)"
  shows "ahci_same d d'"
  using assms unfolding ahci_same_def
  by (auto intro!: abs_cong simp: entry_at_upd [OF assms(3)])

lemma ahci_same_trans: "ahci_same d d' \<Longrightarrow> ahci_same d' d'' \<Longrightarrow> ahci_same d d''"
  by (simp add: ahci_same_def)

text \<open>The two reads that fill an entry find the block present, and copy the entry to itself.\<close>

lemma read_present_block:
  assumes "ahci_inv d" and "block < CacheLength" and "entries d block = Some e"
  shows "wp (readCache BlockSize (block * BlockSize) d) (\<lambda>r d'. r = (0, edata e) \<and> ahci_inv d' \<and>
           port d' = port d \<and> entries d' = (entries d)(block \<mapsto> e\<lparr>flushed := False\<rparr>))"
proof -
  have len: "length (edata e) = BlockSize"
    using assms by (simp add: ahci_inv_def)
  show ?thesis
    by (subst readCache.simps)
      (use cache_access_spec [OF assms(1,2)] assms(3) len in
        \<open>auto elim!: wp_mono simp: Let_def entry_of_entries entry_at_Some intro!: set_entry_inv\<close>)
qed

lemma read_present_tail:
  assumes "ahci_inv d" and "block < CacheLength" and "entries d block = Some e" and "0 < n" "n < BlockSize"
  shows "wp (readCache n (block * BlockSize) d) (\<lambda>r d'. r = (0, take n (edata e)) \<and> ahci_inv d' \<and>
           port d' = port d \<and> entries d' = entries d)"
  by (subst readCache.simps)
    (use cache_access_spec [OF assms(1,2)] assms in
      \<open>auto elim!: wp_mono simp: Let_def entry_of_entries entry_at_Some\<close>)


text \<open>A read of \<open>n\<close> bytes of a present block, whichever branch it takes.\<close>

lemma read_present:
  assumes "ahci_inv d" and "block < CacheLength" and "entries d block = Some e" and "0 < n" "n \<le> BlockSize"
  shows "wp (readCache n (block * BlockSize) d) (\<lambda>r d'. r = (0, take n (edata e)) \<and> ahci_inv d' \<and>
           port d' = port d \<and> (\<exists>e'. entries d' = (entries d)(block \<mapsto> e') \<and> edata e' = edata e))"
proof (cases "n = BlockSize")
  case True
  have "length (edata e) = BlockSize" using assms by (simp add: ahci_inv_def)
  then show ?thesis
    using read_present_block [OF assms(1-3)] True by (auto elim!: wp_mono)
next
  case False
  have "entries d = (entries d)(block \<mapsto> e)" using assms(3) by auto
  moreover have "n < BlockSize" using False assms(5) by simp
  ultimately show ?thesis
    using read_present_tail [OF assms(1-4)] by (auto elim!: wp_mono)
qed

text \<open>
  The common start of reading and writing a block: look it up and, when it is new, fill it
  through a read. \<open>F\<close> and \<open>G\<close> are what the two functions do with the \<open>flushed\<close> flag.
\<close>

lemma access_fill:
  assumes d: "ahci_inv d" and b: "block < CacheLength" and s: "start = block * BlockSize" and n: "0 < n" "n \<le> BlockSize"
    and F: "\<And>e. edata (F e) = edata e"
    and G: "\<And>d e. ahci_inv d \<Longrightarrow> entries d block = Some e \<Longrightarrow>
        ahci_inv (G d) \<and> port (G d) = port d \<and> (\<exists>e'. entries (G d) = (entries d)(block \<mapsto> e') \<and> edata e' = edata e)"
    and Q: "\<And>d' e. ahci_same d d' \<Longrightarrow> entries d' block = Some e \<Longrightarrow> edata e = edata (entry_at d block) \<Longrightarrow> Q 0 d'"
  shows "wp (cache_access block d) (\<lambda>created d1. wp
           (if created then do {
              ((status, got), d) \<leftarrow> readCache n start d1;
              Some (status, if status \<noteq> (0::int) then d
                            else set_entry block (F (put_data 0 got (entry_of block d))) d)
            } else Some (0, G d1)) Q)"
proof (rule wp_mono [OF cache_access_spec [OF d b]], elim conjE)
  fix created d1
  let ?E = "entry_at d block"
  assume created: "created = (entries d block = None)" and d1: "ahci_inv d1"
    and port: "port d1 = port d" and ent: "entries d1 = (entries d)(block \<mapsto> ?E)"
  then have E: "entries d1 block = Some ?E" by simp
  show "wp (if created then do {
              ((status, got), d) \<leftarrow> readCache n start d1;
              Some (status, if status \<noteq> (0::int) then d
                            else set_entry block (F (put_data 0 got (entry_of block d))) d)
            } else Some (0, G d1)) Q"
  proof (cases created)
    case False
    obtain e' where "ahci_inv (G d1)" "port (G d1) = port d"
      "entries (G d1) = (entries d1)(block \<mapsto> e')" "edata e' = edata ?E"
      using G [OF d1 E] port by auto
    then have "Q 0 (G d1)"
      using ent by (intro Q [of "G d1" e']) (auto intro!: same_upd)
    with False show ?thesis by simp
  next
    case True
    have "Q (fst r) (if fst r \<noteq> 0 then d2 else set_entry block (F (put_data 0 (snd r) (entry_of block d2))) d2)"
      if r: "r = (0, take n (edata ?E))" and d2: "ahci_inv d2" "port d2 = port d1"
        "entries d2 = (entries d1)(block \<mapsto> e')" "edata e' = edata ?E" for r d2 e'
    proof -
      let ?e = "F (put_data 0 (take n (edata ?E)) e')"
      have len: "length (edata ?E) = BlockSize" by (rule length_entry_at [OF d])
      then have e: "edata ?e = edata ?E" using d2 n by (simp add: F)
      have "ahci_same d (set_entry block ?e d2)"
        using d2 e len ent port by (intro same_upd [of _ _ block ?e]) (auto intro!: set_entry_inv)
      then have "Q 0 (set_entry block ?e d2)" by (rule Q [where e = ?e]) (use e in simp_all)
      moreover have "entry_of block d2 = e'" using d2 by (simp add: entry_of_entries)
      ultimately show ?thesis using r by simp
    qed
    then show ?thesis
      using True unfolding s by (auto intro!: wp_mono [OF read_present [OF d1 b E n]] simp: case_prod_beta)
  qed
qed

lemma keep_entry:
  "ahci_inv d \<Longrightarrow> entries d block = Some e \<Longrightarrow>
   ahci_inv d \<and> port d = port d \<and> (\<exists>e'. entries d = (entries d)(block \<mapsto> e') \<and> edata e' = edata e)"
  by (intro conjI exI [of _ e]) (simp_all add: fun_upd_idem)

text \<open>A whole block: its entry is marked as not flushed, even by a read.\<close>

lemma access_block:
  assumes d: "ahci_inv d" and b: "block < CacheLength"
    and Q: "\<And>created d' d1. ahci_same d d' \<Longrightarrow> entries d' block = Some ((entry_at d block)\<lparr>flushed := False\<rparr>) \<Longrightarrow>
        d' = set_entry block ((entry_of block d1)\<lparr>flushed := False\<rparr>) d1 \<Longrightarrow> Q created d1"
  shows "wp (cache_access block d) Q"
proof (rule wp_mono [OF cache_access_spec [OF d b]], elim conjE)
  fix created d1
  let ?e = "(entry_at d block)\<lparr>flushed := False\<rparr>"
  assume d1: "ahci_inv d1" "port d1 = port d" "entries d1 = (entries d)(block \<mapsto> entry_at d block)"
  then have e: "entry_of block d1 = entry_at d block" by (simp add: entry_of_entries)
  have "ahci_same d (set_entry block ?e d1)"
    using d1 length_entry_at [OF d] by (intro same_upd [of _ _ block ?e]) (auto intro!: set_entry_inv)
  then show "Q created d1" by (rule Q) (simp_all add: e)
qed

lemma entry_block_bytes:
  assumes "ahci_inv d" and "rd_off = off mod BlockSize" and "n \<le> BlockSize - rd_off"
  shows "take n (drop rd_off (edata (entry_at d (off div BlockSize)))) = rd (ahci_abs d) off n"
  using entry_bytes [OF assms(1), of rd_off n "off div BlockSize"] assms(2,3)
  by (simp add: mod_less_divisor order.strict_implies_order add.commute div_mult_mod_eq)

theorem readCache_ok:
  "ahci_inv d \<Longrightarrow> 0 < n \<Longrightarrow> off + n \<le> ahci_cap \<Longrightarrow>
   wp (readCache n off d) (\<lambda>r d'. r = (0, rd (ahci_abs d) off n) \<and> ahci_same d d')"
proof (induction n arbitrary: off d rule: less_induct)
  case (less n)
  let ?rem = "off mod BlockSize" and ?block = "off div BlockSize"
  have b: "?block < CacheLength" and cap: "off + n \<le> 67108864"
    using less.prems by (simp_all add: ahci_cap_val CacheLength_val)
  have IH: "wp (readCache (n - m) ((off + m) mod 2 ^ 64) d')
      (\<lambda>r d''. r = (0, rd (ahci_abs d) (off + m) (n - m)) \<and> ahci_same d d'')"
    if "0 < m" "m < n" "ahci_same d d'" for m d'
    using less.IH [of "n - m" d' "off + m"] that less.prems cap
    by (auto simp: ahci_same_def elim!: wp_mono)
  have join: "rd (ahci_abs d) off m @ rd (ahci_abs d) (off + m) (n - m) = rd (ahci_abs d) off n" if "m < n" for m
    using that rd_append [of "ahci_abs d" off m "n - m"] by simp
  show ?case
  proof (cases "?rem = 0")
    case False
    let ?m = "min n (BlockSize - ?rem)"
    have m: "0 < ?m" "?m \<le> BlockSize - ?rem" using less.prems by simp_all
    have start: "off - ?rem = ?block * BlockSize" by (simp add: minus_mod_eq_div_mult)
    have bytes: "take ?m (drop ?rem (edata e)) = rd (ahci_abs d) off ?m" if "edata e = edata (entry_at d ?block)" for e
      unfolding that by (rule entry_block_bytes [OF less.prems(1) refl m(2)])
    show ?thesis
      apply (subst readCache.simps)
      apply (simp only: Let_def wp_bind if_False False not_False_eq_True if_True split_conv)
      apply (rule access_fill [where F = "\<lambda>e. e\<lparr>flushed := True\<rparr>" and G = "\<lambda>d. d", OF less.prems(1) b start])
      subgoal by simp
      subgoal by simp
      subgoal by simp
      subgoal by (rule keep_entry)
      subgoal premises p for d' e
      proof (cases "?m < n")
        case True
        then show ?thesis
          using p bytes [OF p(3)] join [OF True] IH [OF m(1) True p(1)]
          by (auto simp: entry_of_entries elim!: wp_mono intro: ahci_same_trans)
      next
        case False
        then show ?thesis using p bytes [OF p(3)] by (simp add: entry_of_entries)
      qed
      done
  next
    case True
    then have start: "off = ?block * BlockSize" by auto
    show ?thesis
    proof (cases "BlockSize \<le> n")
      case big: True
      have bytes: "edata (entry_at d ?block) = rd (ahci_abs d) off BlockSize"
        using entry_block_bytes [OF less.prems(1) refl, of BlockSize off] True length_entry_at [OF less.prems(1)] by simp
      show ?thesis
        apply (subst readCache.simps)
        apply (simp only: Let_def wp_bind True big if_True if_False split_conv simp_thms)
        apply (rule access_block [OF less.prems(1) b])
        subgoal premises p for created d' d1
        proof (cases "n = BlockSize")
          case True
          then have z: "(n - BlockSize = 0) = True" by simp
          show ?thesis
            apply (simp only: z if_True p(3) [symmetric] wp_Some fst_conv snd_conv)
            using True p(1) bytes by (simp add: entry_of_entries [OF p(2)])
        next
          case False
          then have m: "BlockSize < n" using big by simp
          then have nz: "(n - BlockSize = 0) = False" by simp
          show ?thesis
            apply (simp only: nz if_False p(3) [symmetric] wp_bind)
            apply (rule wp_mono [OF IH [OF _ m p(1)]])
            using bytes join [OF m] ahci_same_trans [OF p(1)]
            by (auto simp: entry_of_entries [OF p(2)])
        qed
        done
    next
      case small: False
      have n: "0 < n" "n \<le> BlockSize" using small less.prems by simp_all
      have bytes: "take n (edata e) = rd (ahci_abs d) off n" if "edata e = edata (entry_at d ?block)" for e
        unfolding that using entry_block_bytes [OF less.prems(1) refl, of n off] n True by simp
      show ?thesis
        apply (subst readCache.simps)
        apply (simp only: Let_def wp_bind True small if_True if_False split_conv simp_thms n(1) [THEN less_not_refl2])
        apply (rule access_fill [where F = "\<lambda>e. e\<lparr>flushed := True\<rparr>" and G = "\<lambda>d. d", OF less.prems(1) b start n])
        subgoal by simp
        subgoal by (rule keep_entry)
        subgoal premises p for d' e
          using p bytes [OF p(3)] by (simp add: entry_of_entries)
        done
    qed
  qed
qed


section \<open>Writing\<close>

lemma set_data:
  assumes d: "ahci_inv d" and e: "entries d block = Some e" and "at + length bs \<le> BlockSize"
    and data: "edata e' = take at (edata e) @ bs @ drop (at + length bs) (edata e)"
  shows "ahci_inv (set_entry block e' d)"
    and "ahci_abs (set_entry block e' d) = upd (ahci_abs d) (block * BlockSize + at) bs"
proof -
  have len: "length (edata e) = BlockSize" using d e by (simp add: ahci_inv_def)
  then have "length (edata e') = BlockSize" using assms by simp
  with d e show "ahci_inv (set_entry block e' d)" by (intro set_entry_inv) auto
  show "ahci_abs (set_entry block e' d) = upd (ahci_abs d) (block * BlockSize + at) bs"
  proof (rule ext)
    fix i
    let ?b = "i div BlockSize" and ?r = "i mod BlockSize"
    have i: "i = ?b * BlockSize + ?r" by simp
    show "ahci_abs (set_entry block e' d) i = upd (ahci_abs d) (block * BlockSize + at) bs i"
    proof (cases "?b = block")
      case True
      then have iff: "block * BlockSize + at \<le> i \<longleftrightarrow> at \<le> ?r" "i < block * BlockSize + at + length bs \<longleftrightarrow> ?r < at + length bs"
        and k: "i - (block * BlockSize + at) = ?r - at" using i by linarith+
      have "edata e' ! ?r = (if at \<le> ?r \<and> ?r < at + length bs then bs ! (?r - at) else edata e ! ?r)"
        using len assms(3) data by (auto simp: nth_append min_def)
      then show ?thesis
        using True e iff k by (simp add: ahci_abs_def upd_def)
    next
      case False
      then have "i < block * BlockSize \<or> (block + 1) * BlockSize \<le> i"
        using i by (metis add.commute div_less_iff_less_mult less_eq_div_iff_mult_less_eq nat_neq_iff
            Suc_eq_plus1 less_eq_Suc_le zero_less_numeral)
      then have "i < block * BlockSize + at \<or> block * BlockSize + at + length bs \<le> i"
        using assms(3) by auto
      then show ?thesis using False by (simp add: ahci_abs_def)
    qed
  qed
qed

text \<open>How a write leaves the device.\<close>

definition wrote :: "nat \<Rightarrow> byte list \<Rightarrow> 'p ahci_device \<Rightarrow> 'p ahci_device \<Rightarrow> bool" where
  "wrote off bs d d' \<longleftrightarrow> ahci_inv d' \<and> ahci_abs d' = upd (ahci_abs d) off bs \<and> port d' = port d"

lemma wrote_put:
  assumes "ahci_same d d'" and "entries d' (off div BlockSize) = Some e"
    and "off mod BlockSize + length bs \<le> BlockSize"
  shows "wrote off bs d (set_entry (off div BlockSize) (put_data (off mod BlockSize) bs e) d')"
  using set_data [of d' "off div BlockSize" e "off mod BlockSize" bs] assms
  by (simp add: wrote_def ahci_same_def)

lemma wrote_append: "wrote off as d d' \<Longrightarrow> wrote (off + length as) bs d' d'' \<Longrightarrow> wrote off (as @ bs) d d''"
  by (simp add: wrote_def upd_append)

lemma unflush_entry:
  "ahci_inv d \<Longrightarrow> entries d block = Some e \<Longrightarrow>
   ahci_inv (set_entry block ((entry_of block d)\<lparr>flushed := False\<rparr>) d) \<and>
   port (set_entry block ((entry_of block d)\<lparr>flushed := False\<rparr>) d) = port d \<and>
   (\<exists>e'. entries (set_entry block ((entry_of block d)\<lparr>flushed := False\<rparr>) d) = (entries d)(block \<mapsto> e') \<and> edata e' = edata e)"
proof -
  assume d: "ahci_inv d" and e: "entries d block = Some e"
  then have "length (edata (e\<lparr>flushed := False\<rparr>)) = BlockSize" by (simp add: ahci_inv_def)
  from set_entry_inv [OF d e this] e show ?thesis
    by (auto simp: entry_of_entries intro: exI [of _ "e\<lparr>flushed := False\<rparr>"])
qed

theorem writeCache_ok:
  "ahci_inv d \<Longrightarrow> bs \<noteq> [] \<Longrightarrow> off + length bs \<le> ahci_cap \<Longrightarrow>
   wp (writeCache bs off d) (\<lambda>st d'. st = 0 \<and> wrote off bs d d')"
proof (induction "length bs" arbitrary: bs off d rule: less_induct)
  case less
  let ?rem = "off mod BlockSize" and ?block = "off div BlockSize"
  have cap: "off + length bs \<le> 67108864" using less.prems by (simp add: ahci_cap_val)
  moreover have "0 < length bs" using less.prems by simp
  ultimately have "off < 67108864" by linarith
  then have b: "?block < CacheLength" by (simp add: CacheLength_val)
  have IH: "wp (writeCache (drop m bs) ((off + m) mod 2 ^ 64) d') (\<lambda>st d''. st = 0 \<and> wrote off bs d d'')"
    if "0 < m" "m < length bs" "wrote off (take m bs) d d'" for m d'
  proof -
    have "wp (writeCache (drop m bs) (off + m) d') (\<lambda>st d''. st = 0 \<and> wrote (off + m) (drop m bs) d' d'')"
      by (rule less.hyps) (use that cap in \<open>auto simp: wrote_def ahci_cap_val\<close>)
    then show ?thesis
      using that cap wrote_append [OF that(3), of "drop m bs"] by (auto elim!: wp_mono)
  qed
  show ?case
  proof (cases "?rem = 0")
    case False
    let ?m = "min (length bs) (BlockSize - ?rem)"
    have m: "0 < ?m" "?m \<le> BlockSize - ?rem" using less.prems by simp_all
    have start: "off - ?rem = ?block * BlockSize" by (simp add: minus_mod_eq_div_mult)
    show ?thesis
      apply (subst writeCache.simps)
      apply (simp only: Let_def wp_bind if_False False not_False_eq_True if_True split_conv)
      apply (rule access_fill [where F = "\<lambda>e. e", OF less.prems(1) b start])
      subgoal by simp
      subgoal by simp
      subgoal by simp
      subgoal by (rule unflush_entry)
      subgoal premises p for d' e
      proof -
        have w: "wrote off (take ?m bs) d (set_entry ?block (put_data ?rem (take ?m bs) e) d')"
          using m by (intro wrote_put [OF p(1,2)]) simp
        show ?thesis
        proof (cases "?m < length bs")
          case True
          then have nz: "(length bs - ?m = 0) = False" by simp
          show ?thesis
            by (simp only: nz entry_of_entries [OF p(2)] if_False simp_thms) (rule IH [OF m(1) True w])
        next
          case False
          then show ?thesis using p w by (simp add: entry_of_entries)
        qed
      qed
      done
  next
    case True
    then have start: "off = ?block * BlockSize" by auto
    show ?thesis
    proof (cases "BlockSize \<le> length bs")
      case big: True
      show ?thesis
        apply (subst writeCache.simps)
        apply (simp only: Let_def wp_bind True big if_True if_False split_conv simp_thms)
        apply (rule access_block [OF less.prems(1) b])
        subgoal premises p for created d' d1
        proof -
          have w: "wrote off (take BlockSize bs) d
              (set_entry ?block (put_data 0 (take BlockSize bs) (entry_of ?block d')) d')"
            using wrote_put [OF p(1,2), of "take BlockSize bs"] True by (simp add: entry_of_entries [OF p(2)])
          show ?thesis
          proof (cases "length bs = BlockSize")
            case True
            then have z: "(length bs - BlockSize = 0) = True" by simp
            show ?thesis
              apply (simp only: z if_True p(3) [symmetric] wp_Some fst_conv snd_conv)
              using True w by simp
          next
            case False
            then have m: "BlockSize < length bs" using big by simp
            then have nz: "(length bs - BlockSize = 0) = False" by simp
            show ?thesis
              by (simp only: nz if_False p(3) [symmetric]) (rule IH [OF _ m w], simp)
          qed
        qed
        done
    next
      case small: False
      have n: "0 < length bs" "length bs \<le> BlockSize" using small less.prems by simp_all
      show ?thesis
        apply (subst writeCache.simps)
        apply (simp only: Let_def wp_bind True small if_True if_False split_conv simp_thms n(1) [THEN less_not_refl2])
        apply (rule access_fill [where F = "\<lambda>e. e", OF less.prems(1) b start n])
        subgoal by simp
        subgoal by (rule unflush_entry)
        subgoal premises p for d' e
          using p wrote_put [OF p(1,2), of bs] n True by (simp add: entry_of_entries)
        done
    qed
  qed
qed

text \<open>How \<open>clear\<close> leaves the device: the junk again and again.\<close>

definition cleared :: "byte list \<Rightarrow> nat \<Rightarrow> nat \<Rightarrow> 'p ahci_device \<Rightarrow> 'p ahci_device \<Rightarrow> bool" where
  "cleared junk off n d d' \<longleftrightarrow> ahci_inv d' \<and> port d' = port d \<and>
     (\<forall>i. ahci_abs d' i = (if off \<le> i \<and> i < off + n then junk ! ((i - off) mod BlockSize) else ahci_abs d i))"

lemma cleared_part: "wrote off (take n junk) d d' \<Longrightarrow> n \<le> BlockSize \<Longrightarrow> length junk = BlockSize \<Longrightarrow> cleared junk off n d d'"
  by (auto simp: wrote_def cleared_def upd_def)

lemma cleared_more:
  assumes "wrote off junk d d1" and "cleared junk (off + BlockSize) (n - BlockSize) d1 d2"
    and "BlockSize < n" and "length junk = BlockSize"
  shows "cleared junk off n d d2"
proof -
  have "(i - off) mod BlockSize = (i - (off + BlockSize)) mod BlockSize" if "off + BlockSize \<le> i" for i
    using that by (simp add: le_mod_geq)
  then show ?thesis
    using assms by (auto simp: wrote_def cleared_def upd_def)
qed

theorem clearDevice_ok:
  "ahci_inv d \<Longrightarrow> length junk = BlockSize \<Longrightarrow> 0 < n \<Longrightarrow> off + n \<le> ahci_cap \<Longrightarrow>
   wp (clearDevice junk off n d) (\<lambda>st d'. st = 0 \<and> cleared junk off n d d')"
proof (induction n arbitrary: off d rule: less_induct)
  case (less n)
  have cap: "off + n \<le> 67108864" using less.prems by (simp add: ahci_cap_val)
  show ?case
  proof (cases "BlockSize < n")
    case False
    then have "wp (writeCache (take n junk) off d) (\<lambda>st d'. st = 0 \<and> wrote off (take n junk) d d')"
      using less.prems by (intro writeCache_ok) auto
    then show ?thesis
      using False less.prems(2) by (subst clearDevice.simps) (auto elim!: wp_mono intro: cleared_part)
  next
    case True
    have "wp (writeCache junk off d) (\<lambda>st d'. st = 0 \<and> wrote off junk d d')"
      using less.prems True by (intro writeCache_ok) auto
    moreover have "wp (clearDevice junk ((off + BlockSize) mod 2 ^ 64) (n - BlockSize) d1)
        (\<lambda>st d'. st = 0 \<and> cleared junk off n d d')" if w: "wrote off junk d d1" for d1
    proof -
      have "wp (clearDevice junk (off + BlockSize) (n - BlockSize) d1)
          (\<lambda>st d'. st = 0 \<and> cleared junk (off + BlockSize) (n - BlockSize) d1 d')"
        using less.prems True w by (intro less.IH) (auto simp: wrote_def)
      then show ?thesis
        using cleared_more [OF w _ True less.prems(2)] True cap by (auto elim!: wp_mono)
    qed
    ultimately show ?thesis
      using True by (subst clearDevice.simps) (auto elim!: wp_mono)
  qed
qed

text \<open>The device meets the contract of \<open>storage_device\<close> up to the size of its cache.\<close>

interpretation ahci: storage_device "ahci_ops junk" ahci_abs ahci_inv ahci_cap for junk
proof
  show "ahci_cap \<le> 2 ^ 64" by (simp add: ahci_cap_val)
next
  fix d :: "'a ahci_device" and n off
  assume "ahci_inv d" "0 < n" "off + n \<le> ahci_cap"
  then show "wp (sread (ahci_ops junk) n off d)
      (\<lambda>r d'. r = (0, rd (ahci_abs d) off n) \<and> ahci_inv d' \<and> ahci_abs d' = ahci_abs d)"
    by (auto simp: ahci_ops_def ahci_same_def intro: wp_mono [OF readCache_ok])
next
  fix d :: "'a ahci_device" and bs :: "byte list" and off
  assume "ahci_inv d" "bs \<noteq> []" "off + length bs \<le> ahci_cap"
  then show "wp (swrite (ahci_ops junk) bs off d)
      (\<lambda>st d'. st = 0 \<and> ahci_inv d' \<and> ahci_abs d' = upd (ahci_abs d) off bs)"
    by (auto simp: ahci_ops_def wrote_def intro: wp_mono [OF writeCache_ok])
next
  fix d :: "'a ahci_device" and n off
  assume "ahci_inv d" "0 < n" "off + n \<le> ahci_cap"
  then show "wp (sclear (ahci_ops junk) off n d) (\<lambda>st d'. st = 0 \<and> ahci_inv d' \<and>
      (\<forall>i. i < off \<or> off + n \<le> i \<longrightarrow> ahci_abs d' i = ahci_abs d i))"
    by (auto simp: ahci_ops_def cleared_def intro: wp_mono [OF clearDevice_ok])
qed


section \<open>Empty transfers and flushing\<close>

lemma readCache_empty_halts: "off mod BlockSize = 0 \<Longrightarrow> readCache 0 off d = None"
  by (subst readCache.simps) simp

lemma writeCache_empty_halts: "off mod BlockSize = 0 \<Longrightarrow> writeCache [] off d = None"
  by (subst writeCache.simps) simp

text \<open>
  The first entry that is not flushed decides: a port that reports success (status 0) stops the
  kernel there.
\<close>

lemma flush_blocks_halts:
  assumes "\<And>block data p. fst (port_write block data p) = 0"
  shows "block \<in> set blocks \<Longrightarrow> entries d block = Some e \<Longrightarrow> \<not> flushed e \<Longrightarrow>
    flush_blocks port_write blocks d = None"
proof (induction blocks)
  case (Cons b blocks)
  show ?case
  proof (cases "flushed (entry_of b d)")
    case True
    then have "b \<noteq> block" using Cons.prems entry_of_entries by metis
    with True Cons show ?thesis by (simp add: flush_entry_def)
  next
    case False
    then show ?thesis
      using assms [of b "edata (entry_of b d)" "port d"]
      by (simp add: flush_entry_def Let_def case_prod_beta)
  qed
qed simp

lemma flush_halts:
  assumes "\<And>block data p. fst (port_write block data p) = 0"
    and "entries d block = Some e" and "\<not> flushed e"
  shows "flush port_write d = None"
proof -
  have "block \<in> set (map fst (cmap (acache d)))"
    using assms(2) by (metis domI dom_map_of_conv_image_fst list.set_map)
  then show ?thesis
    unfolding flush_def using flush_blocks_halts [OF assms(1)] assms(2,3) by simp
qed

section \<open>Properties\<close>

text \<open>C6. A fresh device answers every sequence of nonempty reads and writes below its capacity of 64 MiB as an
  array of zeros would: the cache, its eviction order and the splitting into blocks of 512 bytes cannot be
  seen. No byte comes from the disk, since neither \<open>read\<close> nor \<open>write\<close> calls the port.\<close>

theorem ahci_device_is_an_array:
  assumes "new_ahci_device p = Some d" and "list_all (request_ok ahci_cap ahci_cap) rs"
  shows "wp (serve (ahci_ops junk) rs d) (\<lambda>out d'. out = array_serve rs (\<lambda>_. 0))"
  using ahci.serve_ok [of d rs junk] new_ahci_device_spec [OF assms(1)] assms(2) by (auto elim!: wp_mono)

theorem ahci_device_is_an_array_witness:
  "\<exists>d :: unit ahci_device. new_ahci_device () = Some d \<and>
     wp (serve (ahci_ops (\<lambda>_. 0)) [Put 510 [1, 2, 3], Get 511 3] d) (\<lambda>out d'. out = [(0, []), (0, [2, 3, 0])])"
proof -
  obtain d :: "unit ahci_device" where d: "new_ahci_device () = Some d"
    by (auto simp: new_ahci_device_def new_cache_def CacheLength_val)
  have "wp (serve (ahci_ops (\<lambda>_. 0)) [Put 510 [1, 2, 3], Get 511 3] d) (\<lambda>out d'. out = [(0, []), (0, [2, 3, 0])])"
    by (rule wp_mono [OF ahci_device_is_an_array [OF d]])
      (simp_all add: request_ok_def ahci_cap_val rd_def upt_rec upd_def)
  with d show ?thesis by blast
qed

text \<open>On any device a transfer of no bytes at a block boundary never comes back: it fails the assertion that the
  size is positive. \<open>flush\<close> never comes back when some entry is to be written and the port reports success
  for every write: the test of the status is inverted, and it ends in \<open>Kernel::perish\<close>.\<close>

lemma ahci_device_halts:
  assumes "off mod BlockSize = 0"
  shows "readCache 0 off d = None \<and> writeCache [] off d = None \<and>
    ((\<forall>block data p. fst (port_write block data p) = 0) \<and> (\<exists>block e. entries d block = Some e \<and> \<not> flushed e) \<longrightarrow>
      flush port_write d = None)"
  using readCache_empty_halts [OF assms, of d] writeCache_empty_halts [OF assms, of d]
    flush_halts [of port_write d] by blast

lemma ahci_device_halts_witness:
  "flush (\<lambda>_ _ p. (0, p)) \<lparr>acache = \<lparr>maxSize = 8, cmap = [(3, fresh_entry)], clist = [3]\<rparr>, port = ()\<rparr> = None"
  using ahci_device_halts [of 0 "\<lparr>acache = \<lparr>maxSize = 8, cmap = [(3, fresh_entry)], clist = [3]\<rparr>, port = ()\<rparr>" "\<lambda>_ _ p. (0, p)"]
  by (simp add: fresh_entry_def)

end
