(* ===== verification/Partition.thy ===== *)
theory Partition
  imports AHCI_Device
begin

text \<open>
  \<open>Partition\<close> of \<open>include/fs/Partition.h\<close> and \<open>src/fs/Partition.cpp\<close>: a window on a storage
  device, with a log of the accesses. Every access adds the start of the partition to the offset,
  in \<open>size_t\<close>; the length of the partition is not compared with anything.
\<close>

record 'd partition =
  writeRecords :: "(nat \<times> nat) list"
  readRecords :: "(nat \<times> nat) list"
  pdev :: 'd
  poffset :: nat
  plength :: nat

definition partition_read ::
  "'d storage \<Rightarrow> nat \<Rightarrow> nat \<Rightarrow> 'd partition \<Rightarrow> ((int \<times> byte list) \<times> 'd partition) option" where
  "partition_read ops sz byte_offset p = do {
     let p = p\<lparr>readRecords := readRecords p @ [(sz, poffset p)]\<rparr>;
     (r, d) \<leftarrow> sread ops sz (wrap64 (poffset p + byte_offset)) (pdev p);
     Some (r, p\<lparr>pdev := d\<rparr>)
   }"

definition partition_write ::
  "'d storage \<Rightarrow> byte list \<Rightarrow> nat \<Rightarrow> 'd partition \<Rightarrow> (int \<times> 'd partition) option" where
  "partition_write ops buffer byte_offset p = do {
     let p = p\<lparr>writeRecords := writeRecords p @ [(length buffer, byte_offset)]\<rparr>;
     (status, d) \<leftarrow> swrite ops buffer (wrap64 (poffset p + byte_offset)) (pdev p);
     Some (status, p\<lparr>pdev := d\<rparr>)
   }"

definition partition_clear :: "'d storage \<Rightarrow> 'd partition \<Rightarrow> (int \<times> 'd partition) option" where
  "partition_clear ops p = do {
     (status, d) \<leftarrow> sclear ops (poffset p) (plength p) (pdev p);
     Some (status, p\<lparr>pdev := d\<rparr>)
   }"


section \<open>A partition on a device that meets its contract\<close>

text \<open>
  The bytes of the partition, and the states in which every access within \<open>plength\<close> is
  answered. Both take the abstraction and the invariant of the device.
\<close>

definition part_bytes :: "('d \<Rightarrow> nat \<Rightarrow> byte) \<Rightarrow> 'd partition \<Rightarrow> nat \<Rightarrow> byte" where
  "part_bytes bytes p = (\<lambda>i. bytes (pdev p) (poffset p + i))"

definition part_ok :: "('d \<Rightarrow> bool) \<Rightarrow> nat \<Rightarrow> 'd partition \<Rightarrow> bool" where
  "part_ok good cap p \<longleftrightarrow> good (pdev p) \<and> poffset p + plength p \<le> cap"

text \<open>Same window, bytes given.\<close>

definition part_becomes ::
  "('d \<Rightarrow> nat \<Rightarrow> byte) \<Rightarrow> ('d \<Rightarrow> bool) \<Rightarrow> nat \<Rightarrow> (nat \<Rightarrow> byte) \<Rightarrow> 'd partition \<Rightarrow> 'd partition \<Rightarrow> bool" where
  "part_becomes bytes good cap m p p' \<longleftrightarrow>
     part_ok good cap p' \<and> part_bytes bytes p' = m \<and> poffset p' = poffset p \<and> plength p' = plength p"

context storage_device
begin

lemma cap_mod: "i < cap \<Longrightarrow> wrap64 i = i"
  using cap_addressable by (simp add: wrap64_def)

lemma partition_read_ok:
  assumes "part_ok good cap p" and "0 < n" and "off + n \<le> plength p"
  shows "wp (partition_read ops n off p) (\<lambda>r p'. r = (0, rd (part_bytes bytes p) off n) \<and>
           part_becomes bytes good cap (part_bytes bytes p) p p' \<and> writeRecords p' = writeRecords p)"
proof -
  have le: "poffset p + off + n \<le> cap" using assms by (simp add: part_ok_def)
  with assms(2) have m: "wrap64 (poffset p + off) = poffset p + off" by (intro cap_mod) simp
  show ?thesis
    using read_law [of "pdev p" n "poffset p + off"] assms le
    by (auto simp: partition_read_def Let_def m part_ok_def part_becomes_def part_bytes_def rd_shift elim!: wp_mono)
qed

lemma partition_write_ok:
  assumes "part_ok good cap p" and "bs \<noteq> []" and "off + length bs \<le> plength p"
  shows "wp (partition_write ops bs off p) (\<lambda>st p'. st = 0 \<and>
           part_becomes bytes good cap (upd (part_bytes bytes p) off bs) p p' \<and> readRecords p' = readRecords p)"
proof -
  have le: "poffset p + off + length bs \<le> cap" using assms by (simp add: part_ok_def)
  moreover have "0 < length bs" using assms(2) by simp
  ultimately have m: "wrap64 (poffset p + off) = poffset p + off" by (intro cap_mod) linarith
  show ?thesis
    using write_law [of "pdev p" bs "poffset p + off"] assms le
    by (auto simp: partition_write_def Let_def m part_ok_def part_becomes_def part_bytes_def upd_shift elim!: wp_mono)
qed

text \<open>Nothing of the device outside the window is touched by a write inside it.\<close>

lemma partition_write_confined:
  assumes "part_ok good cap p" and "bs \<noteq> []" and "off + length bs \<le> plength p"
    and "i < poffset p \<or> poffset p + plength p \<le> i"
  shows "wp (partition_write ops bs off p) (\<lambda>st p'. bytes (pdev p') i = bytes (pdev p) i)"
proof -
  have le: "poffset p + off + length bs \<le> cap" using assms by (simp add: part_ok_def)
  moreover have "0 < length bs" using assms(2) by simp
  ultimately have m: "wrap64 (poffset p + off) = poffset p + off" by (intro cap_mod) linarith
  show ?thesis
    using write_law [of "pdev p" bs "poffset p + off"] assms le
    by (auto simp: partition_write_def Let_def m part_ok_def elim!: wp_mono)
qed

lemma partition_clear_ok:
  assumes "part_ok good cap p" and "0 < plength p"
  shows "wp (partition_clear ops p) (\<lambda>st p'. st = 0 \<and> part_becomes bytes good cap (part_bytes bytes p') p p')"
  using clear_law [of "pdev p" "plength p" "poffset p"] assms
  by (auto simp: partition_clear_def part_ok_def part_becomes_def elim!: wp_mono)

end

section \<open>Properties\<close>

text \<open>C28. On the AHCI device a write that fits into the partition succeeds, changes the range it names and no
  byte outside the partition.\<close>

theorem partition_write_contained:
  assumes "part_ok ahci_inv ahci_cap p" and "buf \<noteq> []" and "off + length buf \<le> plength p"
  shows "wp (partition_write (ahci_ops junk) buf off p) (\<lambda>st p'. st = 0 \<and>
    part_bytes ahci_abs p' = upd (part_bytes ahci_abs p) off buf \<and>
    (\<forall>i. i < poffset p \<or> poffset p + plength p \<le> i \<longrightarrow> ahci_abs (pdev p') i = ahci_abs (pdev p) i))"
proof -
  note ok = ahci.partition_write_ok [OF assms, of junk]
  have "wp (partition_write (ahci_ops junk) buf off p)
    (\<lambda>st p'. \<forall>i. i < poffset p \<or> poffset p + plength p \<le> i \<longrightarrow> ahci_abs (pdev p') i = ahci_abs (pdev p) i)"
    by (rule wp_all [OF _ ahci.partition_write_confined [OF assms]]) (use ok in \<open>auto elim: wpE\<close>)
  from wp_conj [OF ok this] show ?thesis by (rule wp_mono) (simp add: part_becomes_def)
qed

theorem partition_write_contained_witness:
  "\<exists>d :: unit ahci_device. ahci_abs d = (\<lambda>_. 0) \<and>
     wp (partition_write (ahci_ops (\<lambda>_. 0)) [7] 10 \<lparr>writeRecords = [], readRecords = [], pdev = d, poffset = 512, plength = 1024\<rparr>)
       (\<lambda>st p'. st = 0 \<and> ahci_abs (pdev p') 511 = 0)"
proof -
  obtain d :: "unit ahci_device" where "new_ahci_device () = Some d"
    by (auto simp: new_ahci_device_def new_cache_def CacheLength_val)
  from new_ahci_device_spec [OF this] have d: "ahci_inv d" "ahci_abs d = (\<lambda>_. 0)" by auto
  let ?p = "\<lparr>writeRecords = [], readRecords = [], pdev = d, poffset = 512, plength = 1024\<rparr>"
  have "part_ok ahci_inv ahci_cap ?p" using d by (simp add: part_ok_def ahci_cap_val)
  from partition_write_contained [OF this, of "[7]" 10 "\<lambda>_. 0"]
  have "wp (partition_write (ahci_ops (\<lambda>_. 0)) [7] 10 ?p) (\<lambda>st p'. st = 0 \<and> ahci_abs (pdev p') 511 = 0)"
    by (auto simp: d elim!: wp_mono)
  with d show ?thesis by blast
qed

end
