(* ===== verification/Dir_Entry.thy ===== *)
theory Dir_Entry
  imports Prelude
begin

text \<open>
  The on-disk structures of ThornFAT (\<open>include/fs/ThornFAT/Types.h\<close>, \<open>src/fs/ThornFAT/DirEntry.cpp\<close>)
  and their layout in memory, which is what is written to the disk: \<open>Superblock\<close> is packed (24
  bytes), \<open>DirEntry\<close> is 320 bytes with 16 bytes of \<open>padding\<close> at 300 and 4 of alignment at 316.
  Neither the copy constructor nor the assignment of \<open>DirEntry\<close> copies the padding, so the
  entries the driver writes have zeros there. \<open>block_t\<close> is a 32-bit \<open>int\<close>.
\<close>

definition UNUSABLE :: int where "UNUSABLE = -1"
definition FINAL :: int where "FINAL = -2"
definition THORNFAT_PATH_MAX :: nat where "THORNFAT_PATH_MAX = 255"

record superblock =
  magic :: nat
  blockCount :: nat
  fatBlocks :: nat
  blockSize :: nat
  sbStart :: int

record times =
  created :: int
  modified :: int
  accessed :: int

record dirent =
  dname :: "byte list"
  dtimes :: times
  dlength :: nat
  startBlock :: int
  dtype :: int
  modes :: nat

text \<open>\<open>enum class FileType: int {File, Directory}\<close>; an entry read from a disk can hold any \<open>int\<close>.\<close>

definition File :: int where "File = 0"
definition Directory :: int where "Directory = 1"

definition isFile :: "dirent \<Rightarrow> bool" where "isFile e \<longleftrightarrow> dtype e = File"
definition isDirectory :: "dirent \<Rightarrow> bool" where "isDirectory e \<longleftrightarrow> dtype e = Directory"

abbreviation sizeof_DirEntry :: nat where "sizeof_DirEntry \<equiv> 320"
abbreviation sizeof_Superblock :: nat where "sizeof_Superblock \<equiv> 24"
abbreviation sizeof_block :: nat where "sizeof_block \<equiv> 4"

definition zero_times :: times where
  "zero_times = \<lparr>created = 0, modified = 0, accessed = 0\<rparr>"

text \<open>\<open>DirEntry()\<close>, \<open>DirEntry(times, length, type)\<close> and \<open>reset\<close>.\<close>

definition new_dirent :: "times \<Rightarrow> nat \<Rightarrow> int \<Rightarrow> dirent" where
  "new_dirent ts len ty =
     \<lparr>dname = replicate (THORNFAT_PATH_MAX + 1) 0, dtimes = ts, dlength = len, startBlock = -1,
      dtype = ty, modes = 0\<rparr>"

definition default_dirent :: dirent where
  "default_dirent = new_dirent zero_times 0 File"

definition dirent_reset :: "dirent \<Rightarrow> dirent" where
  "dirent_reset e = e\<lparr>dname := replicate (THORNFAT_PATH_MAX + 1) 0, dtimes := zero_times,
     dlength := 0, startBlock := UNUSABLE, dtype := File, modes := 0\<rparr>"

text \<open>A C string in a byte array, and an array of \<open>n\<close> bytes from a string, as \<open>strncpy\<close> fills it.\<close>

definition cstr :: "byte list \<Rightarrow> string" where
  "cstr bs = map (\<lambda>b. char_of (unat b)) (takeWhile (\<lambda>b. b \<noteq> 0) bs)"

definition str_bytes :: "string \<Rightarrow> byte list" where
  "str_bytes s = map (\<lambda>c. word_of_nat (of_char c)) s"

definition strncpy :: "nat \<Rightarrow> string \<Rightarrow> byte list" where
  "strncpy n s = take n (str_bytes s @ replicate n 0)"

definition updateName :: "dirent \<Rightarrow> string \<Rightarrow> dirent" where
  "updateName e new_name = e\<lparr>dname := strncpy (THORNFAT_PATH_MAX + 1) new_name\<rparr>"


section \<open>Layout\<close>

definition field :: "byte list \<Rightarrow> nat \<Rightarrow> nat \<Rightarrow> nat" where
  "field bs k n = le_nat (take n (drop k bs))"

definition encode_superblock :: "superblock \<Rightarrow> byte list" where
  "encode_superblock sb =
     le_bytes 4 (magic sb) @ le_bytes 8 (blockCount sb) @ le_bytes 4 (fatBlocks sb) @
     le_bytes 4 (blockSize sb) @ le_bytes 4 (u32 (sbStart sb))"

definition decode_superblock :: "byte list \<Rightarrow> superblock" where
  "decode_superblock bs =
     \<lparr>magic = field bs 0 4, blockCount = field bs 4 8, fatBlocks = field bs 12 4,
      blockSize = field bs 16 4, sbStart = i32 (field bs 20 4)\<rparr>"

text \<open>
  The struct has 316 bytes of fields and ends with four bytes of alignment, which have no value in the program:
  the copy of an entry may hold anything there. Here they are written as zeros and never read.
\<close>

definition encode_dirent :: "dirent \<Rightarrow> byte list" where
  "encode_dirent e =
     dname e @ le_bytes 8 (u64 (created (dtimes e))) @ le_bytes 8 (u64 (modified (dtimes e))) @
     le_bytes 8 (u64 (accessed (dtimes e))) @ le_bytes 8 (dlength e) @
     le_bytes 4 (u32 (startBlock e)) @ le_bytes 4 (u32 (dtype e)) @ le_bytes 4 (modes e) @
     replicate 16 0 @ replicate 4 0"

definition decode_dirent :: "byte list \<Rightarrow> dirent" where
  "decode_dirent bs =
     \<lparr>dname = take 256 bs,
      dtimes = \<lparr>created = i64 (field bs 256 8), modified = i64 (field bs 264 8), accessed = i64 (field bs 272 8)\<rparr>,
      dlength = field bs 280 8, startBlock = i32 (field bs 288 4), dtype = i32 (field bs 292 4),
      modes = field bs 296 4\<rparr>"

text \<open>The values that the C++ types can hold.\<close>

definition int32 :: "int \<Rightarrow> bool" where
  "int32 x \<longleftrightarrow> - (2 ^ 31) \<le> x \<and> x < 2 ^ 31"

definition int64 :: "int \<Rightarrow> bool" where
  "int64 x \<longleftrightarrow> - (2 ^ 63) \<le> x \<and> x < 2 ^ 63"

definition wf_times :: "times \<Rightarrow> bool" where
  "wf_times t \<longleftrightarrow> int64 (created t) \<and> int64 (modified t) \<and> int64 (accessed t)"

definition wf_dirent :: "dirent \<Rightarrow> bool" where
  "wf_dirent e \<longleftrightarrow> length (dname e) = 256 \<and> wf_times (dtimes e) \<and>
     dlength e < 2 ^ 64 \<and> int32 (startBlock e) \<and> int32 (dtype e) \<and> modes e < 2 ^ 32"

definition wf_superblock :: "superblock \<Rightarrow> bool" where
  "wf_superblock sb \<longleftrightarrow> magic sb < 2 ^ 32 \<and> blockCount sb < 2 ^ 64 \<and> fatBlocks sb < 2 ^ 32 \<and>
     blockSize sb < 2 ^ 32 \<and> int32 (sbStart sb)"

lemma i64_u64: "int64 x \<Longrightarrow> i64 (u64 x) = x"
proof (cases "0 \<le> x")
  case True
  moreover assume "int64 x"
  ultimately show ?thesis by (simp add: i64_def int64_def Let_def)
next
  case False
  moreover assume "int64 x"
  ultimately have "x mod 2 ^ 64 = x + 2 ^ 64"
    by (subst mod_add_self2 [symmetric], subst mod_pos_pos_trivial) (auto simp: int64_def)
  with False \<open>int64 x\<close> show ?thesis
    by (simp add: i64_def u64_def Let_def int64_def)
qed

lemma i32_u32': "int32 x \<Longrightarrow> i32 (u32 x) = x"
  by (simp add: int32_def i32_u32)

lemma u32_bytes [simp]: "u32 x mod 4294967296 = u32 x"
  using u32_bound [of x] by simp

lemma u64_bytes [simp]: "u64 x mod 18446744073709551616 = u64 x"
  using u64_bound [of x] by simp

lemma length_encode_dirent [simp]: "length (dname e) = 256 \<Longrightarrow> length (encode_dirent e) = 320"
  by (simp add: encode_dirent_def)

lemma length_encode_superblock [simp]: "length (encode_superblock sb) = 24"
  by (simp add: encode_superblock_def)

lemma decode_encode_superblock: "wf_superblock sb \<Longrightarrow> decode_superblock (encode_superblock sb) = sb"
  by (cases sb)
    (simp add: wf_superblock_def decode_superblock_def encode_superblock_def field_def
      le_nat_le_bytes i32_u32')

lemma decode_encode_dirent: "wf_dirent e \<Longrightarrow> decode_dirent (encode_dirent e) = e"
proof -
  assume wf: "wf_dirent e"
  then have n: "length (dname e) = 256" by (simp add: wf_dirent_def)
  show ?thesis
    using wf
    by (cases e, cases "dtimes e")
      (simp add: wf_dirent_def wf_times_def decode_dirent_def encode_dirent_def field_def
        le_nat_le_bytes i32_u32' i64_u64)
qed

lemma field_bound: "field bs k n < 256 ^ n"
proof -
  have "field bs k n < 256 ^ length (take n (drop k bs))"
    unfolding field_def by (rule le_nat_bound)
  also have "\<dots> \<le> 256 ^ n" by (intro power_increasing) auto
  finally show ?thesis .
qed

lemma i64_range: "- (2 ^ 63) \<le> i64 n" "i64 n < 2 ^ 63"
proof -
  have "int (n mod 2 ^ 64) < 2 ^ 64"
    by (simp add: zmod_int)
  then show "- (2 ^ 63) \<le> i64 n" "i64 n < 2 ^ 63"
    by (auto simp: i64_def Let_def)
qed

lemma decode_dirent_wf: "length bs = 320 \<Longrightarrow> wf_dirent (decode_dirent bs)"
  using field_bound [of bs 280 8] field_bound [of bs 296 4] i32_range i64_range
  by (simp add: wf_dirent_def wf_times_def decode_dirent_def int32_def int64_def)

lemma decode_superblock_wf: "wf_superblock (decode_superblock bs)"
  using field_bound [of bs 0 4] field_bound [of bs 4 8] field_bound [of bs 12 4] field_bound [of bs 16 4] i32_range
  by (simp add: wf_superblock_def decode_superblock_def int32_def)

lemma str_byte_nonzero: "(word_of_nat (of_char c) :: byte) = 0 \<longleftrightarrow> c = CHR 0x00"
proof -
  have less: "of_char c < (256 :: nat)" by simp
  have "of_char c = (0 :: nat)" if "(word_of_nat (of_char c) :: byte) = 0"
  proof -
    from that have "256 dvd (of_char c :: nat)" by (simp add: word_of_nat_eq_0_iff)
    with less show ?thesis by (metis nat_dvd_not_less neq0_conv)
  qed
  moreover have "c = CHR 0x00" if "of_char c = (0 :: nat)"
    using that of_char_eq_iff [of c "CHR 0x00", where ?'a = nat] by simp
  ultimately show ?thesis by auto
qed

lemma cstr_strncpy:
  assumes "length s < n" and "\<forall>c \<in> set s. c \<noteq> CHR 0x00"
  shows "cstr (strncpy n s) = s"
proof -
  have "strncpy n s = str_bytes s @ 0 # replicate (n - length s - 1) 0"
    using assms(1) by (simp add: strncpy_def str_bytes_def flip: replicate_Suc)
  moreover have "takeWhile (\<lambda>b. b \<noteq> 0) (str_bytes s @ 0 # bs) = str_bytes s" for bs
    using assms(2) by (intro takeWhile_prefix) (auto simp: str_bytes_def str_byte_nonzero)
  moreover have "char_of (unat (word_of_nat (of_char c) :: byte)) = c" for c
    by (simp add: unat_of_nat)
  ultimately show ?thesis by (simp add: cstr_def) (simp add: str_bytes_def o_def)
qed

section \<open>The on-disk format\<close>

text \<open>C15. A directory entry and a superblock take 320 and 24 bytes on the disk, and reading the bytes gives back
  what was written.\<close>

theorem disk_format_roundtrip:
  assumes "wf_dirent e" and "wf_superblock sb"
  shows "length (encode_dirent e) = 320 \<and> decode_dirent (encode_dirent e) = e \<and>
    length (encode_superblock sb) = 24 \<and> decode_superblock (encode_superblock sb) = sb"
  using assms decode_encode_dirent decode_encode_superblock by (simp add: wf_dirent_def)

theorem disk_format_roundtrip_witness:
  "decode_dirent (encode_dirent default_dirent) = default_dirent"
  by (rule disk_format_roundtrip [THEN conjunct2, THEN conjunct1, of _ "\<lparr>magic = 0, blockCount = 0, fatBlocks = 0, blockSize = 0, sbStart = 0\<rparr>"])
    (simp_all add: wf_dirent_def wf_superblock_def default_dirent_def new_dirent_def wf_times_def zero_times_def
      int64_def int32_def File_def THORNFAT_PATH_MAX_def)

end
