(* ===== verification/Thorn_Util.thy ===== *)
theory Thorn_Util
  imports Prelude
begin

text \<open>
  The general helpers of \<open>include/ThornUtil.h\<close>: splitting a string at a delimiter, rounding
  division and alignment on \<open>size_t\<close>, and the test for canonical x86-64 addresses.
\<close>


section \<open>Splitting a string\<close>

text \<open>\<open>std::string::find(needle, pos)\<close>; \<open>None\<close> is \<open>npos\<close>.\<close>

primrec find_from :: "string \<Rightarrow> string \<Rightarrow> nat \<Rightarrow> nat \<Rightarrow> nat option" where
  "find_from str needle pos 0 =
     (if take (length needle) (drop pos str) = needle \<and> pos + length needle \<le> length str
      then Some pos else None)"
| "find_from str needle pos (Suc k) =
     (if take (length needle) (drop pos str) = needle \<and> pos + length needle \<le> length str
      then Some pos else find_from str needle (Suc pos) k)"

definition string_find :: "string \<Rightarrow> string \<Rightarrow> nat \<Rightarrow> nat option" where
  "string_find str needle pos =
     (if length str < pos then None else find_from str needle pos (length str - pos))"

text \<open>\<open>std::string::substr\<close>, with a count of \<open>npos\<close> or past the end cut to the end.\<close>

definition substr :: "string \<Rightarrow> nat \<Rightarrow> nat \<Rightarrow> string" where
  "substr str pos cnt = take cnt (drop pos str)"

text \<open>
  The \<open>while (next != npos)\<close> loop of \<open>split\<close>; an empty delimiter is found at the same place
  for ever, so the loop does not end then.
\<close>

partial_function (option) split_loop ::
  "string \<Rightarrow> string \<Rightarrow> bool \<Rightarrow> nat \<Rightarrow> string list \<Rightarrow> string list option" where
  "split_loop str delimiter condense prev out =
     (let start = prev + length delimiter;
          nxt = string_find str delimiter start;
          sub = (case nxt of None \<Rightarrow> drop start str | Some n \<Rightarrow> substr str start (n - prev - length delimiter));
          out' = (if sub \<noteq> [] \<or> \<not> condense then out @ [sub] else out)
      in case nxt of None \<Rightarrow> Some out' | Some n \<Rightarrow> split_loop str delimiter condense n out')"

definition split :: "string \<Rightarrow> string \<Rightarrow> bool \<Rightarrow> string list option" where
  "split str delimiter condense =
     (if str = [] then Some []
      else case string_find str delimiter 0 of
             None \<Rightarrow> Some [str]
           | Some n \<Rightarrow> split_loop str delimiter condense n [substr str 0 n])"


section \<open>Rounding\<close>

text \<open>\<open>updiv\<close> at \<open>size_t\<close>; a zero divisor faults, so it is a hypothesis where it is used.\<close>

definition updiv :: "nat \<Rightarrow> nat \<Rightarrow> nat" where
  "updiv n d = n div d + (if n mod d \<noteq> 0 then 1 else 0)"

text \<open>\<open>upalign\<close> and \<open>downalign\<close> at a 64-bit \<open>T\<close>; the sum of \<open>upalign\<close> wraps.\<close>

definition upalign :: "nat \<Rightarrow> nat \<Rightarrow> nat" where
  "upalign number alignment = (number + (alignment - number mod alignment) mod alignment) mod 2 ^ 64"

definition downalign :: "nat \<Rightarrow> nat \<Rightarrow> nat" where
  "downalign number alignment = number - number mod alignment"

definition isCanonical :: "64 word \<Rightarrow> bool" where
  "isCanonical address \<longleftrightarrow> address < 0x0000800000000000 \<or> 0xffff800000000000 \<le> address"

lemma updiv_0 [simp]: "updiv 0 d = 0"
  by (simp add: updiv_def)

lemma updiv_le_iff: "0 < d \<Longrightarrow> updiv n d \<le> k \<longleftrightarrow> n \<le> k * d"
proof -
  assume d: "0 < d"
  have n: "n = n div d * d + n mod d" by simp
  have r: "n mod d < d" using d by simp
  show ?thesis
  proof (cases "n mod d = 0")
    case True
    with n have "n = n div d * d" by simp
    then show ?thesis using d True by (metis updiv_def add.right_neutral mult_le_cancel2)
  next
    case False
    have "n div d + 1 \<le> k \<longleftrightarrow> n div d < k" by auto
    also have "\<dots> \<longleftrightarrow> n < k * d" using d by (simp add: div_less_iff_less_mult)
    also have "\<dots> \<longleftrightarrow> n \<le> k * d" using False by (metis mod_mult_self2_is_0 nat_less_le)
    finally show ?thesis using False by (simp add: updiv_def)
  qed
qed

lemma updiv_covers: "0 < d \<Longrightarrow> n \<le> updiv n d * d"
  using updiv_le_iff [of d n "updiv n d"] by simp

lemma updiv_pos: "0 < d \<Longrightarrow> 0 < n \<Longrightarrow> 0 < updiv n d"
  using updiv_le_iff [of d n 0] by simp

lemma downalign_dvd: "alignment dvd downalign number alignment"
  by (simp add: downalign_def dvd_minus_mod)

lemma upalign_no_wrap:
  assumes "0 < alignment" and "number + alignment \<le> 2 ^ 64"
  shows "upalign number alignment = updiv number alignment * alignment"
proof (cases "number mod alignment = 0")
  case True
  with assms show ?thesis by (auto simp: upalign_def updiv_def)
next
  case False
  have r: "number mod alignment < alignment" using assms(1) by simp
  have "number + (alignment - number mod alignment) = (number div alignment + 1) * alignment"
    using div_mult_mod_eq [of number alignment] r unfolding add_mult_distrib by linarith
  with False r assms show ?thesis by (simp add: upalign_def updiv_def algebra_simps)
qed


section \<open>Splitting at a single character\<close>

text \<open>
  The reference for \<open>split\<close> at a one-character delimiter: all fields, empty ones included. With
  \<open>condense\<close> the code drops every empty field but the first.
\<close>

primrec fields :: "char \<Rightarrow> string \<Rightarrow> string list" where
  "fields c [] = [[]]"
| "fields c (x # xs) = (if x = c then [] # fields c xs else (x # hd (fields c xs)) # tl (fields c xs))"

lemma fields_nonempty [simp]: "fields c xs \<noteq> []"
  by (induction xs) auto

lemma fields_no_delim: "f \<in> set (fields c xs) \<Longrightarrow> c \<notin> set f"
proof (induction xs arbitrary: f)
  case (Cons x xs)
  have "set (tl (fields c xs)) \<subseteq> set (fields c xs)" by (cases "fields c xs") auto
  moreover have "hd (fields c xs) \<in> set (fields c xs)" by simp
  ultimately show ?case using Cons by (auto split: if_splits)
qed simp

lemma fields_id: "c \<notin> set xs \<Longrightarrow> fields c xs = [xs]"
  by (induction xs) auto

lemma fields_append: "c \<notin> set xs \<Longrightarrow> fields c (xs @ c # ys) = xs # fields c ys"
  by (induction xs) auto

lemma find_from_char:
  "pos + k = length str \<Longrightarrow>
   find_from str [c] pos k =
     (if c \<in> set (drop pos str) then Some (pos + length (takeWhile (\<lambda>x. x \<noteq> c) (drop pos str))) else None)"
proof (induction k arbitrary: pos)
  case (Suc k)
  then have d: "drop pos str = str ! pos # drop (Suc pos) str"
    by (simp add: Cons_nth_drop_Suc)
  show ?case using Suc.IH [of "Suc pos"] Suc.prems by (simp add: d)
qed simp

lemma string_find_char:
  "pos \<le> length str \<Longrightarrow>
   string_find str [c] pos =
     (if c \<in> set (drop pos str) then Some (pos + length (takeWhile (\<lambda>x. x \<noteq> c) (drop pos str))) else None)"
  by (simp add: string_find_def find_from_char)

lemma fields_takeWhile:
  "c \<in> set xs \<Longrightarrow>
   fields c xs = takeWhile (\<lambda>x. x \<noteq> c) xs # fields c (drop (Suc (length (takeWhile (\<lambda>x. x \<noteq> c) xs))) xs)"
  by (induction xs) auto

text \<open>The loop keeps the fields after the current delimiter, without the empty ones.\<close>

lemma split_loop_char:
  "prev < length str \<Longrightarrow>
   split_loop str [c] True prev out =
     Some (out @ filter (\<lambda>f. f \<noteq> []) (fields c (drop (Suc prev) str)))"
proof (induction "length str - prev" arbitrary: prev out rule: less_induct)
  case less
  let ?d = "drop (Suc prev) str"
  let ?w = "takeWhile (\<lambda>x. x \<noteq> c) ?d"
  have find: "string_find str [c] (Suc prev) = (if c \<in> set ?d then Some (Suc prev + length ?w) else None)"
    using less.prems by (simp add: string_find_char)
  show ?case
  proof (cases "c \<in> set ?d")
    case False
    then show ?thesis
      by (subst split_loop.simps) (simp add: find fields_id Let_def)
  next
    case True
    let ?n = "Suc prev + length ?w"
    have w: "length ?w < length ?d"
      using True by (intro length_takeWhile_less) auto
    then have n: "?n < length str" by simp
    have sub: "substr str (Suc prev) (length ?w) = ?w"
      unfolding substr_def by (rule takeWhile_eq_take [symmetric])
    have rest: "drop (Suc (length ?w)) ?d = drop (Suc ?n) str"
      by (simp add: add.commute)
    have IH: "split_loop str [c] True ?n o2 =
        Some (o2 @ filter (\<lambda>f. f \<noteq> []) (fields c (drop (Suc ?n) str)))" for o2
      using less.hyps [of ?n] n less.prems by simp
    show ?thesis
      using True IH sub find rest fields_takeWhile [OF True]
      by (subst split_loop.simps) (simp add: Let_def)
  qed
qed

theorem split_char:
  "split str [c] True =
     Some (if str = [] then [] else hd (fields c str) # filter (\<lambda>f. f \<noteq> []) (tl (fields c str)))"
proof (cases "c \<in> set str")
  case False
  then show ?thesis by (simp add: split_def string_find_char fields_id)
next
  case True
  let ?w = "takeWhile (\<lambda>x. x \<noteq> c) str"
  have "length ?w < length str"
    using True by (intro length_takeWhile_less) auto
  moreover have "substr str 0 (length ?w) = ?w"
    unfolding substr_def drop_0 by (rule takeWhile_eq_take [symmetric])
  ultimately show ?thesis
    using True fields_takeWhile [OF True]
    by (auto simp: split_def string_find_char split_loop_char)
qed

end
