(* ===== verification/Paths.thy ===== *)
theory Paths
  imports Thorn_Util
begin

text \<open>
  Path strings: \<open>simplifyPath\<close> of \<open>src/fs/Util.cpp\<close> (both overloads) and \<open>pathFirst\<close>,
  \<open>pathLast\<close>, \<open>pathParent\<close> of \<open>src/fs/ThornFAT/Util.cpp\<close>. A C string is the list of its
  characters before the terminating NUL; \<open>nullptr\<close> is \<open>None\<close>.
\<close>


section \<open>simplifyPath\<close>

text \<open>
  The loop over the list of pieces. The list is kept as the pieces before the iterator, last
  first, and the pieces from the iterator on; \<open>begin()\<close> is an empty first part. Erasing the last
  piece breaks out of the loop.
\<close>

fun simplify_loop :: "string list \<Rightarrow> string list \<Rightarrow> string list" where
  "simplify_loop before [] = rev before"
| "simplify_loop before (piece # nxt) =
     (if piece = [] \<or> piece = ''.'' \<or> (piece = ''..'' \<and> before = []) then
        (if nxt = [] then rev before else simplify_loop before nxt)
      else if piece = ''..'' then simplify_loop (tl before) nxt
      else simplify_loop (piece # before) nxt)"

primrec join_path :: "string list \<Rightarrow> string" where
  "join_path [] = []"
| "join_path (piece # pieces) = ''/'' @ piece @ join_path pieces"

definition simplifyPath :: "string \<Rightarrow> string option" where
  "simplifyPath path =
     (if path = [] then Some ''/''
      else do {
        pieces \<leftarrow> split path ''/'' True;
        let pieces = simplify_loop [] pieces;
        Some (if pieces = [] then ''/'' else join_path pieces)
      })"

definition simplifyPath_cwd :: "string \<Rightarrow> string \<Rightarrow> string option" where
  "simplifyPath_cwd cwd0 path0 =
     (let cwd = (if cwd0 = [] then ''/'' else cwd0)
      in if path0 = [] then Some cwd
         else do {
           let path = (if hd path0 \<noteq> CHR ''/''
                       then (if last cwd = CHR ''/'' then cwd @ path0 else cwd @ ''/'' @ path0)
                       else path0);
           pieces \<leftarrow> split path ''/'' True;
           let pieces = simplify_loop [] pieces;
           Some (if pieces = [] then ''/'' else join_path pieces)
         })"

text \<open>What a simplified path consists of.\<close>

definition clean_piece :: "string \<Rightarrow> bool" where
  "clean_piece p \<longleftrightarrow> p \<noteq> [] \<and> p \<noteq> ''.'' \<and> p \<noteq> ''..'' \<and> CHR ''/'' \<notin> set p"

definition clean_path :: "string \<Rightarrow> bool" where
  "clean_path p \<longleftrightarrow> (\<exists>pieces. list_all clean_piece pieces \<and> p = (if pieces = [] then ''/'' else join_path pieces))"

lemma simplify_loop_clean:
  "list_all clean_piece before \<Longrightarrow> \<forall>p \<in> set pieces. CHR ''/'' \<notin> set p \<Longrightarrow>
   list_all clean_piece (simplify_loop before pieces)"
proof (induction before pieces rule: simplify_loop.induct)
  case (2 before piece nxt)
  have t: "list_all clean_piece (tl before)"
    using "2.prems" by (cases before) auto
  have n: "\<forall>p \<in> set nxt. CHR ''/'' \<notin> set p" and p: "CHR ''/'' \<notin> set piece"
    using "2.prems" by auto
  consider (skip) "piece = [] \<or> piece = ''.'' \<or> (piece = ''..'' \<and> before = [])"
    | (up) "piece = ''..''" "before \<noteq> []" | (keep) "clean_piece piece"
    using p by (auto simp: clean_piece_def)
  then show ?case
  proof cases
    case skip
    then show ?thesis using "2.IH"(1) [OF skip _ _ n] "2.prems" by (cases "nxt = []") auto
  next
    case up
    then show ?thesis using "2.IH"(2) [OF _ _ t n] by simp
  next
    case keep
    then show ?thesis using "2.IH"(3) [OF _ _ _ n] "2.prems" by (auto simp: clean_piece_def [of piece])
  qed
qed simp

lemma simplify_loop_id:
  "list_all clean_piece pieces \<Longrightarrow> simplify_loop before pieces = rev before @ pieces"
  by (induction pieces arbitrary: before) (auto simp: clean_piece_def)

lemma simplify_loop_skip [simp]: "simplify_loop [] ([] # pieces) = simplify_loop [] pieces"
  by simp

lemma simplify_loop_filter:
  "simplify_loop before (filter (\<lambda>f. f \<noteq> []) pieces) = simplify_loop before pieces"
proof (induction before pieces rule: simplify_loop.induct)
  case (2 before piece nxt)
  have e: "simplify_loop b [] = rev b" for b by simp
  show ?case
  proof (cases "filter (\<lambda>f. f \<noteq> []) nxt = []")
    case True
    then have n: "simplify_loop b nxt = rev b" for b
      by (induction nxt arbitrary: b) (auto split: if_splits)
    show ?thesis using True by (auto simp: n)
  next
    case False
    then have "nxt \<noteq> []" by auto
    with 2 False show ?thesis by auto
  qed
qed simp

lemma set_split:
  assumes "split path ''/'' True = Some pieces"
  shows "\<forall>p \<in> set pieces. CHR ''/'' \<notin> set p"
  using assms fields_no_delim [OF list.set_sel(1) [OF fields_nonempty]]
    fields_no_delim [OF list.set_sel(2) [OF fields_nonempty]]
  by (auto simp: split_char split: if_splits)

lemma simplify_split:
  "path \<noteq> [] \<Longrightarrow> split path ''/'' True = Some pieces \<Longrightarrow>
   simplify_loop [] pieces = simplify_loop [] (fields CHR ''/'' path)"
proof -
  assume p: "path \<noteq> []" and s: "split path ''/'' True = Some pieces"
  then have pieces: "pieces = hd (fields CHR ''/'' path) # filter (\<lambda>f. f \<noteq> []) (tl (fields CHR ''/'' path))"
    by (simp add: split_char)
  have "simplify_loop [] pieces = simplify_loop [] (filter (\<lambda>f. f \<noteq> []) pieces)"
    by (simp add: simplify_loop_filter)
  also have "filter (\<lambda>f. f \<noteq> []) pieces = filter (\<lambda>f. f \<noteq> []) (fields CHR ''/'' path)"
    unfolding pieces by (cases "fields CHR ''/'' path") auto
  finally show ?thesis by (simp add: simplify_loop_filter)
qed

text \<open>\<open>simplifyPath\<close> resolves the fields of the path, whatever their number of slashes.\<close>

lemma simplifyPath_fields:
  "simplifyPath path =
     Some (let pieces = simplify_loop [] (fields CHR ''/'' path)
           in if pieces = [] then ''/'' else join_path pieces)"
proof (cases "path = []")
  case False
  then obtain pieces where s: "split path ''/'' True = Some pieces"
    by (simp add: split_char)
  show ?thesis using False s simplify_split [OF False s] by (simp add: simplifyPath_def Let_def)
qed (simp add: simplifyPath_def)

lemma fields_join_path:
  "\<forall>p \<in> set pieces. CHR ''/'' \<notin> set p \<Longrightarrow> pieces \<noteq> [] \<Longrightarrow>
   fields CHR ''/'' (join_path pieces) = [] # pieces"
proof (induction pieces)
  case (Cons p ps)
  show ?case
  proof (cases ps)
    case Nil
    with Cons.prems show ?thesis by (simp add: fields_id)
  next
    case (Cons q qs)
    have "fields CHR ''/'' (p @ CHR ''/'' # q @ join_path qs) = p # fields CHR ''/'' (q @ join_path qs)"
      using Cons.prems by (intro fields_append) simp
    moreover have "fields CHR ''/'' (join_path ps) = [] # ps"
      using Cons.IH Cons.prems Cons by simp
    ultimately show ?thesis using Cons by simp
  qed
qed simp

lemma clean_pieces_no_slash: "list_all clean_piece pieces \<Longrightarrow> \<forall>p \<in> set pieces. CHR ''/'' \<notin> set p"
  by (auto simp: list_all_iff clean_piece_def)

lemma simplifyPath_clean: "\<exists>p. simplifyPath path = Some p \<and> clean_path p"
proof -
  have "list_all clean_piece (simplify_loop [] (fields CHR ''/'' path))"
    by (rule simplify_loop_clean) (auto dest: fields_no_delim)
  then show ?thesis unfolding simplifyPath_fields clean_path_def Let_def by blast
qed

lemma simplifyPath_id: "clean_path p \<Longrightarrow> simplifyPath p = Some p"
proof -
  assume "clean_path p"
  then obtain pieces where c: "list_all clean_piece pieces"
    and p: "p = (if pieces = [] then ''/'' else join_path pieces)"
    by (auto simp: clean_path_def)
  show ?thesis
  proof (cases "pieces = []")
    case True
    with p show ?thesis by (simp add: simplifyPath_fields)
  next
    case False
    then show ?thesis
      using c p fields_join_path [OF clean_pieces_no_slash [OF c]] simplify_loop_id [OF c, of "[]"]
      by (simp add: simplifyPath_fields Let_def)
  qed
qed

lemma simplifyPath_cwd_absolute:
  "simplifyPath_cwd cwd (CHR ''/'' # path) = simplifyPath (CHR ''/'' # path)"
  by (simp add: simplifyPath_cwd_def simplifyPath_def Let_def)

lemma simplifyPath_cwd_relative:
  "path \<noteq> [] \<Longrightarrow> hd path \<noteq> CHR ''/'' \<Longrightarrow> cwd \<noteq> [] \<Longrightarrow> last cwd \<noteq> CHR ''/'' \<Longrightarrow>
   simplifyPath_cwd cwd path = simplifyPath (cwd @ ''/'' @ path)"
  by (simp add: simplifyPath_cwd_def simplifyPath_def Let_def)


section \<open>pathFirst\<close>

text \<open>The first component and the remainder the code stores through \<open>remainder\<close>.\<close>

definition pathFirst :: "string \<Rightarrow> string option \<times> string" where
  "pathFirst path0 =
     (if path0 = [] then (None, [])
      else let path = (if hd path0 = CHR ''/'' then substr path0 1 (length path0) else path0);
               cnt = length (takeWhile (\<lambda>x. x \<noteq> CHR ''/'') path);
               out = substr path 0 cnt;
               lst = substr path cnt (length path)
           in (Some out, if cnt = length path \<or> lst = ''/'' then [] else lst))"

lemma pathFirst_join_path:
  assumes "CHR ''/'' \<notin> set p" and "[] \<notin> set ps"
  shows "pathFirst (join_path (p # ps)) = (Some p, join_path ps)"
proof -
  have tw: "takeWhile (\<lambda>x. x \<noteq> CHR ''/'') (p @ join_path ps) = p"
  proof (cases ps)
    case Nil
    then show ?thesis using assms by (auto simp: takeWhile_eq_all_conv)
  next
    case (Cons q qs)
    then show ?thesis using assms by (auto intro: takeWhile_prefix)
  qed
  have "join_path ps \<noteq> ''/''"
    using assms(2) by (cases ps) auto
  then show ?thesis using tw
    by (simp add: pathFirst_def Let_def substr_def)
qed


section \<open>pathLast and pathParent\<close>

text \<open>The backward loop: the last slash below index \<open>n\<close>, or -1.\<close>

primrec last_slash :: "string \<Rightarrow> nat \<Rightarrow> int" where
  "last_slash path 0 = -1"
| "last_slash path (Suc i) = (if path ! i = CHR ''/'' then int i else last_slash path i)"

definition pathLast :: "string option \<Rightarrow> string option" where
  "pathLast path_ptr = (case path_ptr of None \<Rightarrow> None | Some path \<Rightarrow>
     let len = length path in
     if len = 0 then Some []
     else
       let terminal_slash = (path ! (len - 1) = CHR ''/'') in
       if len = 1 \<and> terminal_slash then Some []
       else
         let slash = last_slash path (len - 1) in
         if slash = -1 then
           (if \<not> terminal_slash then Some path else Some (take (len - 1) path))
         else
           let out_len = nat (int len - slash - 1 - (if terminal_slash then 1 else 0))
           in Some (substr (drop (nat (slash + 1)) path) 0 out_len))"

definition pathParent :: "string option \<Rightarrow> string option" where
  "pathParent path_ptr = (case path_ptr of None \<Rightarrow> None | Some path \<Rightarrow>
     let len = length path in
     if len = 0 then Some ''/''
     else
       let terminal_slash = (path ! (len - 1) = CHR ''/'') in
       if len = 1 \<and> terminal_slash then Some ''/''
       else
         let slash = last_slash path (len - 1) in
         if slash = -1 then Some []
         else if slash = 0 then Some ''/''
         else Some (take (nat slash) path))"

lemma last_slash_none: "CHR ''/'' \<notin> set (take n path) \<Longrightarrow> n \<le> length path \<Longrightarrow> last_slash path n = -1"
proof (induction n)
  case (Suc n)
  have "take (Suc n) path = take n path @ [path ! n]"
    using Suc.prems by (simp add: take_Suc_conv_app_nth)
  with Suc show ?case by auto
qed simp

lemma last_slash_split:
  "CHR ''/'' \<notin> set ys \<Longrightarrow> k \<le> length ys \<Longrightarrow>
   last_slash (xs @ CHR ''/'' # ys @ zs) (length xs + 1 + k) = int (length xs)"
proof (induction k)
  case (Suc k)
  then have "(xs @ CHR ''/'' # ys @ zs) ! (length xs + 1 + k) = ys ! k"
    by (simp add: nth_append)
  moreover have "ys ! k \<noteq> CHR ''/''" using Suc.prems by (metis Suc_le_lessD nth_mem)
  ultimately show ?case using Suc by simp
qed (simp add: nth_append)

text \<open>Taking a path apart at its last component; a slash at the end is ignored.\<close>

lemma last_slash_path:
  assumes b: "b \<noteq> []" "CHR ''/'' \<notin> set b" and t: "t = [] \<or> t = ''/''"
  shows "last_slash (d @ CHR ''/'' # b @ t) (length (d @ CHR ''/'' # b @ t) - 1) = int (length d)"
proof -
  let ?path = "d @ CHR ''/'' # b @ t"
  have k: "length ?path - 1 = length d + 1 + (length b + length t - 1)" and "length b + length t - 1 \<le> length b"
    using b t by auto
  then show ?thesis
    unfolding k using b by (intro last_slash_split)
qed

lemma terminal_slash_path:
  assumes b: "b \<noteq> []" "CHR ''/'' \<notin> set b" and t: "t = [] \<or> t = ''/''"
  shows "(d @ CHR ''/'' # b @ t) ! (length (d @ CHR ''/'' # b @ t) - 1) = CHR ''/'' \<longleftrightarrow> t \<noteq> []"
proof -
  have "(d @ CHR ''/'' # b @ t) ! (length (d @ CHR ''/'' # b @ t) - 1) = last (d @ CHR ''/'' # b @ t)"
    by (subst last_conv_nth) auto
  moreover have "last b \<noteq> CHR ''/''" using b by (metis last_in_set)
  ultimately show ?thesis using b t by auto
qed

lemma pathLast_component:
  assumes b: "b \<noteq> []" "CHR ''/'' \<notin> set b" and t: "t = [] \<or> t = ''/''"
  shows "pathLast (Some (d @ ''/'' @ b @ t)) = Some b"
proof -
  let ?path = "d @ CHR ''/'' # b @ t"
  have "pathLast (Some ?path) =
      Some (substr (b @ t) 0 (nat (int (length b + length t) - (if t \<noteq> [] then 1 else 0))))"
    using last_slash_path [OF assms, of d] terminal_slash_path [OF assms, of d] b
    by (auto simp: pathLast_def Let_def nat_add_distrib)
  moreover have "nat (int (length b + length t) - (if t \<noteq> [] then 1 else 0)) = length b"
    using t by auto
  ultimately show ?thesis by (simp add: substr_def)
qed

lemma pathParent_component:
  assumes b: "b \<noteq> []" "CHR ''/'' \<notin> set b" and t: "t = [] \<or> t = ''/''"
  shows "pathParent (Some (d @ ''/'' @ b @ t)) = Some (if d = [] then ''/'' else d)"
  using last_slash_path [OF assms, of d] b
  by (auto simp: pathParent_def Let_def)

section \<open>Properties\<close>

text \<open>C16. \<open>simplifyPath\<close> always returns a clean absolute path (no empty, \<open>.\<close> or \<open>..\<close> component), and simplifying it
  again changes nothing.\<close>

theorem simplifyPath_normal_form:
  "\<exists>p. simplifyPath path = Some p \<and> clean_path p \<and> simplifyPath p = Some p"
  using simplifyPath_clean simplifyPath_id by blast

text \<open>C39. \<open>pathLast\<close> and \<open>pathParent\<close> split a path at its last component, with or without a slash at the end: the
  parent of a component of the root is \<open>/\<close>, and joining the parts gives the path back.\<close>

theorem path_last_and_parent:
  assumes "b \<noteq> []" and "CHR ''/'' \<notin> set b" and "t = [] \<or> t = ''/''"
  shows "pathLast (Some (d @ ''/'' @ b @ t)) = Some b \<and>
    pathParent (Some (d @ ''/'' @ b @ t)) = Some (if d = [] then ''/'' else d)"
  using pathLast_component [OF assms] pathParent_component [OF assms] by blast

theorem path_last_and_parent_witness:
  "pathLast (Some ''/usr/bin/'') = Some ''bin'' \<and> pathParent (Some ''/usr/bin/'') = Some ''/usr''"
  using path_last_and_parent [of "''bin''" "''/''" "''/usr''"] by simp

end
