(* ===== verification/ThornFAT.thy ===== *)
theory ThornFAT
  imports Partition Dir_Entry Paths
begin

text \<open>
  The file system driver \<open>ThornFATDriver\<close> (\<open>src/fs/ThornFAT/ThornFAT.cpp\<close>,
  \<open>include/fs/ThornFAT/ThornFAT.h\<close>), method by method, in the order of the source. A method
  takes the virtual table of the disk behind the partition and the driver's state.

  Integers keep their C++ types. A \<open>block_t\<close> (\<open>int32_t\<close>) is an \<open>int\<close>; it becomes a
  \<open>size_t\<close> argument through \<open>u64\<close>. The product of a \<open>block_t\<close> and the \<open>uint32_t\<close> block size
  is a \<open>uint32_t\<close> (\<open>u32\<close>); with a \<open>size_t\<close> block size it is a \<open>size_t\<close> (\<open>u64\<close>).

  The debug macros print when \<open>IFLOGDBG\<close> is \<open>if (1)\<close>, as it is, so a \<open>readFAT\<close> or a
  division among their arguments is executed and is part of the model; the text is not.
\<close>

text \<open>Error numbers (generic Linux values of the C library's \<open>errno.h\<close>).\<close>

abbreviation (input) ENOENT :: int where "ENOENT \<equiv> 2"
abbreviation (input) EIO :: int where "EIO \<equiv> 5"
abbreviation (input) EEXIST :: int where "EEXIST \<equiv> 17"
abbreviation (input) ENOTDIR :: int where "ENOTDIR \<equiv> 20"
abbreviation (input) EISDIR :: int where "EISDIR \<equiv> 21"
abbreviation (input) EINVAL :: int where "EINVAL \<equiv> 22"
abbreviation (input) ENOSPC :: int where "ENOSPC \<equiv> 28"
abbreviation (input) ENAMETOOLONG :: int where "ENAMETOOLONG \<equiv> 36"
abbreviation (input) ENOTEMPTY :: int where "ENOTEMPTY \<equiv> 39"

definition MAGIC :: nat where "MAGIC = 0xfa91283e"
definition MINBLOCKS :: nat where "MINBLOCKS = 3"

record 'd driver =
  partition :: "'d partition"
  sblk :: superblock
  blocksFree :: int
  root :: dirent
  writeOffset :: nat

abbreviation bsize :: "'d driver \<Rightarrow> nat" where
  "bsize s \<equiv> blockSize (sblk s)"

text \<open>\<open>partition->read\<close> and \<open>partition->write\<close> on the driver's partition.\<close>

definition pread :: "'d storage \<Rightarrow> nat \<Rightarrow> nat \<Rightarrow> 'd driver \<Rightarrow> ((int \<times> byte list) \<times> 'd driver) option" where
  "pread ops n off s = do {
     (r, p) \<leftarrow> partition_read ops n off (partition s);
     Some (r, s\<lparr>partition := p\<rparr>)
   }"

definition pwrite :: "'d storage \<Rightarrow> byte list \<Rightarrow> nat \<Rightarrow> 'd driver \<Rightarrow> (int \<times> 'd driver) option" where
  "pwrite ops bs off s = do {
     (status, p) \<leftarrow> partition_write ops bs off (partition s);
     Some (status, s\<lparr>partition := p\<rparr>)
   }"


section \<open>Superblock and construction\<close>

text \<open>\<open>CHECKS\<close> ends in \<open>Kernel::perish\<close> when the status is not 0.\<close>

definition readSuperblock :: "'d storage \<Rightarrow> 'd driver \<Rightarrow> (int \<times> 'd driver) option" where
  "readSuperblock ops s = do {
     ((status, bs), s) \<leftarrow> pread ops sizeof_Superblock 0 s;
     if status \<noteq> 0 then None
     else Some (- status, s\<lparr>sblk := decode_superblock bs\<rparr>)
   }"

text \<open>The constructor; \<open>sb0\<close> is what the uninitialised member \<open>superblock\<close> holds before.\<close>

definition new_driver :: "'d storage \<Rightarrow> superblock \<Rightarrow> 'd partition \<Rightarrow> (unit \<times> 'd driver) option" where
  "new_driver ops sb0 p = do {
     (_, s) \<leftarrow> readSuperblock ops
        \<lparr>partition = p, sblk = sb0, blocksFree = -1,
         root = default_dirent\<lparr>startBlock := UNUSABLE\<rparr>, writeOffset = 0\<rparr>;
     Some ((), s)
   }"


section \<open>The file allocation table\<close>

text \<open>
  An entry of the table. A negative status of the partition comes back as if it were the entry;
  a short transfer leaves the variable undefined.
\<close>

definition fat_offset :: "superblock \<Rightarrow> nat \<Rightarrow> nat" where
  "fat_offset sb block_offset = wrap64 (blockSize sb + block_offset * sizeof_block)"

definition readFAT :: "'d storage \<Rightarrow> nat \<Rightarrow> 'd driver \<Rightarrow> (int \<times> 'd driver) option" where
  "readFAT ops block_offset s = do {
     ((status, bs), s) \<leftarrow> pread ops sizeof_block (fat_offset (sblk s) block_offset) s;
     if status < 0 then Some (status, s)
     else if length bs = sizeof_block then Some (i32 (le_nat bs), s)
     else None
   }"

definition writeFAT :: "'d storage \<Rightarrow> int \<Rightarrow> nat \<Rightarrow> 'd driver \<Rightarrow> (int \<times> 'd driver) option" where
  "writeFAT ops block block_offset s = do {
     (status, s) \<leftarrow> pwrite ops (le_bytes sizeof_block (u32 block)) (fat_offset (sblk s) block_offset) s;
     if status < 0 then Some (status, s) else Some (0, s)
   }"

text \<open>\<open>findFreeBlock\<close>: \<open>n\<close> blocks from \<open>i\<close> on are left to try.\<close>

primrec findFreeBlock_loop :: "'d storage \<Rightarrow> nat \<Rightarrow> nat \<Rightarrow> 'd driver \<Rightarrow> (int \<times> 'd driver) option" where
  "findFreeBlock_loop ops 0 i s = Some (UNUSABLE, s)"
| "findFreeBlock_loop ops (Suc n) i s = do {
     (entry, s) \<leftarrow> readFAT ops i s;
     if entry = 0 then Some (i32 i, s) else findFreeBlock_loop ops n (Suc i) s
   }"

definition findFreeBlock :: "'d storage \<Rightarrow> 'd driver \<Rightarrow> (int \<times> 'd driver) option" where
  "findFreeBlock ops s = findFreeBlock_loop ops (blockCount (sblk s)) 0 s"

primrec hasFree_loop :: "'d storage \<Rightarrow> nat \<Rightarrow> nat \<Rightarrow> nat \<Rightarrow> nat \<Rightarrow> 'd driver \<Rightarrow> (bool \<times> 'd driver) option" where
  "hasFree_loop ops cnt 0 i scanned s = Some (False, s)"
| "hasFree_loop ops cnt (Suc n) i scanned s = do {
     (entry, s) \<leftarrow> readFAT ops i s;
     let scanned = (if entry = 0 then Suc scanned else scanned);
     if entry = 0 \<and> cnt \<le> scanned then Some (True, s) else hasFree_loop ops cnt n (Suc i) scanned s
   }"

definition hasFree :: "'d storage \<Rightarrow> nat \<Rightarrow> 'd driver \<Rightarrow> (bool \<times> 'd driver) option" where
  "hasFree ops cnt s = hasFree_loop ops cnt (blockCount (sblk s)) 0 0 s"

text \<open>\<open>countFree\<close> goes down from \<open>blockCount - 1\<close> in an \<open>int\<close>, and keeps its result in \<open>blocksFree\<close>.\<close>

primrec countFree_loop :: "'d storage \<Rightarrow> nat \<Rightarrow> 'd driver \<Rightarrow> (unit \<times> 'd driver) option" where
  "countFree_loop ops 0 s = Some ((), s)"
| "countFree_loop ops (Suc i) s = do {
     (entry, s) \<leftarrow> readFAT ops i s;
     countFree_loop ops i (if entry = 0 then s\<lparr>blocksFree := blocksFree s + 1\<rparr> else s)
   }"

definition countFree :: "'d storage \<Rightarrow> 'd driver \<Rightarrow> (int \<times> 'd driver) option" where
  "countFree ops s =
     (if 0 \<le> blocksFree s then Some (blocksFree s, s)
      else do {
        (_, s) \<leftarrow> countFree_loop ops (nat (i32 (u64 (int (blockCount (sblk s)) - 1)) + 1)) (s\<lparr>blocksFree := 0\<rparr>);
        Some (blocksFree s, s)
      })"

text \<open>\<open>forget\<close> frees a chain; a chain that runs into itself meets a block it has just freed.\<close>

partial_function (option) forget_loop ::
  "'d storage \<Rightarrow> int \<Rightarrow> nat \<Rightarrow> 'd driver \<Rightarrow> (nat \<times> 'd driver) option" where
  "forget_loop ops block removed s = do {
     (nxt, s) \<leftarrow> readFAT ops (u64 block) s;
     if nxt = FINAL then do {
       (_, s) \<leftarrow> writeFAT ops 0 (u64 block) s;
       Some (Suc removed, s)
     }
     else if 0 < nxt then do {
       (_, s) \<leftarrow> writeFAT ops 0 (u64 block) s;
       forget_loop ops nxt (Suc removed) s
     }
     else Some (removed, s)
   }"

definition forget :: "'d storage \<Rightarrow> int \<Rightarrow> 'd driver \<Rightarrow> (nat \<times> 'd driver) option" where
  "forget ops start s = do {
     (removed, s) \<leftarrow> forget_loop ops start 0 s;
     Some (removed, s\<lparr>blocksFree := blocksFree s + int removed\<rparr>)
   }"

text \<open>\<open>chainLength\<close>; an entry below -2 ends in \<open>DIE\<close>, and a chain that runs into itself never ends.\<close>

partial_function (option) chainLength_loop ::
  "'d storage \<Rightarrow> int \<Rightarrow> nat \<Rightarrow> 'd driver \<Rightarrow> (nat \<times> 'd driver) option" where
  "chainLength_loop ops block len s = do {
     (block, s) \<leftarrow> readFAT ops (u64 block) s;
     if block = FINAL then Some (Suc len, s)
     else if block = 0 then Some (Suc len, s)
     else if block = -1 then Some (Suc len, s)
     else if block < -2 then None
     else chainLength_loop ops block (Suc len) s
   }"

definition chainLength :: "'d storage \<Rightarrow> int \<Rightarrow> 'd driver \<Rightarrow> (nat \<times> 'd driver) option" where
  "chainLength ops start s = do {
     (entry, s) \<leftarrow> readFAT ops (u64 start) s;
     if entry = 0 then Some (0, s) else chainLength_loop ops start 0 s
   }"

text \<open>\<open>checkBlock\<close> spins for ever on a block below 1.\<close>

definition checkBlock :: "int \<Rightarrow> 'd driver \<Rightarrow> (bool \<times> 'd driver) option" where
  "checkBlock block s = (if block < 1 then None else Some (True, s))"

definition isFree :: "'d storage \<Rightarrow> dirent \<Rightarrow> 'd driver \<Rightarrow> (bool \<times> 'd driver) option" where
  "isFree ops entry s =
     (if startBlock entry = 0 then Some (True, s)
      else do {
        (e, s) \<leftarrow> readFAT ops (u64 (startBlock entry)) s;
        Some (e = 0, s)
      })"

definition hasStuff :: "'d storage \<Rightarrow> dirent \<Rightarrow> 'd driver \<Rightarrow> (bool \<times> 'd driver) option" where
  "hasStuff ops entry s =
     (if isFile entry then do { (free, s) \<leftarrow> isFree ops entry s; Some (\<not> free, s) }
      else if isDirectory entry then Some (cstr (dname entry) \<noteq> ''..'' \<and> 0 < dlength entry, s)
      else Some (False, s))"

definition isRoot :: "dirent \<Rightarrow> 'd driver \<Rightarrow> bool" where
  "isRoot entry s \<longleftrightarrow> sbStart (sblk s) = startBlock entry"

text \<open>
  A block size below 4 makes the divisor 0, which faults in the code and is 0 here; \<open>make\<close> calls this after it has
  checked that the block size is at least 640.
\<close>

definition tableSize :: "nat \<Rightarrow> nat \<Rightarrow> nat" where
  "tableSize block_count block_size =
     (if block_count < block_size div sizeof_block then 1
      else updiv block_count (block_size div sizeof_block))"


section \<open>Directory entries\<close>

text \<open>The offset of the root directory: an \<open>int32_t\<close> times a \<open>uint32_t\<close>.\<close>

definition root_offset :: "'d driver \<Rightarrow> nat" where
  "root_offset s = u32 (sbStart (sblk s) * int (bsize s))"

text \<open>
  \<open>writeEntry\<close>. The debug output divides the offset by the block size and looks up the first
  block. Writing the root's entry also writes its copy named \<open>..\<close> in the next slot, and any
  entry that starts where the root does sets the length of the cached root.
\<close>

definition writeEntry :: "'d storage \<Rightarrow> dirent \<Rightarrow> nat \<Rightarrow> 'd driver \<Rightarrow> (int \<times> 'd driver) option" where
  "writeEntry ops dir off s =
     (if bsize s = 0 then None
      else do {
        (_, s) \<leftarrow> readFAT ops (u64 (startBlock dir)) s;
        (status, s) \<leftarrow> pwrite ops (encode_dirent dir) off s;
        if status \<noteq> 0 then Some (- status, s)
        else do {
          (status, s) \<leftarrow>
            (if off = root_offset s then
               pwrite ops (encode_dirent (dir\<lparr>dname := strncpy 256 ''..''\<rparr>)) (wrap64 (off + sizeof_DirEntry)) s
             else Some (0, s));
          if status < 0 then Some (status, s)
          else if startBlock dir = sbStart (sblk s)
          then Some (0, s\<lparr>root := (root s)\<lparr>dlength := dlength dir\<rparr>\<rparr>)
          else Some (0, s)
        }
      })"

text \<open>\<open>getRoot\<close>: the cached entry of the root directory, read from the disk the first time.\<close>

definition getRoot :: "'d storage \<Rightarrow> 'd driver \<Rightarrow> (dirent \<times> 'd driver) option" where
  "getRoot ops s =
     (if startBlock (root s) \<noteq> UNUSABLE then Some (root s, s)
      else do {
        ((status, bs), s) \<leftarrow> pread ops sizeof_DirEntry (root_offset s) s;
        if length bs = sizeof_DirEntry
        then Some (decode_dirent bs, s\<lparr>root := decode_dirent bs\<rparr>)
        else None
      })"


section \<open>Reading files and directories\<close>

text \<open>
  \<open>SHRINK_DIRS\<close>: the loop that walks the surplus blocks of a directory. It leaves off when the
  next block is past \<open>fatBlocks\<close>, the number of blocks of the table.
\<close>

partial_function (option) shrink_loop :: "'d storage \<Rightarrow> int \<Rightarrow> 'd driver \<Rightarrow> (unit \<times> 'd driver) option" where
  "shrink_loop ops shrinkblock s = do {
     (nextblock, s) \<leftarrow> readFAT ops (u64 shrinkblock) s;
     if nextblock = FINAL then Some ((), s)
     else if nextblock = 0 then Some ((), s)
     else if i32 (fatBlocks (sblk s)) \<le> nextblock then Some ((), s)
     else do {
       (_, s) \<leftarrow> writeFAT ops 0 (u64 shrinkblock) s;
       shrink_loop ops nextblock (s\<lparr>blocksFree := blocksFree s + 1\<rparr>)
     }
   }"

text \<open>
  \<open>readFile\<close>: status and the contents of \<open>out\<close>. The last block is read first and then the table
  must end there; before, a chain that ends too early is \<open>-EINVAL\<close>. A file that is no directory
  is only warned about (with one more look at the table).
\<close>

partial_function (option) readFile_loop ::
  "'d storage \<Rightarrow> dirent \<Rightarrow> nat \<Rightarrow> int \<Rightarrow> byte list \<Rightarrow> 'd driver \<Rightarrow> ((int \<times> byte list) \<times> 'd driver) option" where
  "readFile_loop ops file remaining block out s =
     (let bs = bsize s; position = u32 (block * int (bsize s)) in
      if remaining = 0 then Some ((0, out), s)
      else if remaining \<le> bs then do {
        (_, s) \<leftarrow> checkBlock block s;
        ((status, got), s) \<leftarrow> pread ops remaining position s;
        if status < 0 then Some ((status, out), s)
        else do {
          (nextblock, s) \<leftarrow> readFAT ops (u64 block) s;
          (_, s) \<leftarrow>
            (if nextblock \<noteq> FINAL then
               (if \<not> isDirectory file then do { (_, s) \<leftarrow> readFAT ops (u64 block) s; Some ((), s) }
                else do {
                  (_, s) \<leftarrow> writeFAT ops FINAL (u64 block) s;
                  shrink_loop ops nextblock s
                })
             else Some ((), s));
          Some ((0, out @ got), s)
        }
      }
      else do {
        (entry, s) \<leftarrow> readFAT ops (u64 block) s;
        if entry = FINAL then Some ((- EINVAL, out), s)
        else do {
          (_, s) \<leftarrow> checkBlock block s;
          ((status, got), s) \<leftarrow> pread ops bs position s;
          if status < 0 then Some ((status, out), s)
          else do {
            (nextblock, s) \<leftarrow> readFAT ops (u64 block) s;
            readFile_loop ops file (remaining - bs) nextblock (out @ got) s
          }
        }
      })"

definition readFile :: "'d storage \<Rightarrow> dirent \<Rightarrow> 'd driver \<Rightarrow> ((int \<times> byte list) \<times> 'd driver) option" where
  "readFile ops file s =
     (if dlength file = 0 then Some ((0, []), s)
      else readFile_loop ops file (dlength file) (startBlock file) [] s)"

text \<open>
  The offsets of the \<open>n\<close> entries from index \<open>i\<close> on; the table is looked up after the last entry
  of each block. \<open>i % entries_per_block\<close> faults when a block holds no entry.
\<close>

primrec readDir_offsets ::
  "'d storage \<Rightarrow> nat \<Rightarrow> nat \<Rightarrow> int \<Rightarrow> 'd driver \<Rightarrow> (nat list \<times> 'd driver) option" where
  "readDir_offsets ops 0 i block s = Some ([], s)"
| "readDir_offsets ops (Suc n) i block s =
     (let entries_per_block = bsize s div sizeof_DirEntry in
      if entries_per_block = 0 then None
      else do {
        let rem = i mod entries_per_block;
        let off = u32 (block * int (bsize s)) + rem * sizeof_DirEntry;
        (block, s) \<leftarrow>
          (if rem = entries_per_block - 1 then readFAT ops (u64 block) s else Some (block, s));
        (offs, s) \<leftarrow> readDir_offsets ops n (Suc i) block s;
        Some (off # offs, s)
      })"

text \<open>
  \<open>readDir\<close>: status, entries, offsets and what is stored in \<open>first_index\<close> (\<open>None\<close> when the
  first entry is named neither \<open>.\<close> nor \<open>..\<close> and the variable is left alone). Copying the first
  name reads \<open>THORNFAT_PATH_MAX\<close> bytes whatever the size of the vector.
\<close>

record listing =
  l_entries :: "dirent list"
  l_offsets :: "nat list"
  l_first :: "nat option"

definition no_listing :: listing where
  "no_listing = \<lparr>l_entries = [], l_offsets = [], l_first = None\<rparr>"

definition readDir :: "'d storage \<Rightarrow> dirent \<Rightarrow> 'd driver \<Rightarrow> ((int \<times> listing) \<times> 'd driver) option" where
  "readDir ops dir s =
     (if dlength dir = 0 \<or> \<not> isDirectory dir then Some ((- ENOTDIR, no_listing), s)
      else do {
        let cnt = dlength dir div sizeof_DirEntry;
        ((status, raw), s) \<leftarrow> readFile ops dir s;
        if status < 0 then Some ((status, no_listing), s)
        else if length raw < THORNFAT_PATH_MAX then None
        else do {
          let first_name = cstr (take THORNFAT_PATH_MAX raw);
          (offs, s) \<leftarrow> readDir_offsets ops cnt 0 (startBlock dir) s;
          Some ((0, \<lparr>l_entries = map (\<lambda>i. decode_dirent (take sizeof_DirEntry (drop (sizeof_DirEntry * i) raw))) [0..<cnt],
                     l_offsets = offs,
                     l_first = (if first_name = ''.'' then Some 2 else if first_name = ''..'' then Some 1 else None)\<rparr>), s)
        }
      })"

text \<open>
  The loop over the entries of a directory in \<open>find\<close>: the first entry with the name that is not
  free, with its offset.
\<close>

fun find_entry ::
  "'d storage \<Rightarrow> string \<Rightarrow> dirent list \<Rightarrow> nat list \<Rightarrow> 'd driver \<Rightarrow> ((dirent \<times> nat) option \<times> 'd driver) option" where
  "find_entry ops search (entry # es) (off # offs) s =
     (if search = cstr (dname entry) then do {
        (free, s) \<leftarrow> isFree ops entry s;
        if \<not> free then Some (Some (entry, off), s)
        else find_entry ops search es offs s
      }
      else find_entry ops search es offs s)"
| "find_entry ops search es offs s = Some (None, s)"

text \<open>What \<open>find\<close> stores through \<open>out\<close>, \<open>offset\<close> and \<open>last_name\<close> when it succeeds.\<close>

record found =
  f_entry :: dirent
  f_offset :: nat
  f_last :: string

definition no_found :: found where
  "no_found = \<lparr>f_entry = default_dirent, f_offset = 0, f_last = []\<rparr>"

partial_function (option) find_loop ::
  "'d storage \<Rightarrow> string \<Rightarrow> dirent \<Rightarrow> nat \<Rightarrow> bool \<Rightarrow> 'd driver \<Rightarrow> ((int \<times> found) \<times> 'd driver) option" where
  "find_loop ops remaining dir dir_offset get_parent s =
     (let search = fst (pathFirst remaining);
          newpath = snd (pathFirst remaining);
          at_end = (newpath = [] \<or> search = None)
      in if at_end \<and> get_parent then
           Some ((0, \<lparr>f_entry = dir, f_offset = dir_offset, f_last = (case search of None \<Rightarrow> [] | Some n \<Rightarrow> n)\<rparr>), s)
         else case search of
           None \<Rightarrow> Some ((- ENOENT, no_found), s)
         | Some name \<Rightarrow> do {
             ((status, ls), s) \<leftarrow> readDir ops dir s;
             if status < 0 then Some ((status, no_found), s)
             else do {
               (match, s) \<leftarrow> find_entry ops name (l_entries ls) (l_offsets ls) s;
               case match of
                 None \<Rightarrow> Some ((- ENOENT, no_found), s)
               | Some (entry, off) \<Rightarrow>
                   if isFile entry then
                     (if at_end then Some ((0, \<lparr>f_entry = entry, f_offset = off, f_last = []\<rparr>), s)
                      else Some ((- ENOTDIR, no_found), s))
                   else if at_end then Some ((0, \<lparr>f_entry = entry, f_offset = off, f_last = []\<rparr>), s)
                   else if newpath = [] then Some ((- EIO, no_found), s)
                   else find_loop ops newpath entry off get_parent s
             }
           })"

definition find_path :: "'d storage \<Rightarrow> string \<Rightarrow> bool \<Rightarrow> 'd driver \<Rightarrow> ((int \<times> found) \<times> 'd driver) option" where
  "find_path ops path get_parent s =
     (if path = ''/'' \<or> path = [] then do {
        (rootdir, s) \<leftarrow> getRoot ops s;
        Some ((0, \<lparr>f_entry = rootdir, f_offset = root_offset s, f_last = []\<rparr>), s)
      }
      else do {
        (dir, s) \<leftarrow> getRoot ops s;
        find_loop ops path dir (root_offset s) get_parent s
      })"



section \<open>Making, removing and resizing files\<close>

text \<open>
  \<open>newFile\<close>, in parts. The first free entry of the parent directory from an index on; the walk to
  the last block of the parent; the four scenarios, which end in an early return (\<open>Inl\<close>) or with
  the new entry, its offset and whether the parent grows; the loop that allocates the rest of the
  file's blocks.
\<close>

primrec newFile_slot :: "'d storage \<Rightarrow> dirent list \<Rightarrow> nat \<Rightarrow> 'd driver \<Rightarrow> (nat option \<times> 'd driver) option" where
  "newFile_slot ops [] i s = Some (None, s)"
| "newFile_slot ops (e # es) i s = do {
     (free, s) \<leftarrow> isFree ops e s;
     if free then Some (Some i, s) else newFile_slot ops es (Suc i) s
   }"

partial_function (option) newFile_skip ::
  "'d storage \<Rightarrow> nat \<Rightarrow> int \<Rightarrow> 'd driver \<Rightarrow> ((nat \<times> int) \<times> 'd driver) option" where
  "newFile_skip ops remaining block s =
     (if bsize s < remaining then do {
        (block, s) \<leftarrow> readFAT ops (u64 block) s;
        newFile_skip ops (remaining - bsize s) block s
      }
      else Some ((remaining, block), s))"

definition newFile_grow ::
  "'d storage \<Rightarrow> bool \<Rightarrow> nat \<Rightarrow> int \<Rightarrow> int \<Rightarrow> dirent \<Rightarrow> 'd driver \<Rightarrow>
     ((int + dirent \<times> nat \<times> bool) \<times> 'd driver) option" where
  "newFile_grow ops noalloc block_c old_free_block block newfile s = do {
     (enough, s) \<leftarrow> hasFree ops (if noalloc then 1 else wrap64 (2 + block_c)) s;
     if \<not> enough then do {
       (_, s) \<leftarrow> (if noalloc then Some (0, s) else writeFAT ops 0 (u64 old_free_block) s);
       Some (Inl (- ENOSPC), s)
     }
     else do {
       (_, s) \<leftarrow> writeFAT ops block (u64 old_free_block) s;
       let block = old_free_block;
       (free_block, s) \<leftarrow> (if noalloc then Some (0, s) else findFreeBlock ops s);
       if \<not> noalloc \<and> free_block = UNUSABLE then do {
         (_, s) \<leftarrow> writeFAT ops 0 (u64 old_free_block) s;
         Some (Inl (- ENOSPC), s)
       }
       else do {
         let s = (if noalloc then s else s\<lparr>blocksFree := blocksFree s - 1\<rparr>);
         let newfile = (if noalloc then newfile else newfile\<lparr>startBlock := free_block\<rparr>);
         let off = u64 (block * int (bsize s));
         (status, s) \<leftarrow> writeEntry ops newfile off s;
         if status < 0 then Some (Inl status, s) else Some (Inr (newfile, off, True), s)
       }
     }
   }"

definition newFile_place ::
  "'d storage \<Rightarrow> bool \<Rightarrow> nat \<Rightarrow> int \<Rightarrow> dirent \<Rightarrow> dirent \<Rightarrow> (nat \<times> nat) option \<Rightarrow> 'd driver \<Rightarrow>
     ((int + dirent \<times> nat \<times> bool) \<times> 'd driver) option" where
  "newFile_place ops noalloc block_c old_free_block parent newfile slot s =
     (case slot of
        Some (i, off) \<Rightarrow> do {
          (status, s) \<leftarrow> writeEntry ops newfile off s;
          if status < 0 then Some (Inl status, s)
          else Some (Inr (newfile, off, \<not> i < dlength parent div sizeof_DirEntry), s)
        }
      | None \<Rightarrow>
          if dlength parent \<le> u64 (int (bsize s) - int sizeof_DirEntry) then do {
            (enough, s) \<leftarrow> (if noalloc then Some (True, s) else hasFree ops block_c s);
            if \<not> enough then do {
              (_, s) \<leftarrow> writeFAT ops 0 (u64 old_free_block) s;
              Some (Inl (- ENOSPC), s)
            }
            else do {
              let off = u64 (startBlock parent * int (bsize s) + int (dlength parent));
              (status, s) \<leftarrow> writeEntry ops newfile off s;
              if status < 0 then Some (Inl status, s) else Some (Inr (newfile, off, True), s)
            }
          }
          else do {
            ((remaining, block), s) \<leftarrow> newFile_skip ops (dlength parent) (startBlock parent) s;
            if u64 (int (bsize s) - int sizeof_DirEntry) < remaining
            then newFile_grow ops noalloc block_c old_free_block block newfile s
            else do {
              let off = u64 (block * int (bsize s) + int remaining);
              (status, s) \<leftarrow> writeEntry ops newfile off s;
              if status < 0 then Some (Inl status, s) else Some (Inr (newfile, off, True), s)
            }
          })"

partial_function (option) newFile_alloc ::
  "'d storage \<Rightarrow> int \<Rightarrow> nat \<Rightarrow> int \<Rightarrow> 'd driver \<Rightarrow> (int \<times> 'd driver) option" where
  "newFile_alloc ops old_free_block size_left block s =
     (if bsize s < size_left then do {
        (another_free_block, s) \<leftarrow> findFreeBlock ops s;
        if another_free_block = UNUSABLE then do {
          (_, s) \<leftarrow> writeFAT ops FINAL (u64 block) s;
          (_, s) \<leftarrow> writeFAT ops 0 (u64 old_free_block) (s\<lparr>blocksFree := -1\<rparr>);
          (_, s) \<leftarrow> countFree ops s;
          Some (- ENOSPC, s)
        }
        else do {
          (_, s) \<leftarrow> writeFAT ops another_free_block (u64 block) (s\<lparr>blocksFree := blocksFree s - 1\<rparr>);
          newFile_alloc ops old_free_block (size_left - bsize s) another_free_block s
        }
      }
      else do {
        (_, s) \<leftarrow> writeFAT ops FINAL (u64 block) s;
        Some (0, s)
      })"

text \<open>
  What \<open>newFile\<close> stores through \<open>dir_out\<close>, \<open>offset_out\<close>, \<open>parent_dir_out\<close> and
  \<open>parent_offset_out\<close> when it succeeds. A parent whose first entry is neither \<open>.\<close> nor \<open>..\<close> leaves
  the index of the search undefined.
\<close>

record created =
  n_entry :: dirent
  n_offset :: nat
  n_parent :: dirent
  n_parent_offset :: nat

definition no_created :: created where
  "no_created = \<lparr>n_entry = default_dirent, n_offset = 0, n_parent = default_dirent, n_parent_offset = 0\<rparr>"

definition newFile ::
  "'d storage \<Rightarrow> string \<Rightarrow> nat \<Rightarrow> int \<Rightarrow> times option \<Rightarrow> bool \<Rightarrow> 'd driver \<Rightarrow> ((int \<times> created) \<times> 'd driver) option" where
  "newFile ops path len type ts noalloc s = do {
     ((status, pf), s) \<leftarrow> find_path ops path True s;
     let parent = f_entry pf;
     let parent_offset = f_offset pf;
     let parent_is_new = (if status = 1 then 1 else 0);
     if status < 0 \<and> status \<noteq> - ENOENT then Some ((status, no_created), s)
     else if THORNFAT_PATH_MAX < length (f_last pf) then Some ((- ENAMETOOLONG, no_created), s)
     else do {
       let newfile = new_dirent (case ts of None \<Rightarrow> zero_times | Some t \<Rightarrow> t) len type;
       (free_block, s) \<leftarrow> findFreeBlock ops s;
       if \<not> noalloc \<and> free_block = UNUSABLE then Some ((- ENOSPC, no_created), s)
       else do {
         (newfile, s) \<leftarrow>
           (if noalloc then Some (newfile\<lparr>startBlock := 0\<rparr>, s)
            else do {
              (_, s) \<leftarrow> writeFAT ops FINAL (u64 free_block) s;
              Some (newfile\<lparr>startBlock := free_block,
                      dname := str_bytes (f_last pf) @ drop (length (f_last pf)) (dname newfile)\<rparr>,
                    s\<lparr>blocksFree := blocksFree s - 1\<rparr>)
            });
         ((status, ls), s) \<leftarrow> readDir ops parent s;
         if status < 0 then Some ((status, no_created), s)
         else case l_first ls of
           None \<Rightarrow> None
         | Some first_index \<Rightarrow> do {
             (slot, s) \<leftarrow> newFile_slot ops (drop first_index (l_entries ls)) first_index s;
             if bsize s = 0 then None
             else do {
               (placed, s) \<leftarrow>
                 newFile_place ops noalloc (updiv len (bsize s)) free_block parent newfile
                   (map_option (\<lambda>i. (i, l_offsets ls ! i)) slot) s;
               case placed of
                 Inl status \<Rightarrow> Some ((status, no_created), s)
               | Inr (newfile, off, increase_parent_length) \<Rightarrow> do {
                   let parent = (if increase_parent_length
                                 then parent\<lparr>dlength := wrap64 (dlength parent + sizeof_DirEntry)\<rparr> else parent);
                   (status, s) \<leftarrow>
                     (if increase_parent_length then writeEntry ops parent parent_offset s else Some (0, s));
                   if status < 0 then Some ((status, no_created), s)
                   else do {
                     (status, s) \<leftarrow>
                       (if noalloc then Some (0, s)
                        else newFile_alloc ops free_block len (startBlock newfile) s);
                     if status < 0 then Some ((status, no_created), s)
                     else Some ((parent_is_new,
                       \<lparr>n_entry = newfile, n_offset = off, n_parent = parent, n_parent_offset = parent_offset\<rparr>), s)
                   }
                 }
             }
           }
       }
     }
   }"

text \<open>\<open>remove\<close>; the debug output looks up the first block of the file.\<close>

definition remove :: "'d storage \<Rightarrow> string \<Rightarrow> 'd driver \<Rightarrow> (int \<times> 'd driver) option" where
  "remove ops path s = do {
     ((status, f), s) \<leftarrow> find_path ops path False s;
     if status < 0 then Some (status, s)
     else if isDirectory (f_entry f) then Some (- EISDIR, s)
     else do {
       let entry = f_entry f;
       (_, s) \<leftarrow> readFAT ops (u64 (startBlock entry)) s;
       (_, s) \<leftarrow> forget ops (startBlock entry) s;
       (_, s) \<leftarrow> writeEntry ops (entry\<lparr>startBlock := 0\<rparr>) (f_offset f) s;
       Some (0, s)
     }
   }"

text \<open>
  \<open>zeroOutFree\<close> overwrites the end of a file, 1024 bytes at a time, from the new end on; the
  positions are contiguous on the disk.
\<close>

partial_function (option) zeroOutFree_skip ::
  "'d storage \<Rightarrow> nat \<Rightarrow> int \<Rightarrow> 'd driver \<Rightarrow> ((nat \<times> int) \<times> 'd driver) option" where
  "zeroOutFree_skip ops remaining block s =
     (if bsize s < remaining then do {
        (_, s) \<leftarrow> readFAT ops (u64 block) s;
        (block, s) \<leftarrow> readFAT ops (u64 block) s;
        if block < 1 then None else zeroOutFree_skip ops (remaining - bsize s) block s
      }
      else Some ((remaining, block), s))"

partial_function (option) zeroOutFree_run :: "'d storage \<Rightarrow> nat \<Rightarrow> nat \<Rightarrow> 'd driver \<Rightarrow> (int \<times> 'd driver) option" where
  "zeroOutFree_run ops diff position s =
     (if 1024 \<le> diff then do {
        (status, s) \<leftarrow> pwrite ops (replicate 1024 0) position s;
        if status < 0 then Some (status, s)
        else zeroOutFree_run ops (diff - 1024) (wrap64 (position + 1024)) s
      }
      else if 0 < diff then do {
        (status, s) \<leftarrow> pwrite ops (replicate diff 0) position s;
        if status < 0 then Some (status, s) else Some (0, s)
      }
      else Some (0, s))"

definition zeroOutFree :: "'d storage \<Rightarrow> dirent \<Rightarrow> nat \<Rightarrow> 'd driver \<Rightarrow> (int \<times> 'd driver) option" where
  "zeroOutFree ops file new_size s =
     (if bsize s = 0 then None
      else if new_size mod bsize s = 0 then Some (0, s)
      else if dlength file \<le> new_size then Some (0, s)
      else if startBlock file < 1 then None
      else do {
        ((remaining, block), s) \<leftarrow> zeroOutFree_skip ops (u32 (int new_size)) (startBlock file) s;
        zeroOutFree_run ops (dlength file - new_size) (u32 (block * int (bsize s)) + remaining) s
      })"

text \<open>
  \<open>resize\<close> takes the entry by reference, so the entry as it is afterwards is part of the result.
  In C++ \<open>old_c || 1\<close> is the truth value 1.
\<close>

primrec resize_blocks :: "'d storage \<Rightarrow> nat \<Rightarrow> int \<Rightarrow> 'd driver \<Rightarrow> (int list \<times> 'd driver) option" where
  "resize_blocks ops 0 block s = Some ([], s)"
| "resize_blocks ops (Suc n) block s = do {
     (nxt, s) \<leftarrow> readFAT ops (u64 block) s;
     (blocks, s) \<leftarrow> resize_blocks ops n nxt s;
     Some (block # blocks, s)
   }"

primrec resize_free :: "'d storage \<Rightarrow> int list \<Rightarrow> 'd driver \<Rightarrow> (unit \<times> 'd driver) option" where
  "resize_free ops [] s = Some ((), s)"
| "resize_free ops (block # blocks) s = do {
     (_, s) \<leftarrow> writeFAT ops 0 (u64 block) s;
     resize_free ops blocks (s\<lparr>blocksFree := blocksFree s + 1\<rparr>)
   }"

partial_function (option) resize_end :: "'d storage \<Rightarrow> int \<Rightarrow> 'd driver \<Rightarrow> (int \<times> 'd driver) option" where
  "resize_end ops block s = do {
     (new_block, s) \<leftarrow> readFAT ops (u64 block) s;
     if new_block \<le> 0 then Some (block, s)
     else do {
       (block, s) \<leftarrow> readFAT ops (u64 block) s;
       resize_end ops block s
     }
   }"

primrec resize_add :: "'d storage \<Rightarrow> nat \<Rightarrow> int \<Rightarrow> 'd driver \<Rightarrow> (int \<times> 'd driver) option" where
  "resize_add ops 0 block s = Some (0, s)"
| "resize_add ops (Suc n) block s = do {
     (new_block, s) \<leftarrow> findFreeBlock ops s;
     if new_block = -1 then Some (- ENOSPC, s)
     else do {
       (_, s) \<leftarrow> writeFAT ops new_block (u64 block) s;
       (_, s) \<leftarrow> writeFAT ops FINAL (u64 new_block) s;
       resize_add ops n new_block s
     }
   }"

definition resize_shrink ::
  "'d storage \<Rightarrow> dirent \<Rightarrow> nat \<Rightarrow> nat \<Rightarrow> nat \<Rightarrow> nat \<Rightarrow> 'd driver \<Rightarrow> ((int \<times> dirent) \<times> 'd driver) option" where
  "resize_shrink ops file file_offset new_size old_c new_c s = do {
     (blocks, s) \<leftarrow> resize_blocks ops old_c (startBlock file) s;
     (status, s) \<leftarrow> zeroOutFree ops file new_size s;
     if status < 0 then Some ((status, file), s)
     else do {
       (_, s) \<leftarrow> resize_free ops (drop new_c blocks) s;
       (_, s) \<leftarrow> (if 0 < new_c then writeFAT ops FINAL (u64 (blocks ! (new_c - 1))) s else Some (0, s));
       let file = file\<lparr>dlength := new_size\<rparr>;
       (status, s) \<leftarrow> writeEntry ops file file_offset s;
       if status < 0 then Some ((status, file), s) else Some ((0, file), s)
     }
   }"

definition resize_grow ::
  "'d storage \<Rightarrow> dirent \<Rightarrow> nat \<Rightarrow> nat \<Rightarrow> nat \<Rightarrow> nat \<Rightarrow> 'd driver \<Rightarrow> ((int \<times> dirent) \<times> 'd driver) option" where
  "resize_grow ops file file_offset new_size old_c new_c s = do {
     let to_add = new_c - (if old_c \<noteq> 0 \<or> (1::nat) \<noteq> 0 then 1 else 0);
     (enough, s) \<leftarrow> hasFree ops to_add s;
     if \<not> enough then Some ((- ENOSPC, file), s)
     else do {
       (block, s) \<leftarrow> resize_end ops (startBlock file) s;
       (status, s) \<leftarrow> resize_add ops to_add block s;
       if status < 0 then Some ((status, file), s)
       else do {
         let file = file\<lparr>dlength := new_size\<rparr>;
         (_, s) \<leftarrow> writeEntry ops file file_offset (s\<lparr>blocksFree := blocksFree s - int to_add\<rparr>);
         Some ((0, file), s)
       }
     }
   }"

definition resize ::
  "'d storage \<Rightarrow> dirent \<Rightarrow> nat \<Rightarrow> nat \<Rightarrow> 'd driver \<Rightarrow> ((int \<times> dirent) \<times> 'd driver) option" where
  "resize ops file file_offset new_size s =
     (if dlength file = new_size then Some ((0, file), s)
      else if bsize s = 0 then None
      else do {
        let new_c = updiv new_size (bsize s);
        (old_c, s) \<leftarrow> (if startBlock file = 0 then Some (updiv (dlength file) (bsize s), s)
                      else chainLength ops (startBlock file) s);
        if new_size = 0 then do {
          (_, s) \<leftarrow> forget ops (startBlock file) s;
          (_, s) \<leftarrow> writeFAT ops FINAL (u64 (startBlock file)) s;
          let file = file\<lparr>dlength := 0\<rparr>;
          (_, s) \<leftarrow> writeEntry ops file file_offset s;
          Some ((0, file), s)
        }
        else if old_c = new_c then do {
          (status, s) \<leftarrow> (if new_size < dlength file then zeroOutFree ops file new_size s else Some (0, s));
          if status < 0 then Some ((status, file), s)
          else do {
            let file = file\<lparr>dlength := new_size\<rparr>;
            (status, s) \<leftarrow> writeEntry ops file file_offset s;
            if status < 0 then Some ((status, file), s) else Some ((0, file), s)
          }
        }
        else if new_c < old_c then resize_shrink ops file file_offset new_size old_c new_c s
        else resize_grow ops file file_offset new_size old_c new_c s
      })"

text \<open>\<open>directoryEmpty\<close>; \<open>any_stuff\<close> is its loop.\<close>

primrec any_stuff :: "'d storage \<Rightarrow> dirent list \<Rightarrow> 'd driver \<Rightarrow> (bool \<times> 'd driver) option" where
  "any_stuff ops [] s = Some (False, s)"
| "any_stuff ops (e # es) s = do {
     (stuff, s) \<leftarrow> hasStuff ops e s;
     if stuff then Some (True, s) else any_stuff ops es s
   }"

definition directoryEmpty :: "'d storage \<Rightarrow> dirent \<Rightarrow> 'd driver \<Rightarrow> (int \<times> 'd driver) option" where
  "directoryEmpty ops dir s =
     (if \<not> isDirectory dir then Some (0, s)
      else if dlength dir = 0 then Some (1, s)
      else do {
        ((status, ls), s) \<leftarrow> readDir ops dir s;
        if status < 0 then Some (status, s)
        else if length (l_entries ls) \<le> 1 then Some (1, s)
        else do {
          (stuff, s) \<leftarrow> any_stuff ops (l_entries ls) s;
          Some (if stuff then 0 else 1, s)
        }
      })"


section \<open>Formatting\<close>

text \<open>\<open>writeMany\<close> at \<open>block_t\<close> and \<open>write\<close>, which go on from \<open>writeOffset\<close>.\<close>

primrec writeMany :: "'d storage \<Rightarrow> int \<Rightarrow> nat \<Rightarrow> 'd driver \<Rightarrow> (int \<times> 'd driver) option" where
  "writeMany ops n 0 s = Some (0, s)"
| "writeMany ops n (Suc cnt) s = do {
     (status, s) \<leftarrow> pwrite ops (le_bytes sizeof_block (u32 n)) (writeOffset s) s;
     if status \<noteq> 0 then Some (- status, s)
     else writeMany ops n cnt (s\<lparr>writeOffset := wrap64 (writeOffset s + sizeof_block)\<rparr>)
   }"

definition write_next :: "'d storage \<Rightarrow> byte list \<Rightarrow> 'd driver \<Rightarrow> (int \<times> 'd driver) option" where
  "write_next ops bs s = do {
     (status, s) \<leftarrow> pwrite ops bs (writeOffset s) s;
     if status \<noteq> 0 then Some (- status, s)
     else Some (0, s\<lparr>writeOffset := wrap64 (writeOffset s + length bs)\<rparr>)
   }"

text \<open>The zeros of \<open>initFAT\<close>: the last write has what is left over, be it nothing.\<close>

partial_function (option) initFAT_zero :: "'d storage \<Rightarrow> nat \<Rightarrow> nat \<Rightarrow> 'd driver \<Rightarrow> (unit \<times> 'd driver) option" where
  "initFAT_zero ops remaining position s =
     (if 512 \<le> remaining then do {
        (_, s) \<leftarrow> pwrite ops (replicate 512 0) position s;
        initFAT_zero ops (remaining - 512) (wrap64 (position + 512)) s
      }
      else do {
        (_, s) \<leftarrow> pwrite ops (replicate remaining 0) position s;
        Some ((), s)
      })"

definition initFAT :: "'d storage \<Rightarrow> nat \<Rightarrow> nat \<Rightarrow> 'd driver \<Rightarrow> (unit \<times> 'd driver) option" where
  "initFAT ops table_size block_size s = do {
     (_, s) \<leftarrow> initFAT_zero ops (wrap64 (table_size * block_size)) block_size s;
     (_, s) \<leftarrow> writeMany ops UNUSABLE (table_size + 1) (s\<lparr>writeOffset := block_size\<rparr>);
     (_, s) \<leftarrow> writeMany ops FINAL 1 s;
     Some ((), s)
   }"

definition initData :: "'d storage \<Rightarrow> nat \<Rightarrow> 'd driver \<Rightarrow> (unit \<times> 'd driver) option" where
  "initData ops table_size s = do {
     let dot = (dirent_reset (root s))
       \<lparr>dname := (dname (dirent_reset (root s)))[0 := 46], dlength := 2 * sizeof_DirEntry,
        startBlock := i32 (u32 (int table_size + 1)), dtype := Directory\<rparr>;
     let dotdot = dot\<lparr>dname := (dname dot)[1 := 46]\<rparr>;
     (_, s) \<leftarrow> write_next ops (encode_dirent dot) (s\<lparr>root := dot\<rparr>);
     (_, s) \<leftarrow> write_next ops (encode_dirent dotdot) (s\<lparr>root := dotdot\<rparr>);
     Some ((), s\<lparr>root := dot\<rparr>)
   }"

text \<open>\<open>make\<close> and \<open>verify\<close>.\<close>

definition make_fs :: "'d storage \<Rightarrow> nat \<Rightarrow> 'd driver \<Rightarrow> (bool \<times> 'd driver) option" where
  "make_fs ops block_size s = do {
     (status, p) \<leftarrow> partition_clear ops (partition s);
     let s = s\<lparr>partition := p\<rparr>;
     if status \<noteq> 0 then Some (False, s)
     else if block_size = 0 then None
     else do {
       let block_count = plength (partition s) div block_size;
       if block_count < MINBLOCKS then Some (False, s)
       else if block_size mod sizeof_DirEntry \<noteq> 0 then Some (False, s)
       else if block_size < 2 * sizeof_DirEntry then Some (False, s)
       else if block_size < sizeof_Superblock then Some (False, s)
       else do {
         let table_size = tableSize block_count block_size;
         if 2 ^ 32 - 1 \<le> table_size then Some (False, s)
         else do {
           let sb = \<lparr>magic = MAGIC, blockCount = block_count, fatBlocks = table_size,
                     blockSize = block_size, sbStart = i32 (u32 (int table_size + 1))\<rparr>;
           (_, s) \<leftarrow> write_next ops (encode_superblock sb) (s\<lparr>sblk := sb, writeOffset := 0\<rparr>);
           (_, s) \<leftarrow> initFAT ops table_size block_size s;
           (_, s) \<leftarrow> initData ops table_size s;
           Some (True, s)
         }
       }
     }
   }"

definition verify :: "'d storage \<Rightarrow> 'd driver \<Rightarrow> (bool \<times> 'd driver) option" where
  "verify ops s = do {
     (status, s) \<leftarrow> readSuperblock ops s;
     Some (if status \<noteq> 0 then False else magic (sblk s) = MAGIC, s)
   }"


section \<open>The interface of the driver\<close>

text \<open>Paths are C strings; \<open>nothing\<close> is the static array of zeros.\<close>

definition rename :: "'d storage \<Rightarrow> string \<Rightarrow> string \<Rightarrow> 'd driver \<Rightarrow> (int \<times> 'd driver) option" where
  "rename ops srcpath destpath s = do {
     ((status, src), s) \<leftarrow> find_path ops srcpath False s;
     if status < 0 then Some (status, s)
     else do {
       ((status, dest), s) \<leftarrow> find_path ops destpath False s;
       if status < 0 \<and> status \<noteq> - ENOENT then Some (status, s)
       else do {
         ((status, dest_offset), s) \<leftarrow>
           (if 0 \<le> status then do {
              (status, s) \<leftarrow> remove ops destpath s;
              Some ((status, f_offset dest), s)
            }
            else do {
              ((status, made), s) \<leftarrow>
                newFile ops destpath 0 (if isDirectory (f_entry src) then Directory else File)
                  (Some (dtimes (f_entry src))) True s;
              Some ((status, n_offset made), s)
            });
         if status < 0 then Some (status, s)
         else case pathLast (Some destpath) of
           None \<Rightarrow> Some (- EINVAL, s)
         | Some destbase \<Rightarrow> do {
             let moved = (f_entry src)\<lparr>dname := strncpy THORNFAT_PATH_MAX destbase @ [0]\<rparr>;
             (status, s) \<leftarrow> pwrite ops (encode_dirent moved) dest_offset s;
             if status < 0 then Some (status, s)
             else do {
               (status, s) \<leftarrow> pwrite ops (replicate sizeof_DirEntry 0) (f_offset src) s;
               if status < 0 then Some (status, s) else Some (0, s)
             }
           }
       }
     }
   }"

definition release :: "string \<Rightarrow> 'd driver \<Rightarrow> (int \<times> 'd driver) option" where
  "release path s = Some (0, s)"

record driver_stats =
  st_magic :: nat
  nameMax :: nat
  optimalBlockSize :: nat
  totalBlocks :: nat

definition statfs :: "string \<Rightarrow> 'd driver \<Rightarrow> ((int \<times> driver_stats) \<times> 'd driver) option" where
  "statfs path s =
     Some ((0, \<lparr>st_magic = MAGIC, nameMax = THORNFAT_PATH_MAX, optimalBlockSize = bsize s,
               totalBlocks = blockCount (sblk s)\<rparr>), s)"

definition utimens :: "'d storage \<Rightarrow> string \<Rightarrow> int \<Rightarrow> 'd driver \<Rightarrow> (int \<times> 'd driver) option" where
  "utimens ops path time_now s = do {
     ((status, f), s) \<leftarrow> find_path ops path False s;
     if status < 0 then Some (status, s)
     else do {
       let dir = f_entry f;
       (status, s) \<leftarrow> writeEntry ops (dir\<lparr>dtimes := (dtimes dir)\<lparr>accessed := time_now, modified := time_now\<rparr>\<rparr>)
                       (f_offset f) s;
       if status < 0 then Some (status, s) else Some (0, s)
     }
   }"

definition create :: "'d storage \<Rightarrow> string \<Rightarrow> nat \<Rightarrow> 'd driver \<Rightarrow> (int \<times> 'd driver) option" where
  "create ops path mode s = do {
     ((status, _), s) \<leftarrow> find_path ops path False s;
     if 0 \<le> status then Some (- EEXIST, s)
     else do {
       simplified \<leftarrow> simplifyPath path;
       ((status, made), s) \<leftarrow> newFile ops simplified 0 File None False s;
       if status < 0 then Some (status, s)
       else do {
         (_, s) \<leftarrow> writeEntry ops ((n_entry made)\<lparr>modes := mode\<rparr>) (n_offset made) s;
         Some (0, s)
       }
     }
   }"

text \<open>
  \<open>write\<close>, in parts: the walk to the block of the offset, the block-aligning first part, and the
  loop over the rest, which takes what is left of the buffer and how much is written. The
  results are a status and the number of bytes.
\<close>

partial_function (option) write_skip ::
  "'d storage \<Rightarrow> int \<Rightarrow> int \<Rightarrow> 'd driver \<Rightarrow> ((int \<times> int) \<times> 'd driver) option" where
  "write_skip ops offset_left block s =
     (if int (bsize s) \<le> offset_left then do {
        (block_fat, s) \<leftarrow> readFAT ops (u64 block) s;
        write_skip ops (offset_left - int (bsize s)) block_fat s
      }
      else Some ((offset_left, block), s))"

partial_function (option) write_loop ::
  "'d storage \<Rightarrow> byte list \<Rightarrow> nat \<Rightarrow> int \<Rightarrow> nat \<Rightarrow> 'd driver \<Rightarrow> ((int \<times> nat) \<times> 'd driver) option" where
  "write_loop ops left position block bytes_written s =
     (if left = [] then Some ((0, bytes_written), s)
      else do {
        let to_write = min (bsize s) (length left);
        (status, s) \<leftarrow> pwrite ops (take to_write left) position s;
        if status < 0 then Some ((status, bytes_written), s)
        else do {
          (block, s) \<leftarrow> readFAT ops (u64 block) s;
          let left = drop to_write left;
          if block = FINAL \<and> left \<noteq> [] then Some ((0, bytes_written + to_write), s)
          else if block \<noteq> FINAL then
            (if block < 1 then None
             else write_loop ops left (u64 (block * int (bsize s))) block (bytes_written + to_write) s)
          else write_loop ops left (wrap64 (position + to_write)) block (bytes_written + to_write) s
        }
      })"

definition write_blocks ::
  "'d storage \<Rightarrow> byte list \<Rightarrow> int \<Rightarrow> int \<Rightarrow> 'd driver \<Rightarrow> ((int \<times> nat) \<times> 'd driver) option" where
  "write_blocks ops buffer offset_left block s =
     (let bs = int (bsize s); position = u64 (block * bs + offset_left) in
      if u64 (offset_left + int (length buffer)) \<le> bsize s then do {
        (status, s) \<leftarrow> pwrite ops buffer position s;
        if status < 0 then Some ((status, 0), s) else Some ((0, length buffer), s)
      }
      else if 0 < offset_left then do {
        let to_write = nat (bs - offset_left);
        (status, s) \<leftarrow> pwrite ops (take to_write buffer) position s;
        if status \<noteq> 0 then None
        else do {
          (block, s) \<leftarrow> readFAT ops (u64 block) s;
          (_, s) \<leftarrow> readFAT ops (u64 block) s;
          if block < 1 then None
          else write_loop ops (drop to_write buffer) (u64 (block * bs)) block to_write s
        }
      }
      else write_loop ops buffer position block 0 s)"

definition write_path :: "'d storage \<Rightarrow> string \<Rightarrow> byte list \<Rightarrow> int \<Rightarrow> 'd driver \<Rightarrow> (int \<times> 'd driver) option" where
  "write_path ops path buffer off s = do {
     ((status, f), s) \<leftarrow> find_path ops path False s;
     if status < 0 then Some (status, s)
     else do {
       let write_end = u64 (off + int (length buffer));
       let len = dlength (f_entry f);
       ((status, file), s) \<leftarrow> resize ops (f_entry f) (f_offset f) (if len < write_end then write_end else len) s;
       if status < 0 then Some (status, s)
       else do {
         ((offset_left, block), s) \<leftarrow> write_skip ops off (startBlock file) s;
         if block < 1 then None
         else do {
           ((status, bytes_written), s) \<leftarrow> write_blocks ops buffer offset_left block s;
           if status < 0 then Some (status, s)
           else do {
             (_, s) \<leftarrow> writeEntry ops file (f_offset f) s;
             Some (i32 (u32 (int bytes_written)), s)
           }
         }
       }
     }
   }"

definition mkdir :: "'d storage \<Rightarrow> string \<Rightarrow> nat \<Rightarrow> 'd driver \<Rightarrow> (int \<times> 'd driver) option" where
  "mkdir ops path mode s = do {
     simplified \<leftarrow> simplifyPath path;
     ((status, made), s) \<leftarrow> newFile ops simplified sizeof_DirEntry Directory None False s;
     if status < 0 then Some (status, s)
     else do {
       (status, s) \<leftarrow> writeEntry ops (updateName (n_parent made) ''..'')
                       (u32 (startBlock (n_entry made) * int (bsize s))) s;
       if status < 0 then Some (status, s) else Some (0, s)
     }
   }"

definition truncate_path :: "'d storage \<Rightarrow> string \<Rightarrow> int \<Rightarrow> 'd driver \<Rightarrow> (int \<times> 'd driver) option" where
  "truncate_path ops path new_size s = do {
     ((status, f), s) \<leftarrow> find_path ops path False s;
     if status < 0 then Some (status, s)
     else do {
       ((status, _), s) \<leftarrow> resize ops (f_entry f) (f_offset f) (u64 new_size) s;
       Some (status, s)
     }
   }"

definition ftruncate :: "string \<Rightarrow> int \<Rightarrow> 'd driver \<Rightarrow> (int \<times> 'd driver) option" where
  "ftruncate path new_size s = Some (0, s)"

text \<open>\<open>rmdir\<close>; \<open>all_stuff\<close> is the loop that prints which entries are in use.\<close>

primrec all_stuff :: "'d storage \<Rightarrow> dirent list \<Rightarrow> 'd driver \<Rightarrow> (unit \<times> 'd driver) option" where
  "all_stuff ops [] s = Some ((), s)"
| "all_stuff ops (e # es) s = do {
     (_, s) \<leftarrow> hasStuff ops e s;
     all_stuff ops es s
   }"

definition rmdir :: "'d storage \<Rightarrow> string \<Rightarrow> 'd driver \<Rightarrow> (int \<times> 'd driver) option" where
  "rmdir ops path s =
     (if path = ''/'' \<or> path = [] then Some (- EINVAL, s)
      else do {
        ((status, f), s) \<leftarrow> find_path ops path False s;
        if status < 0 then Some (status, s)
        else if \<not> isDirectory (f_entry f) then Some (- ENOTDIR, s)
        else do {
          (empty, s) \<leftarrow> directoryEmpty ops (f_entry f) s;
          if empty = 0 then do {
            ((status, ls), s) \<leftarrow> readDir ops (f_entry f) s;
            if status < 0 then Some (status, s)
            else do {
              (_, s) \<leftarrow> all_stuff ops (l_entries ls) s;
              Some (- ENOTEMPTY, s)
            }
          }
          else do {
            (_, s) \<leftarrow> forget ops (startBlock (f_entry f)) s;
            (_, s) \<leftarrow> writeEntry ops ((f_entry f)\<lparr>startBlock := 0, dlength := 0\<rparr>) (f_offset f) s;
            Some (0, s)
          }
        }
      })"

definition unlink :: "'d storage \<Rightarrow> string \<Rightarrow> 'd driver \<Rightarrow> (int \<times> 'd driver) option" where
  "unlink ops path s = do {
     (status, s) \<leftarrow> remove ops path s;
     if status < 0 then Some (status, s) else Some (0, s)
   }"

definition open_path :: "string \<Rightarrow> 'd driver \<Rightarrow> (int \<times> 'd driver) option" where
  "open_path path s = Some (0, s)"

text \<open>
  \<open>read\<close>: the result and what is stored in the buffer. The walk gives up on a table entry that is
  neither \<open>FINAL\<close> nor a block; after a block-aligning first part the loop goes on at the next
  position of the disk.
\<close>

partial_function (option) read_skip ::
  "'d storage \<Rightarrow> int \<Rightarrow> int \<Rightarrow> 'd driver \<Rightarrow> ((int + int \<times> int) \<times> 'd driver) option" where
  "read_skip ops offset_left block s =
     (if int (bsize s) \<le> offset_left then do {
        (block_fat, s) \<leftarrow> readFAT ops (u64 block) s;
        if block_fat \<noteq> -2 \<and> block_fat < 1 then Some (Inl (- EINVAL), s)
        else read_skip ops (offset_left - int (bsize s)) block_fat s
      }
      else Some (Inr (offset_left, block), s))"

partial_function (option) read_loop ::
  "'d storage \<Rightarrow> nat \<Rightarrow> nat \<Rightarrow> int \<Rightarrow> byte list \<Rightarrow> 'd driver \<Rightarrow> ((int \<times> byte list) \<times> 'd driver) option" where
  "read_loop ops size_left position block out s =
     (if size_left = 0 then Some ((0, out), s)
      else do {
        let to_read = min (bsize s) size_left;
        ((status, got), s) \<leftarrow> pread ops to_read position s;
        if status < 0 then Some ((status, out), s)
        else if size_left - to_read = 0 then Some ((0, out @ got), s)
        else do {
          (block, s) \<leftarrow> readFAT ops (u64 block) s;
          if block = -2 then Some ((0, out @ got), s)
          else read_loop ops (size_left - to_read) (u64 (block * int (bsize s))) block (out @ got) s
        }
      })"

definition read_blocks ::
  "'d storage \<Rightarrow> nat \<Rightarrow> int \<Rightarrow> int \<Rightarrow> 'd driver \<Rightarrow> ((int \<times> byte list) \<times> 'd driver) option" where
  "read_blocks ops sz offset_left block s =
     (let bs = int (bsize s); position = u64 (block * bs + offset_left) in
      if u64 (offset_left + int sz) \<le> bsize s then do {
        ((status, got), s) \<leftarrow> pread ops sz position s;
        if status < 0 then Some ((status, []), s) else Some ((0, got), s)
      }
      else if 0 < offset_left then do {
        let to_read = nat (bs - offset_left);
        ((status, got), s) \<leftarrow> pread ops to_read position s;
        if status < 0 then Some ((status, []), s)
        else read_loop ops (sz - to_read) (wrap64 (position + to_read)) block got s
      }
      else read_loop ops sz position block [] s)"

definition read_path :: "'d storage \<Rightarrow> string \<Rightarrow> nat \<Rightarrow> int \<Rightarrow> 'd driver \<Rightarrow> ((int \<times> byte list) \<times> 'd driver) option" where
  "read_path ops path sz off s = do {
     ((status, f), s) \<leftarrow> find_path ops path False s;
     let file = f_entry f;
     if status < 0 then Some ((status, []), s)
     else if dlength file = 0 \<and> isDirectory file then Some ((- ENOENT, []), s)
     else if dlength file \<le> u64 off then Some ((0, []), s)
     else do {
       (at, s) \<leftarrow> read_skip ops off (startBlock file) s;
       case at of
         Inl status \<Rightarrow> Some ((status, []), s)
       | Inr (offset_left, block) \<Rightarrow>
           if block < 1 then None
           else do {
             ((status, out), s) \<leftarrow> read_blocks ops sz offset_left block s;
             if status < 0 then Some ((status, out), s)
             else do {
               (status, s) \<leftarrow> writeEntry ops file (f_offset f) s;
               if status < 0 then Some ((status, out), s)
               else Some ((i32 (u32 (int (length out))), out), s)
             }
           }
     }
   }"

text \<open>\<open>readdir\<close>: the status and the calls of \<open>filler\<close>; each entry is looked up twice, once to be printed.\<close>

fun readdir_fill ::
  "'d storage \<Rightarrow> dirent list \<Rightarrow> nat list \<Rightarrow> 'd driver \<Rightarrow> ((string \<times> nat) list \<times> 'd driver) option" where
  "readdir_fill ops (e # es) (off # offs) s = do {
     (_, s) \<leftarrow> isFree ops e s;
     (free, s) \<leftarrow> isFree ops e s;
     (calls, s) \<leftarrow> readdir_fill ops es offs s;
     Some (if free then calls else (cstr (dname e), off) # calls, s)
   }"
| "readdir_fill ops es offs s = Some ([], s)"

definition readdir :: "'d storage \<Rightarrow> string \<Rightarrow> 'd driver \<Rightarrow> ((int \<times> (string \<times> nat) list) \<times> 'd driver) option" where
  "readdir ops path s = do {
     ((status, f), s) \<leftarrow> find_path ops path False s;
     if status < 0 then Some ((status, []), s)
     else if \<not> isDirectory (f_entry f) then Some ((- ENOTDIR, []), s)
     else do {
       let dot = (if isRoot (f_entry f) s then [] else [(''.'', 0)]);
       ((status, ls), s) \<leftarrow> readDir ops (f_entry f) s;
       if status < 0 then Some ((status, dot), s)
       else do {
         (calls, s) \<leftarrow> readdir_fill ops (l_entries ls) (l_offsets ls) s;
         Some ((0, dot @ calls), s)
       }
     }
   }"

definition getattr :: "string \<Rightarrow> 'd driver \<Rightarrow> (int \<times> 'd driver) option" where
  "getattr path s = Some (0, s)"

definition getsize :: "'d storage \<Rightarrow> string \<Rightarrow> 'd driver \<Rightarrow> ((int \<times> nat option) \<times> 'd driver) option" where
  "getsize ops path s = do {
     ((status, f), s) \<leftarrow> find_path ops path False s;
     if status < 0 then Some ((status, None), s) else Some ((0, Some (dlength (f_entry f))), s)
   }"

definition isdir :: "'d storage \<Rightarrow> string \<Rightarrow> 'd driver \<Rightarrow> (int \<times> 'd driver) option" where
  "isdir ops path s = do {
     ((status, f), s) \<leftarrow> find_path ops path False s;
     if status < 0 then Some (status, s) else Some (if isDirectory (f_entry f) then 1 else 0, s)
   }"

definition isfile :: "'d storage \<Rightarrow> string \<Rightarrow> 'd driver \<Rightarrow> (int \<times> 'd driver) option" where
  "isfile ops path s = do {
     ((status, f), s) \<leftarrow> find_path ops path False s;
     if status < 0 then Some (status, s) else Some (if isFile (f_entry f) then 1 else 0, s)
   }"

definition exists_path :: "'d storage \<Rightarrow> string \<Rightarrow> 'd driver \<Rightarrow> (int \<times> 'd driver) option" where
  "exists_path ops path s = do {
     ((status, _), s) \<leftarrow> find_path ops path False s;
     Some (status, s)
   }"

end
