(* ===== verification/FAT_Table.thy ===== *)
theory FAT_Table
  imports ThornFAT
begin

text \<open>
  The operations of \<open>ThornFATDriver\<close> on the file allocation table, on a device that meets the
  contract \<open>storage_device\<close>: what they return and what they leave on the disk, as functions of
  the table \<open>fat\<close> that the bytes of the partition hold.
\<close>

text \<open>What can be observed of a driver: the bytes of its partition and its fields.\<close>

record observation =
  disk :: "nat \<Rightarrow> byte"
  o_sblk :: superblock
  o_free :: int
  o_root :: dirent
  o_next :: nat
  o_offset :: nat
  o_length :: nat

definition obs :: "('d \<Rightarrow> nat \<Rightarrow> byte) \<Rightarrow> 'd driver \<Rightarrow> observation" where
  "obs bytes s = \<lparr>disk = part_bytes bytes (partition s), o_sblk = sblk s, o_free = blocksFree s,
     o_root = root s, o_next = writeOffset s, o_offset = poffset (partition s), o_length = plength (partition s)\<rparr>"

definition fat_entry :: "superblock \<Rightarrow> (nat \<Rightarrow> byte) \<Rightarrow> nat \<Rightarrow> int" where
  "fat_entry sb m i = i32 (le_nat (rd m (fat_offset sb i) sizeof_block))"

definition fat :: "observation \<Rightarrow> nat \<Rightarrow> int" where
  "fat v i = fat_entry (o_sblk v) (disk v) i"

text \<open>The table fits into the partition, and block numbers into \<open>block_t\<close>.\<close>

definition fat_fits :: "observation \<Rightarrow> bool" where
  "fat_fits v \<longleftrightarrow> 0 < blockSize (o_sblk v) \<and> blockCount (o_sblk v) < 2 ^ 31 \<and>
     blockSize (o_sblk v) + blockCount (o_sblk v) * sizeof_block \<le> o_length v \<and> o_length v \<le> 2 ^ 64"

definition drv_ok :: "('d \<Rightarrow> bool) \<Rightarrow> nat \<Rightarrow> 'd driver \<Rightarrow> bool" where
  "drv_ok good cap s \<longleftrightarrow> part_ok good cap (partition s)"

text \<open>\<open>s'\<close> is a good state with the observation \<open>v\<close>.\<close>

definition shows_obs ::
  "('d \<Rightarrow> nat \<Rightarrow> byte) \<Rightarrow> ('d \<Rightarrow> bool) \<Rightarrow> nat \<Rightarrow> observation \<Rightarrow> 'd driver \<Rightarrow> bool" where
  "shows_obs bytes good cap v s \<longleftrightarrow> drv_ok good cap s \<and> obs bytes s = v"

definition put_bytes :: "nat \<Rightarrow> byte list \<Rightarrow> observation \<Rightarrow> observation" where
  "put_bytes off bs v = v\<lparr>disk := upd (disk v) off bs\<rparr>"

definition put_fat :: "nat \<Rightarrow> int \<Rightarrow> observation \<Rightarrow> observation" where
  "put_fat i x v = put_bytes (fat_offset (o_sblk v) i) (le_bytes sizeof_block (u32 x)) v"

lemma put_simps [simp]:
  "o_sblk (put_bytes off bs v) = o_sblk v" "o_free (put_bytes off bs v) = o_free v"
  "o_root (put_bytes off bs v) = o_root v" "o_next (put_bytes off bs v) = o_next v"
  "o_offset (put_bytes off bs v) = o_offset v" "o_length (put_bytes off bs v) = o_length v"
  "disk (put_bytes off bs v) = upd (disk v) off bs"
  "o_sblk (put_fat i x v) = o_sblk v" "o_free (put_fat i x v) = o_free v"
  "o_root (put_fat i x v) = o_root v" "o_next (put_fat i x v) = o_next v"
  "o_offset (put_fat i x v) = o_offset v" "o_length (put_fat i x v) = o_length v"
  by (simp_all add: put_bytes_def put_fat_def)

lemma fat_fits_put [simp]: "fat_fits (put_fat i x v) = fat_fits v" "fat_fits (put_bytes off bs v) = fat_fits v"
  by (simp_all add: fat_fits_def)

lemma fat_offset_small: "fat_fits v \<Longrightarrow> i < blockCount (o_sblk v) \<Longrightarrow> fat_offset (o_sblk v) i = blockSize (o_sblk v) + i * 4"
  unfolding fat_fits_def fat_offset_def by (intro wrap64_small) linarith

lemma fat_offset_fits: "fat_fits v \<Longrightarrow> i < blockCount (o_sblk v) \<Longrightarrow> fat_offset (o_sblk v) i + 4 \<le> o_length v"
  by (simp add: fat_offset_small) (simp add: fat_fits_def)

text \<open>Writing an entry changes that entry only.\<close>

lemma i32_le_nat_u32: "int32 x \<Longrightarrow> i32 (le_nat (le_bytes 4 (u32 x))) = x"
  using u32_bound [of x] by (simp add: le_nat_le_bytes i32_u32' flip: i32_def)

lemma fat_put_fat:
  assumes "fat_fits v" and "i < blockCount (o_sblk v)" and "j < blockCount (o_sblk v)" and "int32 x"
  shows "fat (put_fat i x v) j = (if j = i then x else fat v j)"
proof -
  have "fat_offset (o_sblk v) i = blockSize (o_sblk v) + i * 4" "fat_offset (o_sblk v) j = blockSize (o_sblk v) + j * 4"
    using assms by (simp_all add: fat_offset_small)
  moreover have "j \<noteq> i \<Longrightarrow> b + j * 4 + 4 \<le> b + i * 4 \<or> b + i * 4 + 4 \<le> b + j * 4" for b :: nat
    by presburger
  ultimately show ?thesis
    using assms(4) by (simp add: fat_def fat_entry_def put_fat_def i32_le_nat_u32 rd_upd_disjoint)
qed

lemma fat_int32: "int32 (fat v i)"
  using i32_range by (simp add: fat_def fat_entry_def int32_def)

context storage_device
begin

abbreviation at_obs :: "observation \<Rightarrow> 'd driver \<Rightarrow> bool" where
  "at_obs \<equiv> shows_obs bytes good cap"

lemma pread_ok:
  assumes "at_obs v s" and "0 < n" and "off + n \<le> o_length v"
  shows "wp (pread ops n off s) (\<lambda>r s'. r = (0, rd (disk v) off n) \<and> at_obs v s')"
  using assms partition_read_ok [of "partition s" n off]
  by (auto simp: pread_def shows_obs_def drv_ok_def obs_def part_becomes_def elim!: wp_mono)

lemma pwrite_ok:
  assumes "at_obs v s" and "bs \<noteq> []" and "off + length bs \<le> o_length v"
  shows "wp (pwrite ops bs off s) (\<lambda>r s'. r = 0 \<and> at_obs (put_bytes off bs v) s')"
  using assms partition_write_ok [of "partition s" bs off]
  by (auto simp: pwrite_def shows_obs_def drv_ok_def obs_def put_bytes_def part_becomes_def elim!: wp_mono)

lemma at_obs_sblk: "at_obs v s \<Longrightarrow> sblk s = o_sblk v"
  by (auto simp: shows_obs_def obs_def)

lemma readFAT_any:
  assumes "at_obs v s" and "fat_offset (o_sblk v) i + 4 \<le> o_length v"
  shows "wp (readFAT ops i s) (\<lambda>r s'. r = fat v i \<and> at_obs v s')"
  using pread_ok [of v s 4 "fat_offset (o_sblk v) i"] assms
  by (auto simp: readFAT_def at_obs_sblk fat_def fat_entry_def elim!: wp_mono)

lemma readFAT_ok:
  "at_obs v s \<Longrightarrow> fat_fits v \<Longrightarrow> i < blockCount (o_sblk v) \<Longrightarrow>
   wp (readFAT ops i s) (\<lambda>r s'. r = fat v i \<and> at_obs v s')"
  by (intro readFAT_any fat_offset_fits)

lemma writeFAT_ok:
  assumes "at_obs v s" and "fat_fits v" and "i < blockCount (o_sblk v)"
  shows "wp (writeFAT ops x i s) (\<lambda>r s'. r = 0 \<and> at_obs (put_fat i x v) s')"
proof -
  have "le_bytes 4 (u32 x) \<noteq> []" by (metis length_le_bytes list.size(3) zero_neq_numeral)
  then show ?thesis
    using pwrite_ok [of v s "le_bytes 4 (u32 x)" "fat_offset (o_sblk v) i"] assms fat_offset_fits [OF assms(2,3)]
    by (auto simp: writeFAT_def at_obs_sblk put_fat_def elim!: wp_mono)
qed

lemma at_obs_free:
  "at_obs v s \<Longrightarrow> at_obs (v\<lparr>o_free := n\<rparr>) (s\<lparr>blocksFree := n\<rparr>)"
  "at_obs v s \<Longrightarrow> blocksFree s = o_free v"
  by (auto simp: shows_obs_def obs_def drv_ok_def)

end


section \<open>Looking for free blocks\<close>

definition free_block :: "observation \<Rightarrow> nat \<Rightarrow> bool" where
  "free_block v i \<longleftrightarrow> fat v i = 0"

definition free_list :: "observation \<Rightarrow> nat list" where
  "free_list v = filter (free_block v) [0..<blockCount (o_sblk v)]"

text \<open>The first free block, as the driver reports it.\<close>

definition first_free :: "nat list \<Rightarrow> int" where
  "first_free bs = (case bs of [] \<Rightarrow> UNUSABLE | b # _ \<Rightarrow> int b)"

lemma fat_fits_i32: "fat_fits v \<Longrightarrow> i < blockCount (o_sblk v) \<Longrightarrow> i32 i = int i"
  by (simp add: fat_fits_def i32_def Let_def)

context storage_device
begin

lemma findFreeBlock_loop_ok:
  "at_obs v s \<Longrightarrow> fat_fits v \<Longrightarrow> i + n = blockCount (o_sblk v) \<Longrightarrow>
   wp (findFreeBlock_loop ops n i s)
     (\<lambda>r s'. r = first_free (filter (free_block v) [i..<blockCount (o_sblk v)]) \<and> at_obs v s')"
proof (induction n arbitrary: i s)
  case 0
  then show ?case by (simp add: first_free_def)
next
  case (Suc n)
  have i: "i < blockCount (o_sblk v)" using Suc.prems by simp
  have up: "[i..<blockCount (o_sblk v)] = i # [Suc i..<blockCount (o_sblk v)]" by (rule upt_conv_Cons [OF i])
  have IH: "at_obs v s' \<Longrightarrow> wp (findFreeBlock_loop ops n (Suc i) s')
      (\<lambda>r s'. r = first_free (filter (free_block v) [Suc i..<blockCount (o_sblk v)]) \<and> at_obs v s')" for s'
    using Suc.IH [of s' "Suc i"] Suc.prems by simp
  show ?case
    unfolding findFreeBlock_loop.simps up wp_bind
    by (rule wp_mono [OF readFAT_ok [OF Suc.prems(1,2) i]])
      (use IH fat_fits_i32 [OF Suc.prems(2) i] in \<open>auto simp: first_free_def free_block_def\<close>)
qed

lemma findFreeBlock_ok:
  "at_obs v s \<Longrightarrow> fat_fits v \<Longrightarrow>
   wp (findFreeBlock ops s) (\<lambda>r s'. r = first_free (free_list v) \<and> at_obs v s')"
  using findFreeBlock_loop_ok [of v s 0 "blockCount (o_sblk v)"]
  by (simp add: findFreeBlock_def at_obs_sblk free_list_def)

lemma hasFree_loop_ok:
  "at_obs v s \<Longrightarrow> fat_fits v \<Longrightarrow> i + n = blockCount (o_sblk v) \<Longrightarrow> (scanned = 0 \<or> scanned < cnt) \<Longrightarrow>
   wp (hasFree_loop ops cnt n i scanned s)
     (\<lambda>r s'. r = (filter (free_block v) [i..<blockCount (o_sblk v)] \<noteq> [] \<and> cnt \<le> scanned + length (filter (free_block v) [i..<blockCount (o_sblk v)]))
       \<and> at_obs v s')"
proof (induction n arbitrary: i s scanned)
  case 0
  then show ?case by simp
next
  case (Suc n)
  have i: "i < blockCount (o_sblk v)" using Suc.prems by simp
  have up: "[i..<blockCount (o_sblk v)] = i # [Suc i..<blockCount (o_sblk v)]" by (rule upt_conv_Cons [OF i])
  have IH: "at_obs v s' \<Longrightarrow> k = 0 \<or> k < cnt \<Longrightarrow> wp (hasFree_loop ops cnt n (Suc i) k s')
      (\<lambda>r s'. r = (filter (free_block v) [Suc i..<blockCount (o_sblk v)] \<noteq> [] \<and>
         cnt \<le> k + length (filter (free_block v) [Suc i..<blockCount (o_sblk v)])) \<and> at_obs v s')" for s' k
    using Suc.IH [of s' "Suc i" k] Suc.prems by simp
  have tail: "\<not> cnt \<le> Suc scanned \<Longrightarrow> cnt \<le> Suc (scanned + length xs) \<Longrightarrow> xs \<noteq> []" for xs :: "nat list"
    by auto
  show ?case
    unfolding hasFree_loop.simps up wp_bind Let_def
    by (rule wp_mono [OF readFAT_ok [OF Suc.prems(1,2) i]])
      (use Suc.prems(4) tail in \<open>auto simp: free_block_def elim!: wp_mono [OF IH]\<close>)
qed

lemma hasFree_ok:
  "at_obs v s \<Longrightarrow> fat_fits v \<Longrightarrow>
   wp (hasFree ops cnt s) (\<lambda>r s'. r = (free_list v \<noteq> [] \<and> cnt \<le> length (free_list v)) \<and> at_obs v s')"
  using hasFree_loop_ok [of v s 0 "blockCount (o_sblk v)" 0 cnt]
  by (simp add: hasFree_def at_obs_sblk free_list_def)

lemma countFree_loop_ok:
  "at_obs v s \<Longrightarrow> fat_fits v \<Longrightarrow> n \<le> blockCount (o_sblk v) \<Longrightarrow>
   wp (countFree_loop ops n s)
     (\<lambda>_ s'. at_obs (v\<lparr>o_free := o_free v + int (length (filter (free_block v) [0..<n]))\<rparr>) s')"
proof (induction n arbitrary: v s)
  case 0
  then show ?case by simp
next
  case (Suc n)
  have n: "n < blockCount (o_sblk v)" using Suc.prems by simp
  have free: "free_block (v\<lparr>o_free := k\<rparr>) = free_block v" for k
    by (rule ext) (simp add: free_block_def fat_def)
  have IH1: "at_obs v s' \<Longrightarrow> wp (countFree_loop ops n s')
      (\<lambda>_ s'. at_obs (v\<lparr>o_free := o_free v + int (length (filter (free_block v) [0..<n]))\<rparr>) s')" for s'
    using Suc.IH [of v s'] Suc.prems by simp
  have IH2: "at_obs (v\<lparr>o_free := k\<rparr>) s' \<Longrightarrow> wp (countFree_loop ops n s')
      (\<lambda>_ s'. at_obs (v\<lparr>o_free := k + int (length (filter (free_block v) [0..<n]))\<rparr>) s')" for s' k
    using Suc.IH [of "v\<lparr>o_free := k\<rparr>" s'] Suc.prems by (simp add: free fat_fits_def)
  show ?case
    unfolding countFree_loop.simps wp_bind
    by (rule wp_mono [OF readFAT_ok [OF Suc.prems(1,2) n]])
      (auto simp: free_block_def [of v n] at_obs_free ac_simps
        elim!: wp_mono [OF IH1] wp_mono [OF IH2 [OF at_obs_free(1)]])
qed

lemma countFree_ok:
  assumes "at_obs v s" and "fat_fits v"
  shows "wp (countFree ops s) (\<lambda>r s'.
    r = (if 0 \<le> o_free v then o_free v else int (length (free_list v))) \<and> at_obs (v\<lparr>o_free := r\<rparr>) s')"
proof (cases "0 \<le> o_free v")
  case True
  then show ?thesis using assms at_obs_free [OF assms(1)] by (simp add: countFree_def)
next
  case False
  have fits: "fat_fits (v\<lparr>o_free := 0\<rparr>)" using assms(2) by (simp add: fat_fits_def)
  have n: "nat (i32 (u64 (int (blockCount (o_sblk v)) - 1)) + 1) = blockCount (o_sblk v)"
  proof (cases "blockCount (o_sblk v)")
    case 0
    then show ?thesis by (simp add: u64_def i32_def Let_def)
  next
    case (Suc k)
    with assms(2) have "k < 2 ^ 31" by (simp add: fat_fits_def)
    with Suc show ?thesis by (simp add: i32_def Let_def)
  qed
  have free: "free_block (v\<lparr>o_free := 0\<rparr>) = free_block v"
    by (rule ext) (simp add: free_block_def fat_def)
  show ?thesis
    using countFree_loop_ok [OF at_obs_free(1) [OF assms(1)] fits, of "blockCount (o_sblk v)"] False assms(1)
    by (auto simp: countFree_def at_obs_free at_obs_sblk n free free_list_def elim!: wp_mono)
qed

end


section \<open>Chains\<close>

text \<open>The blocks of a file, in order: each entry names the next block, the last one is \<open>FINAL\<close>.\<close>

fun chain :: "(nat \<Rightarrow> int) \<Rightarrow> nat list \<Rightarrow> bool" where
  "chain T [] = False"
| "chain T [b] = (T b = FINAL)"
| "chain T (b # c # bs) = (T b = int c \<and> 0 < c \<and> chain T (c # bs))"

definition chain_in :: "observation \<Rightarrow> nat list \<Rightarrow> bool" where
  "chain_in v bs \<longleftrightarrow> chain (fat v) bs \<and> distinct bs \<and> set bs \<subseteq> {..<blockCount (o_sblk v)}"

lemma chain_cong: "(\<And>b. b \<in> set bs \<Longrightarrow> T b = T' b) \<Longrightarrow> chain T bs = chain T' bs"
  by (induction T bs rule: chain.induct) auto

lemma FINAL_val: "FINAL = -2" and UNUSABLE_val: "UNUSABLE = -1"
  by (simp_all add: FINAL_def UNUSABLE_def)

lemma int32_small [simp]: "int32 0" "int32 FINAL" "int32 UNUSABLE"
  by (simp_all add: int32_def FINAL_def UNUSABLE_def)

lemma fat_fits_u64: "fat_fits v \<Longrightarrow> b < blockCount (o_sblk v) \<Longrightarrow> u64 (int b) = b"
  by (simp add: fat_fits_def)

text \<open>The disk after every block of a list is marked free, and the driver's count of free blocks.\<close>

definition free_all :: "nat list \<Rightarrow> observation \<Rightarrow> observation" where
  "free_all bs v = fold (\<lambda>b. put_fat b 0) bs v"

lemma free_all_simps [simp]: "free_all [] v = v" "free_all (b # bs) v = free_all bs (put_fat b 0 v)"
  by (simp_all add: free_all_def)

lemma free_all_fields [simp]:
  "o_sblk (free_all bs v) = o_sblk v" "o_free (free_all bs v) = o_free v" "o_root (free_all bs v) = o_root v"
  "o_length (free_all bs v) = o_length v"
  by (induction bs arbitrary: v) auto

lemma fat_fits_free_all [simp]: "fat_fits (free_all bs v) = fat_fits v"
  by (simp add: fat_fits_def)

lemma fat_free_all:
  "fat_fits v \<Longrightarrow> set bs \<subseteq> {..<blockCount (o_sblk v)} \<Longrightarrow> j < blockCount (o_sblk v) \<Longrightarrow>
   fat (free_all bs v) j = (if j \<in> set bs then 0 else fat v j)"
  by (induction bs arbitrary: v) (auto simp: fat_put_fat)

text \<open>Marking entries does not touch the bytes past the table.\<close>

lemma disk_put_fat:
  assumes "fat_fits v" and "i < blockCount (o_sblk v)" and "blockSize (o_sblk v) + blockCount (o_sblk v) * 4 \<le> k \<or> k < blockSize (o_sblk v)"
  shows "disk (put_fat i x v) k = disk v k"
proof -
  have "fat_offset (o_sblk v) i = blockSize (o_sblk v) + i * 4" using assms(1,2) by (rule fat_offset_small)
  moreover have "i * 4 + 4 \<le> blockCount (o_sblk v) * 4" using assms(2) by simp
  ultimately show ?thesis using assms(3) unfolding put_fat_def put_simps by (intro upd_outside) auto
qed

lemma disk_free_all:
  "fat_fits v \<Longrightarrow> set bs \<subseteq> {..<blockCount (o_sblk v)} \<Longrightarrow>
   blockSize (o_sblk v) + blockCount (o_sblk v) * 4 \<le> k \<or> k < blockSize (o_sblk v) \<Longrightarrow>
   disk (free_all bs v) k = disk v k"
  by (induction bs arbitrary: v) (auto simp: disk_put_fat)

definition used_blocks :: "observation \<Rightarrow> nat set" where
  "used_blocks v = {i. i < blockCount (o_sblk v) \<and> fat v i \<noteq> 0}"

lemma finite_used [simp]: "finite (used_blocks v)"
  by (simp add: used_blocks_def)

definition fat_closed :: "observation \<Rightarrow> bool" where
  "fat_closed v \<longleftrightarrow> (\<forall>i < blockCount (o_sblk v). fat v i < int (blockCount (o_sblk v)))"

lemma used_put_0:
  "fat_fits v \<Longrightarrow> b < blockCount (o_sblk v) \<Longrightarrow> used_blocks (put_fat b 0 v) = used_blocks v - {b}"
  by (auto simp: used_blocks_def fat_put_fat split: if_splits)

lemma closed_put_0: "fat_fits v \<Longrightarrow> b < blockCount (o_sblk v) \<Longrightarrow> fat_closed v \<Longrightarrow> fat_closed (put_fat b 0 v)"
  by (auto simp: fat_closed_def fat_put_fat)

context storage_device
begin

lemma forget_loop_ok:
  "at_obs v s \<Longrightarrow> fat_fits v \<Longrightarrow> chain_in v bs \<Longrightarrow>
   wp (forget_loop ops (int (hd bs)) n s) (\<lambda>r s'. r = n + length bs \<and> at_obs (free_all bs v) s')"
proof (induction bs arbitrary: v s n rule: induct_list012)
  case 1
  then show ?case by (simp add: chain_in_def)
next
  case (2 b)
  then have b: "b < blockCount (o_sblk v)" and T: "fat v b = FINAL" by (auto simp: chain_in_def)
  show ?case
    by (subst forget_loop.simps)
      (use T in \<open>auto simp: fat_fits_u64 [OF 2(2) b] intro!: wp_mono [OF readFAT_ok [OF 2(1,2) b]]
          wp_mono [OF writeFAT_ok [OF _ 2(2) b]]\<close>)
next
  case (3 b c bs)
  then have b: "b < blockCount (o_sblk v)" and T: "fat v b = int c" "0 < c"
    and ch: "chain (fat v) (c # bs)" "distinct (b # c # bs)" "set (c # bs) \<subseteq> {..<blockCount (o_sblk v)}"
    by (auto simp: chain_in_def)
  have "chain (fat (put_fat b 0 v)) (c # bs)"
    by (subst chain_cong [of _ _ "fat v"]) (use ch b 3(4) in \<open>auto simp: fat_put_fat\<close>)
  then have ch': "chain_in (put_fat b 0 v) (c # bs)" using ch by (simp add: chain_in_def)
  have c: "int c \<noteq> FINAL" by (simp add: FINAL_def)
  have IH: "at_obs (put_fat b 0 v) s' \<Longrightarrow> wp (forget_loop ops (int c) k s')
      (\<lambda>r s'. r = k + length (c # bs) \<and> at_obs (free_all (c # bs) (put_fat b 0 v)) s')" for s' k
    using 3(2) [of "put_fat b 0 v" s' k] ch' 3(4) by simp
  show ?case
    by (subst forget_loop.simps)
      (use T c in \<open>auto simp: fat_fits_u64 [OF 3(4) b] intro!: wp_mono [OF readFAT_ok [OF 3(3,4) b]]
          wp_mono [OF writeFAT_ok [OF _ 3(4) b]] wp_mono [OF IH]\<close>)
qed

lemma forget_ok:
  assumes "at_obs v s" and "fat_fits v" and "chain_in v bs"
  shows "wp (forget ops (int (hd bs)) s) (\<lambda>r s'. r = length bs \<and>
    at_obs ((free_all bs v)\<lparr>o_free := o_free v + int (length bs)\<rparr>) s')"
  using forget_loop_ok [OF assms, of 0]
  by (auto simp: forget_def at_obs_free elim!: wp_mono)

text \<open>\<open>forget\<close> comes back whatever the table holds: each block it passes is no longer in use.\<close>

lemma forget_loop_returns:
  "at_obs v s \<Longrightarrow> fat_fits v \<Longrightarrow> fat_closed v \<Longrightarrow> b < blockCount (o_sblk v) \<Longrightarrow>
   wp (forget_loop ops (int b) n s) (\<lambda>r s'. n \<le> r \<and> r \<le> n + card (used_blocks v))"
proof (induction "card (used_blocks v)" arbitrary: v s b n rule: less_induct)
  case less
  note b = less.prems(4)
  have one: "fat v b \<noteq> 0 \<Longrightarrow> card (used_blocks (put_fat b 0 v)) < card (used_blocks v)"
    unfolding used_put_0 [OF less.prems(2) b]
    by (rule psubset_card_mono) (use b in \<open>auto simp: used_blocks_def\<close>)
  have IH: "at_obs (put_fat b 0 v) s' \<Longrightarrow> 0 < fat v b \<Longrightarrow>
      wp (forget_loop ops (fat v b) (Suc n) s') (\<lambda>r s'. n \<le> r \<and> r \<le> n + card (used_blocks v))" for s'
  proof -
    assume s': "at_obs (put_fat b 0 v) s'" and pos: "0 < fat v b"
    have "nat (fat v b) < blockCount (o_sblk v)" using less.prems(3) b pos by (auto simp: fat_closed_def nat_less_iff)
    then have "wp (forget_loop ops (int (nat (fat v b))) (Suc n) s')
        (\<lambda>r s'. Suc n \<le> r \<and> r \<le> Suc n + card (used_blocks (put_fat b 0 v)))"
      using less.hyps [OF one s', of "nat (fat v b)" "Suc n"] closed_put_0 [OF less.prems(2) b less.prems(3)]
        less.prems(2) pos by auto
    with one pos show ?thesis by (auto elim!: wp_mono)
  qed
  have used: "fat v b \<noteq> 0 \<Longrightarrow> 0 < card (used_blocks v)" using one by auto
  show ?case
    by (subst forget_loop.simps)
      (use used in \<open>auto simp: fat_fits_u64 [OF less.prems(2) b] FINAL_def intro!: wp_mono [OF readFAT_ok [OF less.prems(1,2) b]]
          wp_mono [OF writeFAT_ok [OF _ less.prems(2) b]] IH\<close>)
qed

lemma chainLength_loop_ok:
  "at_obs v s \<Longrightarrow> fat_fits v \<Longrightarrow> chain (fat v) bs \<Longrightarrow> set bs \<subseteq> {..<blockCount (o_sblk v)} \<Longrightarrow>
   wp (chainLength_loop ops (int (hd bs)) n s) (\<lambda>r s'. r = n + length bs \<and> at_obs v s')"
proof (induction bs arbitrary: s n rule: induct_list012)
  case 1
  then show ?case by simp
next
  case (2 b)
  then have b: "b < blockCount (o_sblk v)" by simp
  show ?case
    by (subst chainLength_loop.simps)
      (use 2 in \<open>auto simp: fat_fits_u64 [OF 2(2) b] intro!: wp_mono [OF readFAT_ok [OF 2(1,2) b]]\<close>)
next
  case (3 b c bs)
  then have b: "b < blockCount (o_sblk v)" by simp
  have IH: "at_obs v s' \<Longrightarrow> wp (chainLength_loop ops (int c) k s') (\<lambda>r s'. r = k + length (c # bs) \<and> at_obs v s')" for s' k
    using 3(2) [of s' k] 3 by simp
  show ?case
    by (subst chainLength_loop.simps)
      (use 3 in \<open>auto simp: fat_fits_u64 [OF 3(4) b] FINAL_def intro!: wp_mono [OF readFAT_ok [OF 3(3,4) b]] wp_mono [OF IH]\<close>)
qed

lemma chain_used: "chain T bs \<Longrightarrow> T (hd bs) \<noteq> 0"
  by (induction T bs rule: chain.induct) (auto simp: FINAL_def)

lemma chainLength_ok:
  assumes "at_obs v s" and "fat_fits v" and "chain_in v bs"
  shows "wp (chainLength ops (int (hd bs)) s) (\<lambda>r s'. r = length bs \<and> at_obs v s')"
proof -
  have ch: "chain (fat v) bs" "set bs \<subseteq> {..<blockCount (o_sblk v)}" using assms(3) by (auto simp: chain_in_def)
  then have hd: "hd bs < blockCount (o_sblk v)" by (cases bs) auto
  show ?thesis
    using chain_used [OF ch(1)] fat_fits_u64 [OF assms(2) hd]
    by (auto simp: chainLength_def intro!: wp_mono [OF readFAT_ok [OF assms(1,2) hd]]
          wp_mono [OF chainLength_loop_ok [OF _ assms(2) ch]])
qed

text \<open>A chain that runs into itself: \<open>chainLength\<close> never comes back.\<close>

lemma chainLength_loop_cycle:
  assumes fits: "fat_fits v" and C: "C \<subseteq> {..<blockCount (o_sblk v)}" "\<forall>b \<in> C. \<exists>c \<in> C. 0 < c \<and> fat v b = int c"
    and "b \<in> C" and "at_obs v s"
  shows "chainLength_loop ops (int b) n s = None"
proof -
  have never: "chainLength_loop ops' block n s = Some y \<Longrightarrow> ops' = ops \<longrightarrow> (\<exists>b \<in> C. block = int b) \<longrightarrow> at_obs v s \<longrightarrow> False"
    for ops' block n s y
  proof (erule chainLength_loop.raw_induct [rotated])
    fix f ops' block n s y
    assume 1: "\<And>ops' block n s y. f ops' block n s = Some y \<Longrightarrow>
        ops' = ops \<longrightarrow> (\<exists>b \<in> C. block = int b) \<longrightarrow> at_obs v s \<longrightarrow> False"
      "do { (block, s) \<leftarrow> readFAT ops' (u64 block) s;
         if block = FINAL then Some (Suc n, s) else if block = 0 then Some (Suc n, s)
         else if block = -1 then Some (Suc n, s) else if block < -2 then None else f ops' block (Suc n) s } = Some y"
    show "ops' = ops \<longrightarrow> (\<exists>b \<in> C. block = int b) \<longrightarrow> at_obs v s \<longrightarrow> False"
    proof (intro impI, elim bexE)
      fix b assume p: "ops' = ops" "at_obs v s" "b \<in> C" "block = int b"
      have b: "b < blockCount (o_sblk v)" using p(3) C(1) by blast
      obtain c where c: "c \<in> C" "0 < c" "fat v b = int c" using C(2) p(3) by blast
      obtain s' where s': "readFAT ops b s = Some (int c, s')" "at_obs v s'"
        using readFAT_ok [OF p(2) fits b] c(3) by (auto simp: wp_ex)
      have "f ops (int c) (Suc n) s' = Some y"
        using 1(2) p s'(1) c(2) by (simp add: fat_fits_u64 [OF fits b] FINAL_def)
      then show False using 1(1) c(1) s'(2) by blast
    qed
  qed
  then show ?thesis using assms(4,5) by (cases "chainLength_loop ops (int b) n s") blast+
qed

lemma chainLength_cycle:
  assumes "fat_fits v" and "C \<subseteq> {..<blockCount (o_sblk v)}" "\<forall>b \<in> C. \<exists>c \<in> C. 0 < c \<and> fat v b = int c"
    and b: "b \<in> C" and v: "at_obs v s"
  shows "chainLength ops (int b) s = None"
proof -
  have lt: "b < blockCount (o_sblk v)" using assms(2) b by blast
  obtain s' where s': "readFAT ops b s = Some (fat v b, s')" "at_obs v s'"
    using readFAT_ok [OF v assms(1) lt] by (auto simp: wp_ex)
  have "fat v b \<noteq> 0" using assms(3) b by auto
  then show ?thesis
    using chainLength_loop_cycle [OF assms(1-3) b s'(2)] s'(1) by (simp add: chainLength_def fat_fits_u64 [OF assms(1) lt])
qed

end

end
