(* ===== verification/FAT_Data.thy ===== *)
theory FAT_Data
  imports FAT_Table
begin

text \<open>
  The operations of \<open>ThornFATDriver\<close> that move data: \<open>readFile\<close>, and the walks and loops of
  \<open>read\<close> and \<open>write\<close>, on a file that is a chain of blocks.
\<close>

text \<open>
  A volume whose blocks lie in the partition. \<open>data_block\<close>: past the table. Block positions are
  computed at 32 bits in some places, so a volume has at most 4 GiB.
\<close>

definition volume_ok :: "observation \<Rightarrow> bool" where
  "volume_ok v \<longleftrightarrow> fat_fits v \<and> blockCount (o_sblk v) * blockSize (o_sblk v) \<le> o_length v \<and> o_length v \<le> 2 ^ 32"

definition data_block :: "observation \<Rightarrow> nat \<Rightarrow> bool" where
  "data_block v b \<longleftrightarrow> b < blockCount (o_sblk v) \<and>
     blockSize (o_sblk v) + blockCount (o_sblk v) * 4 \<le> b * blockSize (o_sblk v)"

definition file_chain :: "observation \<Rightarrow> nat list \<Rightarrow> bool" where
  "file_chain v bs \<longleftrightarrow> chain_in v bs \<and> (\<forall>b \<in> set bs. data_block v b)"

definition block_bytes :: "observation \<Rightarrow> nat \<Rightarrow> byte list" where
  "block_bytes v b = rd (disk v) (b * blockSize (o_sblk v)) (blockSize (o_sblk v))"

definition contents :: "observation \<Rightarrow> nat list \<Rightarrow> byte list" where
  "contents v bs = concat (map (block_bytes v) bs)"

lemma length_block_bytes [simp]: "length (block_bytes v b) = blockSize (o_sblk v)"
  by (simp add: block_bytes_def)

lemma contents_simps [simp]: "contents v [] = []" "contents v (b # bs) = block_bytes v b @ contents v bs"
  by (simp_all add: contents_def)

lemma length_contents: "length (contents v bs) = length bs * blockSize (o_sblk v)"
  by (induction bs) auto

lemma volume_fits: "volume_ok v \<Longrightarrow> fat_fits v"
  by (simp add: volume_ok_def)

lemma bsize_pos: "fat_fits v \<Longrightarrow> 0 < blockSize (o_sblk v)"
  by (simp add: fat_fits_def)

lemma block_end: "volume_ok v \<Longrightarrow> b < blockCount (o_sblk v) \<Longrightarrow> b * blockSize (o_sblk v) + blockSize (o_sblk v) \<le> o_length v"
proof -
  assume v: "volume_ok v" and "b < blockCount (o_sblk v)"
  then have "Suc b * blockSize (o_sblk v) \<le> blockCount (o_sblk v) * blockSize (o_sblk v)"
    by (intro mult_le_mono1) simp
  with v show ?thesis by (simp add: volume_ok_def)
qed

lemma block_pos:
  assumes "volume_ok v" and "b < blockCount (o_sblk v)"
  shows "u32 (int b * int (blockSize (o_sblk v))) = b * blockSize (o_sblk v)"
    and "k \<le> blockSize (o_sblk v) \<Longrightarrow> u64 (int b * int (blockSize (o_sblk v)) + int k) = b * blockSize (o_sblk v) + k"
proof -
  have "b * blockSize (o_sblk v) + blockSize (o_sblk v) \<le> 2 ^ 32" "0 < blockSize (o_sblk v)"
    using block_end [OF assms] assms(1) by (auto simp: volume_ok_def fat_fits_def)
  then have "int (b * blockSize (o_sblk v)) + int (blockSize (o_sblk v)) \<le> int (2 ^ 32)" "0 < int (blockSize (o_sblk v))"
    by (simp_all only: of_nat_le_iff of_nat_0_less_iff flip: of_nat_add)
  then have lt: "int (b * blockSize (o_sblk v)) < 2 ^ 32"
    and le: "int (b * blockSize (o_sblk v)) + int (blockSize (o_sblk v)) \<le> 2 ^ 32" by simp_all
  show "u32 (int b * int (blockSize (o_sblk v))) = b * blockSize (o_sblk v)"
    using u32_small [OF _ lt] by (simp add: nat_mult_distrib)
  assume "k \<le> blockSize (o_sblk v)"
  with le have "int (b * blockSize (o_sblk v) + k) < int (2 ^ 64)" by simp
  then have "b * blockSize (o_sblk v) + k < 2 ^ 64" by (simp only: of_nat_less_iff)
  then show "u64 (int b * int (blockSize (o_sblk v)) + int k) = b * blockSize (o_sblk v) + k"
    using u64_of_nat [of "b * blockSize (o_sblk v) + k"] by simp
qed

lemma data_block_pos: "fat_fits v \<Longrightarrow> data_block v b \<Longrightarrow> 0 < b"
  by (cases b) (auto simp: data_block_def fat_fits_def)

lemma file_chain_Cons:
  "file_chain v (b # c # bs) \<longleftrightarrow> fat v b = int c \<and> data_block v b \<and> b \<notin> set (c # bs) \<and> file_chain v (c # bs) \<and> 0 < c"
  by (auto simp: file_chain_def chain_in_def data_block_def)

lemma file_chain_one: "file_chain v [b] \<longleftrightarrow> fat v b = FINAL \<and> data_block v b"
  by (auto simp: file_chain_def chain_in_def data_block_def)

lemma file_chain_ne: "file_chain v bs \<Longrightarrow> bs \<noteq> []"
  by (auto simp: file_chain_def chain_in_def)

lemma file_chain_hd: "file_chain v bs \<Longrightarrow> data_block v (hd bs)"
  by (cases bs) (auto simp: file_chain_def chain_in_def)


section \<open>Reading\<close>

context storage_device
begin

lemma checkBlock_ok: "0 < b \<Longrightarrow> checkBlock (int b) s = Some (True, s)"
  by (simp add: checkBlock_def)

lemma read_block_ok:
  assumes "at_obs v s" and "volume_ok v" and "b < blockCount (o_sblk v)" and "0 < n" and "k + n \<le> blockSize (o_sblk v)"
  shows "wp (pread ops n (b * blockSize (o_sblk v) + k) s)
    (\<lambda>r s'. r = (0, take n (drop k (block_bytes v b))) \<and> at_obs v s')"
  using pread_ok [OF assms(1,4), of "b * blockSize (o_sblk v) + k"] block_end [OF assms(2,3)] assms(5)
  by (auto simp: block_bytes_def min_def elim!: wp_mono)

lemma readFile_loop_ok:
  "at_obs v s \<Longrightarrow> volume_ok v \<Longrightarrow> file_chain v bs \<Longrightarrow>
   n \<le> length bs * blockSize (o_sblk v) \<Longrightarrow> length bs * blockSize (o_sblk v) < n + blockSize (o_sblk v) \<Longrightarrow>
   wp (readFile_loop ops file n (int (hd bs)) out s)
     (\<lambda>r s'. r = (0, out @ take n (contents v bs)) \<and> at_obs v s')"
proof (induction bs arbitrary: s n out rule: induct_list012)
  case 1
  then show ?case by (simp add: file_chain_def chain_in_def)
next
  case (2 b)
  have b: "b < blockCount (o_sblk v)" "0 < b" and T: "fat v b = FINAL"
    using 2(3) data_block_pos [OF volume_fits [OF 2(2)]] by (auto simp: file_chain_one data_block_def)
  have n: "0 < n" "n \<le> blockSize (o_sblk v)" using 2(4,5) by simp_all
  show ?case
    by (subst readFile_loop.simps)
      (use b T n 2(1) in \<open>auto simp: Let_def at_obs_sblk block_pos [OF 2(2)] checkBlock_ok fat_fits_u64 [OF volume_fits [OF 2(2)]]
         intro!: wp_mono [OF read_block_ok [OF 2(1,2) b(1), of n 0, simplified]]
           wp_mono [OF readFAT_ok [OF _ volume_fits [OF 2(2)] b(1)]]\<close>)
next
  case (3 b c bs)
  note fits = volume_fits [OF 3(4)]
  have b: "b < blockCount (o_sblk v)" "0 < b" and T: "fat v b = int c" and ch: "file_chain v (c # bs)"
    using 3(5) data_block_pos [OF fits] by (auto simp: file_chain_Cons data_block_def)
  have n: "blockSize (o_sblk v) < n" using 3(7) bsize_pos [OF fits] by simp
  have IH: "at_obs v s' \<Longrightarrow> wp (readFile_loop ops file (n - blockSize (o_sblk v)) (int c) out' s')
      (\<lambda>r s'. r = (0, out' @ take (n - blockSize (o_sblk v)) (contents v (c # bs))) \<and> at_obs v s')" for s' out'
    using 3(2) [of s' "n - blockSize (o_sblk v)" out'] ch 3(4,6,7) n by simp
  have step: "take n (contents v (b # c # bs)) = block_bytes v b @ take (n - blockSize (o_sblk v)) (contents v (c # bs))"
    using n by simp
  show ?case
    unfolding step
    by (subst readFile_loop.simps)
      (use b T n 3(3) bsize_pos [OF fits] in \<open>auto simp: Let_def at_obs_sblk block_pos [OF 3(4)] checkBlock_ok FINAL_def fat_fits_u64 [OF fits] simp del: contents_simps
         intro!: wp_mono [OF readFAT_ok [OF _ fits b(1)]]
           wp_mono [OF read_block_ok [OF _ 3(4) b(1), of _ "blockSize (o_sblk v)" 0, simplified]] wp_mono [OF IH]\<close>)
qed

lemma read_loop_ok:
  "at_obs v s \<Longrightarrow> volume_ok v \<Longrightarrow> file_chain v bs \<Longrightarrow> 0 < n \<Longrightarrow>
   wp (read_loop ops n (hd bs * blockSize (o_sblk v)) (int (hd bs)) out s)
     (\<lambda>r s'. r = (0, out @ take n (contents v bs)) \<and> at_obs v s')"
proof (induction bs arbitrary: s n out rule: induct_list012)
  case 1
  then show ?case by (simp add: file_chain_def chain_in_def)
next
  case (2 b)
  note fits = volume_fits [OF 2(2)]
  have b: "b < blockCount (o_sblk v)" and T: "fat v b = FINAL" using 2(3) by (auto simp: file_chain_one data_block_def)
  show ?case
    by (subst read_loop.simps)
      (use b T 2(4) bsize_pos [OF fits] in \<open>auto simp: Let_def at_obs_sblk [OF 2(1)] FINAL_def fat_fits_u64 [OF fits] min_def
         intro!: wp_mono [OF read_block_ok [OF 2(1,2) b(1), of _ 0, simplified]] wp_mono [OF readFAT_ok [OF _ fits b(1)]]\<close>)
next
  case (3 b c bs)
  note fits = volume_fits [OF 3(4)]
  have b: "b < blockCount (o_sblk v)" and T: "fat v b = int c" and ch: "file_chain v (c # bs)"
    using 3(5) by (auto simp: file_chain_Cons data_block_def)
  have c: "c < blockCount (o_sblk v)" using file_chain_hd [OF ch] by (simp add: data_block_def)
  have IH: "at_obs v s' \<Longrightarrow> 0 < k \<Longrightarrow> wp (read_loop ops k (c * blockSize (o_sblk v)) (int c) out' s')
      (\<lambda>r s'. r = (0, out' @ take k (contents v (c # bs))) \<and> at_obs v s')" for s' out' k
    using 3(2) [of s' k out'] ch 3(4) by simp
  show ?case
    by (subst read_loop.simps)
      (use b T 3(6) bsize_pos [OF fits] block_pos(2) [OF 3(4) c, of 0] in
       \<open>auto simp: Let_def at_obs_sblk [OF 3(3)] at_obs_sblk FINAL_def fat_fits_u64 [OF fits] min_def
         intro!: wp_mono [OF readFAT_ok [OF _ fits b(1)]]
           wp_mono [OF read_block_ok [OF 3(3,4) b(1), of _ 0, simplified]] wp_mono [OF IH]\<close>)
qed

lemma read_skip_ok:
  "at_obs v s \<Longrightarrow> volume_ok v \<Longrightarrow> file_chain v bs \<Longrightarrow> off < length bs * blockSize (o_sblk v) \<Longrightarrow>
   wp (read_skip ops (int off) (int (hd bs)) s)
     (\<lambda>r s'. r = Inr (int (off mod blockSize (o_sblk v)), int (bs ! (off div blockSize (o_sblk v)))) \<and> at_obs v s')"
proof (induction bs arbitrary: s off rule: induct_list012)
  case 1
  then show ?case by simp
next
  case (2 b)
  then show ?case by (subst read_skip.simps) (simp add: at_obs_sblk)
next
  case (3 b c bs)
  note fits = volume_fits [OF 3(4)]
  have b: "b < blockCount (o_sblk v)" and T: "fat v b = int c" "0 < c" and ch: "file_chain v (c # bs)"
    using 3(5) by (auto simp: file_chain_Cons data_block_def)
  have off: "blockSize (o_sblk v) \<le> off \<Longrightarrow> int off - int (blockSize (o_sblk v)) = int (off - blockSize (o_sblk v))"
    by simp
  have IH: "at_obs v s' \<Longrightarrow> blockSize (o_sblk v) \<le> off \<Longrightarrow>
      wp (read_skip ops (int (off - blockSize (o_sblk v))) (int c) s')
      (\<lambda>r s'. r = Inr (int (off mod blockSize (o_sblk v)), int ((b # c # bs) ! (off div blockSize (o_sblk v)))) \<and> at_obs v s')" for s'
    using 3(2) [of s' "off - blockSize (o_sblk v)"] ch 3(4,6) bsize_pos [OF fits]
    by (auto simp: le_div_geq le_mod_geq elim!: wp_mono)
  show ?case
  proof (cases "blockSize (o_sblk v) \<le> off")
    case True
    show ?thesis
      by (subst read_skip.simps)
        (use b T True in \<open>auto simp: at_obs_sblk [OF 3(3)] at_obs_sblk fat_fits_u64 [OF fits] off [OF True] simp del: of_nat_diff
         intro!: wp_mono [OF readFAT_ok [OF 3(3) fits b(1)]] IH\<close>)
  next
    case False
    then show ?thesis using 3(3) by (subst read_skip.simps) (simp add: at_obs_sblk)
  qed
qed

end

text \<open>The rest of a chain is a chain.\<close>

lemma file_chain_drop: "file_chain v bs \<Longrightarrow> i < length bs \<Longrightarrow> file_chain v (drop i bs)"
proof (induction i arbitrary: bs)
  case (Suc i)
  then obtain b c cs where "bs = b # c # cs"
    by (cases bs; cases "tl bs") (auto simp: file_chain_ne)
  with Suc show ?case by (simp add: file_chain_Cons)
qed simp

lemma contents_drop: "contents v (drop i bs) = drop (i * blockSize (o_sblk v)) (contents v bs)"
proof (induction i arbitrary: bs)
  case (Suc i)
  then show ?case by (cases bs) auto
qed simp

context storage_device
begin

text \<open>
  A read that starts at a block boundary or stays within a block gives the bytes of the file from
  the offset on, up to the end of its chain.
\<close>

lemma read_blocks_ok:
  assumes v: "at_obs v s" "volume_ok v" "file_chain v bs" and sz: "0 < sz" "sz < 2 ^ 63"
    and k: "k = 0 \<or> k + sz \<le> blockSize (o_sblk v)" "k < blockSize (o_sblk v)"
  shows "wp (read_blocks ops sz (int k) (int (hd bs)) s)
    (\<lambda>r s'. r = (0, take sz (drop k (contents v bs))) \<and> at_obs v s')"
proof -
  have b: "hd bs < blockCount (o_sblk v)" using file_chain_hd [OF v(3)] by (simp add: data_block_def)
  obtain b bs' where bs: "bs = b # bs'" using file_chain_ne [OF v(3)] by (cases bs) auto
  have "blockSize (o_sblk v) \<le> 2 ^ 32"
    using block_end [OF v(2) b] v(2) by (simp add: volume_ok_def)
  with k sz have "k + sz < 2 ^ 64" by auto
  then have sum: "u64 (int k + int sz) = k + sz" using u64_of_nat [of "k + sz"] by simp
  have pos: "u64 (int b * int (blockSize (o_sblk v)) + int k) = b * blockSize (o_sblk v) + k"
    using block_pos(2) [OF v(2) b, of k] k bs by simp
  show ?thesis
  proof (cases "k + sz \<le> blockSize (o_sblk v)")
    case True
    then show ?thesis
      using read_block_ok [OF v(1,2) b sz(1), of k] bs
      by (auto simp: read_blocks_def Let_def at_obs_sblk [OF v(1)] sum pos elim!: wp_mono)
  next
    case False
    with k have "k = 0" by simp
    with False show ?thesis
      using read_loop_ok [OF v sz(1), of "[]"] bs sum pos
      by (simp add: read_blocks_def Let_def at_obs_sblk [OF v(1)])
  qed
qed

text \<open>
  A read that starts inside a block and goes on past its end takes the next bytes of the disk, a
  block's worth of them, and then goes on with the second block of the chain.
\<close>

lemma read_blocks_crossing:
  assumes v: "at_obs v s" "volume_ok v" "file_chain v (b # c # bs)" and sz: "sz < 2 ^ 63"
    and k: "0 < k" "k < blockSize (o_sblk v)" and cross: "2 * blockSize (o_sblk v) < k + sz"
    and next_block: "Suc b < blockCount (o_sblk v)"
  shows "wp (read_blocks ops sz (int k) (int b) s)
    (\<lambda>r s'. r = (0, take sz (drop k (block_bytes v b) @ block_bytes v (Suc b) @ contents v (c # bs))) \<and> at_obs v s')"
proof -
  note fits = volume_fits [OF v(2)]
  have b: "b < blockCount (o_sblk v)" and T: "fat v b = int c" and ch: "file_chain v (c # bs)"
    using v(3) by (auto simp: file_chain_Cons data_block_def)
  have c: "c < blockCount (o_sblk v)" using file_chain_hd [OF ch] by (simp add: data_block_def)
  have "blockSize (o_sblk v) \<le> 2 ^ 32"
    using block_end [OF v(2) b] v(2) by (simp add: volume_ok_def)
  with k sz have "k + sz < 2 ^ 64" by auto
  then have sum: "u64 (int k + int sz) = k + sz" using u64_of_nat [of "k + sz"] by simp
  have pos: "u64 (int b * int (blockSize (o_sblk v)) + int k) = b * blockSize (o_sblk v) + k"
    using block_pos(2) [OF v(2) b, of k] k by simp
  define m where "m = blockSize (o_sblk v) - k"
  have m: "0 < m" "k + m = blockSize (o_sblk v)" using k by (auto simp: m_def)
  have part: "nat (int (blockSize (o_sblk v)) - int k) = m" by (simp add: m_def)
  have at: "wrap64 (b * blockSize (o_sblk v) + k + m) = Suc b * blockSize (o_sblk v)"
  proof -
    have "b * blockSize (o_sblk v) + k + m = Suc b * blockSize (o_sblk v)" using m by simp
    moreover have "Suc b * blockSize (o_sblk v) < 2 ^ 64"
      using block_end [OF v(2) b] v(2) by (simp add: volume_ok_def)
    ultimately show ?thesis by simp
  qed
  have rest: "take (sz - m) (block_bytes v (Suc b) @ contents v (c # bs)) =
      block_bytes v (Suc b) @ take (sz - m - blockSize (o_sblk v)) (contents v (c # bs))"
    using cross m by simp
  have loop: "at_obs v s' \<Longrightarrow>
      wp (read_loop ops (sz - m) (Suc b * blockSize (o_sblk v)) (int b) out s')
        (\<lambda>r s'. r = (0, out @ take (sz - m) (block_bytes v (Suc b) @ contents v (c # bs))) \<and> at_obs v s')"
    for s' out
    unfolding rest
    by (subst read_loop.simps)
      (use T cross m bsize_pos [OF fits] block_pos(2) [OF v(2) c, of 0] in
       \<open>auto simp: Let_def at_obs_sblk FINAL_def fat_fits_u64 [OF fits b] min_def simp del: contents_simps mult_Suc
         intro!: wp_mono [OF read_block_ok [OF _ v(2) next_block, of _ "blockSize (o_sblk v)" 0, simplified add_0_right drop_0]]
           wp_mono [OF readFAT_ok [OF _ fits b]] wp_mono [OF read_loop_ok [OF _ v(2) ch, unfolded list.sel]]\<close>)
  have len: "length (drop k (block_bytes v b)) = m" by (simp add: m_def)
  have "m \<le> sz" using cross m by simp
  then have all: "take sz (drop k (block_bytes v b) @ block_bytes v (Suc b) @ contents v (c # bs)) =
      drop k (block_bytes v b) @ take (sz - m) (block_bytes v (Suc b) @ contents v (c # bs))"
    by (simp only: take_append [of sz "drop k (block_bytes v b)"] len take_all)
  have whole: "take m (drop k (block_bytes v b)) = drop k (block_bytes v b)" by (simp add: m_def)
  show ?thesis
    unfolding all
    using cross k m
    by (auto simp: read_blocks_def Let_def at_obs_sblk [OF v(1)] sum pos part at simp del: contents_simps of_nat_diff mult_Suc
         intro!: wp_mono [OF read_block_ok [OF v(1,2) b, of m k, unfolded whole]] wp_mono [OF loop])
qed

end


section \<open>Writing\<close>

text \<open>The disk after a buffer is laid over the blocks of a chain, from a position in its first block on.\<close>

fun put_chain :: "observation \<Rightarrow> nat list \<Rightarrow> byte list \<Rightarrow> observation" where
  "put_chain v [] buf = v"
| "put_chain v (b # bs) buf =
     put_chain (put_bytes (b * blockSize (o_sblk v)) (take (blockSize (o_sblk v)) buf) v) bs (drop (blockSize (o_sblk v)) buf)"

definition put_at :: "observation \<Rightarrow> nat list \<Rightarrow> nat \<Rightarrow> byte list \<Rightarrow> observation" where
  "put_at v bs k buf =
     put_chain (put_bytes (hd bs * blockSize (o_sblk v) + k) (take (blockSize (o_sblk v) - k) buf) v)
       (tl bs) (drop (blockSize (o_sblk v) - k) buf)"

lemma put_bytes_Nil [simp]: "put_bytes off [] v = v"
  by (simp add: put_bytes_def)

lemma put_chain_Nil [simp]: "put_chain v bs [] = v"
  by (induction bs arbitrary: v) auto

lemma put_chain_fields [simp]:
  "o_sblk (put_chain v bs buf) = o_sblk v" "o_length (put_chain v bs buf) = o_length v"
  "o_free (put_chain v bs buf) = o_free v" "o_root (put_chain v bs buf) = o_root v"
  by (induction v bs buf rule: put_chain.induct) auto

lemma put_at_fields [simp]:
  "o_sblk (put_at v bs k buf) = o_sblk v" "o_length (put_at v bs k buf) = o_length v"
  "o_free (put_at v bs k buf) = o_free v" "o_root (put_at v bs k buf) = o_root v"
  by (simp_all add: put_at_def)

lemma volume_put [simp]:
  "volume_ok (put_bytes off bs v) = volume_ok v" "data_block (put_bytes off bs v) = data_block v"
  by (simp_all add: volume_ok_def data_block_def fun_eq_iff)

lemma rd_upd_within:
  assumes "off \<le> off'" and "off' + length xs \<le> off + n"
  shows "rd (upd f off' xs) off n = take (off' - off) (rd f off n) @ xs @ drop (off' - off + length xs) (rd f off n)"
  using assms by (intro nth_equalityI) (auto simp: nth_append upd_def add.commute)

lemma block_bytes_put:
  assumes "k + length xs \<le> blockSize (o_sblk v)"
  shows "block_bytes (put_bytes (b * blockSize (o_sblk v) + k) xs v) b =
    take k (block_bytes v b) @ xs @ drop (k + length xs) (block_bytes v b)"
  using rd_upd_within [of "b * blockSize (o_sblk v)" "b * blockSize (o_sblk v) + k" xs "blockSize (o_sblk v)" "disk v"] assms
  by (simp add: block_bytes_def)

lemma block_apart: "c \<noteq> b \<Longrightarrow> k + l \<le> n \<Longrightarrow> c * n + n \<le> b * n + k \<or> b * n + k + l \<le> c * (n::nat)"
proof -
  assume "c \<noteq> b" and kl: "k + l \<le> n"
  then consider "Suc c \<le> b" | "Suc b \<le> c" by linarith
  then show ?thesis
  proof cases
    case 1
    then have "Suc c * n \<le> b * n" by (rule mult_le_mono1)
    then show ?thesis by simp
  next
    case 2
    then have "Suc b * n \<le> c * n" by (rule mult_le_mono1)
    with kl show ?thesis by simp
  qed
qed

lemma block_bytes_other:
  assumes "k + length xs \<le> blockSize (o_sblk v)" and "c \<noteq> b"
  shows "block_bytes (put_bytes (b * blockSize (o_sblk v) + k) xs v) c = block_bytes v c"
  using block_apart [OF assms(2,1)] by (simp add: block_bytes_def rd_upd_disjoint)

text \<open>Data blocks are apart from the table.\<close>

lemma fat_put_data:
  assumes "fat_fits v" and "data_block v b" and "i < blockCount (o_sblk v)"
  shows "fat (put_bytes (b * blockSize (o_sblk v) + k) xs v) i = fat v i"
proof -
  have "fat_offset (o_sblk v) i = blockSize (o_sblk v) + i * 4" using assms(1,3) by (rule fat_offset_small)
  moreover have "i * 4 + 4 \<le> blockCount (o_sblk v) * 4" using assms(3) by simp
  ultimately have "fat_offset (o_sblk v) i + 4 \<le> b * blockSize (o_sblk v) + k"
    using assms(2) by (simp add: data_block_def)
  then show ?thesis by (simp add: fat_def fat_entry_def rd_upd_disjoint)
qed

lemma chain_put_data:
  assumes "fat_fits v" and "data_block v b"
  shows "file_chain (put_bytes (b * blockSize (o_sblk v) + k) xs v) bs = file_chain v bs"
proof (cases "set bs \<subseteq> {..<blockCount (o_sblk v)}")
  case True
  then have "chain (fat (put_bytes (b * blockSize (o_sblk v) + k) xs v)) bs = chain (fat v) bs"
    by (intro chain_cong fat_put_data [OF assms]) auto
  then show ?thesis by (simp add: file_chain_def chain_in_def)
next
  case False
  then show ?thesis by (simp add: file_chain_def chain_in_def)
qed

lemma fat_put_chain:
  "fat_fits v \<Longrightarrow> \<forall>b \<in> set bs. data_block v b \<Longrightarrow> i < blockCount (o_sblk v) \<Longrightarrow> fat (put_chain v bs buf) i = fat v i"
proof (induction bs arbitrary: v buf)
  case (Cons b bs)
  then show ?case using fat_put_data [of v b i 0] by simp
qed simp

lemma block_put_chain: "c \<notin> set bs \<Longrightarrow> block_bytes (put_chain v bs buf) c = block_bytes v c"
proof (induction bs arbitrary: v buf)
  case (Cons b bs)
  have "block_bytes (put_bytes (b * blockSize (o_sblk v)) (take (blockSize (o_sblk v)) buf) v) c = block_bytes v c"
    using block_bytes_other [of 0 "take (blockSize (o_sblk v)) buf" v c b] Cons.prems by simp
  with Cons show ?case by simp
qed simp

lemma contents_put_other:
  "b \<notin> set bs \<Longrightarrow> k + length xs \<le> blockSize (o_sblk v) \<Longrightarrow>
   contents (put_bytes (b * blockSize (o_sblk v) + k) xs v) bs = contents v bs"
  by (induction bs) (auto simp: block_bytes_other)

lemma contents_put_chain:
  "distinct bs \<Longrightarrow> length buf \<le> length bs * blockSize (o_sblk v) \<Longrightarrow>
   contents (put_chain v bs buf) bs = buf @ drop (length buf) (contents v bs)"
proof (induction bs arbitrary: v buf)
  case (Cons b bs)
  let ?n = "blockSize (o_sblk v)"
  let ?v = "put_bytes (b * ?n) (take ?n buf) v"
  have "block_bytes ?v b = take ?n buf @ drop (length buf) (block_bytes v b)"
    using block_bytes_put [of 0 "take ?n buf" v b] by (cases "length buf \<le> ?n") auto
  moreover have "contents ?v bs = contents v bs"
    using contents_put_other [of b bs 0 "take ?n buf" v] Cons.prems(1) by simp
  moreover have "length (drop ?n buf) \<le> length bs * blockSize (o_sblk ?v)" using Cons.prems(2) by auto
  ultimately show ?case
    using Cons.IH [of "drop ?n buf" ?v] Cons.prems(1)
    by (cases "length buf \<le> ?n") (auto simp: block_put_chain)
qed simp

lemma take_drop_append: "take m xs @ drop m xs @ ys = xs @ ys"
  by (simp flip: append_assoc)

lemma contents_put_at:
  assumes "distinct bs" and "bs \<noteq> []" and "k < blockSize (o_sblk v)" and "k + length buf \<le> length bs * blockSize (o_sblk v)"
  shows "contents (put_at v bs k buf) bs = take k (contents v bs) @ buf @ drop (k + length buf) (contents v bs)"
proof -
  obtain b bs' where bs: "bs = b # bs'" using assms(2) by (cases bs) auto
  let ?n = "blockSize (o_sblk v)"
  let ?v = "put_bytes (b * ?n + k) (take (?n - k) buf) v"
  have fit: "k + length (take (?n - k) buf) \<le> ?n" using assms(3) by simp
  have rest: "length (drop (?n - k) buf) \<le> length bs' * blockSize (o_sblk ?v)" using assms(3,4) bs by auto
  have "contents (put_at v bs k buf) bs =
      (take k (block_bytes v b) @ take (?n - k) buf @ drop (k + length (take (?n - k) buf)) (block_bytes v b)) @
      drop (?n - k) buf @ drop (length (drop (?n - k) buf)) (contents v bs')"
    using assms(1) bs contents_put_chain [OF _ rest] block_bytes_put [OF fit, of b]
      contents_put_other [OF _ fit, of b bs']
    by (simp add: put_at_def block_put_chain)
  also have "\<dots> = take k (contents v bs) @ buf @ drop (k + length buf) (contents v bs)"
    using assms(3) bs take_drop_append [of "?n - k" buf]
    by (cases "length buf \<le> ?n - k") (auto simp: add.commute)
  finally show ?thesis .
qed

context storage_device
begin

lemma write_block_ok:
  assumes "at_obs v s" and "volume_ok v" and "b < blockCount (o_sblk v)" and "xs \<noteq> []" and "k + length xs \<le> blockSize (o_sblk v)"
  shows "wp (pwrite ops xs (b * blockSize (o_sblk v) + k) s)
    (\<lambda>r s'. r = 0 \<and> at_obs (put_bytes (b * blockSize (o_sblk v) + k) xs v) s')"
  using pwrite_ok [OF assms(1,4), of "b * blockSize (o_sblk v) + k"] block_end [OF assms(2,3)] assms(5) by simp

lemma write_loop_ok:
  "at_obs v s \<Longrightarrow> volume_ok v \<Longrightarrow> file_chain v bs \<Longrightarrow> length buf \<le> length bs * blockSize (o_sblk v) \<Longrightarrow>
   wp (write_loop ops buf (hd bs * blockSize (o_sblk v)) (int (hd bs)) n s)
     (\<lambda>r s'. r = (0, n + length buf) \<and> at_obs (put_chain v bs buf) s')"
proof (induction bs arbitrary: v s n buf rule: induct_list012)
  case 1
  then show ?case by (simp add: file_chain_def chain_in_def)
next
  case (2 b)
  note fits = volume_fits [OF 2(2)]
  let ?v = "put_bytes (b * blockSize (o_sblk v)) buf v"
  have b: "b < blockCount (o_sblk v)" and T: "fat ?v b = FINAL" "data_block v b"
    using 2(3) fat_put_data [OF fits, of b b 0 buf] by (auto simp: file_chain_one data_block_def)
  have fit: "0 + length buf \<le> blockSize (o_sblk v)" using 2(4) by simp
  have stop: "write_loop ops [] pos blk m s' = Some ((0, m), s')" for pos blk m s'
    by (subst write_loop.simps) simp
  show ?case
  proof (cases "buf = []")
    case True
    then show ?thesis using 2(1) by (simp add: stop)
  next
    case False
    have part: "take (min (blockSize (o_sblk v)) (length buf)) buf = buf"
      "drop (min (blockSize (o_sblk v)) (length buf)) buf = []" using fit by (auto simp: min_def)
    show ?thesis
      by (subst write_loop.simps)
        (use b T False fit 2(1) in \<open>auto simp: Let_def at_obs_sblk [OF 2(1)] stop part fat_fits_u64 [OF fits]
          intro!: wp_mono [OF write_block_ok [OF 2(1,2) b False fit, simplified]] wp_mono [OF readFAT_ok [where v = ?v]]
          simp: fits\<close>)
  qed
next
  case (3 b c bs)
  note fits = volume_fits [OF 3(4)]
  let ?n = "blockSize (o_sblk v)"
  let ?v = "put_bytes (b * ?n) (take ?n buf) v"
  have b: "b < blockCount (o_sblk v)" "data_block v b" and T: "fat ?v b = int c" "0 < c" and ch: "file_chain ?v (c # bs)"
    using 3(5) fat_put_data [OF fits, of b b 0] chain_put_data [OF fits, of b 0 _ "c # bs"]
    by (auto simp: file_chain_Cons data_block_def)
  have c: "c < blockCount (o_sblk v)" using file_chain_hd [OF ch] by (simp add: data_block_def)
  have IH: "at_obs ?v s' \<Longrightarrow> wp (write_loop ops (drop ?n buf) (c * ?n) (int c) m s')
      (\<lambda>r s'. r = (0, m + length (drop ?n buf)) \<and> at_obs (put_chain ?v (c # bs) (drop ?n buf)) s')" for s' m
    using 3(2) [of ?v s' "drop ?n buf" m] ch 3(4,6) by auto
  show ?case
  proof (cases "buf = []")
    case True
    then show ?thesis using 3(3) by (subst write_loop.simps) simp
  next
    case False
    have part: "take (min ?n (length buf)) buf = take ?n buf" "drop (min ?n (length buf)) buf = drop ?n buf"
      by (auto simp: min_def)
    have ne: "take ?n buf \<noteq> []" and fit: "0 + length (take ?n buf) \<le> ?n" using False bsize_pos [OF fits] by auto
    show ?thesis
      by (subst write_loop.simps)
        (use b T False in \<open>auto simp: Let_def at_obs_sblk [OF 3(3)] at_obs_sblk part FINAL_def fat_fits_u64 [OF fits]
            fits block_pos(2) [OF 3(4) c, of 0, simplified] simp del: put_chain.simps(2)
          intro!: wp_mono [OF write_block_ok [OF 3(3,4) b(1) ne fit, simplified]] wp_mono [OF readFAT_ok [where v = ?v]]
            wp_mono [OF IH] simp: put_chain.simps(2) [of v b "c # bs"]\<close>)
  qed
qed

lemma write_skip_ok:
  "at_obs v s \<Longrightarrow> volume_ok v \<Longrightarrow> file_chain v bs \<Longrightarrow> off < length bs * blockSize (o_sblk v) \<Longrightarrow>
   wp (write_skip ops (int off) (int (hd bs)) s)
     (\<lambda>r s'. r = (int (off mod blockSize (o_sblk v)), int (bs ! (off div blockSize (o_sblk v)))) \<and> at_obs v s')"
proof (induction bs arbitrary: s off rule: induct_list012)
  case 1
  then show ?case by simp
next
  case (2 b)
  then show ?case by (subst write_skip.simps) (simp add: at_obs_sblk)
next
  case (3 b c bs)
  note fits = volume_fits [OF 3(4)]
  have b: "b < blockCount (o_sblk v)" and T: "fat v b = int c" "0 < c" and ch: "file_chain v (c # bs)"
    using 3(5) by (auto simp: file_chain_Cons data_block_def)
  have off: "blockSize (o_sblk v) \<le> off \<Longrightarrow> int off - int (blockSize (o_sblk v)) = int (off - blockSize (o_sblk v))"
    by simp
  have IH: "at_obs v s' \<Longrightarrow> blockSize (o_sblk v) \<le> off \<Longrightarrow>
      wp (write_skip ops (int (off - blockSize (o_sblk v))) (int c) s')
      (\<lambda>r s'. r = (int (off mod blockSize (o_sblk v)), int ((b # c # bs) ! (off div blockSize (o_sblk v)))) \<and> at_obs v s')" for s'
    using 3(2) [of s' "off - blockSize (o_sblk v)"] ch 3(4,6) bsize_pos [OF fits]
    by (auto simp: le_div_geq le_mod_geq elim!: wp_mono)
  show ?case
  proof (cases "blockSize (o_sblk v) \<le> off")
    case True
    show ?thesis
      by (subst write_skip.simps)
        (use b T True in \<open>auto simp: at_obs_sblk [OF 3(3)] at_obs_sblk fat_fits_u64 [OF fits] off [OF True] simp del: of_nat_diff
         intro!: wp_mono [OF readFAT_ok [OF 3(3) fits b(1)]] IH\<close>)
  next
    case False
    then show ?thesis using 3(3) by (subst write_skip.simps) (simp add: at_obs_sblk)
  qed
qed

text \<open>\<open>write\<close> gets every position right: it lays the buffer over the bytes of the file.\<close>

lemma write_blocks_ok:
  assumes v: "at_obs v s" "volume_ok v" "file_chain v bs" and buf: "buf \<noteq> []"
    and k: "k < blockSize (o_sblk v)" "k + length buf \<le> length bs * blockSize (o_sblk v)"
    and small: "k + length buf < 2 ^ 64"
  shows "wp (write_blocks ops buf (int k) (int (hd bs)) s)
    (\<lambda>r s'. r = (0, length buf) \<and> at_obs (put_at v bs k buf) s')"
proof -
  note fits = volume_fits [OF v(2)]
  obtain b bs' where bs: "bs = b # bs'" using file_chain_ne [OF v(3)] by (cases bs) auto
  have b: "b < blockCount (o_sblk v)" "data_block v b"
    using file_chain_hd [OF v(3)] bs by (auto simp: data_block_def)
  have sum: "u64 (int k + int (length buf)) = k + length buf" using u64_of_nat [OF small] by simp
  have pos: "u64 (int b * int (blockSize (o_sblk v)) + int k) = b * blockSize (o_sblk v) + k"
    using block_pos(2) [OF v(2) b(1), of k] k by simp
  show ?thesis
  proof (cases "k + length buf \<le> blockSize (o_sblk v)")
    case True
    then have "put_at v bs k buf = put_bytes (b * blockSize (o_sblk v) + k) buf v"
      by (simp add: put_at_def bs)
    then show ?thesis
      using write_block_ok [OF v(1,2) b(1) buf True] True bs
      by (auto simp: write_blocks_def Let_def at_obs_sblk [OF v(1)] sum pos elim!: wp_mono)
  next
    case False
    show ?thesis
    proof (cases "k = 0")
      case True
      then have "put_at v bs k buf = put_chain v bs buf" by (simp add: put_at_def bs)
      then show ?thesis
        using write_loop_ok [OF v, of buf 0] False True k bs sum pos
        by (simp add: write_blocks_def Let_def at_obs_sblk [OF v(1)])
    next
      case pos_k: False
      define m where "m = blockSize (o_sblk v) - k"
      have m: "0 < m" "k + m = blockSize (o_sblk v)" "m < length buf" using k False by (auto simp: m_def)
      have part: "nat (int (blockSize (o_sblk v)) - int k) = m" by (simp add: m_def)
      obtain c cs where bs': "bs' = c # cs" using k False bs by (cases bs') auto
      let ?v = "put_bytes (b * blockSize (o_sblk v) + k) (take m buf) v"
      have T: "fat ?v b = int c" "0 < c" and ch: "file_chain ?v (c # cs)"
        using v(3) fat_put_data [OF fits b(2,1)] chain_put_data [OF fits b(2)] bs bs'
        by (auto simp: file_chain_Cons)
      have c: "c < blockCount (o_sblk v)" using file_chain_hd [OF ch] by (simp add: data_block_def)
      have ne: "take m buf \<noteq> []" and fit: "k + length (take m buf) \<le> blockSize (o_sblk v)" using m by auto
      have left: "length (drop m buf) \<le> length (c # cs) * blockSize (o_sblk ?v)" using k(2) m bs bs' by simp
      have at: "put_at v bs k buf = put_chain ?v (c # cs) (drop m buf)" by (simp add: put_at_def bs bs' m_def)
      show ?thesis
        unfolding at
        by (simp only: write_blocks_def Let_def at_obs_sblk [OF v(1)] sum pos part bs list.sel False if_False
              of_nat_0_less_iff wp_bind wp_if wp_Some)
          (use T m pos_k fits c in \<open>auto simp: at_obs_sblk fat_fits_u64 block_pos(2) [OF v(2) c, of 0, simplified] simp del: put_chain.simps(2)
            intro!: wp_mono [OF write_block_ok [OF v(1,2) b(1) ne fit]] wp_mono [OF readFAT_ok [where v = ?v]]
              wp_mono [OF write_loop_ok [OF _ _ ch left, unfolded list.sel put_simps]] simp: v(2) b(1)\<close>)
    qed
  qed
qed

end

end
