(* ===== verification/FAT_Dirs.thy ===== *)
theory FAT_Dirs
  imports FAT_Data
begin

text \<open>
  The operations of \<open>ThornFATDriver\<close> on directories: \<open>writeEntry\<close>, \<open>getRoot\<close>, \<open>readDir\<close> and
  \<open>find\<close>. The reference for \<open>find\<close> is \<open>resolve\<close>, the resolution of a list of names in the tree of
  directories that the disk holds.
\<close>

section \<open>One entry\<close>

definition put_entry :: "nat \<Rightarrow> dirent \<Rightarrow> observation \<Rightarrow> observation" where
  "put_entry off e v =
     (let w = put_bytes off (encode_dirent e) v in
      if startBlock e = sbStart (o_sblk v) then w\<lparr>o_root := (o_root w)\<lparr>dlength := dlength e\<rparr>\<rparr> else w)"

definition root_at :: "observation \<Rightarrow> nat" where
  "root_at v = u32 (sbStart (o_sblk v) * int (blockSize (o_sblk v)))"

text \<open>The look at the table that \<open>writeEntry\<close> takes stays in the partition.\<close>

definition entry_checkable :: "observation \<Rightarrow> dirent \<Rightarrow> bool" where
  "entry_checkable v e \<longleftrightarrow> startBlock e = 0 \<or> fat_offset (o_sblk v) (u64 (startBlock e)) + 4 \<le> o_length v"

definition entry_free :: "observation \<Rightarrow> dirent \<Rightarrow> bool" where
  "entry_free v e \<longleftrightarrow> startBlock e = 0 \<or> fat v (u64 (startBlock e)) = 0"

lemma fat_offset_zero: "fat_fits v \<Longrightarrow> 0 < blockCount (o_sblk v) \<Longrightarrow> fat_offset (o_sblk v) 0 + 4 \<le> o_length v"
  by (rule fat_offset_fits)

lemma checkable_offset:
  "fat_fits v \<Longrightarrow> 0 < blockCount (o_sblk v) \<Longrightarrow> entry_checkable v e \<Longrightarrow>
   fat_offset (o_sblk v) (u64 (startBlock e)) + 4 \<le> o_length v"
  using fat_offset_zero [of v] by (auto simp: entry_checkable_def)

lemma checkable_block: "fat_fits v \<Longrightarrow> startBlock e = int b \<Longrightarrow> b < blockCount (o_sblk v) \<Longrightarrow> entry_checkable v e"
  by (simp add: entry_checkable_def fat_fits_u64 fat_offset_fits)

context storage_device
begin

lemma at_obs_root: "at_obs v s \<Longrightarrow> root s = o_root v"
  by (auto simp: shows_obs_def obs_def)

lemma at_obs_set_root: "at_obs v s \<Longrightarrow> at_obs (v\<lparr>o_root := r\<rparr>) (s\<lparr>root := r\<rparr>)"
  by (auto simp: shows_obs_def obs_def drv_ok_def)

lemma root_offset_at: "at_obs v s \<Longrightarrow> root_offset s = root_at v"
  by (simp add: root_offset_def root_at_def at_obs_sblk)

lemma encode_ne: "encode_dirent e \<noteq> []"
proof
  assume "encode_dirent e = []"
  then have "length (encode_dirent e) = 0" by simp
  then show False by (simp add: encode_dirent_def)
qed

lemma writeEntry_ok:
  assumes v: "at_obs v s" "fat_fits v" "0 < blockCount (o_sblk v)" and e: "entry_checkable v e" "length (dname e) = 256"
    and off: "off + 320 \<le> o_length v" "off \<noteq> root_at v"
  shows "wp (writeEntry ops e off s) (\<lambda>r s'. r = 0 \<and> at_obs (put_entry off e v) s')"
proof -
  have len: "off + length (encode_dirent e) \<le> o_length v" using off e(2) by simp
  let ?w = "put_bytes off (encode_dirent e) v"
  have step: "wp (if off = root_offset s' then m else Some (0, s')) Q \<longleftrightarrow> Q 0 s'" if "at_obs ?w s'" for s' m and Q :: "int \<Rightarrow> _"
    using off(2) root_offset_at [OF that] by (simp add: root_at_def)
  have fields: "sblk s' = o_sblk v" "root s' = o_root v" if "at_obs ?w s'" for s'
    using at_obs_sblk [OF that] at_obs_root [OF that] by simp_all
  have "wp (writeEntry ops e off s) (\<lambda>r s'. r = 0 \<and>
      at_obs (if startBlock e = sbStart (o_sblk v) then ?w\<lparr>o_root := (o_root ?w)\<lparr>dlength := dlength e\<rparr>\<rparr> else ?w) s')"
    unfolding writeEntry_def at_obs_sblk [OF v(1)] if_not_P [OF less_imp_neq [THEN not_sym, OF bsize_pos [OF v(2)]]]
      wp_bind
    by (rule wp_mono [OF readFAT_any [OF v(1) checkable_offset [OF v(2,3) e(1)]]], simp only: prod.case wp_bind)
      (rule wp_mono [OF pwrite_ok [OF _ encode_ne len]],
        auto simp: step fields simp del: wp_if intro!: at_obs_set_root)
  then show ?thesis by (simp add: put_entry_def Let_def)
qed

lemma isFree_ok:
  "at_obs v s \<Longrightarrow> entry_checkable v e \<Longrightarrow> wp (isFree ops e s) (\<lambda>r s'. r = entry_free v e \<and> at_obs v s')"
  by (auto simp: isFree_def entry_free_def entry_checkable_def elim!: wp_mono dest: readFAT_any)

end


section \<open>A directory\<close>

text \<open>A directory whose chain has the blocks its length asks for, with a whole number of entries to a block.\<close>

definition dir_ok :: "observation \<Rightarrow> dirent \<Rightarrow> nat list \<Rightarrow> bool" where
  "dir_ok v dir bs \<longleftrightarrow> isDirectory dir \<and> sizeof_DirEntry \<le> dlength dir \<and>
     startBlock dir = int (hd bs) \<and> file_chain v bs \<and> sizeof_DirEntry dvd blockSize (o_sblk v) \<and>
     dlength dir \<le> length bs * blockSize (o_sblk v) \<and> length bs * blockSize (o_sblk v) < dlength dir + blockSize (o_sblk v)"

definition entry_slot :: "observation \<Rightarrow> nat list \<Rightarrow> nat \<Rightarrow> nat" where
  "entry_slot v bs i =
     (let per_block = blockSize (o_sblk v) div sizeof_DirEntry
      in bs ! (i div per_block) * blockSize (o_sblk v) + i mod per_block * sizeof_DirEntry)"

definition dir_entries :: "observation \<Rightarrow> dirent \<Rightarrow> nat list \<Rightarrow> dirent list" where
  "dir_entries v dir bs =
     map (\<lambda>i. decode_dirent (take sizeof_DirEntry (drop (sizeof_DirEntry * i) (contents v bs)))) [0..<dlength dir div sizeof_DirEntry]"

definition dir_offsets :: "observation \<Rightarrow> dirent \<Rightarrow> nat list \<Rightarrow> nat list" where
  "dir_offsets v dir bs = map (entry_slot v bs) [0..<dlength dir div sizeof_DirEntry]"

definition dir_first :: "observation \<Rightarrow> nat list \<Rightarrow> nat option" where
  "dir_first v bs =
     (let name = cstr (take THORNFAT_PATH_MAX (contents v bs))
      in if name = ''.'' then Some 2 else if name = ''..'' then Some 1 else None)"

lemma chain_nth:
  assumes "file_chain v bs" and "Suc q < length bs"
  shows "fat v (bs ! q) = int (bs ! Suc q)" and "data_block v (bs ! q)"
proof -
  have "drop q bs = bs ! q # bs ! Suc q # drop (Suc (Suc q)) bs"
    using assms(2) by (simp add: Cons_nth_drop_Suc)
  then show "fat v (bs ! q) = int (bs ! Suc q)" "data_block v (bs ! q)"
    using file_chain_drop [OF assms(1), of q] assms(2) by (auto simp: file_chain_Cons)
qed

lemma chain_nth_data: "file_chain v bs \<Longrightarrow> q < length bs \<Longrightarrow> data_block v (bs ! q)"
  by (auto simp: file_chain_def)

lemma slots_in_chain: "i < k * n \<Longrightarrow> i div n < (k :: nat)"
  by (simp add: less_mult_imp_div_less)

context storage_device
begin

lemma getRoot_ok:
  "at_obs v s \<Longrightarrow> startBlock (o_root v) \<noteq> UNUSABLE \<Longrightarrow> getRoot ops s = Some (o_root v, s)"
  by (simp add: getRoot_def at_obs_root)

lemma getRoot_first:
  assumes "at_obs v s" and "startBlock (o_root v) = UNUSABLE" and "root_at v + 320 \<le> o_length v"
  shows "wp (getRoot ops s) (\<lambda>r s'. r = decode_dirent (rd (disk v) (root_at v) 320) \<and>
    at_obs (v\<lparr>o_root := decode_dirent (rd (disk v) (root_at v) 320)\<rparr>) s')"
  using pread_ok [of v s 320 "root_at v"] assms
  by (auto simp: getRoot_def at_obs_root root_offset_at intro: at_obs_set_root elim!: wp_mono)

lemma readFile_ok:
  assumes "at_obs v s" and "volume_ok v" and "file_chain v bs" and "startBlock file = int (hd bs)"
    and "dlength file \<le> length bs * blockSize (o_sblk v)" and "length bs * blockSize (o_sblk v) < dlength file + blockSize (o_sblk v)"
  shows "wp (readFile ops file s) (\<lambda>r s'. r = (0, take (dlength file) (contents v bs)) \<and> at_obs v s')"
  using readFile_loop_ok [OF assms(1-3,5,6), of "file" "[]"] assms(1,4) by (auto simp: readFile_def)

lemma readDir_offsets_ok:
  "at_obs v s \<Longrightarrow> volume_ok v \<Longrightarrow> file_chain v bs \<Longrightarrow> sizeof_DirEntry dvd blockSize (o_sblk v) \<Longrightarrow>
   i + n \<le> length bs * (blockSize (o_sblk v) div sizeof_DirEntry) \<Longrightarrow>
   n = 0 \<or> block = int (bs ! (i div (blockSize (o_sblk v) div sizeof_DirEntry))) \<Longrightarrow>
   wp (readDir_offsets ops n i block s) (\<lambda>r s'. r = map (entry_slot v bs) [i..<i + n] \<and> at_obs v s')"
proof (induction n arbitrary: i block s)
  case 0
  then show ?case by simp
next
  case (Suc n)
  note fits = volume_fits [OF Suc.prems(2)]
  define per where "per = blockSize (o_sblk v) div sizeof_DirEntry"
  define q where "q = i div per"
  have per: "0 < per" using bsize_pos [OF fits] Suc.prems(4) unfolding per_def by (auto elim!: dvdE)
  have block: "block = int (bs ! q)" using Suc.prems(6) by (simp add: per_def q_def)
  have "i < length bs * per" using Suc.prems(5) by (simp add: per_def)
  then have q: "q < length bs" unfolding q_def by (rule slots_in_chain)
  have b: "bs ! q < blockCount (o_sblk v)" using chain_nth_data [OF Suc.prems(3) q] by (simp add: data_block_def)
  have up: "[i..<i + Suc n] = i # [Suc i..<Suc i + n]" by (subst upt_conv_Cons) auto
  have slot: "u32 (block * int (blockSize (o_sblk v))) + i mod per * sizeof_DirEntry = entry_slot v bs i"
    using block_pos(1) [OF Suc.prems(2) b] by (simp add: block entry_slot_def Let_def per_def q_def)
  have IH: "at_obs v s' \<Longrightarrow> n = 0 \<or> block' = int (bs ! (Suc i div per)) \<Longrightarrow>
      wp (readDir_offsets ops n (Suc i) block' s') (\<lambda>r s'. r = map (entry_slot v bs) [Suc i..<Suc i + n] \<and> at_obs v s')"
    for s' block'
    using Suc.IH [of s' "Suc i" block'] Suc.prems by (simp add: per_def del: upt_Suc)
  show ?case
  proof (cases "i mod per = per - 1")
    case True
    have "Suc i mod per = 0" using True per by (simp add: mod_Suc)
    then have sq: "Suc i div per = Suc q" unfolding q_def by (simp add: div_Suc)
    have nxt: "n = 0 \<or> fat v (bs ! q) = int (bs ! (Suc i div per))"
    proof (cases n)
      case (Suc m)
      then have "Suc i < length bs * per" using Suc.prems(5) by (simp add: per_def)
      then have "Suc q < length bs" using slots_in_chain [of "Suc i" "length bs" per] sq by simp
      then show ?thesis using chain_nth(1) [OF Suc.prems(3)] sq by simp
    qed simp
    show ?thesis
      unfolding up
      by (use per True nxt Suc.prems(1) slot in \<open>auto simp: Let_def at_obs_sblk fat_fits_u64 [OF fits b] block simp flip: per_def simp del: upt_Suc
          intro!: wp_mono [OF readFAT_ok [OF Suc.prems(1) fits b]] wp_mono [OF IH]\<close>)
  next
    case False
    have "Suc i mod per \<noteq> 0" using False per by (auto simp: mod_Suc split: if_splits)
    then have sq: "Suc i div per = q" unfolding q_def by (simp add: div_Suc)
    show ?thesis
      unfolding up
      by (use per False sq Suc.prems(1) slot in \<open>auto simp: Let_def at_obs_sblk block simp flip: per_def simp del: upt_Suc
          intro!: wp_mono [OF IH]\<close>)
  qed
qed

lemma readDir_ok:
  assumes v: "at_obs v s" "volume_ok v" and d: "dir_ok v dir bs"
  shows "wp (readDir ops dir s) (\<lambda>r s'. r = (0, \<lparr>l_entries = dir_entries v dir bs, l_offsets = dir_offsets v dir bs,
    l_first = dir_first v bs\<rparr>) \<and> at_obs v s')"
proof -
  have dir: "isDirectory dir" "sizeof_DirEntry \<le> dlength dir" "startBlock dir = int (hd bs)" "file_chain v bs"
    and dvd: "sizeof_DirEntry dvd blockSize (o_sblk v)" and len: "dlength dir \<le> length bs * blockSize (o_sblk v)"
      "length bs * blockSize (o_sblk v) < dlength dir + blockSize (o_sblk v)"
    using d by (auto simp: dir_ok_def)
  define raw where "raw = take (dlength dir) (contents v bs)"
  have raw: "length raw = dlength dir" using len by (simp add: raw_def length_contents)
  define cnt where "cnt = dlength dir div sizeof_DirEntry"
  have "cnt \<le> length bs * blockSize (o_sblk v) div sizeof_DirEntry"
    unfolding cnt_def by (rule div_le_mono [OF len(1)])
  then have cnt: "0 + cnt \<le> length bs * (blockSize (o_sblk v) div sizeof_DirEntry)"
    using dvd by (simp add: div_mult_swap)
  have slice: "take sizeof_DirEntry (drop (sizeof_DirEntry * i) raw) = take sizeof_DirEntry (drop (sizeof_DirEntry * i) (contents v bs))"
    if "i < cnt" for i
  proof -
    have "sizeof_DirEntry * Suc i \<le> sizeof_DirEntry * cnt" using that by (intro mult_le_mono2) simp
    also have "\<dots> \<le> dlength dir" by (simp add: cnt_def)
    finally have "sizeof_DirEntry \<le> dlength dir - sizeof_DirEntry * i" by simp
    then show ?thesis by (simp add: raw_def drop_take min_def)
  qed
  have es: "map (\<lambda>i. decode_dirent (take sizeof_DirEntry (drop (sizeof_DirEntry * i) raw))) [0..<cnt] = dir_entries v dir bs"
    unfolding dir_entries_def cnt_def [symmetric] by (rule map_cong) (auto simp: slice)
  have first: "take THORNFAT_PATH_MAX raw = take THORNFAT_PATH_MAX (contents v bs)"
    using dir(2) by (simp add: raw_def min_def THORNFAT_PATH_MAX_def)
  have hd0: "hd bs = bs ! 0" using file_chain_ne [OF dir(4)] by (simp add: hd_conv_nth)
  have ge: "\<not> length raw < THORNFAT_PATH_MAX" using dir(2) raw by (simp add: THORNFAT_PATH_MAX_def)
  have offs: "wp (readDir_offsets ops cnt 0 (startBlock dir) s') (\<lambda>r s'. r = dir_offsets v dir bs \<and> at_obs v s')"
    if "at_obs v s'" for s'
    using readDir_offsets_ok [OF that v(2) dir(4) dvd cnt, of "startBlock dir"] hd0
    by (simp add: dir(3) dir_offsets_def cnt_def)
  have read: "wp (readFile ops dir s) (\<lambda>r s'. r = (0, raw) \<and> at_obs v s')"
    unfolding raw_def by (rule readFile_ok [OF v dir(4,3) len])
  have nz: "\<not> (dlength dir = 0 \<or> \<not> isDirectory dir)" using dir(1,2) by simp
  show ?thesis
    unfolding readDir_def if_not_P [OF nz] cnt_def [symmetric] Let_def wp_bind
    by (rule wp_mono [OF read])
      (use ge in \<open>auto simp: es first dir_first_def Let_def intro!: wp_mono [OF offs]\<close>)
qed

end


section \<open>Path resolution\<close>

text \<open>The blocks of a directory, computed from the table.\<close>

primrec chain_from :: "nat \<Rightarrow> (nat \<Rightarrow> int) \<Rightarrow> nat \<Rightarrow> nat list" where
  "chain_from 0 T b = []"
| "chain_from (Suc n) T b = b # (if 0 < T b then chain_from n T (nat (T b)) else [])"

definition dir_blocks :: "observation \<Rightarrow> dirent \<Rightarrow> nat list" where
  "dir_blocks v dir = chain_from (blockCount (o_sblk v)) (fat v) (nat (startBlock dir))"

definition entries_of :: "observation \<Rightarrow> dirent \<Rightarrow> dirent list" where
  "entries_of v dir = dir_entries v dir (dir_blocks v dir)"

definition search :: "observation \<Rightarrow> dirent \<Rightarrow> string \<Rightarrow> (dirent \<times> nat) option" where
  "search v dir name =
     List.find (\<lambda>(e, off). name = cstr (dname e) \<and> \<not> entry_free v e)
       (zip (entries_of v dir) (dir_offsets v dir (dir_blocks v dir)))"

fun resolve :: "observation \<Rightarrow> bool \<Rightarrow> dirent \<Rightarrow> nat \<Rightarrow> string list \<Rightarrow> int + found" where
  "resolve v get_parent dir off [] = Inl (- ENOENT)"
| "resolve v get_parent dir off (name # names) =
     (if get_parent \<and> names = [] then Inr \<lparr>f_entry = dir, f_offset = off, f_last = name\<rparr>
      else case search v dir name of
        None \<Rightarrow> Inl (- ENOENT)
      | Some (e, e_off) \<Rightarrow>
          if names = [] then Inr \<lparr>f_entry = e, f_offset = e_off, f_last = []\<rparr>
          else if isFile e then Inl (- ENOTDIR)
          else resolve v get_parent e e_off names)"

text \<open>A set of directories, closed under the directories among their entries in use.\<close>

definition dir_tree :: "observation \<Rightarrow> dirent set \<Rightarrow> bool" where
  "dir_tree v D \<longleftrightarrow> (\<forall>d \<in> D. dir_ok v d (dir_blocks v d) \<and>
     (\<forall>e \<in> set (entries_of v d). entry_checkable v e \<and> (\<not> entry_free v e \<longrightarrow> \<not> isFile e \<longrightarrow> e \<in> D)))"

definition as_status :: "int + found \<Rightarrow> int \<times> found" where
  "as_status r = (case r of Inl status \<Rightarrow> (status, no_found) | Inr f \<Rightarrow> (0, f))"

definition name_ok :: "string \<Rightarrow> bool" where
  "name_ok name \<longleftrightarrow> name \<noteq> [] \<and> CHR ''/'' \<notin> set name"

lemma find_zip_mem: "List.find P (zip es offs) = Some (e, off) \<Longrightarrow> e \<in> set es \<and> P (e, off)"
  by (auto simp: find_Some_iff dest: set_zip_leftD nth_mem)

lemma search_mem: "search v dir name = Some (e, off) \<Longrightarrow> e \<in> set (entries_of v dir) \<and> \<not> entry_free v e"
  unfolding search_def by (drule find_zip_mem) simp

context storage_device
begin

lemma find_entry_ok:
  "at_obs v s \<Longrightarrow> \<forall>e \<in> set es. entry_checkable v e \<Longrightarrow>
   wp (find_entry ops name es offs s)
     (\<lambda>r s'. r = List.find (\<lambda>(e, off). name = cstr (dname e) \<and> \<not> entry_free v e) (zip es offs) \<and> at_obs v s')"
proof (induction es arbitrary: offs s name)
  case Nil
  then show ?case by simp
next
  case (Cons e es)
  have IH: "at_obs v s' \<Longrightarrow> wp (find_entry ops name es offs' s')
     (\<lambda>r s'. r = List.find (\<lambda>(e, off). name = cstr (dname e) \<and> \<not> entry_free v e) (zip es offs') \<and> at_obs v s')"
    for s' offs' name
    using Cons by simp
  show ?case
  proof (cases offs)
    case Nil
    then show ?thesis using Cons.prems by simp
  next
    case (Cons off offs')
    note prems = \<open>at_obs v s\<close> \<open>\<forall>e \<in> set (e # es). entry_checkable v e\<close>
    show ?thesis
    proof (cases "cstr (dname e) = name")
      case True
      then show ?thesis
        unfolding Cons find_entry.simps using prems by (auto intro!: wp_mono [OF isFree_ok] IH)
    next
      case False
      then show ?thesis
        unfolding Cons find_entry.simps using prems by (auto intro!: IH)
    qed
  qed
qed

lemma find_loop_ok:
  "at_obs v s \<Longrightarrow> volume_ok v \<Longrightarrow> dir_tree v D \<Longrightarrow> dir \<in> D \<Longrightarrow> names \<noteq> [] \<Longrightarrow> list_all name_ok names \<Longrightarrow>
   wp (find_loop ops (join_path names) dir off get_parent s)
     (\<lambda>r s'. r = as_status (resolve v get_parent dir off names) \<and> at_obs v s')"
proof (induction names arbitrary: dir off s get_parent)
  case Nil
  then show ?case by simp
next
  case (Cons name names)
  have first: "pathFirst (join_path (name # names)) = (Some name, join_path names)"
    using Cons.prems(6) by (intro pathFirst_join_path) (auto simp: name_ok_def list_all_iff)
  have empty: "join_path names = [] \<longleftrightarrow> names = []" by (cases names) auto
  have dir: "dir_ok v dir (dir_blocks v dir)" "\<forall>e \<in> set (entries_of v dir). entry_checkable v e"
    and sub: "\<And>e. e \<in> set (entries_of v dir) \<Longrightarrow> \<not> entry_free v e \<Longrightarrow> \<not> isFile e \<Longrightarrow> e \<in> D"
    using Cons.prems(3,4) by (auto simp: dir_tree_def)
  have rd: "wp (readDir ops dir s) (\<lambda>r s'. r = (0, \<lparr>l_entries = entries_of v dir,
      l_offsets = dir_offsets v dir (dir_blocks v dir), l_first = dir_first v (dir_blocks v dir)\<rparr>) \<and> at_obs v s')"
    unfolding entries_of_def by (rule readDir_ok [OF Cons.prems(1,2) dir(1)])
  have fe: "wp (find_entry ops name (entries_of v dir) (dir_offsets v dir (dir_blocks v dir)) s')
      (\<lambda>r s'. r = search v dir name \<and> at_obs v s')" if "at_obs v s'" for s'
    unfolding search_def by (rule find_entry_ok [OF that dir(2)])
  have IH: "wp (find_loop ops (join_path names) e e_off gp s')
      (\<lambda>r s'. r = as_status (resolve v gp e e_off names) \<and> at_obs v s')"
    if "at_obs v s'" "search v dir name = Some (e, e_off)" "\<not> isFile e" "names \<noteq> []" for s' e e_off gp
    using Cons.IH [OF that(1) Cons.prems(2,3) sub] search_mem [OF that(2)] that Cons.prems(6) by simp
  show ?case
  proof (cases "get_parent \<and> names = []")
    case True
    then show ?thesis
      by (subst find_loop.simps) (use first Cons.prems(1) in \<open>simp add: Let_def as_status_def\<close>)
  next
    case False
    have at_end: "join_path names = [] \<or> Some name = None \<longleftrightarrow> names = []" using empty by simp
    have no_parent: "(names = [] \<and> get_parent) = False" using False by auto
    show ?thesis
      unfolding find_loop.simps [of _ "join_path (name # names)"] first fst_conv snd_conv Let_def at_end no_parent
        if_False option.case wp_bind
      by (rule wp_mono [OF rd])
        (use False empty in \<open>auto simp: as_status_def split: option.splits intro!: wp_mono [OF fe] IH [unfolded as_status_def]\<close>)
  qed
qed

text \<open>\<open>find\<close> resolves the names of a path from the root directory.\<close>

lemma find_path_ok:
  assumes v: "at_obs v s" "volume_ok v" and root: "startBlock (o_root v) \<noteq> UNUSABLE"
    and tree: "dir_tree v D" "o_root v \<in> D" and names: "names \<noteq> []" "list_all name_ok names"
  shows "wp (find_path ops (join_path names) get_parent s)
    (\<lambda>r s'. r = as_status (resolve v get_parent (o_root v) (root_at v) names) \<and> at_obs v s')"
proof -
  have "\<not> (join_path names = ''/'' \<or> join_path names = [])"
    using names by (cases names) (auto simp: name_ok_def)
  then show ?thesis
    using find_loop_ok [OF v tree names, of "root_at v" get_parent] getRoot_ok [OF v(1) root] root_offset_at [OF v(1)]
    by (simp add: find_path_def)
qed

lemma find_root_ok:
  assumes "at_obs v s" and "startBlock (o_root v) \<noteq> UNUSABLE" and "path = ''/'' \<or> path = []"
  shows "find_path ops path get_parent s = Some ((0, \<lparr>f_entry = o_root v, f_offset = root_at v, f_last = []\<rparr>), s)"
  using assms getRoot_ok [OF assms(1,2)] root_offset_at [OF assms(1)] by (auto simp: find_path_def)

end

end
