(* ===== verification/FAT_Resize.thy ===== *)
theory FAT_Resize
  imports FAT_Dirs
begin

text \<open>
  \<open>resize\<close>: growing appends the first free blocks to the chain, but one for every block of the new
  size except one, whatever the old size; truncating to nothing keeps the first block and yet counts
  it as free.
\<close>

text \<open>The table after the blocks \<open>cs\<close> are appended, one by one, to a chain that ends in \<open>b\<close>.\<close>

fun link :: "nat \<Rightarrow> nat list \<Rightarrow> observation \<Rightarrow> observation" where
  "link b [] v = v"
| "link b (c # cs) v = link c cs (put_fat c FINAL (put_fat b (int c) v))"

lemma link_fields [simp]:
  "o_sblk (link b cs v) = o_sblk v" "o_length (link b cs v) = o_length v" "o_free (link b cs v) = o_free v"
  "o_root (link b cs v) = o_root v"
  by (induction b cs v rule: link.induct) auto

lemma fat_fits_link [simp]: "fat_fits (link b cs v) = fat_fits v"
  by (simp add: fat_fits_def)

lemma int32_block: "fat_fits v \<Longrightarrow> c < blockCount (o_sblk v) \<Longrightarrow> int32 (int c)"
  by (simp add: fat_fits_def int32_def)

lemma fat_link_one:
  assumes "fat_fits v" and "b < blockCount (o_sblk v)" and "c < blockCount (o_sblk v)" and "i < blockCount (o_sblk v)"
  shows "fat (put_fat c FINAL (put_fat b (int c) v)) i = (if i = c then FINAL else if i = b then int c else fat v i)"
  using assms int32_block [OF assms(1,3)] by (simp add: fat_put_fat)

lemma free_list_mem: "c \<in> set (free_list v) \<longleftrightarrow> c < blockCount (o_sblk v) \<and> fat v c = 0"
  by (auto simp: free_list_def free_block_def)

lemma distinct_free_list [simp]: "distinct (free_list v)"
  by (simp add: free_list_def)

lemma free_list_link_one:
  assumes "fat_fits v" and "b < blockCount (o_sblk v)" and "fat v b \<noteq> 0" and free: "free_list v = c # cs" and "0 < c"
  shows "free_list (put_fat c FINAL (put_fat b (int c) v)) = cs"
proof -
  let ?w = "put_fat c FINAL (put_fat b (int c) v)"
  have c: "c < blockCount (o_sblk v)" using free free_list_mem [of c v] by simp
  have "free_list ?w = filter (\<lambda>i. free_block v i \<and> i \<noteq> c) [0..<blockCount (o_sblk v)]"
    unfolding free_list_def put_simps
    by (rule filter_cong) (use fat_link_one [OF assms(1,2) c] assms(3,5) in \<open>auto simp: free_block_def FINAL_def\<close>)
  also have "\<dots> = filter (\<lambda>i. i \<noteq> c) (free_list v)" by (simp add: free_list_def conj_commute)
  also have "\<dots> = cs" using distinct_free_list [of v] by (auto simp: free filter_id_conv)
  finally show ?thesis .
qed

lemma chain_snoc:
  "chain T bs \<Longrightarrow> distinct bs \<Longrightarrow> c \<notin> set bs \<Longrightarrow> 0 < c \<Longrightarrow>
   (\<And>i. i \<in> set bs \<Longrightarrow> T' i = (if i = last bs then int c else T i)) \<Longrightarrow> T' c = FINAL \<Longrightarrow> chain T' (bs @ [c])"
proof (induction T bs rule: chain.induct)
  case (3 T b d bs)
  have "b \<noteq> last (d # bs)" using 3(3) by (metis distinct.simps(2) last_in_set list.distinct(1))
  then have "T' b = int d" using 3(2) 3(6) [of b] by simp
  moreover have "chain T' ((d # bs) @ [c])" using 3 by simp
  ultimately show ?case using 3(2) by simp
qed auto

lemma chain_in_link:
  "fat_fits v \<Longrightarrow> chain_in v bs \<Longrightarrow> last bs = b \<Longrightarrow> distinct cs \<Longrightarrow>
   \<forall>c \<in> set cs. 0 < c \<and> c < blockCount (o_sblk v) \<and> fat v c = 0 \<Longrightarrow> chain_in (link b cs v) (bs @ cs)"
proof (induction b cs v arbitrary: bs rule: link.induct)
  case (2 b c cs v)
  let ?w = "put_fat c FINAL (put_fat b (int c) v)"
  have c: "c < blockCount (o_sblk v)" "0 < c" "fat v c = 0" using 2(6) by auto
  have ne: "bs \<noteq> []" and ch: "chain (fat v) bs" "distinct bs" "set bs \<subseteq> {..<blockCount (o_sblk v)}"
    using 2(3) by (auto simp: chain_in_def)
  have b: "b < blockCount (o_sblk v)" using ne ch(3) 2(4) last_in_set [OF ne] by auto
  have used: "fat v i \<noteq> 0" if "i \<in> set bs" for i
    using ch(1) that by (induction "fat v" bs rule: chain.induct) (auto simp: FINAL_def)
  have notin: "c \<notin> set bs" using used c(3) by blast
  have T: "fat ?w i = (if i = c then FINAL else if i = b then int c else fat v i)" if "i < blockCount (o_sblk v)" for i
    using fat_link_one [OF 2(2) b c(1) that] .
  have "chain (fat ?w) (bs @ [c])"
    by (rule chain_snoc [OF ch(1,2) notin c(2)]) (use T ch(3) notin c(1) 2(4) in auto)
  then have "chain_in ?w (bs @ [c])" using ch notin c(1) by (auto simp: chain_in_def)
  moreover have "\<forall>d \<in> set cs. 0 < d \<and> d < blockCount (o_sblk ?w) \<and> fat ?w d = 0"
  proof
    fix d assume d: "d \<in> set cs"
    then have "d \<noteq> c" using 2(5) by auto
    moreover have "d \<noteq> b" using 2(6) d used [OF last_in_set [OF ne]] 2(4) by auto
    ultimately show "0 < d \<and> d < blockCount (o_sblk ?w) \<and> fat ?w d = 0" using 2(6) d T [of d] by auto
  qed
  ultimately show ?case using 2(1) [of "bs @ [c]"] 2(2,5) by simp
qed auto

context storage_device
begin

lemma resize_end_ok:
  "at_obs v s \<Longrightarrow> fat_fits v \<Longrightarrow> chain (fat v) bs \<Longrightarrow> set bs \<subseteq> {..<blockCount (o_sblk v)} \<Longrightarrow>
   wp (resize_end ops (int (hd bs)) s) (\<lambda>r s'. r = int (last bs) \<and> at_obs v s')"
proof (induction bs arbitrary: s rule: induct_list012)
  case 1
  then show ?case by simp
next
  case (2 b)
  then have b: "b < blockCount (o_sblk v)" by simp
  show ?case
    by (subst resize_end.simps)
      (use 2 in \<open>auto simp: fat_fits_u64 [OF 2(2) b] FINAL_def intro!: wp_mono [OF readFAT_ok [OF 2(1,2) b]]\<close>)
next
  case (3 b c bs)
  then have b: "b < blockCount (o_sblk v)" by simp
  have IH: "at_obs v s' \<Longrightarrow> wp (resize_end ops (int c) s') (\<lambda>r s'. r = int (last (c # bs)) \<and> at_obs v s')" for s'
    using 3(2) [of s'] 3 by simp
  show ?case
    by (subst resize_end.simps)
      (use 3 in \<open>auto simp: fat_fits_u64 [OF 3(4) b] simp del: last.simps
        intro!: wp_mono [OF readFAT_ok [OF _ 3(4) b]] wp_mono [OF IH]\<close>, simp_all)
qed

lemma resize_add_ok:
  "at_obs v s \<Longrightarrow> fat_fits v \<Longrightarrow> b < blockCount (o_sblk v) \<Longrightarrow> fat v b \<noteq> 0 \<Longrightarrow> 0 \<notin> set (free_list v) \<Longrightarrow>
   n \<le> length (free_list v) \<Longrightarrow>
   wp (resize_add ops n (int b) s) (\<lambda>r s'. r = 0 \<and> at_obs (link b (take n (free_list v)) v) s')"
proof (induction n arbitrary: v s b)
  case 0
  then show ?case by simp
next
  case (Suc n)
  note fits = Suc.prems(2)
  obtain c cs where free: "free_list v = c # cs" using Suc.prems(6) by (cases "free_list v") auto
  have c: "c < blockCount (o_sblk v)" "0 < c" "fat v c = 0"
    using free Suc.prems(5) free_list_mem [of c v] by (auto intro: gr0I)
  let ?w = "put_fat c FINAL (put_fat b (int c) v)"
  have cs: "free_list ?w = cs" by (rule free_list_link_one [OF fits Suc.prems(3,4) free c(2)])
  have used: "fat ?w c \<noteq> 0" using fat_link_one [OF fits Suc.prems(3) c(1) c(1)] by (simp add: FINAL_def)
  have IH: "at_obs ?w s' \<Longrightarrow> wp (resize_add ops n (int c) s')
      (\<lambda>r s'. r = 0 \<and> at_obs (link b (take (Suc n) (free_list v)) v) s')" for s'
    using Suc.IH [of ?w s' c] Suc.prems c used free cs by simp
  have first: "first_free (free_list v) = int c" by (simp add: free first_free_def)
  show ?case
    unfolding resize_add.simps
    by (rule wp_then [OF findFreeBlock_ok [OF Suc.prems(1) fits]])
      (use c in \<open>auto simp: first fat_fits_u64 [OF fits] Suc.prems(3) fits simp del: take_Suc
        intro!: wp_mono [OF writeFAT_ok [where v = v and i = b]] wp_mono [OF writeFAT_ok [where v = "put_fat b (int c) v" and i = c]] IH\<close>)
qed

end


section \<open>The whole operation\<close>

text \<open>A place for a directory entry: past the table, inside the partition, not the root's.\<close>

definition entry_place :: "observation \<Rightarrow> nat \<Rightarrow> bool" where
  "entry_place v off \<longleftrightarrow> blockSize (o_sblk v) + blockCount (o_sblk v) * 4 \<le> off \<and> off + 320 \<le> o_length v \<and> off \<noteq> root_at v"

lemma fat_free_root [simp]: "fat (v\<lparr>o_free := n\<rparr>) = fat v" "fat (v\<lparr>o_root := r\<rparr>) = fat v"
  by (simp_all add: fun_eq_iff fat_def)

lemma fields_put_entry [simp]:
  "o_sblk (put_entry off e v) = o_sblk v" "o_length (put_entry off e v) = o_length v" "o_free (put_entry off e v) = o_free v"
  "disk (put_entry off e v) = upd (disk v) off (encode_dirent e)"
  by (simp_all add: put_entry_def Let_def)

lemma fat_put_entry:
  assumes "fat_fits v" and "entry_place v off" and "i < blockCount (o_sblk v)"
  shows "fat (put_entry off e v) i = fat v i"
proof -
  have "fat_offset (o_sblk v) i = blockSize (o_sblk v) + i * 4" using assms(1,3) by (rule fat_offset_small)
  moreover have "i * 4 + 4 \<le> blockCount (o_sblk v) * 4" using assms(3) by simp
  ultimately have "fat_offset (o_sblk v) i + 4 \<le> off" using assms(2) by (simp add: entry_place_def)
  then show ?thesis by (simp add: fat_def fat_entry_def rd_upd_disjoint)
qed

lemma chain_in_put_entry:
  assumes "fat_fits v" and "entry_place v off"
  shows "chain_in (put_entry off e v) bs = chain_in v bs"
proof (cases "set bs \<subseteq> {..<blockCount (o_sblk v)}")
  case True
  then have "chain (fat (put_entry off e v)) bs = chain (fat v) bs"
    by (intro chain_cong fat_put_entry [OF assms]) auto
  then show ?thesis by (simp add: chain_in_def)
qed (simp add: chain_in_def)

lemma decode_put_entry: "wf_dirent e \<Longrightarrow> decode_dirent (rd (disk (put_entry off e v)) off 320) = e"
  by (simp add: decode_encode_dirent wf_dirent_def [of e])

lemma free_obs_simps [simp]:
  "fat_fits (v\<lparr>o_free := n\<rparr>) = fat_fits v" "chain_in (v\<lparr>o_free := n\<rparr>) bs = chain_in v bs"
  "root_at (v\<lparr>o_free := n\<rparr>) = root_at v" "entry_place (v\<lparr>o_free := n\<rparr>) off = entry_place v off"
  "entry_checkable (v\<lparr>o_free := n\<rparr>) e = entry_checkable v e"
  by (simp_all add: fat_fits_def chain_in_def root_at_def entry_place_def entry_checkable_def)

lemma entry_place_same:
  "o_sblk w = o_sblk v \<Longrightarrow> o_length w = o_length v \<Longrightarrow> entry_place w off = entry_place v off"
  "o_sblk w = o_sblk v \<Longrightarrow> o_length w = o_length v \<Longrightarrow> entry_checkable w e = entry_checkable v e"
  by (simp_all add: entry_place_def root_at_def entry_checkable_def)

context storage_device
begin

lemma save_entry_ok:
  assumes "at_obs v s" and "fat_fits v" and "entry_place v off" and "startBlock e = int b" "b < blockCount (o_sblk v)" and "wf_dirent e"
  shows "wp (writeEntry ops e off s) (\<lambda>r s'. r = 0 \<and> at_obs (put_entry off e v) s')"
  by (rule writeEntry_ok [OF assms(1,2)])
    (use assms(3,5,6) checkable_block [OF assms(2,4,5)] in \<open>auto simp: entry_place_def wf_dirent_def\<close>)

lemma resize_grow_ok:
  assumes v: "at_obs v s" "fat_fits v" "chain_in v bs" and e: "startBlock e = int (hd bs)" "wf_dirent e" "entry_place v off"
    and grow: "k \<le> length (free_list v)" "free_list v \<noteq> []" "0 \<notin> set (free_list v)"
    and sz: "new_size < 2 ^ 64"
  defines "added \<equiv> take k (free_list v)"
  defines "w \<equiv> (link (last bs) added v)\<lparr>o_free := o_free v - int k\<rparr>"
  shows "wp (resize_grow ops e off new_size old_c (Suc k) s) (\<lambda>r s'. r = (0, e\<lparr>dlength := new_size\<rparr>) \<and>
    at_obs (put_entry off (e\<lparr>dlength := new_size\<rparr>) w) s')"
proof -
  have ch: "chain (fat v) bs" "set bs \<subseteq> {..<blockCount (o_sblk v)}" "bs \<noteq> []" using v(3) by (auto simp: chain_in_def)
  then have hd: "hd bs < blockCount (o_sblk v)" and last: "last bs < blockCount (o_sblk v)"
    using last_in_set [OF ch(3)] by (cases bs; auto)+
  have used: "fat v (last bs) \<noteq> 0"
    using ch(1,3) by (induction "fat v" bs rule: chain.induct) (auto simp: FINAL_def)
  let ?e = "e\<lparr>dlength := new_size\<rparr>"
  have wf: "wf_dirent ?e" using e(2) sz by (simp add: wf_dirent_def)
  have place: "entry_place w off" "fat_fits w" "hd bs < blockCount (o_sblk w)"
    using e(3) v(2) hd by (simp_all add: w_def entry_place_def root_at_def)
  have free: "wp (hasFree ops k s) (\<lambda>r s'. r \<and> at_obs v s')"
    by (rule wp_mono [OF hasFree_ok [OF v(1,2)]]) (use grow in auto)
  have add: "wp (resize_add ops k (int (last bs)) s')
      (\<lambda>r s'. r = 0 \<and> at_obs (link (last bs) added v) s')" if "at_obs v s'" for s'
    unfolding added_def by (rule resize_add_ok [OF that v(2) last used grow(3,1)])
  have save: "wp (writeEntry ops ?e off s') (\<lambda>r s'. r = 0 \<and> at_obs (put_entry off ?e w) s')" if "at_obs w s'" for s'
    by (rule save_entry_ok [OF that place(2,1) _ place(3) wf]) (simp add: e(1))
  have count: "at_obs w (s'\<lparr>blocksFree := blocksFree s' - int k\<rparr>)" if "at_obs (link (last bs) added v) s'" for s'
    using at_obs_free(1) [OF that, of "o_free v - int k"] at_obs_free(2) [OF that] by (simp add: w_def)
  have one: "Suc k - (if old_c \<noteq> 0 \<or> (1::nat) \<noteq> 0 then 1 else 0) = k" by simp
  show ?thesis
    unfolding resize_grow_def Let_def one
    by (rule wp_then [OF free])
      (auto simp: e(1) simp del: of_nat_diff intro!: wp_mono [OF resize_end_ok [OF _ v(2) ch(1,2)]] wp_mono [OF add] wp_mono [OF save [OF count]])
qed

text \<open>Growing a file of \<open>length bs\<close> blocks to a size of \<open>new_c\<close> blocks.\<close>

lemma resize_to_more_ok:
  assumes v: "at_obs v s" "fat_fits v" "chain_in v bs" "0 < hd bs"
    and e: "startBlock e = int (hd bs)" "wf_dirent e" "entry_place v off"
    and new_c: "updiv new_size (blockSize (o_sblk v)) = Suc k" "length bs \<le> k"
    and free: "k \<le> length (free_list v)" "free_list v \<noteq> []" "0 \<notin> set (free_list v)"
    and sz: "new_size < 2 ^ 64" "new_size \<noteq> dlength e"
  shows "wp (resize ops e off new_size s) (\<lambda>r s'. r = (0, e\<lparr>dlength := new_size\<rparr>) \<and>
    (\<exists>v'. at_obs v' s' \<and> chain_in v' (bs @ take k (free_list v)) \<and> o_sblk v' = o_sblk v \<and>
      o_free v' = o_free v - int k \<and> decode_dirent (rd (disk v') off 320) = e\<lparr>dlength := new_size\<rparr>))"
proof -
  let ?e = "e\<lparr>dlength := new_size\<rparr>"
  let ?added = "take k (free_list v)"
  let ?w = "(link (last bs) ?added v)\<lparr>o_free := o_free v - int k\<rparr>"
  have ne: "bs \<noteq> []" using v(3) by (auto simp: chain_in_def)
  have fresh: "\<forall>c \<in> set ?added. 0 < c \<and> c < blockCount (o_sblk v) \<and> fat v c = 0"
  proof
    fix c assume "c \<in> set ?added"
    then have c: "c \<in> set (free_list v)" by (rule in_set_takeD)
    then have "c \<noteq> 0" using free(3) by metis
    with c show "0 < c \<and> c < blockCount (o_sblk v) \<and> fat v c = 0" by (simp add: free_list_mem)
  qed
  have linked: "chain_in ?w (bs @ ?added)"
    using chain_in_link [OF v(2,3) refl distinct_take [OF distinct_free_list] fresh] by (simp only: free_obs_simps)
  have place: "entry_place ?w off" "fat_fits ?w" using e(3) v(2) by (simp_all add: entry_place_def root_at_def)
  have wf: "wf_dirent ?e" using e(2) sz(1) by (simp add: wf_dirent_def)
  have start: "startBlock e \<noteq> 0" "new_size \<noteq> 0" using e(1) v(4) new_c updiv_0 [of "blockSize (o_sblk v)"] by (auto intro!: Nat.gr0I)
  have bs0: "blockSize (o_sblk v) \<noteq> 0" using bsize_pos [OF v(2)] by simp
  have res: "wp (resize_grow ops e off new_size (length bs) (Suc k) s') (\<lambda>r s'. r = (0, ?e) \<and>
      (\<exists>v'. at_obs v' s' \<and> chain_in v' (bs @ ?added) \<and> o_sblk v' = o_sblk v \<and>
        o_free v' = o_free v - int k \<and> decode_dirent (rd (disk v') off 320) = ?e))" if "at_obs v s'" for s'
    by (rule wp_mono [OF resize_grow_ok [OF that v(2,3) e free sz(1)]])
      (use linked place in \<open>auto simp: chain_in_put_entry decode_put_entry [OF wf] simp del: fields_put_entry(4) of_nat_diff
         intro!: exI [of _ "put_entry off ?e ?w"]\<close>)
  have len: "wp (chainLength ops (startBlock e) s) (\<lambda>r s'. r = length bs \<and> at_obs v s')"
    unfolding e(1) by (rule chainLength_ok [OF v(1-3)])
  show ?thesis
    unfolding resize_def at_obs_sblk [OF v(1)] if_not_P [OF sz(2) [THEN not_sym]] if_not_P [OF bs0] if_not_P [OF start(1)]
      Let_def new_c(1) if_not_P [OF start(2)]
    by (rule wp_then [OF len]) (use new_c(2) res in auto)
qed

text \<open>Truncating to nothing.\<close>

lemma resize_to_zero_ok:
  assumes v: "at_obs v s" "fat_fits v" "chain_in v bs" "0 < hd bs"
    and e: "startBlock e = int (hd bs)" "wf_dirent e" "entry_place v off" "dlength e \<noteq> 0"
  shows "wp (resize ops e off 0 s) (\<lambda>r s'. r = (0, e\<lparr>dlength := 0\<rparr>) \<and>
    (\<exists>v'. at_obs v' s' \<and> chain_in v' [hd bs] \<and> o_free v' = o_free v + int (length bs) \<and>
      (\<forall>b \<in> set (tl bs). fat v' b = 0) \<and> decode_dirent (rd (disk v') off 320) = e\<lparr>dlength := 0\<rparr>))"
proof -
  let ?e = "e\<lparr>dlength := 0\<rparr>"
  let ?f = "(free_all bs v)\<lparr>o_free := o_free v + int (length bs)\<rparr>"
  let ?w = "put_fat (hd bs) FINAL ?f"
  have ch: "distinct bs" "set bs \<subseteq> {..<blockCount (o_sblk v)}" and ne: "bs \<noteq> []" using v(3) by (auto simp: chain_in_def)
  have hd: "hd bs < blockCount (o_sblk v)" using ch ne by (cases bs) auto
  have fits: "fat_fits ?f" using v(2) by simp
  have T: "fat ?w i = (if i = hd bs then FINAL else if i \<in> set bs then 0 else fat v i)" if "i < blockCount (o_sblk v)" for i
    using fat_put_fat [OF fits, of "hd bs" i FINAL] fat_free_all [OF v(2) ch(2) that] hd that by simp
  have wf: "wf_dirent ?e" using e(2) by (simp add: wf_dirent_def)
  have place: "entry_place ?w off" "fat_fits ?w" "hd bs < blockCount (o_sblk ?w)"
    using e(3) v(2) hd by (simp_all add: entry_place_def root_at_def)
  have start: "startBlock e \<noteq> 0" using e(1) v(4) by simp
  have bs0: "blockSize (o_sblk v) \<noteq> 0" using bsize_pos [OF v(2)] by simp
  have rest: "b \<noteq> hd bs \<and> b \<in> set bs" if "b \<in> set (tl bs)" for b
    using that ch(1) ne by (cases bs) auto
  have len: "wp (chainLength ops (startBlock e) s) (\<lambda>r s'. r = length bs \<and> at_obs v s')"
    unfolding e(1) by (rule chainLength_ok [OF v(1-3)])
  have save: "wp (writeEntry ops ?e off s') (\<lambda>r s'. r = 0 \<and> at_obs (put_entry off ?e ?w) s')" if "at_obs ?w s'" for s'
    by (rule save_entry_ok [OF that place(2,1) _ place(3) wf]) (simp add: e(1))
  have final: "\<exists>v'. at_obs v' s' \<and> chain_in v' [hd bs] \<and> o_free v' = o_free v + int (length bs) \<and>
      (\<forall>b \<in> set (tl bs). fat v' b = 0) \<and> decode_dirent (rd (disk v') off 320) = ?e"
    if "at_obs (put_entry off ?e ?w) s'" for s'
  proof (intro exI conjI)
    show "at_obs (put_entry off ?e ?w) s'" by fact
    show "chain_in (put_entry off ?e ?w) [hd bs]"
      unfolding chain_in_put_entry [OF place(2,1)] using T [OF hd] hd by (simp add: chain_in_def)
    show "\<forall>b \<in> set (tl bs). fat (put_entry off ?e ?w) b = 0"
    proof
      fix b assume "b \<in> set (tl bs)"
      then have b: "b \<noteq> hd bs" "b \<in> set bs" using rest by auto
      then have "b < blockCount (o_sblk v)" using ch(2) by auto
      then show "fat (put_entry off ?e ?w) b = 0" using fat_put_entry [OF place(2,1), of b ?e] T b by simp
    qed
    show "decode_dirent (rd (disk (put_entry off ?e ?w)) off 320) = ?e" by (rule decode_put_entry [OF wf])
  qed simp
  show ?thesis
    unfolding resize_def at_obs_sblk [OF v(1)] if_not_P [OF e(4)] if_not_P [OF bs0] if_not_P [OF start] Let_def
    by (rule wp_then [OF len])
      (use hd v(2) in \<open>auto simp: e(1) fat_fits_u64 [OF v(2) hd] final
        intro!: wp_mono [OF forget_ok [OF _ v(2,3)]] wp_mono [OF writeFAT_ok [OF _ fits, of _ "hd bs"]] wp_mono [OF save]\<close>)
qed

end

end
