(* ===== verification/FAT_Files.thy ===== *)
theory FAT_Files
  imports FAT_Dirs FAT_Resize
begin

text \<open>
  \<open>ThornFATDriver::read\<close> and \<open>ThornFATDriver::write\<close> as their callers see them: a path is resolved, the
  range of the file is read or overwritten, and the directory entry is written back.
\<close>

text \<open>The directories form a tree the driver can search, and a path leads to a file with the blocks \<open>bs\<close>.\<close>

definition tree_ok :: "observation \<Rightarrow> dirent set \<Rightarrow> bool" where
  "tree_ok v D \<longleftrightarrow> volume_ok v \<and> startBlock (o_root v) \<noteq> UNUSABLE \<and> dir_tree v D \<and> o_root v \<in> D"

definition file_at :: "observation \<Rightarrow> string list \<Rightarrow> found \<Rightarrow> nat list \<Rightarrow> bool" where
  "file_at v names f bs \<longleftrightarrow> names \<noteq> [] \<and> list_all name_ok names \<and>
     resolve v False (o_root v) (root_at v) names = Inr f \<and> file_chain v bs \<and>
     startBlock (f_entry f) = int (hd bs) \<and> dlength (f_entry f) \<le> length bs * blockSize (o_sblk v) \<and>
     length (dname (f_entry f)) = 256 \<and> entry_place v (f_offset f) \<and>
     (\<forall>b \<in> set bs. f_offset f + 320 \<le> b * blockSize (o_sblk v) \<or> Suc b * blockSize (o_sblk v) \<le> f_offset f)"

definition entry_apart :: "observation \<Rightarrow> nat \<Rightarrow> nat list \<Rightarrow> bool" where
  "entry_apart v off bs \<longleftrightarrow> (\<forall>b \<in> set bs. off + 320 \<le> b * blockSize (o_sblk v) \<or> Suc b * blockSize (o_sblk v) \<le> off)"

lemma contents_put_entry:
  assumes "entry_apart v off bs" and "length (dname e) = 256"
  shows "contents (put_entry off e v) bs = contents v bs"
proof -
  have "block_bytes (put_entry off e v) b = block_bytes v b" if "b \<in> set bs" for b
    using assms that by (auto simp: block_bytes_def entry_apart_def add.commute intro!: rd_upd_disjoint)
  then show ?thesis by (simp add: contents_def cong: map_cong)
qed

lemma chain_fits: "volume_ok v \<Longrightarrow> file_chain v bs \<Longrightarrow> length bs * blockSize (o_sblk v) \<le> 2 ^ 32"
proof -
  assume vol: "volume_ok v" and "file_chain v bs"
  then have "set bs \<subseteq> {..<blockCount (o_sblk v)}" "distinct bs" by (auto simp: file_chain_def chain_in_def)
  then have "length bs \<le> blockCount (o_sblk v)"
    using card_mono [of "{..<blockCount (o_sblk v)}" "set bs"] by (simp add: distinct_card)
  from mult_le_mono1 [OF this, of "blockSize (o_sblk v)"] vol show ?thesis
    unfolding volume_ok_def by linarith
qed

lemma contents_append: "contents v (xs @ ys) = contents v xs @ contents v ys"
  by (simp add: contents_def)

lemma contents_take: "i \<le> length bs \<Longrightarrow> contents v (take i bs) = take (i * blockSize (o_sblk v)) (contents v bs)"
  using contents_append [of v "take i bs" "drop i bs"] by (simp add: length_contents)

lemma put_at_before:
  assumes "distinct (xs @ ys)" and "ys \<noteq> []" and "k < blockSize (o_sblk v)"
  shows "contents (put_at v ys k buf) xs = contents v xs"
proof -
  obtain y ys' where ys: "ys = y # ys'" using assms(2) by (cases ys) auto
  have "block_bytes (put_at v ys k buf) b = block_bytes v b" if "b \<in> set xs" for b
  proof -
    have "b \<noteq> y" "b \<notin> set ys'" using assms(1) that ys by auto
    then show ?thesis
      using block_bytes_other [of k "take (blockSize (o_sblk v) - k) buf" v b y] assms(3)
      by (simp add: put_at_def ys block_put_chain)
  qed
  then show ?thesis by (simp add: contents_def cong: map_cong)
qed

lemma contents_put_middle:
  assumes "distinct bs" and off: "off < length bs * blockSize (o_sblk v)" and fit: "off + length buf \<le> length bs * blockSize (o_sblk v)"
  shows "contents (put_at v (drop (off div blockSize (o_sblk v)) bs) (off mod blockSize (o_sblk v)) buf) bs =
    take off (contents v bs) @ buf @ drop (off + length buf) (contents v bs)"
proof -
  let ?n = "blockSize (o_sblk v)" and ?i = "off div blockSize (o_sblk v)" and ?k = "off mod blockSize (o_sblk v)"
  let ?w = "put_at v (drop ?i bs) ?k buf"
  have n: "0 < ?n" using off by (cases "?n") auto
  have i: "?i < length bs" using off by (rule less_mult_imp_div_less)
  have split: "?i * ?n + ?k = off" by simp
  have "(length bs - ?i) * ?n = length bs * ?n - ?i * ?n" by (rule diff_mult_distrib)
  then have room: "?k + length buf \<le> length (drop ?i bs) * ?n" using fit split unfolding length_drop by linarith
  have "contents ?w bs = contents ?w (take ?i bs) @ contents ?w (drop ?i bs)"
    by (simp flip: contents_append)
  also have "contents ?w (take ?i bs) = take (?i * ?n) (contents v bs)"
    using put_at_before [of "take ?i bs" "drop ?i bs" ?k v buf] assms(1) i n by (simp add: contents_take)
  also have "contents ?w (drop ?i bs) =
      take ?k (drop (?i * ?n) (contents v bs)) @ buf @ drop (?k + length buf) (drop (?i * ?n) (contents v bs))"
    using contents_put_at [of "drop ?i bs" ?k v buf] assms(1) i n room by (simp add: contents_drop)
  also have "take (?i * ?n) (contents v bs) @ take ?k (drop (?i * ?n) (contents v bs)) @ buf @
      drop (?k + length buf) (drop (?i * ?n) (contents v bs)) =
      take off (contents v bs) @ buf @ drop (off + length buf) (contents v bs)"
    using split by (simp add: add.commute add.left_commute flip: take_add append_assoc)
  finally show ?thesis .
qed

lemma fat_put_at:
  assumes "fat_fits v" and "\<forall>b \<in> set bs. data_block v b" and "bs \<noteq> []" and "i < blockCount (o_sblk v)"
  shows "fat (put_at v bs k buf) i = fat v i"
proof -
  obtain b bs' where bs: "bs = b # bs'" using assms(3) by (cases bs) auto
  show ?thesis
    using assms bs fat_put_data [of v b i k "take (blockSize (o_sblk v) - k) buf"]
    by (simp add: put_at_def fat_put_chain data_block_def)
qed

lemma file_chain_put_at:
  assumes "fat_fits v" and "file_chain v bs"
  shows "file_chain (put_at v bs k buf) bs"
proof -
  have "bs \<noteq> []" "\<forall>b \<in> set bs. data_block v b" "set bs \<subseteq> {..<blockCount (o_sblk v)}"
    using assms(2) file_chain_ne by (auto simp: file_chain_def chain_in_def)
  then have "chain (fat (put_at v bs k buf)) bs = chain (fat v) bs"
    using fat_put_at [OF assms(1)] by (intro chain_cong) auto
  with assms(2) show ?thesis by (simp add: file_chain_def chain_in_def data_block_def)
qed

text \<open>An entry of a directory lies at its place on the disk.\<close>

lemma dir_entries_at:
  assumes "volume_ok v" and d: "dir_ok v dir bs"
  shows "dir_entries v dir bs = map (\<lambda>i. decode_dirent (rd (disk v) (entry_slot v bs i) 320)) [0..<dlength dir div 320]"
proof -
  let ?n = "blockSize (o_sblk v)" and ?per = "blockSize (o_sblk v) div 320"
  have n: "?n = ?per * 320" using d by (simp add: dir_ok_def)
  have "take 320 (drop (320 * i) (contents v bs)) = rd (disk v) (entry_slot v bs i) 320" if i: "i < dlength dir div 320" for i
  proof -
    let ?q = "i div ?per" and ?r = "i mod ?per"
    have "320 * i < length bs * ?n" using i d by (auto simp: dir_ok_def)
    then have "i < length bs * ?per" by (subst (asm) n) simp
    then have q: "?q < length bs" and per: "0 < ?per" by (auto simp: less_mult_imp_div_less intro: gr0I)
    have scale: "i = q * p + r \<Longrightarrow> 320 * i = r * 320 + q * (p * 320)" for p q r :: nat by simp
    have pos: "320 * i = ?r * 320 + ?q * ?n"
      using scale [OF div_mult_mod_eq [symmetric, of i ?per]] unfolding n [symmetric] .
    have "Suc ?r * 320 \<le> ?per * 320" using per by (intro mult_le_mono1) (simp add: Suc_le_eq)
    then have fit: "?r * 320 + 320 \<le> ?n" using n by simp
    have "drop (320 * i) (contents v bs) = drop (?r * 320) (contents v (drop ?q bs))"
      by (simp add: pos contents_drop)
    also have "\<dots> = drop (?r * 320) (block_bytes v (bs ! ?q)) @ contents v (drop (Suc ?q) bs)"
      using fit unfolding Cons_nth_drop_Suc [OF q, symmetric] contents_simps by simp
    finally have cut: "drop (320 * i) (contents v bs) = drop (?r * 320) (block_bytes v (bs ! ?q)) @ contents v (drop (Suc ?q) bs)" .
    have "320 \<le> ?n - ?r * 320" using fit by simp
    then show ?thesis unfolding cut by (simp add: block_bytes_def entry_slot_def Let_def)
  qed
  then show ?thesis by (simp add: dir_entries_def)
qed

context storage_device
begin

abbreviation on_disk :: "observation \<Rightarrow> 'd driver \<Rightarrow> bool" where
  "on_disk \<equiv> shows_obs bytes good cap"

lemma find_file:
  assumes "on_disk v s" "tree_ok v D" "file_at v names f bs"
  shows "wp (find_path ops (join_path names) False s) (\<lambda>r s'. r = (0, f) \<and> on_disk v s')"
  using find_path_ok [OF assms(1), of D names False] assms(2,3)
  by (auto simp: tree_ok_def file_at_def as_status_def elim!: wp_mono)

lemma save_file:
  assumes "on_disk w s" "fat_fits v" "file_at v names f bs" "o_sblk w = o_sblk v" "o_length w = o_length v"
  shows "wp (writeEntry ops (f_entry f) (f_offset f) s) (\<lambda>r s'. r = 0 \<and> on_disk (put_entry (f_offset f) (f_entry f) w) s')"
proof -
  have b: "hd bs < blockCount (o_sblk w)"
    using file_chain_hd [of v bs] assms(3,4) by (auto simp: file_at_def data_block_def)
  have fits: "fat_fits w" using assms(2,4,5) by (simp add: fat_fits_def)
  show ?thesis
    by (rule writeEntry_ok [OF assms(1) fits])
      (use assms(3-5) b checkable_block [OF fits _ b] in \<open>auto simp: file_at_def entry_place_def root_at_def\<close>)
qed

lemma read_path_ok:
  assumes v: "on_disk v s" "tree_ok v D" "file_at v names f bs" and sz: "0 < sz" "sz < 2 ^ 31"
    and off: "off < dlength (f_entry f)"
    and k: "off mod blockSize (o_sblk v) = 0 \<or> off mod blockSize (o_sblk v) + sz \<le> blockSize (o_sblk v)"
  shows "wp (read_path ops (join_path names) sz (int off) s) (\<lambda>r s'.
    r = (int (length (take sz (drop off (contents v bs)))), take sz (drop off (contents v bs))) \<and>
    on_disk (put_entry (f_offset f) (f_entry f) v) s')"
proof -
  let ?n = "blockSize (o_sblk v)" and ?out = "take sz (drop off (contents v bs))"
  let ?i = "off div ?n"
  have vol: "volume_ok v" using v(2) by (simp add: tree_ok_def)
  note fits = volume_fits [OF vol]
  have f: "file_chain v bs" "startBlock (f_entry f) = int (hd bs)" "dlength (f_entry f) \<le> length bs * ?n"
    using v(3) by (auto simp: file_at_def)
  have lt: "off < length bs * ?n" using off f(3) by simp
  then have i: "?i < length bs" by (rule less_mult_imp_div_less)
  have u: "u64 (int off) = off" using chain_fits [OF vol f(1)] lt by (intro u64_of_nat) simp
  have hd: "hd (drop ?i bs) = bs ! ?i" using i by (rule hd_drop_conv_nth)
  have pos: "0 < bs ! ?i" using chain_nth_data [OF f(1) i] data_block_pos [OF fits] by blast
  have out: "take sz (drop (off mod ?n) (contents v (drop ?i bs))) = ?out"
    by (simp add: contents_drop)
  have small: "i32 (u32 (int (length ?out))) = int (length ?out)" using sz(2) by (intro i32_u32) auto
  have big: "sz < 2 ^ 63" using sz(2) by simp
  have kn: "off mod ?n < ?n" using bsize_pos [OF fits] by simp
  show ?thesis
    using off u f(2) pos small
    by (auto simp: read_path_def Let_def intro!: wp_mono [OF find_file [OF v]] wp_mono [OF read_skip_ok [OF _ vol f(1) lt]]
      wp_mono [OF read_blocks_ok [OF _ vol file_chain_drop [OF f(1) i] sz(1) big k kn, unfolded hd out]]
      wp_mono [OF save_file [OF _ fits v(3) refl refl]])
qed

text \<open>A write inside the file: the range is overwritten, the table stays.\<close>

lemma write_path_ok:
  assumes v: "on_disk v s" "tree_ok v D" "file_at v names f bs" and buf: "buf \<noteq> []" "length buf < 2 ^ 31"
    and fit: "off + length buf \<le> dlength (f_entry f)"
  shows "wp (write_path ops (join_path names) buf (int off) s) (\<lambda>r s'. r = int (length buf) \<and>
    (\<exists>v'. on_disk v' s' \<and> o_sblk v' = o_sblk v \<and>
      contents v' bs = take off (contents v bs) @ buf @ drop (off + length buf) (contents v bs) \<and>
      (\<forall>i < blockCount (o_sblk v). fat v' i = fat v i)))"
proof -
  let ?n = "blockSize (o_sblk v)" and ?i = "off div blockSize (o_sblk v)" and ?k = "off mod blockSize (o_sblk v)"
  let ?w = "put_at v (drop ?i bs) ?k buf"
  let ?v = "put_entry (f_offset f) (f_entry f) ?w"
  have vol: "volume_ok v" using v(2) by (simp add: tree_ok_def)
  note fits = volume_fits [OF vol]
  have n: "0 < ?n" by (rule bsize_pos [OF fits])
  have f: "file_chain v bs" "startBlock (f_entry f) = int (hd bs)" "dlength (f_entry f) \<le> length bs * ?n"
    "entry_apart v (f_offset f) bs" "length (dname (f_entry f)) = 256" "entry_place v (f_offset f)"
    using v(3) by (auto simp: file_at_def entry_apart_def)
  have lt: "off < length bs * ?n" using fit f(3) buf(1) by (cases buf) auto
  then have i: "?i < length bs" by (rule less_mult_imp_div_less)
  have whole: "off + length buf \<le> length bs * ?n" using fit f(3) by simp
  have "(length bs - ?i) * ?n = length bs * ?n - ?i * ?n" by (rule diff_mult_distrib)
  moreover have "?i * ?n + ?k = off" by simp
  ultimately have room: "?k + length buf \<le> length (drop ?i bs) * ?n" using whole unfolding length_drop by linarith
  have u: "u64 (int off + int (length buf)) = off + length buf"
    using chain_fits [OF vol f(1)] fit f(3) by (subst of_nat_add [symmetric], intro u64_of_nat) simp
  have hd: "hd (drop ?i bs) = bs ! ?i" using i by (rule hd_drop_conv_nth)
  have pos: "0 < bs ! ?i" using chain_nth_data [OF f(1) i] data_block_pos [OF fits] by blast
  have small: "i32 (u32 (int (length buf))) = int (length buf)" using buf(2) by (intro i32_u32) auto
  have same: "resize ops (f_entry f) off' (dlength (f_entry f)) s' = Some ((0, f_entry f), s')" for off' s'
    by (simp add: resize_def)
  have keep: "o_sblk ?w = o_sblk v" "o_length ?w = o_length v" by simp_all
  have apart: "entry_apart ?w (f_offset f) bs" using f(4) by (simp add: entry_apart_def)
  have new: "contents ?v bs = take off (contents v bs) @ buf @ drop (off + length buf) (contents v bs)"
    using contents_put_middle [OF _ lt whole] f(1) contents_put_entry [OF apart f(5)]
    by (simp add: file_chain_def chain_in_def)
  have blocks: "\<forall>b \<in> set (drop ?i bs). data_block v b" using f(1) by (auto simp: file_chain_def dest: in_set_dropD)
  have table: "fat ?v j = fat v j" if "j < blockCount (o_sblk v)" for j
    using fat_put_entry [of ?w "f_offset f" j "f_entry f"] fat_put_at [OF fits blocks _ that] entry_place_same(1) [of ?w v] f(6) i that fits
    by (simp add: fat_fits_def)
  have kn: "?k < ?n" using n by simp
  have "?k + length buf \<le> 2 ^ 32" using whole chain_fits [OF vol f(1)] mod_less_eq_dividend [of off ?n] by linarith
  then have small2: "?k + length buf < 2 ^ 64" by (rule le_less_trans) simp
  have run: "wp (write_path ops (join_path names) buf (int off) s) (\<lambda>r s'. r = int (length buf) \<and> on_disk ?v s')"
    using fit u f(2) pos small n
    by (auto simp: write_path_def Let_def same max_def intro!: wp_mono [OF find_file [OF v]] wp_mono [OF write_skip_ok [OF _ vol f(1) lt]]
      wp_mono [OF write_blocks_ok [OF _ vol file_chain_drop [OF f(1) i] buf(1) kn room small2, unfolded hd]]
      wp_mono [OF save_file [OF _ fits v(3) keep]])
  show ?thesis
    by (rule wp_mono [OF run]) (use new table in \<open>auto intro!: exI [of _ ?v]\<close>)
qed

end

end
