(* ===== verification/FAT_Format.thy ===== *)
theory FAT_Format
  imports FAT_Dirs
begin

text \<open>
  \<open>make\<close> and \<open>verify\<close>: what formatting leaves on the disk. The two entries of the root directory
  go where the last write left off, which is in the table, right after the entries that
  \<open>initFAT\<close> wrote; the block of the root directory is not written.
\<close>

definition made_sb :: "nat \<Rightarrow> nat \<Rightarrow> superblock" where
  "made_sb len block_size =
     (let block_count = len div block_size; table_size = tableSize block_count block_size in
      \<lparr>magic = MAGIC, blockCount = block_count, fatBlocks = table_size, blockSize = block_size,
       sbStart = i32 (u32 (int table_size + 1))\<rparr>)"

definition dot_entry :: "nat \<Rightarrow> dirent" where
  "dot_entry table_size = \<lparr>dname = (replicate 256 0)[0 := 46], dtimes = zero_times, dlength = 640,
     startBlock = i32 (u32 (int table_size + 1)), dtype = Directory, modes = 0\<rparr>"

definition dotdot_entry :: "nat \<Rightarrow> dirent" where
  "dotdot_entry table_size = (dot_entry table_size)\<lparr>dname := (replicate 256 0)[0 := 46, 1 := 46]\<rparr>"

text \<open>The bytes that \<open>make\<close> puts at the start of the table, and the volume it leaves.\<close>

definition made_table :: "nat \<Rightarrow> byte list" where
  "made_table table_size =
     concat (replicate (table_size + 1) (le_bytes 4 (u32 UNUSABLE))) @ le_bytes 4 (u32 FINAL) @
     encode_dirent (dot_entry table_size) @ encode_dirent (dotdot_entry table_size)"

definition made :: "nat \<Rightarrow> observation \<Rightarrow> observation" where
  "made block_size v =
     (let sb = made_sb (o_length v) block_size; table_size = fatBlocks sb in
      (put_bytes block_size (made_table table_size)
        (put_bytes block_size (replicate (table_size * block_size) 0)
          (put_bytes 0 (encode_superblock sb) v)))
      \<lparr>o_sblk := sb, o_root := dot_entry table_size,
       o_next := block_size + length (made_table table_size)\<rparr>)"

text \<open>
  The checks that \<open>make\<close> makes of the length of the partition and the block size, and no others. A block
  size of 0 faults in the code before the first check; here the quotient is 0, which is refused.
\<close>

definition make_accepts :: "nat \<Rightarrow> nat \<Rightarrow> bool" where
  "make_accepts len block_size \<longleftrightarrow>
     MINBLOCKS \<le> len div block_size \<and> block_size mod sizeof_DirEntry = 0 \<and> 2 * sizeof_DirEntry \<le> block_size \<and>
     sizeof_Superblock \<le> block_size \<and> tableSize (len div block_size) block_size < 2 ^ 32 - 1"

text \<open>
  The sizes for which \<open>make\<close> comes back with \<open>true\<close>: those that pass its checks and whose table is not a
  whole number of pieces of 512 bytes. The code does not check the latter: it is what the write of the
  rest of the table, \<open>initFAT_zero\<close>, needs to have any bytes. That the length is below \<open>2 ^ 64\<close> is the type of the
  field.
\<close>

definition makeable :: "nat \<Rightarrow> nat \<Rightarrow> bool" where
  "makeable len block_size \<longleftrightarrow> make_accepts len block_size \<and>
     tableSize (len div block_size) block_size * block_size mod 512 \<noteq> 0 \<and> len < 2 ^ 64"

text \<open>A table of an accepted size ends in the partition, and so do the entries written after it.\<close>

lemma tableSize_bound:
  assumes "3 \<le> bc" and "640 \<le> bs"
  shows "tableSize bc bs + 1 \<le> bc" and "4 * (tableSize bc bs + 2) + 640 \<le> (bc - 1) * bs"
proof -
  let ?d = "bs div 4"
  have d: "160 \<le> ?d" using assms(2) by simp
  have t: "tableSize bc bs = 1 \<or> (160 \<le> bc \<and> tableSize bc bs \<le> bc div 160 + 1)"
  proof (cases "bc < ?d")
    case False
    have "bc div ?d \<le> bc div 160" using d by (intro div_le_mono2) simp_all
    with False d show ?thesis by (simp add: tableSize_def updiv_def)
  qed (simp add: tableSize_def)
  from t show le: "tableSize bc bs + 1 \<le> bc" using assms(1) by linarith
  have "(bc - 1) * 640 \<le> (bc - 1) * bs" using assms(2) by simp
  moreover have "4 * (tableSize bc bs + 2) + 640 \<le> (bc - 1) * 640" using le assms(1) by simp
  ultimately show "4 * (tableSize bc bs + 2) + 640 \<le> (bc - 1) * bs" by linarith
qed

lemma make_accepts_fits:
  assumes "make_accepts len bs"
  shows "(tableSize (len div bs) bs + 1) * bs \<le> len" and "bs + 4 * (tableSize (len div bs) bs + 2) + 640 \<le> len"
proof -
  let ?c = "len div bs" and ?t = "tableSize (len div bs) bs"
  have c: "3 \<le> ?c" "640 \<le> bs" using assms by (simp_all add: make_accepts_def MINBLOCKS_def)
  have "?c * bs \<le> len" by simp
  moreover have "(?t + 1) * bs \<le> ?c * bs" by (intro mult_right_mono tableSize_bound(1) [OF c]) simp
  ultimately show "(?t + 1) * bs \<le> len" by (rule order_trans [rotated])
  have "bs + (?c - 1) * bs = ?c * bs" using c(1) by (simp add: mult_eq_if)
  with tableSize_bound(2) [OF c] \<open>?c * bs \<le> len\<close> show "bs + 4 * (?t + 2) + 640 \<le> len" by linarith
qed

lemma makeable_iff:
  "makeable len block_size \<longleftrightarrow>
     (let table_size = tableSize (len div block_size) block_size in
      MINBLOCKS \<le> len div block_size \<and> block_size mod sizeof_DirEntry = 0 \<and> 640 \<le> block_size \<and>
      (table_size + 1) * block_size \<le> len \<and> table_size < 2 ^ 32 - 1 \<and> len < 2 ^ 64 \<and>
      block_size + 4 * (table_size + 2) + 640 \<le> len \<and> table_size * block_size mod 512 \<noteq> 0)"
  using make_accepts_fits [of len block_size] by (auto simp: makeable_def make_accepts_def Let_def)

lemma length_dot [simp]: "length (dname (dot_entry n)) = 256" "length (dname (dotdot_entry n)) = 256"
  by (simp_all add: dot_entry_def dotdot_entry_def)

lemma length_made_table: "length (made_table n) = 4 * (n + 2) + 640"
  by (simp add: made_table_def)

lemma put_bytes_put_bytes:
  "put_bytes (off + length as) bs (put_bytes off as v) = put_bytes off (as @ bs) v"
  by (simp add: put_bytes_def upd_append)

lemma put_bytes_fields:
  "put_bytes off bs (v\<lparr>o_next := n\<rparr>) = (put_bytes off bs v)\<lparr>o_next := n\<rparr>"
  "put_bytes off bs (v\<lparr>o_sblk := sb\<rparr>) = (put_bytes off bs v)\<lparr>o_sblk := sb\<rparr>"
  "put_bytes off bs (v\<lparr>o_root := r\<rparr>) = (put_bytes off bs v)\<lparr>o_root := r\<rparr>"
  by (simp_all add: put_bytes_def)

context storage_device
begin

lemma at_obs_next:
  "at_obs v s \<Longrightarrow> at_obs (v\<lparr>o_next := n\<rparr>) (s\<lparr>writeOffset := n\<rparr>)"
  "at_obs v s \<Longrightarrow> writeOffset s = o_next v"
  "at_obs v s \<Longrightarrow> at_obs (v\<lparr>o_sblk := sb\<rparr>) (s\<lparr>sblk := sb\<rparr>)"
  by (auto simp: shows_obs_def obs_def drv_ok_def)

lemma write_next_ok:
  assumes "at_obs v s" and "bs \<noteq> []" and "o_next v + length bs \<le> o_length v" and "o_length v < 2 ^ 64"
  shows "wp (write_next ops bs s) (\<lambda>r s'. r = 0 \<and>
    at_obs ((put_bytes (o_next v) bs v)\<lparr>o_next := o_next v + length bs\<rparr>) s')"
proof -
  have w: "wrap64 (o_next v + length bs) = o_next v + length bs" using assms(3,4) by (intro wrap64_small) linarith
  show ?thesis
    using pwrite_ok [OF assms(1-3)] assms(1)
    by (auto simp: write_next_def at_obs_next(2) w elim!: wp_mono intro!: at_obs_next(1))
qed

lemma writeMany_ok:
  "at_obs v s \<Longrightarrow> o_next v + n * 4 \<le> o_length v \<Longrightarrow> o_length v < 2 ^ 64 \<Longrightarrow>
   wp (writeMany ops x n s) (\<lambda>r s'. r = 0 \<and>
     at_obs ((put_bytes (o_next v) (concat (replicate n (le_bytes 4 (u32 x)))) v)\<lparr>o_next := o_next v + n * 4\<rparr>) s')"
proof (induction n arbitrary: v s)
  case 0
  then have "v\<lparr>o_next := o_next v\<rparr> = v" by simp
  with 0 show ?case by (simp add: put_bytes_def)
next
  case (Suc n)
  let ?b = "le_bytes 4 (u32 x)"
  let ?w = "(put_bytes (o_next v) ?b v)\<lparr>o_next := o_next v + 4\<rparr>"
  have ne: "?b \<noteq> []" by (metis length_le_bytes list.size(3) zero_neq_numeral)
  have fit: "o_next v + length ?b \<le> o_length v" using Suc.prems(2) by simp
  have "(put_bytes (o_next ?w) (concat (replicate n ?b)) ?w)\<lparr>o_next := o_next ?w + n * 4\<rparr> =
      (put_bytes (o_next v) (concat (replicate (Suc n) ?b)) v)\<lparr>o_next := o_next v + Suc n * 4\<rparr>"
    using put_bytes_put_bytes [of "o_next v" ?b "concat (replicate n ?b)" v]
    by (simp add: put_bytes_fields)
  then have IH: "at_obs ?w s' \<Longrightarrow> wp (writeMany ops x n s') (\<lambda>r s'. r = 0 \<and>
      at_obs ((put_bytes (o_next v) (concat (replicate (Suc n) ?b)) v)\<lparr>o_next := o_next v + (4 + n * 4)\<rparr>) s')" for s'
    using Suc.IH [of ?w s'] Suc.prems(2,3) by simp
  have w: "wrap64 (o_next v + 4) = o_next v + 4" using Suc.prems(2,3) by (intro wrap64_small) simp
  show ?case
    unfolding writeMany.simps wp_bind at_obs_next(2) [OF Suc.prems(1)]
    by (rule wp_mono [OF pwrite_ok [OF Suc.prems(1) ne fit]])
      (auto simp: at_obs_next(2) w simp del: replicate.simps concat.simps intro!: IH at_obs_next(1))
qed

lemma initFAT_zero_ok:
  "at_obs v s \<Longrightarrow> n mod 512 \<noteq> 0 \<Longrightarrow> off + n \<le> o_length v \<Longrightarrow> o_length v < 2 ^ 64 \<Longrightarrow>
   wp (initFAT_zero ops n off s) (\<lambda>_ s'. at_obs (put_bytes off (replicate n 0) v) s')"
proof (induction n arbitrary: off v s rule: less_induct)
  case (less n)
  show ?case
  proof (cases "512 \<le> n")
    case True
    let ?w = "put_bytes off (replicate 512 0) v"
    have n: "replicate n 0 = replicate 512 0 @ replicate (n - 512) (0::byte)"
      using True by (simp flip: replicate_add)
    have w: "wrap64 (off + 512) = off + 512" using less.prems(3,4) True by (intro wrap64_small) simp
    have "put_bytes (off + 512) (replicate (n - 512) 0) ?w = put_bytes off (replicate n 0) v"
      using put_bytes_put_bytes [of off "replicate 512 0" "replicate (n - 512) 0" v] n by simp
    then have IH: "at_obs ?w s' \<Longrightarrow> wp (initFAT_zero ops (n - 512) (off + 512) s')
        (\<lambda>_ s'. at_obs (put_bytes off (replicate n 0) v) s')" for s'
      using less.IH [of "n - 512" ?w s' "off + 512"] less.prems True by (simp add: le_mod_geq)
    have ne: "replicate 512 (0::byte) \<noteq> []" and fit: "off + length (replicate 512 (0::byte)) \<le> o_length v"
      using less.prems(3) True by auto
    show ?thesis
      by (subst initFAT_zero.simps)
        (use True in \<open>auto simp: w intro!: wp_mono [OF pwrite_ok [OF less.prems(1) ne fit]] IH\<close>)
  next
    case False
    have ne: "replicate n (0::byte) \<noteq> []" and fit: "off + length (replicate n (0::byte)) \<le> o_length v"
      using less.prems by (auto simp: replicate_empty)
    show ?thesis
      by (subst initFAT_zero.simps) (use False in \<open>auto intro!: wp_mono [OF pwrite_ok [OF less.prems(1) ne fit]]\<close>)
  qed
qed

lemma at_obs_clear:
  assumes "at_obs v s" and "0 < o_length v"
  shows "wp (partition_clear ops (partition s)) (\<lambda>st p. st = 0 \<and>
    at_obs (v\<lparr>disk := part_bytes bytes p\<rparr>) (s\<lparr>partition := p\<rparr>))"
proof -
  have ok: "part_ok good cap (partition s)" "0 < plength (partition s)" using assms by (auto simp: shows_obs_def drv_ok_def obs_def)
  show ?thesis
    by (rule wp_mono [OF partition_clear_ok [OF ok]])
      (use assms(1) in \<open>auto simp: shows_obs_def drv_ok_def obs_def part_becomes_def\<close>)
qed

lemma initFAT_ok:
  assumes v: "at_obs v s" and ts: "ts * bs mod 512 \<noteq> 0" "(ts + 1) * bs \<le> o_length v" "bs + 4 * (ts + 2) \<le> o_length v"
    and big: "o_length v < 2 ^ 64"
  shows "wp (initFAT ops ts bs s) (\<lambda>_ s'. at_obs
    ((put_bytes bs (concat (replicate (ts + 1) (le_bytes 4 (u32 UNUSABLE))) @ le_bytes 4 (u32 FINAL))
      (put_bytes bs (replicate (ts * bs) 0) v))\<lparr>o_next := bs + 4 * (ts + 2)\<rparr>) s')"
proof -
  have w: "wrap64 (ts * bs) = ts * bs" using ts(2) big by (intro wrap64_small) simp
  let ?v1 = "put_bytes bs (replicate (ts * bs) 0) v"
  let ?U = "concat (replicate (ts + 1) (le_bytes 4 (u32 UNUSABLE)))"
  let ?v2 = "(put_bytes bs ?U ?v1)\<lparr>o_next := bs + (ts + 1) * 4\<rparr>"
  have z: "wp (initFAT_zero ops (ts * bs) bs s) (\<lambda>_ s'. at_obs ?v1 s')"
    using ts(2) by (intro initFAT_zero_ok [OF v ts(1) _ big]) simp
  have m1: "wp (writeMany ops UNUSABLE (ts + 1) s') (\<lambda>r s'. at_obs ?v2 s')" if "at_obs (?v1\<lparr>o_next := bs\<rparr>) s'" for s'
    using writeMany_ok [OF that, of "ts + 1" UNUSABLE] ts(3) big
    by (auto simp: put_bytes_fields elim!: wp_mono)
  have fin: "(put_bytes (bs + (ts + 1) * 4) (le_bytes 4 (u32 FINAL)) (put_bytes bs ?U ?v1)) = put_bytes bs (?U @ le_bytes 4 (u32 FINAL)) ?v1"
    using put_bytes_put_bytes [of bs ?U "le_bytes 4 (u32 FINAL)" ?v1] by simp
  have m2: "wp (writeMany ops FINAL 1 s') (\<lambda>r s'. at_obs ((put_bytes bs (?U @ le_bytes 4 (u32 FINAL)) ?v1)\<lparr>o_next := bs + 4 * (ts + 2)\<rparr>) s')"
    if "at_obs ?v2 s'" for s'
    using writeMany_ok [OF that, of 1 FINAL] ts(3) big fin
    by (auto simp: put_bytes_fields algebra_simps elim!: wp_mono)
  show ?thesis
    unfolding initFAT_def w
    by (rule wp_then [OF z], simp only: prod.case, rule wp_then [OF m1 [OF at_obs_next(1)]], assumption,
        simp only: prod.case, rule wp_then [OF m2], assumption, simp)
qed

lemma initData_ok:
  assumes v: "at_obs v s" and fit: "o_next v + 640 \<le> o_length v" and big: "o_length v < 2 ^ 64"
  shows "wp (initData ops ts s) (\<lambda>_ s'. at_obs
    ((put_bytes (o_next v) (encode_dirent (dot_entry ts) @ encode_dirent (dotdot_entry ts)) v)
      \<lparr>o_next := o_next v + 640, o_root := dot_entry ts\<rparr>) s')"
proof -
  let ?d = "encode_dirent (dot_entry ts)" and ?dd = "encode_dirent (dotdot_entry ts)"
  have dot: "(dirent_reset r)\<lparr>dname := (dname (dirent_reset r))[0 := 46], dlength := 2 * sizeof_DirEntry,
      startBlock := i32 (u32 (int ts + 1)), dtype := Directory\<rparr> = dot_entry ts" for r
    by (simp add: dirent_reset_def dot_entry_def THORNFAT_PATH_MAX_def)
  have dotdot: "(dot_entry ts)\<lparr>dname := (dname (dot_entry ts))[1 := 46]\<rparr> = dotdot_entry ts"
    by (simp add: dot_entry_def dotdot_entry_def)
  have len: "length ?d = 320" "length ?dd = 320" by simp_all
  let ?v1 = "(put_bytes (o_next v) ?d v)\<lparr>o_root := dot_entry ts, o_next := o_next v + 320\<rparr>"
  have s1: "wp (write_next ops ?d s') (\<lambda>_ s'. at_obs ?v1 s')" if "at_obs (v\<lparr>o_root := dot_entry ts\<rparr>) s'" for s'
    using write_next_ok [OF that encode_ne [of "dot_entry ts"]] fit big len by (auto simp: put_bytes_fields elim!: wp_mono)
  have two: "put_bytes (o_next v + 320) ?dd (put_bytes (o_next v) ?d v) = put_bytes (o_next v) (?d @ ?dd) v"
    using put_bytes_put_bytes [of "o_next v" ?d ?dd v] len by simp
  have s2: "wp (write_next ops ?dd s') (\<lambda>_ s'. at_obs ((put_bytes (o_next v) (?d @ ?dd) v)\<lparr>o_root := dotdot_entry ts, o_next := 640 + o_next v\<rparr>) s')"
    if "at_obs (?v1\<lparr>o_root := dotdot_entry ts\<rparr>) s'" for s'
    using write_next_ok [OF that encode_ne [of "dotdot_entry ts"]] fit big len two by (auto simp: put_bytes_fields add.commute [of _ 640] elim!: wp_mono)
  have root: "at_obs ((put_bytes (o_next v) (?d @ ?dd) v)\<lparr>o_next := o_next v + 640, o_root := dot_entry ts\<rparr>) (s'\<lparr>root := dot_entry ts\<rparr>)"
    if "at_obs ((put_bytes (o_next v) (?d @ ?dd) v)\<lparr>o_root := dotdot_entry ts, o_next := 640 + o_next v\<rparr>) s'" for s'
    using at_obs_set_root [OF that, of "dot_entry ts"] by (simp add: add.commute)
  show ?thesis
    unfolding initData_def Let_def dot dotdot wp_bind
    by (rule wp_mono [OF s1 [OF at_obs_set_root [OF v]]])
      (auto intro!: wp_mono [OF s2 [OF at_obs_set_root]] root)
qed

lemma make_ok:
  assumes v: "at_obs v s" and sz: "makeable (o_length v) block_size"
  shows "wp (make_fs ops block_size s) (\<lambda>r s'. r \<and> (\<exists>p. partition_clear ops (partition s) = Some (0, p) \<and>
    at_obs (made block_size (v\<lparr>disk := part_bytes bytes p\<rparr>)) s'))"
proof -
  define bc where "bc = o_length v div block_size"
  define ts where "ts = tableSize bc block_size"
  define sb where "sb = made_sb (o_length v) block_size"
  have sizes: "MINBLOCKS \<le> bc" "block_size mod sizeof_DirEntry = 0" "640 \<le> block_size" "(ts + 1) * block_size \<le> o_length v"
      "ts < 2 ^ 32 - 1" "block_size + 4 * (ts + 2) + 640 \<le> o_length v" "ts * block_size mod 512 \<noteq> 0"
    and big: "o_length v < 2 ^ 64"
    using sz by (auto simp: makeable_iff Let_def bc_def ts_def)
  have sb: "sb = \<lparr>magic = MAGIC, blockCount = bc, fatBlocks = ts, blockSize = block_size, sbStart = i32 (u32 (int ts + 1))\<rparr>"
    by (simp add: sb_def made_sb_def Let_def bc_def ts_def)
  have fat_blocks: "fatBlocks sb = ts" by (simp add: sb)
  have lenp: "at_obs (v\<lparr>disk := m\<rparr>) (s\<lparr>partition := p\<rparr>) \<Longrightarrow> plength p = o_length v" for m p
    by (cases v) (auto simp: shows_obs_def obs_def)
  have lsb: "length (encode_superblock sb) = 24" by simp
  then have ne: "encode_superblock sb \<noteq> []" by (metis list.size(3) zero_neq_numeral)
  have pos: "0 < o_length v" using sizes(6) by simp
  let ?U = "concat (replicate (ts + 1) (le_bytes 4 (u32 UNUSABLE)))"
  let ?D = "encode_dirent (dot_entry ts) @ encode_dirent (dotdot_entry ts)"
  have run: "wp (do { (_, s) \<leftarrow> write_next ops (encode_superblock sb) (s'\<lparr>sblk := sb, writeOffset := 0\<rparr>);
        (_, s) \<leftarrow> initFAT ops ts block_size s; (_, s) \<leftarrow> initData ops ts s; Some (True, s) })
      (\<lambda>r s'. r \<and> at_obs (made block_size (v\<lparr>disk := m\<rparr>)) s')" if s': "at_obs (v\<lparr>disk := m\<rparr>) s'" for s' m
  proof -
    let ?v0 = "v\<lparr>disk := m, o_sblk := sb, o_next := 0\<rparr>"
    let ?v1 = "(put_bytes 0 (encode_superblock sb) ?v0)\<lparr>o_next := 24\<rparr>"
    let ?v2 = "(put_bytes block_size (?U @ le_bytes 4 (u32 FINAL)) (put_bytes block_size (replicate (ts * block_size) 0) ?v1))
        \<lparr>o_next := block_size + 4 * (ts + 2)\<rparr>"
    have w1: "wp (write_next ops (encode_superblock sb) (s'\<lparr>sblk := sb, writeOffset := 0\<rparr>)) (\<lambda>_ s'. at_obs ?v1 s')"
      using write_next_ok [OF at_obs_next(1) [OF at_obs_next(3) [OF s']] ne, of 0 sb] lsb sizes(6) big
      by (auto elim!: wp_mono)
    have w2: "at_obs ?v1 s' \<Longrightarrow> wp (initFAT ops ts block_size s') (\<lambda>_ s'. at_obs ?v2 s')" for s'
      using initFAT_ok [of ?v1 s' ts block_size] sizes big by simp
    have fin: "(put_bytes (o_next ?v2) ?D ?v2)\<lparr>o_next := o_next ?v2 + 640, o_root := dot_entry ts\<rparr> = made block_size (v\<lparr>disk := m\<rparr>)"
    proof -
      have "made_table ts = (?U @ le_bytes 4 (u32 FINAL)) @ ?D" by (simp add: made_table_def)
      moreover have "length (?U @ le_bytes 4 (u32 FINAL)) = 4 * (ts + 2)" by simp
      ultimately have "put_bytes block_size (made_table ts) x =
          put_bytes (block_size + 4 * (ts + 2)) ?D (put_bytes block_size (?U @ le_bytes 4 (u32 FINAL)) x)" for x
        using put_bytes_put_bytes [of block_size "?U @ le_bytes 4 (u32 FINAL)" ?D x] by (simp only:)
      moreover have "made block_size (v\<lparr>disk := m\<rparr>) = (put_bytes block_size (made_table ts)
          (put_bytes block_size (replicate (ts * block_size) 0) (put_bytes 0 (encode_superblock sb) (v\<lparr>disk := m\<rparr>))))
          \<lparr>o_sblk := sb, o_root := dot_entry ts, o_next := block_size + (4 * (ts + 2) + 640)\<rparr>"
        by (simp add: made_def Let_def length_made_table fat_blocks flip: sb_def)
      ultimately show ?thesis by (simp add: put_bytes_fields add.commute)
    qed
    have w3: "at_obs ?v2 s' \<Longrightarrow> wp (initData ops ts s') (\<lambda>_ s'. at_obs (made block_size (v\<lparr>disk := m\<rparr>)) s')" for s'
      using initData_ok [of ?v2 s' ts] sizes big unfolding fin by simp
    show ?thesis
      unfolding wp_bind by (rule wp_mono [OF w1]) (auto intro!: wp_mono [OF w2] wp_mono [OF w3])
  qed
  obtain p where p: "partition_clear ops (partition s) = Some (0, p)"
    and s': "at_obs (v\<lparr>disk := part_bytes bytes p\<rparr>) (s\<lparr>partition := p\<rparr>)"
    using at_obs_clear [OF v pos] by (auto elim!: wpE)
  show ?thesis
    unfolding make_fs_def p
    by (use sizes in \<open>auto simp: Let_def lenp [OF s'] simp flip: bc_def ts_def sb simp del: wp_bind u32_small intro!: wp_mono [OF run [OF s']]\<close>)
qed

end


section \<open>The volume that make leaves\<close>

lemma rd_upd_inside:
  assumes "off \<le> k" and "k + n \<le> off + length bs"
  shows "rd (upd f off bs) k n = take n (drop (k - off) bs)"
  using assms by (intro nth_equalityI) auto

lemma slice_replicate:
  "i < k \<Longrightarrow> length xs = n \<Longrightarrow> take n (drop (n * i) (concat (replicate k xs) @ ys)) = xs"
proof (induction i arbitrary: k)
  case 0
  then show ?case by (cases k) auto
next
  case (Suc i)
  then obtain k' where "k = Suc k'" by (cases k) auto
  with Suc show ?case by simp
qed

lemma made_fields [simp]:
  "o_sblk (made bs v) = made_sb (o_length v) bs" "o_length (made bs v) = o_length v"
  "o_root (made bs v) = dot_entry (fatBlocks (made_sb (o_length v) bs))"
  by (simp_all add: made_def Let_def)

lemma made_sb_fields [simp]:
  "blockSize (made_sb len bs) = bs" "blockCount (made_sb len bs) = len div bs" "magic (made_sb len bs) = MAGIC"
  "fatBlocks (made_sb len bs) = tableSize (len div bs) bs"
  by (simp_all add: made_sb_def Let_def)

lemma made_slice:
  assumes "k + n \<le> 4 * (tableSize (o_length v div bs) bs + 2) + 640"
  shows "rd (disk (made bs v)) (bs + k) n = take n (drop k (made_table (tableSize (o_length v div bs) bs)))"
proof -
  have "\<exists>m. disk (made bs v) = upd m bs (made_table (tableSize (o_length v div bs) bs))"
    by (simp add: made_def Let_def) blast
  then obtain m where m: "disk (made bs v) = upd m bs (made_table (tableSize (o_length v div bs) bs))" by blast
  show ?thesis
    unfolding m using assms by (subst rd_upd_inside) (simp_all add: length_made_table)
qed

lemma made_fat_offset:
  assumes "makeable (o_length v) bs" and "i \<le> tableSize (o_length v div bs) bs + 2"
  shows "fat_offset (o_sblk (made bs v)) i = bs + 4 * i"
proof -
  have "bs + 4 * i < 2 ^ 64" using assms by (simp add: makeable_iff Let_def)
  then show ?thesis by (simp add: fat_offset_def mult.commute)
qed

lemma made_fat:
  assumes "makeable (o_length v) bs" and ts: "ts = tableSize (o_length v div bs) bs"
  shows "i \<le> ts \<Longrightarrow> fat (made bs v) i = UNUSABLE" and "fat (made bs v) (ts + 1) = FINAL"
    and "fat (made bs v) (ts + 2) = 46"
proof -
  have at: "i \<le> ts + 2 \<Longrightarrow> fat (made bs v) i = i32 (le_nat (take 4 (drop (4 * i) (made_table ts))))" for i
    using made_fat_offset [OF assms(1), of i] made_slice [of "4 * i" 4 v bs]
    by (simp add: fat_def fat_entry_def ts)
  let ?U = "le_bytes 4 (u32 UNUSABLE)" and ?F = "le_bytes 4 (u32 FINAL)"
  let ?D = "encode_dirent (dot_entry ts) @ encode_dirent (dotdot_entry ts)"
  have skip: "drop (4 * (ts + 1)) (made_table ts) = ?F @ ?D"
    by (simp add: made_table_def del: replicate_Suc concat.simps)
  have "drop (4 * (ts + 2)) (made_table ts) = drop 4 (drop (4 * (ts + 1)) (made_table ts))" by (simp add: add.commute)
  then have skip2: "drop (4 * (ts + 2)) (made_table ts) = ?D" unfolding skip by simp
  show "fat (made bs v) i = UNUSABLE" if "i \<le> ts"
  proof -
    have "take 4 (drop (4 * i) (made_table ts)) = ?U"
      unfolding made_table_def by (rule slice_replicate) (use that in auto)
    with that show ?thesis by (simp add: at i32_le_nat_u32)
  qed
  show "fat (made bs v) (ts + 1) = FINAL"
    using skip by (simp add: at i32_le_nat_u32 del: mult_Suc_right)
  show "fat (made bs v) (ts + 2) = 46"
  proof -
    have "take 4 ?D = take 4 (dname (dot_entry ts))" by (simp add: encode_dirent_def)
    also have "\<dots> = [46, 0, 0, 0]"
      by (simp add: dot_entry_def take_update_swap) (simp add: numeral_eq_Suc)
    finally have "take 4 (drop (4 * (ts + 2)) (made_table ts)) = [46, 0, 0, 0]" unfolding skip2 .
    then show ?thesis by (simp only: at order.refl) (simp add: i32_def)
  qed
qed

text \<open>The bytes past the table are those the device held before, and so is the block of the root directory.\<close>

lemma made_rest:
  assumes "makeable (o_length v) bs" and ts: "ts = tableSize (o_length v div bs) bs"
    and "4 * (ts + 2) + 640 \<le> ts * bs" and "(ts + 1) * bs \<le> k"
  shows "disk (made bs v) k = disk v k"
proof -
  have "24 \<le> bs" using assms(1) by (simp add: makeable_iff Let_def)
  moreover have "bs + ts * bs \<le> k" using assms(4) by simp
  ultimately show ?thesis
    using assms(3) by (simp add: made_def Let_def length_made_table flip: ts)
qed

lemma made_superblock:
  assumes "makeable (o_length v) bs"
  shows "rd (disk (made bs v)) 0 24 = encode_superblock (made_sb (o_length v) bs)"
proof -
  have "640 \<le> bs" using assms by (simp add: makeable_iff Let_def)
  then show ?thesis by (simp add: made_def Let_def rd_upd_disjoint)
qed

lemma made_sb_wf: "makeable len bs \<Longrightarrow> bs < 2 ^ 32 \<Longrightarrow> wf_superblock (made_sb len bs)"
proof -
  assume m: "makeable len bs" and bs: "bs < 2 ^ 32"
  then have "len div bs < 2 ^ 64"
    by (intro le_less_trans [OF div_le_dividend]) (simp add: makeable_iff Let_def)
  then show ?thesis
    using m bs i32_range by (simp add: wf_superblock_def made_sb_def Let_def makeable_iff MAGIC_def int32_def)
qed

context storage_device
begin

lemma readSuperblock_ok:
  assumes "at_obs v s" and "24 \<le> o_length v"
  shows "wp (readSuperblock ops s) (\<lambda>r s'. r = 0 \<and>
    at_obs (v\<lparr>o_sblk := decode_superblock (rd (disk v) 0 24)\<rparr>) s')"
  using pread_ok [OF assms(1), of 24 0] assms(2)
  by (auto simp: readSuperblock_def elim!: wp_mono intro: at_obs_next(3))

lemma verify_ok:
  assumes "at_obs v s" and "24 \<le> o_length v"
  shows "wp (verify ops s) (\<lambda>r s'. r = (magic (decode_superblock (rd (disk v) 0 24)) = MAGIC) \<and>
    at_obs (v\<lparr>o_sblk := decode_superblock (rd (disk v) 0 24)\<rparr>) s')"
  using readSuperblock_ok [OF assms] by (auto simp: verify_def at_obs_sblk elim!: wp_mono)

end


section \<open>Formatting with blocks of a multiple of 512 bytes\<close>

text \<open>
  The last write of \<open>initFAT_zero\<close> is empty when the table is a multiple of 512 bytes. A device on which an empty write at
  a sector boundary does not return, as the assertion of \<open>writeCache\<close> makes of the AHCI device, keeps \<open>make\<close> for ever.
\<close>

lemma wrap64_mod_512: "wrap64 n mod 512 = n mod 512"
proof -
  have "n mod 512 = n mod 18446744073709551616 mod 512"
    by (rule mod_mod_cancel [symmetric]) simp
  then show ?thesis by (simp add: wrap64_def)
qed

context storage_device
begin

lemma pwrite_empty_halts:
  assumes "\<And>d off. good d \<Longrightarrow> off mod 512 = 0 \<Longrightarrow> swrite ops [] off d = None" and "at_obs v s" and "(o_offset v + off) mod 512 = 0"
  shows "pwrite ops [] off s = None"
proof -
  have "good (pdev (partition s))" "poffset (partition s) = o_offset v"
    using assms(2) by (auto simp: shows_obs_def drv_ok_def part_ok_def obs_def)
  then show ?thesis using assms(1,3) by (simp add: pwrite_def partition_write_def wrap64_mod_512)
qed

lemma initFAT_zero_halts:
  assumes empty: "\<And>d off. good d \<Longrightarrow> off mod 512 = 0 \<Longrightarrow> swrite ops [] off d = None"
  shows "at_obs v s \<Longrightarrow> n mod 512 = 0 \<Longrightarrow> (o_offset v + off) mod 512 = 0 \<Longrightarrow> off + n \<le> o_length v \<Longrightarrow> o_length v < 2 ^ 64 \<Longrightarrow>
    initFAT_zero ops n off s = None"
proof (induction n arbitrary: off v s rule: less_induct)
  case (less n)
  show ?case
  proof (cases "512 \<le> n")
    case True
    have w: "wrap64 (off + 512) = off + 512" using less.prems(4,5) True by (intro wrap64_small) linarith
    have ne: "replicate 512 0 \<noteq> ([] :: byte list)" by (metis length_replicate list.size(3) zero_neq_numeral)
    obtain s' st where s': "pwrite ops (replicate 512 0) off s = Some (st, s')" "at_obs (put_bytes off (replicate 512 0) v) s'"
      using pwrite_ok [OF less.prems(1) ne, of off] less.prems(4) True by (auto elim!: wpE)
    have after: "(o_offset v + (off + 512)) mod 512 = 0" using less.prems(3) by (metis add.assoc mod_add_self2)
    have "initFAT_zero ops (n - 512) (off + 512) s' = None"
      by (rule less.IH [OF _ s'(2)]) (use less.prems True after in \<open>simp_all add: le_mod_geq\<close>)
    then show ?thesis
      by (subst initFAT_zero.simps) (use True s'(1) w in simp)
  next
    case False
    then have "n = 0" using less.prems(2) by simp
    then show ?thesis
      by (subst initFAT_zero.simps) (simp add: pwrite_empty_halts [OF empty less.prems(1,3)])
  qed
qed

lemma make_never_returns:
  assumes at: "at_obs v s" and "o_offset v mod 512 = 0" and "bs mod 512 = 0" and "make_accepts (o_length v) bs"
    and "o_length v < 2 ^ 64" and empty: "\<And>d off. good d \<Longrightarrow> off mod 512 = 0 \<Longrightarrow> swrite ops [] off d = None"
  shows "make_fs ops bs s = None"
proof -
  define bc where "bc = o_length v div bs"
  define ts where "ts = tableSize bc bs"
  let ?sb = "\<lparr>magic = MAGIC, blockCount = bc, fatBlocks = ts, blockSize = bs, sbStart = i32 (u32 (int ts + 1))\<rparr>"
  have sizes: "bs mod 320 = 0" "0 < bs" "MINBLOCKS \<le> bc" "ts < 2 ^ 32 - 1" and big: "640 \<le> bs"
    using assms(4) by (simp_all add: make_accepts_def bc_def ts_def)
  have len: "24 \<le> o_length v" "o_length v < 2 ^ 64"
    using make_accepts_fits(2) [OF assms(4)] assms(5) by simp_all
  obtain p where p: "partition_clear ops (partition s) = Some (0, p)"
    and s1: "at_obs (v\<lparr>disk := part_bytes bytes p\<rparr>) (s\<lparr>partition := p\<rparr>)"
    using at_obs_clear [OF at] len(1) by (auto elim!: wpE)
  have plen: "plength p = o_length v" using s1 by (cases v) (auto simp: shows_obs_def obs_def)
  let ?v2 = "v\<lparr>disk := part_bytes bytes p, o_sblk := ?sb, o_next := 0\<rparr>"
  have s2: "at_obs ?v2 (s\<lparr>partition := p, sblk := ?sb, writeOffset := 0\<rparr>)"
    using at_obs_next(1) [OF at_obs_next(3) [OF s1, of ?sb], of 0] by simp
  have ne: "encode_superblock ?sb \<noteq> []" by (metis length_encode_superblock list.size(3) zero_neq_numeral)
  obtain s3 st where w: "write_next ops (encode_superblock ?sb) (s\<lparr>partition := p, sblk := ?sb, writeOffset := 0\<rparr>) = Some (st, s3)"
    and s3: "at_obs ((put_bytes 0 (encode_superblock ?sb) ?v2)\<lparr>o_next := 24\<rparr>) s3"
    using write_next_ok [OF s2 ne] len by (auto elim!: wpE)
  have room: "(ts + 1) * bs \<le> o_length v" using make_accepts_fits(1) [OF assms(4)] by (simp add: bc_def ts_def)
  then have wr: "wrap64 (ts * bs) = ts * bs" using assms(5) by (intro wrap64_small) simp
  have halt: "initFAT_zero ops (wrap64 (ts * bs)) bs s3 = None"
    unfolding wr
    by (rule initFAT_zero_halts [OF empty s3]) (use assms(2,3,5) room in \<open>simp_all add: mod_eq_0_iff_dvd\<close>)
  show ?thesis
    unfolding make_fs_def p
    using sizes big by (simp add: Let_def plen w initFAT_def halt del: u32_small flip: bc_def ts_def)
qed

end

end
