(* ===== verification/Sample_Volume.thy ===== *)
theory Sample_Volume
  imports FAT_Files FAT_Format
begin

text \<open>
  A small volume on the AHCI device, for the examples: eight blocks of 640 bytes, the table in
  block 1, the superblock at the start, blocks 0 to 1 marked unusable and a file in blocks 4 and 6. It is
  what the operations of the model make of a fresh device.
\<close>

definition sample_sb :: superblock where
  "sample_sb = \<lparr>magic = MAGIC, blockCount = 8, fatBlocks = 1, blockSize = 640, sbStart = 2\<rparr>"

definition sample_zero :: observation where
  "sample_zero = \<lparr>disk = (\<lambda>_. 0), o_sblk = sample_sb, o_free = 8, o_root = default_dirent,
     o_next = 0, o_offset = 0, o_length = 5120\<rparr>"

definition sample_empty :: observation where
  "sample_empty = put_bytes 0 (encode_superblock sample_sb) sample_zero"

definition sample :: observation where
  "sample = put_fat 6 FINAL (put_fat 4 6 (put_fat 2 FINAL (put_fat 1 UNUSABLE (put_fat 0 UNUSABLE sample_empty))))"

abbreviation on_ahci :: "observation \<Rightarrow> 'p ahci_device driver \<Rightarrow> bool" where
  "on_ahci \<equiv> shows_obs ahci_abs ahci_inv ahci_cap"

lemma sample_empty_fits: "fat_fits sample_empty"
  by (simp add: sample_empty_def sample_zero_def sample_sb_def fat_fits_def)

lemma sample_fields [simp]:
  "o_sblk sample = sample_sb" "o_length sample = 5120" "o_free sample = 8" "o_root sample = default_dirent"
  by (simp_all add: sample_def sample_empty_def sample_zero_def)

lemma sample_fits: "fat_fits sample"
  by (simp add: sample_def sample_empty_fits)

lemma sample_volume: "volume_ok sample"
  by (simp add: volume_ok_def sample_fits) (simp add: sample_sb_def)

lemma fat_sample_empty: "i < 8 \<Longrightarrow> fat sample_empty i = 0"
proof -
  have "rd (\<lambda>_. 0) k 4 = replicate 4 (0::byte)" for k by (simp add: rd_def map_replicate_const)
  moreover assume "i < 8"
  ultimately show ?thesis
    by (simp add: fat_def fat_entry_def fat_offset_def sample_empty_def sample_zero_def i32_def rd_upd_disjoint) (simp add: sample_sb_def rd_upd_disjoint)
qed

lemma fat_sample:
  "i < 8 \<Longrightarrow> fat sample i =
     (if i = 0 \<or> i = 1 then UNUSABLE else if i = 4 then 6 else if i = 2 \<or> i = 6 then FINAL else 0)"
proof -
  have sb: "blockCount (o_sblk sample_empty) = 8" by (simp add: sample_empty_def sample_zero_def sample_sb_def)
  have six: "int32 6" by (simp add: int32_def)
  show "i < 8 \<Longrightarrow> ?thesis" unfolding sample_def
    by (simp add: fat_put_fat sample_empty_fits sb six fat_sample_empty)
qed

lemma sample_chain: "chain_in sample [4, 6]"
  by (simp add: chain_in_def fat_sample) (simp add: sample_sb_def)

lemma sample_file: "file_chain sample [4, 6]"
  by (simp add: file_chain_def sample_chain data_block_def) (simp add: sample_sb_def)

lemma ahci_fresh: "\<exists>d :: 'p ahci_device. ahci_inv d \<and> ahci_abs d = (\<lambda>_. 0)"
proof -
  obtain d :: "'p ahci_device" where "new_ahci_device undefined = Some d"
    by (auto simp: new_ahci_device_def new_cache_def CacheLength_val)
  from new_ahci_device_spec [OF this] show ?thesis by blast
qed

lemma on_ahci_zero: "\<exists>s :: 'p ahci_device driver. on_ahci sample_zero s"
proof -
  obtain d :: "'p ahci_device" where d: "ahci_inv d" "ahci_abs d = (\<lambda>_. 0)" using ahci_fresh by blast
  let ?s = "\<lparr>partition = \<lparr>writeRecords = [], readRecords = [], pdev = d, poffset = 0, plength = 5120\<rparr>,
    sblk = sample_sb, blocksFree = 8, root = default_dirent, writeOffset = 0\<rparr>"
  have "on_ahci sample_zero ?s"
    using d by (simp add: shows_obs_def drv_ok_def part_ok_def obs_def sample_zero_def part_bytes_def ahci_cap_val)
  then show ?thesis by blast
qed

lemma on_ahci_put_bytes:
  "\<exists>s :: 'p ahci_device driver. on_ahci v s \<Longrightarrow> bs \<noteq> [] \<Longrightarrow> off + length bs \<le> o_length v \<Longrightarrow>
   \<exists>s :: 'p ahci_device driver. on_ahci (put_bytes off bs v) s"
  using ahci.pwrite_ok by (blast elim: wpE)

lemma on_ahci_empty: "\<exists>s :: 'p ahci_device driver. on_ahci sample_empty s"
proof -
  have "length (encode_superblock sample_sb) = 24" by simp
  then have "encode_superblock sample_sb \<noteq> []" by (metis list.size(3) zero_neq_numeral)
  then show ?thesis
    unfolding sample_empty_def by (intro on_ahci_put_bytes on_ahci_zero) (simp_all add: sample_zero_def)
qed

lemma on_ahci_put_fat:
  "\<exists>s :: 'p ahci_device driver. on_ahci v s \<Longrightarrow> fat_fits v \<Longrightarrow> i < blockCount (o_sblk v) \<Longrightarrow>
   \<exists>s :: 'p ahci_device driver. on_ahci (put_fat i x v) s"
  using ahci.writeFAT_ok by (blast elim: wpE)

lemma on_ahci_sample: "\<exists>s :: 'p ahci_device driver. on_ahci sample s"
  unfolding sample_def
  by (intro on_ahci_put_fat on_ahci_empty)
    (simp_all add: sample_empty_fits, simp_all add: sample_empty_def sample_zero_def sample_sb_def)


section \<open>A directory with one file\<close>

text \<open>The root directory in block 2 holds itself and the file \<open>a\<close> of 700 bytes in the blocks 4 and 6.\<close>

definition root_entry :: dirent where
  "root_entry = (updateName (new_dirent zero_times 640 Directory) ''.'')\<lparr>startBlock := 2\<rparr>"

definition file_entry :: dirent where
  "file_entry = (updateName (new_dirent zero_times 700 File) ''a'')\<lparr>startBlock := 4\<rparr>"

definition sample_tree :: observation where
  "sample_tree = (put_bytes 1280 (encode_dirent root_entry @ encode_dirent file_entry) sample)\<lparr>o_root := root_entry\<rparr>"

abbreviation sample_found :: found where
  "sample_found \<equiv> \<lparr>f_entry = file_entry, f_offset = 1600, f_last = []\<rparr>"

lemma sample_entry_fields [simp]:
  "length (dname root_entry) = 256" "length (dname file_entry) = 256" "dlength root_entry = 640" "dlength file_entry = 700"
  "startBlock root_entry = 2" "startBlock file_entry = 4" "isDirectory root_entry" "isFile file_entry" "\<not> isFile root_entry"
  by (simp_all add: root_entry_def file_entry_def updateName_def new_dirent_def strncpy_def str_bytes_def
    THORNFAT_PATH_MAX_def isDirectory_def isFile_def File_def Directory_def)

lemma entry_wf: "wf_dirent root_entry" "wf_dirent file_entry"
  by (simp_all add: wf_dirent_def) (simp_all add: root_entry_def file_entry_def updateName_def new_dirent_def
    zero_times_def wf_times_def int64_def int32_def File_def Directory_def)

lemma entry_names: "cstr (dname root_entry) = ''.''" "cstr (dname file_entry) = ''a''"
  by (simp_all add: root_entry_def file_entry_def updateName_def cstr_strncpy THORNFAT_PATH_MAX_def)

lemma sample_tree_fields [simp]:
  "o_sblk sample_tree = sample_sb" "o_length sample_tree = 5120" "o_root sample_tree = root_entry"
  by (simp_all add: sample_tree_def)

lemma sample_tree_volume: "volume_ok sample_tree" "fat_fits sample_tree"
  using sample_volume sample_fits by (simp_all add: volume_ok_def fat_fits_def)

lemma fat_sample_tree: "i < 8 \<Longrightarrow> fat sample_tree i = fat sample i"
proof -
  assume i: "i < 8"
  have "data_block sample 2" by (simp add: data_block_def sample_sb_def)
  with fat_put_data [OF sample_fits, of 2 i 0 "encode_dirent root_entry @ encode_dirent file_entry"] i show ?thesis
    by (simp add: sample_tree_def fat_free_root sample_sb_def)
qed

lemma sample_tree_chains: "file_chain sample_tree [4, 6]" "file_chain sample_tree [2]"
  using sample_file
  by (auto simp: file_chain_def chain_in_def fat_sample_tree fat_sample data_block_def sample_sb_def)

lemma sample_root_blocks: "dir_blocks sample_tree root_entry = [2]"
  by (simp add: dir_blocks_def sample_sb_def numeral_eq_Suc FINAL_val fat_sample_tree fat_sample)

lemma sample_root_contents: "contents sample_tree [2] = encode_dirent root_entry @ encode_dirent file_entry"
  by (simp add: block_bytes_def sample_tree_def) (simp add: sample_sb_def)

lemma sample_root_entries: "entries_of sample_tree root_entry = [root_entry, file_entry]"
  using decode_encode_dirent [OF entry_wf(1)] decode_encode_dirent [OF entry_wf(2)]
  by (simp add: entries_of_def dir_entries_def sample_root_blocks sample_root_contents upt_rec del: contents_simps)

lemma sample_root_offsets: "dir_offsets sample_tree root_entry [2] = [1280, 1600]"
  by (simp add: dir_offsets_def upt_rec entry_slot_def sample_sb_def)

lemma sample_dir_ok: "dir_ok sample_tree root_entry [2]"
  using sample_tree_chains by (simp add: dir_ok_def sample_sb_def)

lemma sample_dir_tree: "dir_tree sample_tree {root_entry}"
proof -
  have "entry_checkable sample_tree root_entry" "entry_checkable sample_tree file_entry"
    using checkable_block [OF sample_tree_volume(2), of root_entry 2] checkable_block [OF sample_tree_volume(2), of file_entry 4]
    by (simp_all add: sample_sb_def)
  then show ?thesis using sample_dir_ok by (simp add: dir_tree_def sample_root_blocks sample_root_entries)
qed

lemma sample_tree_ok: "tree_ok sample_tree {root_entry}"
  using sample_dir_tree sample_tree_volume by (simp add: tree_ok_def UNUSABLE_val)

lemma sample_file_at: "file_at sample_tree [''a''] sample_found [4, 6]"
proof -
  have "search sample_tree root_entry ''a'' = Some (file_entry, 1600)"
    using fat_sample_tree [of 2] fat_sample_tree [of 4]
    by (simp add: search_def sample_root_blocks sample_root_entries sample_root_offsets entry_names entry_free_def fat_sample)
  then show ?thesis
    using sample_tree_chains
    by (simp add: file_at_def name_ok_def entry_place_def root_at_def) (simp add: sample_sb_def)
qed

lemma on_ahci_sample_tree: "\<exists>s :: 'p ahci_device driver. on_ahci sample_tree s"
proof -
  obtain s :: "'p ahci_device driver" where s: "on_ahci sample s" using on_ahci_sample by blast
  have fit: "1280 + length (encode_dirent root_entry @ encode_dirent file_entry) \<le> o_length sample" by simp
  have "encode_dirent root_entry @ encode_dirent file_entry \<noteq> []" using ahci.encode_ne [of root_entry] by simp
  from ahci.pwrite_ok [OF s this fit] ahci.at_obs_set_root show ?thesis
    unfolding sample_tree_def by (blast elim: wpE)
qed

text \<open>The superblock on the disk is the one in memory.\<close>

lemma sample_tree_superblock: "decode_superblock (rd (disk sample_tree) 0 24) = sample_sb"
proof -
  have wf: "wf_superblock sample_sb" by (simp add: wf_superblock_def sample_sb_def MAGIC_def int32_def)
  have off: "fat_offset sample_sb i = 640 + 4 * i" if "i < 8" for i
    using that by (simp add: fat_offset_def sample_sb_def mult.commute)
  have "rd (disk sample_tree) 0 24 = encode_superblock sample_sb"
    by (simp add: sample_tree_def sample_def put_fat_def rd_upd_disjoint off sample_empty_def sample_zero_def)
  with decode_encode_superblock [OF wf] show ?thesis by simp
qed

end
