(* ===== verification/Volume.thy ===== *)
theory Volume
  imports Sample_Volume
begin

text \<open>
  What the lemmas of the file system say of the driver on the AHCI device, through the
  interpretation \<open>ahci\<close> of the storage contract: the allocation table, file contents,
  directories, formatting and resizing. Each theorem is followed by an instance on a small volume.
\<close>

section \<open>The file allocation table\<close>

text \<open>C4. \<open>forget\<close> on the first block of a file frees exactly the blocks of the file: it returns their
  number, every other entry of the table and every byte outside the table stays, and the
  driver's count of free blocks goes up by that number.\<close>

theorem forget_frees_chain:
  assumes "on_ahci v s" and "fat_fits v" and "chain_in v bs"
  shows "wp (forget (ahci_ops junk) (int (hd bs)) s) (\<lambda>removed s'. removed = length bs \<and>
    (\<exists>v'. on_ahci v' s' \<and> o_free v' = o_free v + int (length bs) \<and> o_sblk v' = o_sblk v \<and>
      (\<forall>i < blockCount (o_sblk v). fat v' i = (if i \<in> set bs then 0 else fat v i)) \<and>
      (\<forall>k. k < blockSize (o_sblk v) \<or> blockSize (o_sblk v) + blockCount (o_sblk v) * 4 \<le> k \<longrightarrow> disk v' k = disk v k)))"
proof (rule wp_mono [OF ahci.forget_ok [OF assms]])
  fix removed s'
  let ?v' = "(free_all bs v)\<lparr>o_free := o_free v + int (length bs)\<rparr>"
  assume "removed = length bs \<and> on_ahci ?v' s'"
  moreover have "set bs \<subseteq> {..<blockCount (o_sblk v)}" using assms(3) by (simp add: chain_in_def)
  moreover have "fat ?v' = fat (free_all bs v)" by (rule ext) (simp add: fat_def)
  ultimately show "removed = length bs \<and>
    (\<exists>v'. on_ahci v' s' \<and> o_free v' = o_free v + int (length bs) \<and> o_sblk v' = o_sblk v \<and>
      (\<forall>i < blockCount (o_sblk v). fat v' i = (if i \<in> set bs then 0 else fat v i)) \<and>
      (\<forall>k. k < blockSize (o_sblk v) \<or> blockSize (o_sblk v) + blockCount (o_sblk v) * 4 \<le> k \<longrightarrow> disk v' k = disk v k))"
    using fat_free_all [OF assms(2)] disk_free_all [OF assms(2)]
    by (intro conjI exI [of _ ?v']) auto
qed

theorem forget_frees_chain_witness:
  "\<exists>s :: unit ahci_device driver. on_ahci sample s \<and>
     wp (forget (ahci_ops (\<lambda>_. 0)) 4 s) (\<lambda>removed s'. removed = 2 \<and>
       (\<exists>v'. on_ahci v' s' \<and> fat v' 4 = 0 \<and> fat v' 6 = 0 \<and> fat v' 2 = FINAL))"
proof -
  obtain s :: "unit ahci_device driver" where s: "on_ahci sample s" using on_ahci_sample by blast
  have "wp (forget (ahci_ops (\<lambda>_. 0)) 4 s) (\<lambda>removed s'. removed = 2 \<and>
       (\<exists>v'. on_ahci v' s' \<and> fat v' 4 = 0 \<and> fat v' 6 = 0 \<and> fat v' 2 = FINAL))"
    by (rule wp_mono [OF forget_frees_chain [OF s sample_fits sample_chain, simplified]])
      (auto simp: sample_sb_def fat_sample)
  with s show ?thesis by blast
qed

lemma on_sample:
  assumes "\<And>s :: unit ahci_device driver. on_ahci sample s \<Longrightarrow> P s"
  shows "\<exists>s :: unit ahci_device driver. on_ahci sample s \<and> P s"
  using on_ahci_sample assms by blast

text \<open>C24. Termination: in a table that is closed (no entry points past the last block) \<open>forget\<close> comes back from
  any block, cycles and shared tails included, and frees no more blocks than are in use.\<close>

theorem forget_returns:
  assumes "on_ahci v s" and "fat_fits v" and "fat_closed v" and "b < blockCount (o_sblk v)"
  shows "wp (forget (ahci_ops junk) (int b) s) (\<lambda>removed s'. removed \<le> card (used_blocks v))"
  unfolding forget_def by (simp, rule wp_mono [OF ahci.forget_loop_returns [OF assms]]) simp

theorem forget_returns_witness:
  "\<exists>s :: unit ahci_device driver. on_ahci sample s \<and>
     wp (forget (ahci_ops (\<lambda>_. 0)) 4 s) (\<lambda>removed s'. removed \<le> 5)"
proof (rule on_sample)
  fix s :: "unit ahci_device driver" assume s: "on_ahci sample s"
  have closed: "fat_closed sample" by (auto simp: fat_closed_def fat_sample sample_sb_def FINAL_val UNUSABLE_val)
  have "used_blocks sample = {0, 1, 2, 4, 6}"
    by (auto simp: used_blocks_def fat_sample sample_sb_def FINAL_val UNUSABLE_val split: if_splits)
  then have "card (used_blocks sample) = 5" by simp
  then show "wp (forget (ahci_ops (\<lambda>_. 0)) 4 s) (\<lambda>removed s'. removed \<le> 5)"
    using forget_returns [OF s sample_fits closed, of 4] by (simp add: sample_sb_def)
qed

text \<open>On a chain \<open>chainLength\<close> is the number of its blocks and the volume is not changed.\<close>

lemma chainLength_counts:
  assumes "on_ahci v s" and "fat_fits v" and "chain_in v bs"
  shows "wp (chainLength (ahci_ops junk) (int (hd bs)) s) (\<lambda>len s'. len = length bs \<and> on_ahci v s')"
  by (rule ahci.chainLength_ok [OF assms])

text \<open>From a block of a cyclic chain \<open>chainLength\<close> never comes back.\<close>

lemma chainLength_spins:
  assumes "on_ahci v s" and "fat_fits v" and "C \<subseteq> {..<blockCount (o_sblk v)}"
    and "\<forall>b \<in> C. \<exists>c \<in> C. 0 < c \<and> fat v b = int c" and "b \<in> C"
  shows "chainLength (ahci_ops junk) (int b) s = None"
  by (rule ahci.chainLength_cycle [OF assms(2-5,1)])

lemma set_free_list: "set (free_list v) = {i. i < blockCount (o_sblk v) \<and> fat v i = 0}"
  by (auto simp: free_list_def free_block_def)

lemma length_free_list: "length (free_list v) = card {i. i < blockCount (o_sblk v) \<and> fat v i = 0}"
  using distinct_card [OF distinct_free_list [of v]] by (simp add: set_free_list)

text \<open>\<open>findFreeBlock\<close> gives the least block whose entry is 0, and \<open>UNUSABLE\<close> when there is none.\<close>

lemma findFreeBlock_least:
  assumes "on_ahci v s" and "fat_fits v"
  shows "wp (findFreeBlock (ahci_ops junk) s) (\<lambda>r s'. on_ahci v s' \<and>
    (if \<exists>i < blockCount (o_sblk v). fat v i = 0
     then \<exists>i < blockCount (o_sblk v). r = int i \<and> fat v i = 0 \<and> (\<forall>j < i. fat v j \<noteq> 0)
     else r = UNUSABLE))"
proof (rule wp_mono [OF ahci.findFreeBlock_ok [OF assms]])
  fix r s' assume r: "r = first_free (free_list v) \<and> on_ahci v s'"
  have mem: "set (free_list v) = {i. i < blockCount (o_sblk v) \<and> fat v i = 0}" by (rule set_free_list)
  have "sorted (free_list v)" by (simp add: free_list_def sorted_wrt_filter)
  then have least: "free_list v = b # bs \<Longrightarrow> j < b \<Longrightarrow> j \<notin> set (free_list v)" for b bs j by auto
  show "on_ahci v s' \<and> (if \<exists>i < blockCount (o_sblk v). fat v i = 0
     then \<exists>i < blockCount (o_sblk v). r = int i \<and> fat v i = 0 \<and> (\<forall>j < i. fat v j \<noteq> 0)
     else r = UNUSABLE)"
  proof (cases "free_list v")
    case Nil
    then show ?thesis using r mem by (auto simp: first_free_def)
  next
    case (Cons b bs)
    then have b: "b < blockCount (o_sblk v)" "fat v b = 0" using mem by auto
    moreover have "\<forall>j < b. fat v j \<noteq> 0" using mem least [OF Cons] b(1) by auto
    ultimately show ?thesis using r Cons by (auto simp: first_free_def)
  qed
qed

text \<open>\<open>hasFree n\<close> holds when at least \<open>n\<close> blocks are free and one is free at all: for \<open>n = 0\<close> the answer on a
  full volume is \<open>false\<close>.\<close>

lemma hasFree_counts:
  assumes "on_ahci v s" and "fat_fits v"
  shows "wp (hasFree (ahci_ops junk) cnt s) (\<lambda>r s'. on_ahci v s' \<and>
    (let free = {i. i < blockCount (o_sblk v) \<and> fat v i = 0} in r = (free \<noteq> {} \<and> cnt \<le> card free)))"
proof (rule wp_mono [OF ahci.hasFree_ok [OF assms]])
  have "free_list v = [] \<longleftrightarrow> {i. i < blockCount (o_sblk v) \<and> fat v i = 0} = {}"
    using set_free_list [of v] by (metis set_empty)
  then show "r = (free_list v \<noteq> [] \<and> cnt \<le> length (free_list v)) \<and> on_ahci v s' \<Longrightarrow> on_ahci v s' \<and>
    (let free = {i. i < blockCount (o_sblk v) \<and> fat v i = 0} in r = (free \<noteq> {} \<and> cnt \<le> card free))" for r s'
    unfolding Let_def length_free_list by blast
qed

text \<open>\<open>countFree\<close> counts the free blocks once and then trusts the count it kept.\<close>

lemma countFree_counts:
  assumes "on_ahci v s" and "fat_fits v"
  shows "wp (countFree (ahci_ops junk) s) (\<lambda>r s'. on_ahci (v\<lparr>o_free := r\<rparr>) s' \<and>
    r = (if 0 \<le> o_free v then o_free v else int (card {i. i < blockCount (o_sblk v) \<and> fat v i = 0})))"
  by (rule wp_mono [OF ahci.countFree_ok [OF assms]], unfold length_free_list) blast

text \<open>C37. What the table says about free space, on a volume whose table lies in the partition; nothing
  changes but the count that \<open>countFree\<close> keeps. \<open>findFreeBlock\<close> gives the least block whose entry is 0,
  or \<open>UNUSABLE\<close> when there is none. \<open>hasFree n\<close> holds when at least \<open>n\<close> blocks are free and one is free at
  all: for \<open>n = 0\<close> the answer on a full volume is no. \<open>countFree\<close> counts the free blocks once and then
  trusts the count it kept.\<close>

theorem free_space_queries:
  assumes "on_ahci v s" and "fat_fits v"
  shows "wp (findFreeBlock (ahci_ops junk) s) (\<lambda>r s'. on_ahci v s' \<and>
      (if \<exists>i < blockCount (o_sblk v). fat v i = 0
       then \<exists>i < blockCount (o_sblk v). r = int i \<and> fat v i = 0 \<and> (\<forall>j < i. fat v j \<noteq> 0)
       else r = UNUSABLE)) \<and>
    wp (hasFree (ahci_ops junk) cnt s) (\<lambda>r s'. on_ahci v s' \<and>
      (let free = {i. i < blockCount (o_sblk v) \<and> fat v i = 0} in r = (free \<noteq> {} \<and> cnt \<le> card free))) \<and>
    wp (countFree (ahci_ops junk) s) (\<lambda>r s'. on_ahci (v\<lparr>o_free := r\<rparr>) s' \<and>
      r = (if 0 \<le> o_free v then o_free v else int (card {i. i < blockCount (o_sblk v) \<and> fat v i = 0})))"
  by (intro conjI findFreeBlock_least [OF assms] hasFree_counts [OF assms] countFree_counts [OF assms])

theorem free_space_queries_witness:
  "\<exists>s :: unit ahci_device driver. on_ahci sample s \<and>
     wp (findFreeBlock (ahci_ops (\<lambda>_. 0)) s) (\<lambda>r s'. 0 \<le> r \<and> r < 8) \<and>
     wp (hasFree (ahci_ops (\<lambda>_. 0)) 4 s) (\<lambda>r s'. \<not> r)"
proof (rule on_sample)
  fix s :: "unit ahci_device driver" assume s: "on_ahci sample s"
  have free: "{i. i < 8 \<and> fat sample i = 0} = {3, 5, 7}"
    by (auto simp: fat_sample FINAL_val UNUSABLE_val split: if_splits)
  have "\<exists>i < 8. fat sample i = 0" by (rule exI [of _ 3]) (simp add: fat_sample)
  then show "wp (findFreeBlock (ahci_ops (\<lambda>_. 0)) s) (\<lambda>r s'. 0 \<le> r \<and> r < 8) \<and>
      wp (hasFree (ahci_ops (\<lambda>_. 0)) 4 s) (\<lambda>r s'. \<not> r)"
    using free_space_queries [OF s sample_fits, of "\<lambda>_. 0" 4]
    by (auto simp: sample_sb_def free elim!: wp_mono)
qed

text \<open>C36. On a volume whose table lies in the partition, \<open>chainLength\<close> from the first block of a chain
  is the number of its blocks and the volume is not changed; from a block of a set of blocks in which every
  entry leads to a block of the set (a cyclic chain) it never comes back.\<close>

theorem chainLength_counts_or_spins:
  assumes "on_ahci v s" and "fat_fits v"
  shows "(chain_in v bs \<longrightarrow> wp (chainLength (ahci_ops junk) (int (hd bs)) s) (\<lambda>len s'. len = length bs \<and> on_ahci v s')) \<and>
    (C \<subseteq> {..<blockCount (o_sblk v)} \<and> (\<forall>b \<in> C. \<exists>c \<in> C. 0 < c \<and> fat v b = int c) \<and> b \<in> C \<longrightarrow>
      chainLength (ahci_ops junk) (int b) s = None)"
  using chainLength_counts [OF assms] chainLength_spins [OF assms] by blast

theorem chainLength_counts_or_spins_witness:
  "(\<exists>s :: unit ahci_device driver. on_ahci sample s \<and> wp (chainLength (ahci_ops (\<lambda>_. 0)) 4 s) (\<lambda>len s'. len = 2)) \<and>
   (\<exists>s :: unit ahci_device driver. on_ahci (put_fat 6 4 sample) s \<and> chainLength (ahci_ops (\<lambda>_. 0)) 4 s = None)"
proof
  show "\<exists>s :: unit ahci_device driver. on_ahci sample s \<and> wp (chainLength (ahci_ops (\<lambda>_. 0)) 4 s) (\<lambda>len s'. len = 2)"
  proof (rule on_sample)
    fix s :: "unit ahci_device driver" assume s: "on_ahci sample s"
    show "wp (chainLength (ahci_ops (\<lambda>_. 0)) 4 s) (\<lambda>len s'. len = 2)"
      using chainLength_counts_or_spins [OF s sample_fits, of "[4, 6]" "\<lambda>_. 0" "{}" 0] sample_chain by (auto elim!: wp_mono)
  qed
  have four: "int32 4" by (simp add: int32_def)
  have cyc: "\<forall>b \<in> {4, 6}. \<exists>c \<in> {4, 6 :: nat}. 0 < c \<and> fat (put_fat 6 4 sample) b = int c"
    using fat_put_fat [OF sample_fits, of 6 _ 4] four by (auto simp: fat_sample sample_sb_def)
  obtain s :: "unit ahci_device driver" where s: "on_ahci (put_fat 6 4 sample) s"
    using on_ahci_put_fat [OF on_ahci_sample sample_fits, of 6 4] by (auto simp: sample_sb_def)
  have fits: "fat_fits (put_fat 6 4 sample)" by (simp add: sample_fits)
  have "chainLength (ahci_ops (\<lambda>_. 0)) (int 4) s = None"
    using chainLength_counts_or_spins [OF s fits, of "[]" "\<lambda>_. 0" "{4, 6}" 4] cyc by (simp add: sample_sb_def)
  with s show "\<exists>s :: unit ahci_device driver. on_ahci (put_fat 6 4 sample) s \<and> chainLength (ahci_ops (\<lambda>_. 0)) 4 s = None"
    by auto
qed


section \<open>Files and directories\<close>

lemma on_tree:
  assumes "\<And>s :: unit ahci_device driver. on_ahci sample_tree s \<Longrightarrow> P s"
  shows "\<exists>s :: unit ahci_device driver. on_ahci sample_tree s \<and> P s"
  using on_ahci_sample_tree assms by blast

text \<open>C1. \<open>find\<close> refines the resolution of the names in the tree of directories the disk holds: same entry,
  same place, same error, with and without \<open>get_parent\<close>, and nothing on the disk changes.\<close>

theorem find_resolves:
  assumes "on_ahci v s" and "tree_ok v D" and "names \<noteq> []" and "list_all name_ok names"
  shows "wp (find_path (ahci_ops junk) (join_path names) get_parent s)
    (\<lambda>r s'. r = as_status (resolve v get_parent (o_root v) (root_at v) names) \<and> on_ahci v s')"
  using assms(2) by (intro ahci.find_path_ok [OF assms(1) _ _ _ _ assms(3,4)]) (auto simp: tree_ok_def)

theorem find_resolves_witness:
  "\<exists>s :: unit ahci_device driver. on_ahci sample_tree s \<and>
     wp (find_path (ahci_ops (\<lambda>_. 0)) ''/a'' False s) (\<lambda>r s'. r = (0, sample_found) \<and> on_ahci sample_tree s')"
proof (rule on_tree)
  fix s :: "unit ahci_device driver" assume s: "on_ahci sample_tree s"
  have "resolve sample_tree False root_entry (root_at sample_tree) [''a''] = Inr sample_found"
    using sample_file_at by (simp add: file_at_def)
  then show "wp (find_path (ahci_ops (\<lambda>_. 0)) ''/a'' False s) (\<lambda>r s'. r = (0, sample_found) \<and> on_ahci sample_tree s')"
    using find_resolves [OF s sample_tree_ok, of "[''a'']" "\<lambda>_. 0" False]
    by (simp add: as_status_def name_ok_def)
qed

text \<open>C23. \<open>readDir\<close> returns the entries that the blocks of a directory hold, each with its place on the disk.\<close>

theorem readDir_lists:
  assumes "on_ahci v s" and "volume_ok v" and "dir_ok v dir bs"
  shows "wp (readDir (ahci_ops junk) dir s) (\<lambda>r s'. fst r = 0 \<and> on_ahci v s' \<and>
    l_entries (snd r) = map (\<lambda>i. decode_dirent (rd (disk v) (entry_slot v bs i) 320)) [0..<dlength dir div 320] \<and>
    l_offsets (snd r) = map (entry_slot v bs) [0..<dlength dir div 320])"
  by (rule wp_mono [OF ahci.readDir_ok [OF assms]]) (simp add: dir_entries_at [OF assms(2,3)] dir_offsets_def)

theorem readDir_lists_witness:
  "\<exists>s :: unit ahci_device driver. on_ahci sample_tree s \<and>
     wp (readDir (ahci_ops (\<lambda>_. 0)) root_entry s) (\<lambda>r s'. fst r = 0 \<and> l_offsets (snd r) = [1280, 1600])"
proof (rule on_tree)
  fix s :: "unit ahci_device driver" assume s: "on_ahci sample_tree s"
  have offs: "map (entry_slot sample_tree [2]) [0..<dlength root_entry div 320] = [1280, 1600]"
    using sample_root_offsets by (simp only: dir_offsets_def)
  show "wp (readDir (ahci_ops (\<lambda>_. 0)) root_entry s) (\<lambda>r s'. fst r = 0 \<and> l_offsets (snd r) = [1280, 1600])"
    by (rule wp_mono [OF readDir_lists [OF s sample_tree_volume(1) sample_dir_ok]]) (simp only: offs)
qed

text \<open>C3. \<open>read\<close> of a range that starts on a block boundary or stays in one block returns those bytes of the
  file's blocks. The range is cut at the end of the last block, not at the length of the file.\<close>

theorem read_returns_contents:
  assumes "on_ahci v s" and "tree_ok v D" and "file_at v names f bs" and "0 < sz" and "sz < 2 ^ 31"
    and "off < dlength (f_entry f)"
    and "off mod blockSize (o_sblk v) = 0 \<or> off mod blockSize (o_sblk v) + sz \<le> blockSize (o_sblk v)"
  shows "wp (read_path (ahci_ops junk) (join_path names) sz (int off) s) (\<lambda>r s'.
    r = (int (length (take sz (drop off (contents v bs)))), take sz (drop off (contents v bs))))"
  by (rule wp_mono [OF ahci.read_path_ok [OF assms]]) simp

theorem read_returns_contents_witness:
  "\<exists>s :: unit ahci_device driver. on_ahci sample_tree s \<and>
     wp (read_path (ahci_ops (\<lambda>_. 0)) ''/a'' 1000 0 s) (\<lambda>r s'. fst r = 1000)"
proof (rule on_tree)
  fix s :: "unit ahci_device driver" assume s: "on_ahci sample_tree s"
  show "wp (read_path (ahci_ops (\<lambda>_. 0)) ''/a'' 1000 0 s) (\<lambda>r s'. fst r = 1000)"
    by (rule wp_mono [OF read_returns_contents [OF s sample_tree_ok sample_file_at, where off = 0 and sz = 1000, simplified]])
      (simp add: sample_sb_def)
qed

text \<open>C2. \<open>write\<close> inside a file lays the buffer over the range of the file's blocks at any alignment, leaves the
  rest of the file and the allocation table alone, and returns the number of bytes written.\<close>

theorem write_overwrites:
  assumes "on_ahci v s" and "tree_ok v D" and "file_at v names f bs" and "buf \<noteq> []" and "length buf < 2 ^ 31"
    and "off + length buf \<le> dlength (f_entry f)"
  shows "wp (write_path (ahci_ops junk) (join_path names) buf (int off) s) (\<lambda>r s'. r = int (length buf) \<and>
    (\<exists>v'. on_ahci v' s' \<and> o_sblk v' = o_sblk v \<and>
      contents v' bs = take off (contents v bs) @ buf @ drop (off + length buf) (contents v bs) \<and>
      (\<forall>i < blockCount (o_sblk v). fat v' i = fat v i)))"
  by (rule ahci.write_path_ok [OF assms])

theorem write_overwrites_witness:
  "\<exists>s :: unit ahci_device driver. on_ahci sample_tree s \<and>
     wp (write_path (ahci_ops (\<lambda>_. 0)) ''/a'' [1, 2, 3] 639 s) (\<lambda>r s'. r = 3 \<and>
       (\<exists>v'. on_ahci v' s' \<and> take 3 (drop 639 (contents v' [4, 6])) = [1, 2, 3]))"
proof (rule on_tree)
  fix s :: "unit ahci_device driver" assume s: "on_ahci sample_tree s"
  have len: "length (contents sample_tree [4, 6]) = 1280" by (simp add: length_contents sample_sb_def del: contents_simps)
  show "wp (write_path (ahci_ops (\<lambda>_. 0)) ''/a'' [1, 2, 3] 639 s) (\<lambda>r s'. r = 3 \<and>
       (\<exists>v'. on_ahci v' s' \<and> take 3 (drop 639 (contents v' [4, 6])) = [1, 2, 3]))"
    using write_overwrites [OF s sample_tree_ok sample_file_at, where off = 639 and buf = "[1, 2, 3]" and junk = "\<lambda>_. 0"] len
    by (auto elim!: wp_mono simp del: contents_simps intro!: exI)
qed

text \<open>Round trip: what \<open>write\<close> puts on the blocks of a chain, from a position in the first block on, \<open>read\<close>
  gives back, when the range starts with the block (\<open>k = 0\<close>) or stays inside it; for a range that starts inside
  a block and covers more than the next it does not, see \<open>read_crossing_wrong\<close>.\<close>

lemma write_read_blocks:
  assumes "on_ahci v s" and "volume_ok v" and "file_chain v bs" and "buf \<noteq> []" and "length buf < 2 ^ 31"
    and "k < blockSize (o_sblk v)" and "k + length buf \<le> length bs * blockSize (o_sblk v)"
    and "k = 0 \<or> k + length buf \<le> blockSize (o_sblk v)"
  shows "wp (do { (r, s) \<leftarrow> write_blocks (ahci_ops junk) buf (int k) (int (hd bs)) s;
                  read_blocks (ahci_ops junk) (length buf) (int k) (int (hd bs)) s }) (\<lambda>r s'. r = (0, buf))"
proof (rule wp_then [OF ahci.write_blocks_ok [OF assms(1-4,6,7)]])
  have n: "length bs * blockSize (o_sblk v) \<le> 2 ^ 32" by (rule chain_fits [OF assms(2,3)])
  show "k + length buf < 2 ^ 64" by (rule le_less_trans [OF le_trans [OF assms(7) n]]) simp
  have chain: "distinct bs" "bs \<noteq> []" using assms(3) file_chain_ne by (auto simp: file_chain_def chain_in_def)
  let ?w = "put_at v bs k buf"
  have w: "file_chain ?w bs" "volume_ok ?w"
    using file_chain_put_at [OF _ assms(3)] assms(2) by (simp_all add: volume_ok_def fat_fits_def)
  have len: "length (contents v bs) = length bs * blockSize (o_sblk v)" by (rule length_contents)
  fix r s' assume "r = (0, length buf) \<and> on_ahci ?w s'"
  then have s': "on_ahci ?w s'" by simp
  have "length buf < 2 ^ 63" using assms(5) by simp
  then show "wp (case (r, s') of (r, s) \<Rightarrow> read_blocks (ahci_ops junk) (length buf) (int k) (int (hd bs)) s) (\<lambda>r s'. r = (0, buf))"
    using ahci.read_blocks_ok [OF s' w(2,1), of "length buf" k junk] assms(4,6,7,8) contents_put_at [OF chain assms(6,7)] len
    by (auto elim!: wp_mono)
qed

lemma write_read_blocks_witness:
  "\<exists>s :: unit ahci_device driver. on_ahci sample_tree s \<and>
     wp (do { (r, s) \<leftarrow> write_blocks (ahci_ops (\<lambda>_. 0)) [1, 2, 3] 100 4 s;
              read_blocks (ahci_ops (\<lambda>_. 0)) 3 100 4 s }) (\<lambda>r s'. r = (0, [1, 2, 3]))"
proof (rule on_tree)
  fix s :: "unit ahci_device driver" assume s: "on_ahci sample_tree s"
  show "wp (do { (r, s) \<leftarrow> write_blocks (ahci_ops (\<lambda>_. 0)) [1, 2, 3] 100 4 s;
              read_blocks (ahci_ops (\<lambda>_. 0)) 3 100 4 s }) (\<lambda>r s'. r = (0, [1, 2, 3]))"
    using write_read_blocks [OF s sample_tree_volume(1) sample_tree_chains(1), of "[1, 2, 3]" 100 "\<lambda>_. 0"]
    by (simp add: sample_sb_def numeral_3_eq_3)
qed

text \<open>C25. A read that starts inside a block and goes on past the end of the next one takes the block that
  follows on the disk, whatever it holds, and only then goes on with the second block of the file.\<close>

theorem read_crossing_wrong:
  assumes "on_ahci v s" and "volume_ok v" and "file_chain v (b # c # bs)" and "sz < 2 ^ 63"
    and "0 < k" and "k < blockSize (o_sblk v)" and "2 * blockSize (o_sblk v) < k + sz" and "Suc b < blockCount (o_sblk v)"
  shows "wp (read_blocks (ahci_ops junk) sz (int k) (int b) s)
    (\<lambda>r s'. r = (0, take sz (drop k (block_bytes v b) @ block_bytes v (Suc b) @ contents v (c # bs))))"
  by (rule wp_mono [OF ahci.read_blocks_crossing [OF assms]]) simp

theorem read_crossing_wrong_witness:
  "\<exists>s :: unit ahci_device driver. on_ahci sample_tree s \<and>
     wp (read_blocks (ahci_ops (\<lambda>_. 0)) 1280 1 4 s)
       (\<lambda>r s'. fst r = 0 \<and> snd r = drop 1 (block_bytes sample_tree 4) @ block_bytes sample_tree 5 @ take 1 (block_bytes sample_tree 6))"
proof (rule on_tree)
  fix s :: "unit ahci_device driver" assume s: "on_ahci sample_tree s"
  show "wp (read_blocks (ahci_ops (\<lambda>_. 0)) 1280 1 4 s)
       (\<lambda>r s'. fst r = 0 \<and> snd r = drop 1 (block_bytes sample_tree 4) @ block_bytes sample_tree 5 @ take 1 (block_bytes sample_tree 6))"
    by (rule wp_mono [OF read_crossing_wrong [OF s sample_tree_volume(1) sample_tree_chains(1), where k = 1 and sz = 1280, simplified]])
      (simp_all add: sample_sb_def)
qed

section \<open>Formatting\<close>

lemma on_ahci_length: "on_ahci v s \<Longrightarrow> o_length v < 2 ^ 64"
  by (cases v) (auto simp: shows_obs_def drv_ok_def part_ok_def obs_def ahci_cap_val)

text \<open>A size that fails one of the checks is refused: after the partition is cleared nothing is written.\<close>

lemma make_refuses:
  assumes "on_ahci v s" and "0 < o_length v" and "0 < bs" and "\<not> make_accepts (o_length v) bs"
  shows "wp (make_fs (ahci_ops junk) bs s) (\<lambda>r s'. \<not> r)"
proof -
  obtain p where p: "partition_clear (ahci_ops junk) (partition s) = Some (0, p)"
    and s1: "on_ahci (v\<lparr>disk := part_bytes ahci_abs p\<rparr>) (s\<lparr>partition := p\<rparr>)"
    using ahci.at_obs_clear [OF assms(1,2), of junk] by (auto elim!: wpE)
  have plen: "plength p = o_length v" using s1 by (cases v) (auto simp: shows_obs_def obs_def)
  show ?thesis
    unfolding make_fs_def p using assms(3,4) by (auto simp: Let_def plen make_accepts_def wp_def)
qed

lemma make_then_verify:
  assumes "on_ahci v s" and mk: "makeable (o_length v) bs"
  shows "wp (do { (made_it, s) \<leftarrow> make_fs (ahci_ops junk) bs s; (good, s) \<leftarrow> verify (ahci_ops junk) s; Some (made_it \<and> good, s) })
    (\<lambda>r s'. r \<and> (\<exists>v'. on_ahci v' s' \<and> o_sblk v' = made_sb (o_length v) bs))"
proof (rule wp_then [OF ahci.make_ok [OF assms]])
  fix r s' assume r: "r \<and> (\<exists>p. partition_clear (ahci_ops junk) (partition s) = Some (0, p) \<and>
    on_ahci (made bs (v\<lparr>disk := part_bytes ahci_abs p\<rparr>)) s')"
  then obtain m where s': "on_ahci (made bs (v\<lparr>disk := m\<rparr>)) s'" by blast
  let ?w = "made bs (v\<lparr>disk := m\<rparr>)"
  have "o_length v \<le> ahci_cap" using assms(1) by (cases v) (auto simp: shows_obs_def drv_ok_def part_ok_def obs_def)
  moreover have "bs \<le> o_length v" using mk by (auto simp: makeable_iff Let_def)
  ultimately have small: "bs < 2 ^ 32" by (simp add: ahci_cap_val)
  have ok: "makeable (o_length (v\<lparr>disk := m\<rparr>)) bs" using mk by simp
  have sb: "decode_superblock (rd (disk ?w) 0 24) = made_sb (o_length v) bs"
    using made_superblock [OF ok] decode_encode_superblock [OF made_sb_wf [OF mk small]] by simp
  have "24 \<le> o_length ?w" using mk by (auto simp: makeable_iff Let_def)
  from ahci.verify_ok [OF s' this, of junk] r show "wp (case (r, s') of (made_it, s) \<Rightarrow>
      do { (good, s) \<leftarrow> verify (ahci_ops junk) s; Some (made_it \<and> good, s) })
    (\<lambda>r s'. r \<and> (\<exists>v'. on_ahci v' s' \<and> o_sblk v' = made_sb (o_length v) bs))"
    by (auto simp: sb elim!: wp_mono intro!: exI [of _ "?w\<lparr>o_sblk := made_sb (o_length v) bs\<rparr>"])
qed

text \<open>C5. \<open>make\<close> with a block size above 0 on a partition that is not empty, of the AHCI device: when the
  length and the block size fail one of the checks of \<open>make\<close> (\<open>make_accepts\<close> is their conjunction)
  it returns \<open>false\<close>. When they pass and the size of the table in bytes is no multiple of 512, it returns
  \<open>true\<close>, and \<open>verify\<close> accepts the volume: the superblock it reads back is the one that was written.
  For a table of a multiple of 512 bytes the second half fails, see \<open>make_halts\<close>.\<close>

theorem make_verifies:
  assumes "on_ahci v s" and "0 < o_length v" and "0 < bs"
  shows "(\<not> make_accepts (o_length v) bs \<longrightarrow> wp (make_fs (ahci_ops junk) bs s) (\<lambda>r s'. \<not> r)) \<and>
    (make_accepts (o_length v) bs \<and> tableSize (o_length v div bs) bs * bs mod 512 \<noteq> 0 \<longrightarrow>
     wp (do { (made_it, s) \<leftarrow> make_fs (ahci_ops junk) bs s; (good, s) \<leftarrow> verify (ahci_ops junk) s; Some (made_it \<and> good, s) })
      (\<lambda>r s'. r \<and> (\<exists>v'. on_ahci v' s' \<and> o_sblk v' = made_sb (o_length v) bs)))"
  using make_refuses [OF assms] make_then_verify [OF assms(1), of bs] on_ahci_length [OF assms(1)]
  by (simp add: makeable_def)

text \<open>A partition of 100 blocks of 960 bytes.\<close>

definition sample_blank :: observation where
  "sample_blank = sample_zero\<lparr>o_length := 96000\<rparr>"

lemma on_ahci_blank: "\<exists>s :: unit ahci_device driver. on_ahci sample_blank s"
proof -
  obtain d :: "unit ahci_device" where d: "ahci_inv d" "ahci_abs d = (\<lambda>_. 0)" using ahci_fresh by blast
  let ?s = "\<lparr>partition = \<lparr>writeRecords = [], readRecords = [], pdev = d, poffset = 0, plength = 96000\<rparr>,
    sblk = sample_sb, blocksFree = 8, root = default_dirent, writeOffset = 0\<rparr>"
  have "on_ahci sample_blank ?s"
    using d by (simp add: shows_obs_def drv_ok_def part_ok_def obs_def sample_blank_def sample_zero_def part_bytes_def ahci_cap_val)
  then show ?thesis by blast
qed

theorem make_verifies_witness:
  "\<exists>s :: unit ahci_device driver. on_ahci sample_blank s \<and> wp (make_fs (ahci_ops (\<lambda>_. 0)) 512 s) (\<lambda>r s'. \<not> r) \<and>
     wp (do { (made_it, s) \<leftarrow> make_fs (ahci_ops (\<lambda>_. 0)) 960 s; (good, s) \<leftarrow> verify (ahci_ops (\<lambda>_. 0)) s; Some (made_it \<and> good, s) })
       (\<lambda>r s'. r)"
proof -
  obtain s :: "unit ahci_device driver" where s: "on_ahci sample_blank s" using on_ahci_blank by blast
  have "wp (do { (made_it, s) \<leftarrow> make_fs (ahci_ops (\<lambda>_. 0)) 960 s; (good, s) \<leftarrow> verify (ahci_ops (\<lambda>_. 0)) s; Some (made_it \<and> good, s) })
       (\<lambda>r s'. r)"
    by (rule wp_mono [OF make_verifies [OF s, THEN conjunct2, THEN mp]])
      (simp_all add: make_accepts_def sample_blank_def tableSize_def updiv_def MINBLOCKS_def)
  moreover have "wp (make_fs (ahci_ops (\<lambda>_. 0)) 512 s) (\<lambda>r s'. \<not> r)"
    by (rule make_verifies [OF s, THEN conjunct1, THEN mp]) (simp_all add: make_accepts_def sample_blank_def)
  ultimately show ?thesis using s by blast
qed

text \<open>What \<open>make\<close> leaves in the table when it comes back and the table has room for two entries after the
  entry of the root block (\<open>4 * (ts + 2) + 640\<close> bytes): the blocks up to the table's last are unusable, the
  root block is the end of a chain, and the entry of the next block is 46, the character \<open>.\<close>: the
  first bytes of an entry of the root directory. The blocks after the table hold what the cleared
  partition held.\<close>

lemma make_misplaces_root:
  assumes "on_ahci v s" and "makeable (o_length v) bs" and ts: "ts = tableSize (o_length v div bs) bs"
    and "4 * (ts + 2) + 640 \<le> ts * bs" and clear: "partition_clear (ahci_ops junk) (partition s) = Some (0, p)"
  shows "wp (make_fs (ahci_ops junk) bs s) (\<lambda>r s'. \<exists>v'. on_ahci v' s' \<and> (\<forall>i \<le> ts. fat v' i = UNUSABLE) \<and>
    fat v' (ts + 1) = FINAL \<and> fat v' (ts + 2) = 46 \<and> (\<forall>k \<ge> (ts + 1) * bs. disk v' k = part_bytes ahci_abs p k))"
proof (rule wp_mono [OF ahci.make_ok [OF assms(1,2), of junk]])
  let ?w = "v\<lparr>disk := part_bytes ahci_abs p\<rparr>"
  have ok: "makeable (o_length ?w) bs" "ts = tableSize (o_length ?w div bs) bs" using assms(2) ts by simp_all
  have layout: "(\<forall>i \<le> ts. fat (made bs ?w) i = UNUSABLE) \<and> fat (made bs ?w) (ts + 1) = FINAL \<and>
      fat (made bs ?w) (ts + 2) = 46 \<and> (\<forall>k \<ge> (ts + 1) * bs. disk (made bs ?w) k = part_bytes ahci_abs p k)"
    using made_fat [OF ok] made_rest [OF ok assms(4)] by auto
  fix r s' assume "r \<and> (\<exists>p. partition_clear (ahci_ops junk) (partition s) = Some (0, p) \<and>
    on_ahci (made bs (v\<lparr>disk := part_bytes ahci_abs p\<rparr>)) s')"
  with clear have "on_ahci (made bs ?w) s'" by auto
  with layout show "\<exists>v'. on_ahci v' s' \<and> (\<forall>i \<le> ts. fat v' i = UNUSABLE) \<and>
    fat v' (ts + 1) = FINAL \<and> fat v' (ts + 2) = 46 \<and> (\<forall>k \<ge> (ts + 1) * bs. disk v' k = part_bytes ahci_abs p k)"
    by (intro exI [of _ "made bs ?w"]) blast
qed

text \<open>A partition of 400 blocks of 960 bytes.\<close>

definition sample_large :: observation where
  "sample_large = sample_zero\<lparr>o_length := 384000\<rparr>"

lemma on_ahci_large: "\<exists>s :: unit ahci_device driver. on_ahci sample_large s"
proof -
  obtain d :: "unit ahci_device" where d: "ahci_inv d" "ahci_abs d = (\<lambda>_. 0)" using ahci_fresh by blast
  let ?s = "\<lparr>partition = \<lparr>writeRecords = [], readRecords = [], pdev = d, poffset = 0, plength = 384000\<rparr>,
    sblk = sample_sb, blocksFree = 8, root = default_dirent, writeOffset = 0\<rparr>"
  have "on_ahci sample_large ?s"
    using d by (simp add: shows_obs_def drv_ok_def part_ok_def obs_def sample_large_def sample_zero_def part_bytes_def ahci_cap_val)
  then show ?thesis by blast
qed

lemma make_misplaces_root_witness:
  "\<exists>s :: unit ahci_device driver. on_ahci sample_large s \<and>
     wp (make_fs (ahci_ops (\<lambda>_. 0)) 960 s) (\<lambda>r s'. \<exists>v'. on_ahci v' s' \<and> fat v' 3 = FINAL \<and> fat v' 4 = 46)"
proof -
  obtain s :: "unit ahci_device driver" where s: "on_ahci sample_large s" using on_ahci_large by blast
  have ok: "makeable (o_length sample_large) 960" and ts: "2 = tableSize (o_length sample_large div 960) 960"
    by (simp_all add: makeable_iff sample_large_def tableSize_def updiv_def MINBLOCKS_def Let_def)
  obtain p where p: "partition_clear (ahci_ops (\<lambda>_. 0)) (partition s) = Some (0, p)"
    using ahci.at_obs_clear [OF s, of "\<lambda>_. 0"] by (auto simp: sample_large_def elim!: wpE)
  have "wp (make_fs (ahci_ops (\<lambda>_. 0)) 960 s) (\<lambda>r s'. \<exists>v'. on_ahci v' s' \<and> fat v' 3 = FINAL \<and> fat v' 4 = 46)"
    by (rule wp_mono [OF make_misplaces_root [OF s ok ts _ p, simplified]]) blast
  with s show ?thesis by blast
qed

text \<open>C27. On the AHCI device, in a partition that starts at a multiple of 512, \<open>make\<close> never comes back
  when the block size is a multiple of 512 and the sizes pass all checks of \<open>make\<close>, so that the block
  size is a multiple of 320 also, hence of 2560: the loop that clears the table ends with a write of no bytes,
  which fails an assertion of the device.\<close>

theorem make_halts:
  assumes "on_ahci v s" and "o_offset v mod 512 = 0" and "bs mod 512 = 0" and "make_accepts (o_length v) bs"
  shows "make_fs (ahci_ops junk) bs s = None"
proof (rule ahci.make_never_returns [OF assms on_ahci_length [OF assms(1)]])
  show "swrite (ahci_ops junk) [] off d = None" if "off mod 512 = 0" for off and d :: "'a ahci_device"
    using writeCache_empty_halts [of off d] that by (simp add: ahci_ops_def)
qed

theorem make_halts_witness:
  "\<exists>s :: unit ahci_device driver. on_ahci (sample_zero\<lparr>o_length := 384000\<rparr>) s \<and> make_fs (ahci_ops (\<lambda>_. 0)) 2560 s = None"
proof -
  obtain s :: "unit ahci_device driver" where s: "on_ahci sample_large s" using on_ahci_large by blast
  have "make_fs (ahci_ops (\<lambda>_. 0)) 2560 s = None"
    by (rule make_halts [OF s]) (simp_all add: make_accepts_def sample_large_def sample_zero_def tableSize_def updiv_def MINBLOCKS_def)
  with s show ?thesis by (auto simp: sample_large_def)
qed

section \<open>Resizing\<close>

text \<open>C26. A file of \<open>length bs\<close> blocks that is resized to \<open>k + 1\<close> blocks gets \<open>k\<close> more blocks, the first free
  ones of the table, instead of \<open>k + 1 - length bs\<close>: the old number of blocks counts as 1 in the
  difference. The chain stays well formed and the count of free blocks agrees with it.\<close>

theorem resize_overallocates:
  assumes "on_ahci v s" and "fat_fits v" and "chain_in v bs" and "0 < hd bs"
    and "startBlock e = int (hd bs)" and "wf_dirent e" and "entry_place v off"
    and "updiv new_size (blockSize (o_sblk v)) = Suc k" and "length bs \<le> k"
    and "k \<le> length (free_list v)" and "free_list v \<noteq> []" and "0 \<notin> set (free_list v)"
    and "new_size < 2 ^ 64" and "new_size \<noteq> dlength e"
  shows "wp (resize (ahci_ops junk) e off new_size s) (\<lambda>r s'. r = (0, e\<lparr>dlength := new_size\<rparr>) \<and>
    (\<exists>v'. on_ahci v' s' \<and> chain_in v' (bs @ take k (free_list v)) \<and> o_free v' = o_free v - int k \<and>
      decode_dirent (rd (disk v') off 320) = e\<lparr>dlength := new_size\<rparr>))"
  by (rule wp_mono [OF ahci.resize_to_more_ok [OF assms]]) auto

text \<open>C38. Resizing a file to 0 frees all blocks of its chain but the first, which stays the end of a chain of one
  block; the count of free blocks goes up by the whole length of the chain.\<close>

theorem resize_zero_miscounts:
  assumes "on_ahci v s" and "fat_fits v" and "chain_in v bs" and "0 < hd bs"
    and "startBlock e = int (hd bs)" and "wf_dirent e" and "entry_place v off" and "dlength e \<noteq> 0"
  shows "wp (resize (ahci_ops junk) e off 0 s) (\<lambda>r s'. r = (0, e\<lparr>dlength := 0\<rparr>) \<and>
    (\<exists>v'. on_ahci v' s' \<and> chain_in v' [hd bs] \<and> (\<forall>b \<in> set (tl bs). fat v' b = 0) \<and>
      o_free v' = o_free v + int (length bs)))"
  by (rule wp_mono [OF ahci.resize_to_zero_ok [OF assms]]) auto

lemma sample_tree_free: "free_list sample_tree = [3, 5, 7]"
  using fat_sample_tree by (simp add: free_list_def free_block_def sample_sb_def upt_rec fat_sample FINAL_val UNUSABLE_val)

lemma sample_tree_chain_in: "chain_in sample_tree [4, 6]"
  using sample_tree_chains(1) by (simp add: file_chain_def)

lemma sample_tree_place: "entry_place sample_tree 1600"
  using sample_file_at by (simp add: file_at_def)

theorem resize_overallocates_witness:
  "\<exists>s :: unit ahci_device driver. on_ahci sample_tree s \<and>
     wp (resize (ahci_ops (\<lambda>_. 0)) file_entry 1600 2000 s) (\<lambda>r s'. fst r = 0 \<and>
       (\<exists>v'. on_ahci v' s' \<and> chain_in v' [4, 6, 3, 5, 7]))"
proof (rule on_tree)
  fix s :: "unit ahci_device driver" assume s: "on_ahci sample_tree s"
  show "wp (resize (ahci_ops (\<lambda>_. 0)) file_entry 1600 2000 s) (\<lambda>r s'. fst r = 0 \<and>
       (\<exists>v'. on_ahci v' s' \<and> chain_in v' [4, 6, 3, 5, 7]))"
    by (rule wp_mono [OF resize_overallocates [OF s sample_tree_volume(2) sample_tree_chain_in _ _ entry_wf(2) sample_tree_place, where k = 3]])
      (auto simp: sample_tree_free sample_sb_def updiv_def)
qed

theorem resize_zero_miscounts_witness:
  "\<exists>s :: unit ahci_device driver. on_ahci sample_tree s \<and>
     wp (resize (ahci_ops (\<lambda>_. 0)) file_entry 1600 0 s) (\<lambda>r s'. fst r = 0 \<and>
       (\<exists>v'. on_ahci v' s' \<and> chain_in v' [4] \<and> o_free v' = o_free sample_tree + 2))"
proof (rule on_tree)
  fix s :: "unit ahci_device driver" assume s: "on_ahci sample_tree s"
  show "wp (resize (ahci_ops (\<lambda>_. 0)) file_entry 1600 0 s) (\<lambda>r s'. fst r = 0 \<and>
       (\<exists>v'. on_ahci v' s' \<and> chain_in v' [4] \<and> o_free v' = o_free sample_tree + 2))"
    by (rule wp_mono [OF resize_zero_miscounts [OF s sample_tree_volume(2) sample_tree_chain_in _ _ entry_wf(2) sample_tree_place]])
      auto
qed

end
