(* ===== verification/Memory.thy ===== *)
theory Memory
  imports Prelude
begin

text \<open>
  The kernel's allocator: class \<open>Memory\<close> of \<open>include/memory/Memory.h\<close> and
  \<open>src/memory/Memory.cpp\<close>, with \<open>malloc\<close>, \<open>calloc\<close> and \<open>posix_memalign\<close>.

  Addresses are numbers below \<open>2 ^ 64\<close>, 0 is \<open>nullptr\<close>. The heap is the map from addresses to the
  \<open>BlockMeta\<close> headers written there; a header takes 24 bytes, what lies between headers is the
  callers'. Following a pointer to where no header is, is undefined (\<open>None\<close>).
  \<open>paged\<close> lists the addresses handed to \<open>pager.assignAddress\<close>.
\<close>

abbreviation sizeof_BlockMeta :: nat where "sizeof_BlockMeta \<equiv> 24"
definition MEMORY_ALIGN :: nat where "MEMORY_ALIGN = 32"
definition PAGE_LENGTH :: nat where "PAGE_LENGTH = 4096"

record block_meta =
  blk_size :: nat
  blk_next :: nat
  blk_free :: bool

record memory =
  allocated :: nat
  mstart :: nat
  mhigh :: nat
  mend :: nat
  base :: nat
  highestAllocated :: nat
  headers :: "nat \<rightharpoonup> block_meta"
  paged :: "nat list"

text \<open>The methods in the order of the source. \<open>realign\<close> makes the address after the header a multiple of 32.\<close>

definition realign :: "nat \<Rightarrow> nat" where
  "realign val =
     (let offset = wrap64 (val + sizeof_BlockMeta) mod MEMORY_ALIGN
      in if offset \<noteq> 0 then wrap64 (val + (MEMORY_ALIGN - offset)) else val)"

definition new_memory :: "nat \<Rightarrow> nat \<Rightarrow> memory" where
  "new_memory start0 high0 =
     \<lparr>allocated = 0, mstart = realign start0, mhigh = high0, mend = start0, base = 0,
      highestAllocated = start0, headers = Map.empty, paged = []\<rparr>"

text \<open>First fit: the block and the one before it (\<open>last\<close>); 0 when there is none.\<close>

partial_function (option) findFree_loop :: "memory \<Rightarrow> nat \<Rightarrow> nat \<Rightarrow> nat \<Rightarrow> (nat \<times> nat) option" where
  "findFree_loop h current prev sz =
     (if current = 0 then Some (0, prev)
      else case headers h current of
        None \<Rightarrow> None
      | Some b \<Rightarrow> if blk_free b \<and> sz \<le> blk_size b then Some (current, prev) else findFree_loop h (blk_next b) current sz)"

definition find_free_block :: "memory \<Rightarrow> nat \<Rightarrow> nat \<Rightarrow> (nat \<times> nat) option" where
  "find_free_block h prev sz = findFree_loop h (base h) prev sz"

text \<open>The pages up to the new end are mapped; the limit \<open>high\<close> is not looked at.\<close>

partial_function (option) map_pages :: "memory \<Rightarrow> (unit \<times> memory) option" where
  "map_pages h =
     (if highestAllocated h \<le> mend h then
        map_pages (h\<lparr>paged := paged h @ [highestAllocated h], highestAllocated := wrap64 (highestAllocated h + PAGE_LENGTH)\<rparr>)
      else Some ((), h))"

definition set_next :: "nat \<Rightarrow> nat \<Rightarrow> memory \<Rightarrow> memory option" where
  "set_next a n h =
     (case headers h a of None \<Rightarrow> None | Some b \<Rightarrow> Some (h\<lparr>headers := (headers h)(a \<mapsto> b\<lparr>blk_next := n\<rparr>)\<rparr>))"

definition requestSpace :: "nat \<Rightarrow> nat \<Rightarrow> memory \<Rightarrow> (nat \<times> memory) option" where
  "requestSpace prev sz h = do {
     let block = realign (mend h);
     h \<leftarrow> (if prev \<noteq> 0 then set_next prev block h else Some h);
     (_, h) \<leftarrow> map_pages (h\<lparr>mend := wrap64 (block + sz + sizeof_BlockMeta + 1)\<rparr>);
     Some (block, h\<lparr>headers := (headers h)(block \<mapsto> \<lparr>blk_size = sz, blk_next = 0, blk_free = False\<rparr>)\<rparr>)
   }"

text \<open>\<open>new_size\<close> is an \<open>int\<close>.\<close>

definition split_block :: "nat \<Rightarrow> nat \<Rightarrow> memory \<Rightarrow> (unit \<times> memory) option" where
  "split_block a sz h =
     (case headers h a of
        None \<Rightarrow> None
      | Some b \<Rightarrow>
          if wrap64 (sz + sizeof_BlockMeta) < blk_size b then
            (let new_block = realign (wrap64 (a + sz + sizeof_BlockMeta + 1));
                 new_size = (if blk_next b \<noteq> 0
                             then i32 (u32 (int (blk_next b) - int new_block - int sizeof_BlockMeta))
                             else i32 (u32 (int a + int (blk_size b) - int new_block)))
             in if 0 < new_size then
                  Some ((), h\<lparr>headers := (headers h)
                    (new_block \<mapsto> \<lparr>blk_size = nat new_size, blk_next = blk_next b, blk_free = True\<rparr>,
                     a \<mapsto> b\<lparr>blk_next := new_block, blk_size := sz\<rparr>)\<rparr>)
                else Some ((), h))
          else Some ((), h))"

definition block_sz :: "nat \<Rightarrow> memory \<Rightarrow> nat option" where
  "block_sz a h = map_option blk_size (headers h a)"

definition allocate :: "nat \<Rightarrow> memory \<Rightarrow> (nat \<times> memory) option" where
  "allocate sz h =
     (if sz = 0 then Some (0, h)
      else do {
        (block, h) \<leftarrow>
          (if base h = 0 then do {
             (block, h) \<leftarrow> requestSpace 0 sz h;
             Some (block, if block = 0 then h else h\<lparr>base := block\<rparr>)
           }
           else do {
             (block, prev) \<leftarrow> find_free_block h (base h) sz;
             if block = 0 then requestSpace prev sz h
             else do {
               (_, h) \<leftarrow> split_block block sz h;
               b \<leftarrow> headers h block;
               Some (block, h\<lparr>headers := (headers h)(block \<mapsto> b\<lparr>blk_free := False\<rparr>)\<rparr>)
             }
           });
        if block = 0 then Some (0, h)
        else do {
          n \<leftarrow> block_sz block h;
          Some (wrap64 (block + sizeof_BlockMeta), h\<lparr>allocated := wrap64 (allocated h + (n + sizeof_BlockMeta))\<rparr>)
        }
      })"

text \<open>\<open>merge\<close> joins neighbours that are both free, and counts how often.\<close>

partial_function (option) merge_loop :: "nat \<Rightarrow> nat \<Rightarrow> memory \<Rightarrow> (nat \<times> memory) option" where
  "merge_loop current cnt h =
     (if current = 0 then Some (cnt, h)
      else case headers h current of
        None \<Rightarrow> None
      | Some b \<Rightarrow>
          if blk_next b = 0 then Some (cnt, h)
          else case headers h (blk_next b) of
            None \<Rightarrow> None
          | Some c \<Rightarrow>
              if blk_free b \<and> blk_free c then
                merge_loop current (Suc cnt) (h\<lparr>headers := (headers h)
                  (current \<mapsto> b\<lparr>blk_size := wrap64 (blk_size b + (sizeof_BlockMeta + blk_size c)), blk_next := blk_next c\<rparr>)\<rparr>)
              else merge_loop (blk_next b) cnt h)"

definition merge :: "memory \<Rightarrow> (nat \<times> memory) option" where
  "merge h = merge_loop (base h) 0 h"

definition getBlock :: "nat \<Rightarrow> nat" where
  "getBlock ptr = u64 (int ptr - int sizeof_BlockMeta)"

definition free_ptr :: "nat \<Rightarrow> memory \<Rightarrow> (unit \<times> memory) option" where
  "free_ptr ptr h =
     (if ptr = 0 then Some ((), h)
      else do {
        b \<leftarrow> headers h (getBlock ptr);
        (_, h) \<leftarrow> merge (h\<lparr>headers := (headers h)(getBlock ptr \<mapsto> b\<lparr>blk_free := True\<rparr>),
                       allocated := u64 (int (allocated h) - int (blk_size b + sizeof_BlockMeta))\<rparr>);
        Some ((), h)
      })"

definition setBounds :: "nat \<Rightarrow> nat \<Rightarrow> memory \<Rightarrow> memory" where
  "setBounds new_start new_high h =
     h\<lparr>mstart := realign new_start, highestAllocated := realign new_start, mhigh := new_high, mend := new_start\<rparr>"

definition getUnallocated :: "memory \<Rightarrow> nat" where
  "getUnallocated h = u64 (int (mhigh h) - int (mstart h) - int (allocated h))"

text \<open>The C interface; the global allocator is \<open>None\<close> until one is constructed.\<close>

definition malloc :: "nat \<Rightarrow> memory option \<Rightarrow> (nat \<times> memory option) option" where
  "malloc sz g =
     (case g of None \<Rightarrow> Some (0, None)
      | Some h \<Rightarrow> do { (p, h) \<leftarrow> allocate sz h; Some (p, Some h) })"

definition free_global :: "nat \<Rightarrow> memory option \<Rightarrow> (unit \<times> memory option) option" where
  "free_global ptr g =
     (case g of None \<Rightarrow> Some ((), None)
      | Some h \<Rightarrow> do { (_, h) \<leftarrow> free_ptr ptr h; Some ((), Some h) })"

text \<open>\<open>calloc\<close> multiplies at 64 bits; the second result is how many bytes are set to zero.\<close>

definition calloc :: "nat \<Rightarrow> nat \<Rightarrow> memory option \<Rightarrow> ((nat \<times> nat) \<times> memory option) option" where
  "calloc cnt sz g = do {
     (chunk, g) \<leftarrow> malloc (wrap64 (cnt * sz)) g;
     Some ((chunk, if chunk \<noteq> 0 then wrap64 (cnt * sz) else 0), g)
   }"

text \<open>\<open>posix_memalign\<close> checks the alignment and then does not use it; the results are the error and \<open>*memptr\<close>.\<close>

definition posix_memalign :: "nat \<Rightarrow> nat \<Rightarrow> memory option \<Rightarrow> ((int \<times> nat option) \<times> memory option) option" where
  "posix_memalign alignment sz g =
     (case g of
        None \<Rightarrow> Some ((22, None), None)
      | Some h \<Rightarrow>
          if and alignment (u64 (int alignment - 1)) \<noteq> 0 \<or> alignment < 8 then Some ((22, None), g)
          else do { (p, h) \<leftarrow> allocate sz h; Some ((0, Some p), Some h) })"


section \<open>The heap as a list of blocks\<close>

text \<open>
  A block is its address, its size and whether it is free. \<open>seg\<close>: the headers link the blocks of a
  list; \<open>laid\<close>: they lie one after the other, each with its header and its size, aligned.
\<close>

type_synonym block = "nat \<times> nat \<times> bool"

fun seg :: "(nat \<rightharpoonup> block_meta) \<Rightarrow> nat \<Rightarrow> block list \<Rightarrow> nat \<Rightarrow> bool" where
  "seg H a [] b \<longleftrightarrow> a = b"
| "seg H a ((x, s, f) # bs) b \<longleftrightarrow> a = x \<and> x \<noteq> 0 \<and>
     (\<exists>n. H x = Some \<lparr>blk_size = s, blk_next = n, blk_free = f\<rparr> \<and> seg H n bs b)"

fun laid :: "nat \<Rightarrow> block list \<Rightarrow> nat \<Rightarrow> bool" where
  "laid lo [] hi \<longleftrightarrow> lo \<le> hi"
| "laid lo ((x, s, f) # bs) hi \<longleftrightarrow> lo \<le> x \<and> (x + 24) mod 32 = 0 \<and> 0 < s \<and> laid (x + 24 + s) bs hi"

definition live :: "block list \<Rightarrow> (nat \<times> nat) set" where
  "live bs = {(x, s). (x, s, False) \<in> set bs}"

definition live_bytes :: "block list \<Rightarrow> nat" where
  "live_bytes bs = sum_list (map (\<lambda>(x, s, f). if f then 0 else s + 24) bs)"

definition heap_inv :: "memory \<Rightarrow> block list \<Rightarrow> bool" where
  "heap_inv h bs \<longleftrightarrow> seg (headers h) (base h) bs 0 \<and> laid 1 bs (mend h) \<and>
     mend h + 2 ^ 32 \<le> 2 ^ 64 \<and> (bs \<noteq> [] \<longrightarrow> mend h < base h + 2 ^ 31) \<and> allocated h = live_bytes bs"

lemma seg_append: "seg H a (xs @ ys) b \<longleftrightarrow> (\<exists>c. seg H a xs c \<and> seg H c ys b)"
  by (induction H a xs b rule: seg.induct) auto

lemma seg_frame: "x \<notin> fst ` set bs \<Longrightarrow> seg (H(x := m)) a bs b = seg H a bs b"
  by (induction H a bs b rule: seg.induct) auto

lemma seg_cong: "(\<And>x. x \<in> fst ` set bs \<Longrightarrow> H' x = H x) \<Longrightarrow> seg H' a bs b = seg H a bs b"
  by (induction H a bs b rule: seg.induct) auto

lemma laid_append: "laid lo (xs @ ys) hi \<longleftrightarrow> (\<exists>mid. laid lo xs mid \<and> laid mid ys hi)"
proof (induction xs arbitrary: lo)
  case Nil
  have "laid lo' ys hi \<Longrightarrow> lo \<le> lo' \<Longrightarrow> laid lo ys hi" for lo' by (cases ys) auto
  then show ?case by auto
qed auto

lemma laid_mono: "laid lo bs hi \<Longrightarrow> lo' \<le> lo \<Longrightarrow> hi \<le> hi' \<Longrightarrow> laid lo' bs hi'"
  by (induction lo bs hi arbitrary: lo' rule: laid.induct) auto

lemma laid_le: "laid lo bs hi \<Longrightarrow> lo \<le> hi"
  by (induction lo bs hi rule: laid.induct) auto

lemma laid_bounds: "laid lo bs hi \<Longrightarrow> (x, s, f) \<in> set bs \<Longrightarrow> lo \<le> x \<and> x + 24 + s \<le> hi \<and> (x + 24) mod 32 = 0 \<and> 0 < s"
proof (induction lo bs hi rule: laid.induct)
  case (2 lo y t g bs hi)
  have "y + 24 + t \<le> hi" using 2(2) laid_le by auto
  with 2 show ?case by fastforce
qed simp

lemma laid_apart: "laid (x + 24 + s) bs hi \<Longrightarrow> x \<notin> fst ` set bs"
  using laid_bounds by fastforce

text \<open>Two different blocks do not overlap.\<close>

lemma laid_disjoint:
  "laid lo bs hi \<Longrightarrow> (x, s, f) \<in> set bs \<Longrightarrow> (y, t, g) \<in> set bs \<Longrightarrow> x \<noteq> y \<Longrightarrow> x + 24 + s \<le> y \<or> y + 24 + t \<le> x"
proof (induction lo bs hi rule: laid.induct)
  case (2 lo z u k bs hi)
  then show ?case using laid_bounds [of "z + 24 + u" bs hi] by fastforce
qed simp

lemma laid_unique: "laid lo bs hi \<Longrightarrow> (x, s, f) \<in> set bs \<Longrightarrow> (x, t, g) \<in> set bs \<Longrightarrow> s = t \<and> f = g"
proof (induction lo bs hi rule: laid.induct)
  case (2 lo z u k bs hi)
  then show ?case using laid_bounds [of "z + 24 + u" bs hi] by fastforce
qed simp

lemma realign_spec:
  assumes "v + 64 \<le> 2 ^ 64"
  shows "v \<le> realign v" and "realign v < v + 32" and "(realign v + 24) mod 32 = 0"
proof -
  have w: "wrap64 (v + 24) = v + 24" using assms by (intro wrap64_small) simp
  have w2: "wrap64 (v + (32 - (v + 24) mod 32)) = v + (32 - (v + 24) mod 32)" using assms by (intro wrap64_small) simp
  have r: "realign v = v + (if (v + 24) mod 32 = 0 then 0 else 32 - (v + 24) mod 32)"
    by (simp only: realign_def Let_def w w2 MEMORY_ALIGN_def split: if_split) simp
  show "v \<le> realign v" "realign v < v + 32" by (auto simp: r)
  show "(realign v + 24) mod 32 = 0"
    unfolding r by presburger
qed


section \<open>Allocating\<close>

definition fits :: "nat \<Rightarrow> block \<Rightarrow> bool" where
  "fits sz b \<longleftrightarrow> snd (snd b) \<and> sz \<le> fst (snd b)"

lemma findFree_loop_ok:
  "seg (headers h) a bs 0 \<Longrightarrow> findFree_loop h a prev sz = Some
     (case dropWhile (\<lambda>b. \<not> fits sz b) bs of [] \<Rightarrow> 0 | b # _ \<Rightarrow> fst b,
      last (prev # map fst (takeWhile (\<lambda>b. \<not> fits sz b) bs)))"
proof (induction bs arbitrary: a prev)
  case Nil
  then show ?case by (subst findFree_loop.simps) simp
next
  case (Cons b bs)
  obtain x s f where b: "b = (x, s, f)" by (cases b)
  with Cons.prems obtain n where x: "a = x" "x \<noteq> 0" "headers h x = Some \<lparr>blk_size = s, blk_next = n, blk_free = f\<rparr>"
    "seg (headers h) n bs 0" by auto
  show ?case
    by (subst findFree_loop.simps) (use x b Cons.IH [OF x(4)] in \<open>simp add: fits_def\<close>)
qed

lemma map_pages_ok:
  "mend h + 2 ^ 32 \<le> 2 ^ 64 \<Longrightarrow>
   \<exists>ps hi. map_pages h = Some ((), h\<lparr>paged := ps, highestAllocated := hi\<rparr>) \<and> mend h < hi"
proof (induction "mend h + 1 - highestAllocated h" arbitrary: h rule: less_induct)
  case less
  show ?case
  proof (cases "highestAllocated h \<le> mend h")
    case True
    let ?h = "h\<lparr>paged := paged h @ [highestAllocated h], highestAllocated := wrap64 (highestAllocated h + PAGE_LENGTH)\<rparr>"
    have "wrap64 (highestAllocated h + PAGE_LENGTH) = highestAllocated h + PAGE_LENGTH"
      using less.prems True by (intro wrap64_small) (simp add: PAGE_LENGTH_def)
    then have "\<exists>ps hi. map_pages ?h = Some ((), ?h\<lparr>paged := ps, highestAllocated := hi\<rparr>) \<and> mend ?h < hi"
      by (intro less.hyps) (use less.prems True in \<open>auto simp: PAGE_LENGTH_def\<close>)
    with True show ?thesis by (subst map_pages.simps) auto
  next
    case False
    have "h = h\<lparr>paged := paged h, highestAllocated := highestAllocated h\<rparr>" by simp
    with False show ?thesis by (subst map_pages.simps) (metis not_le)
  qed
qed

lemma seg_last:
  assumes "seg H a (xs @ [(x, s, f)]) 0"
  shows "H x = Some \<lparr>blk_size = s, blk_next = 0, blk_free = f\<rparr>" and "x \<noteq> 0"
  using assms by (auto simp: seg_append)

text \<open>A new block at the end of the list.\<close>

lemma seg_snoc:
  assumes s: "seg H a bs 0" and lo: "laid lo bs hi" and y: "hi \<le> y" "0 < y" and ne: "bs \<noteq> []"
    and H: "H (fst (last bs)) = Some b"
  shows "seg (H(fst (last bs) \<mapsto> b\<lparr>blk_next := y\<rparr>, y \<mapsto> \<lparr>blk_size = sz, blk_next = 0, blk_free = f'\<rparr>)) a (bs @ [(y, sz, f')]) 0"
proof -
  obtain xs x u f where bs: "bs = xs @ [(x, u, f)]" using ne by (metis rev_exhaust surj_pair)
  obtain mid where m: "laid lo xs mid" "laid mid [(x, u, f)] hi" using lo bs by (auto simp: laid_append)
  then have hi: "x + 24 + u \<le> hi" "mid \<le> x" by auto
  have xs: "z < x" if "z \<in> fst ` set xs" for z
    using that laid_bounds [OF m(1)] hi(2) by fastforce
  obtain c where c: "seg H a xs c" "seg H c [(x, u, f)] 0" using s bs by (auto simp: seg_append)
  let ?H = "H(x \<mapsto> b\<lparr>blk_next := y\<rparr>, y \<mapsto> \<lparr>blk_size = sz, blk_next = 0, blk_free = f'\<rparr>)"
  have "seg ?H a xs c"
    using c(1) by (subst seg_cong [of _ _ H]) (use xs hi y(1) in fastforce)+
  moreover have "?H x = Some \<lparr>blk_size = u, blk_next = y, blk_free = f\<rparr>"
    using c(2) H hi y(1) by (auto simp: bs)
  ultimately show ?thesis
    using c(2) y by (auto simp: bs seg_append)
qed

lemma laid_snoc: "laid lo bs hi \<Longrightarrow> hi \<le> y \<Longrightarrow> (y + 24) mod 32 = 0 \<Longrightarrow> 0 < sz \<Longrightarrow> y + 24 + sz \<le> hi' \<Longrightarrow> laid lo (bs @ [(y, sz, f)]) hi'"
  using laid_mono [of lo bs hi lo y] by (auto simp: laid_append)

definition heap_shape :: "memory \<Rightarrow> block list \<Rightarrow> bool" where
  "heap_shape h bs \<longleftrightarrow> seg (headers h) (base h) bs 0 \<and> laid 1 bs (mend h)"

lemma requestSpace_ok:
  assumes h: "heap_shape h bs" and prev: "prev = (if bs = [] then 0 else fst (last bs))" and sz: "0 < sz"
    and room: "mend h + sz + 2 ^ 33 \<le> 2 ^ 64"
  shows "\<exists>h'. requestSpace prev sz h = Some (realign (mend h), h') \<and> allocated h' = allocated h \<and>
    mend h' = realign (mend h) + sz + 25 \<and> base h' = base h \<and>
    (if bs = [] then headers h' (realign (mend h)) = Some \<lparr>blk_size = sz, blk_next = 0, blk_free = False\<rparr>
     else seg (headers h') (base h) (bs @ [(realign (mend h), sz, False)]) 0) \<and>
    block_sz (realign (mend h)) h' = Some sz"
proof -
  let ?y = "realign (mend h)"
  have r: "mend h \<le> ?y" "?y < mend h + 32" using realign_spec [of "mend h"] room by auto
  have w: "wrap64 (25 + (?y + sz)) = ?y + sz + 25" using r room by (intro trans [OF wrap64_small]) auto
  have s: "seg (headers h) (base h) bs 0" and l: "laid 1 bs (mend h)" using h by (auto simp: heap_shape_def)
  have y: "0 < ?y" if "bs \<noteq> []" using laid_le [OF l] r(1) by simp
  have pages: "\<exists>ps hi. map_pages (h'\<lparr>mend := ?y + sz + 25\<rparr>) = Some ((), h'\<lparr>mend := ?y + sz + 25, paged := ps, highestAllocated := hi\<rparr>)" for h'
    using map_pages_ok [of "h'\<lparr>mend := ?y + sz + 25\<rparr>"] r room by auto
  show ?thesis
  proof (cases "bs = []")
    case True
    then show ?thesis
      using pages [of h] prev by (auto simp: requestSpace_def Let_def w block_sz_def)
  next
    case False
    obtain xs x u f where bs: "bs = xs @ [(x, u, f)]" using False by (metis rev_exhaust surj_pair)
    have x: "headers h x = Some \<lparr>blk_size = u, blk_next = 0, blk_free = f\<rparr>" "x \<noteq> 0"
      using seg_last [of "headers h" "base h" xs x u f] s bs by auto
    have set: "set_next x ?y h = Some (h\<lparr>headers := (headers h)(x \<mapsto> \<lparr>blk_size = u, blk_next = ?y, blk_free = f\<rparr>)\<rparr>)"
      by (simp add: set_next_def x)
    have seg: "seg ((headers h)(x \<mapsto> \<lparr>blk_size = u, blk_next = ?y, blk_free = f\<rparr>, ?y \<mapsto> \<lparr>blk_size = sz, blk_next = 0, blk_free = False\<rparr>))
        (base h) (bs @ [(?y, sz, False)]) 0"
      using seg_snoc [OF s l r(1) y [OF False] False, of "\<lparr>blk_size = u, blk_next = 0, blk_free = f\<rparr>" sz False] x bs by simp
    have prev_x: "prev = x" using prev bs by simp
    show ?thesis
      using pages [of "h\<lparr>headers := (headers h)(x \<mapsto> \<lparr>blk_size = u, blk_next = ?y, blk_free = f\<rparr>)\<rparr>"] seg x(2) False
      by (auto simp: requestSpace_def Let_def prev_x set w block_sz_def)
  qed
qed

text \<open>One block of the list, and what its header says.\<close>

lemma heap_at:
  assumes "heap_shape h (xs @ (x, s, f) # ys)"
  obtains n mid where "headers h x = Some \<lparr>blk_size = s, blk_next = n, blk_free = f\<rparr>" "x \<noteq> 0"
    "seg (headers h) (base h) xs x" "seg (headers h) n ys 0" "laid 1 xs mid" "mid \<le> x" "(x + 24) mod 32 = 0" "0 < s"
    "laid (x + 24 + s) ys (mend h)" "n = (case ys of [] \<Rightarrow> 0 | y # _ \<Rightarrow> fst y)"
proof -
  have "n = (case ys of [] \<Rightarrow> 0 | y # _ \<Rightarrow> fst y)" if "seg (headers h) n ys 0" for n
    using that by (cases ys) auto
  then show ?thesis using assms that unfolding heap_shape_def seg_append laid_append by fastforce
qed

lemma replace_block:
  assumes xs: "seg H a xs x" "laid 1 xs mid" "mid \<le> x" and x: "x \<noteq> 0" and ys: "seg H n ys 0" "laid lo ys hi" "x + 24 < lo"
  shows "seg (H(x \<mapsto> \<lparr>blk_size = s, blk_next = n, blk_free = f\<rparr>)) a (xs @ (x, s, f) # ys) 0"
proof -
  have "z < x" if "z \<in> fst ` set xs" for z using that laid_bounds [OF xs(2)] xs(3) by fastforce
  moreover have "x < z" if "z \<in> fst ` set ys" for z using that laid_bounds [OF ys(2)] ys(3) by fastforce
  ultimately have "seg (H(x \<mapsto> \<lparr>blk_size = s, blk_next = n, blk_free = f\<rparr>)) a xs x"
    "seg (H(x \<mapsto> \<lparr>blk_size = s, blk_next = n, blk_free = f\<rparr>)) n ys 0"
    using xs(1) ys(1) by (subst seg_frame; blast)+
  with x show ?thesis by (auto simp: seg_append)
qed

lemma split_block_ok:
  assumes h: "heap_shape h (xs @ (x, s, True) # ys)" and sz: "0 < sz" "sz \<le> s"
    and span: "mend h < x + 2 ^ 31" "mend h + 2 ^ 32 \<le> 2 ^ 64"
  shows "\<exists>H s' extra. split_block x sz h = Some ((), h\<lparr>headers := H\<rparr>) \<and>
    heap_shape (h\<lparr>headers := H\<rparr>) (xs @ (x, s', True) # extra @ ys) \<and> sz \<le> s' \<and> s' \<le> s \<and> list_all (\<lambda>b. snd (snd b)) extra"
proof -
  obtain n mid where H: "headers h x = Some \<lparr>blk_size = s, blk_next = n, blk_free = True\<rparr>" "x \<noteq> 0"
    and xs: "seg (headers h) (base h) xs x" "laid 1 xs mid" "mid \<le> x" and al: "(x + 24) mod 32 = 0"
    and ys: "seg (headers h) n ys 0" "laid (x + 24 + s) ys (mend h)" and n: "n = (case ys of [] \<Rightarrow> 0 | y # _ \<Rightarrow> fst y)"
    by (rule heap_at [OF h])
  have end_x: "x + 24 + s \<le> mend h" by (rule laid_le [OF ys(2)])
  have keep: ?thesis if "split_block x sz h = Some ((), h)"
  proof (intro exI conjI)
    show "split_block x sz h = Some ((), h\<lparr>headers := headers h\<rparr>)" using that by simp
    show "heap_shape (h\<lparr>headers := headers h\<rparr>) (xs @ (x, s, True) # [] @ ys)" using h by simp
  qed (use sz in simp_all)
  define nb where "nb = realign (x + sz + 25)"
  define ns where "ns = (if n \<noteq> 0 then int n - int nb - 24 else int x + int s - int nb)"
  have w: "wrap64 (sz + 24) = sz + 24" "wrap64 (25 + (x + sz)) = x + sz + 25"
    using sz end_x span by (auto intro!: trans [OF wrap64_small])
  have nb: "x + sz + 25 \<le> nb" "nb < x + sz + 57" "(nb + 24) mod 32 = 0"
    using realign_spec [of "x + sz + 25"] sz end_x span unfolding nb_def by auto
  have n_hi: "n \<noteq> 0 \<Longrightarrow> x + 24 + s \<le> n \<and> n \<le> mend h"
    using ys(2) n laid_bounds [OF ys(2)] by (cases ys) fastforce+
  have ns_range: "- (2 ^ 31) \<le> ns" "ns < 2 ^ 31" if "sz + 24 < s"
    using that nb n_hi end_x span by (auto simp: ns_def)
  have i: "i32 (u32 ns) = ns" if "sz + 24 < s" using ns_range [OF that] by (rule i32_u32)
  show ?thesis
  proof (cases "sz + 24 < s \<and> 0 < ns")
    case False
    then have "split_block x sz h = Some ((), h)"
      using i H w by (auto simp: split_block_def Let_def ns_def nb_def split: if_splits)
    then show ?thesis by (rule keep)
  next
    case True
    let ?H = "(headers h)(nb \<mapsto> \<lparr>blk_size = nat ns, blk_next = n, blk_free = True\<rparr>, x \<mapsto> \<lparr>blk_size = sz, blk_next = nb, blk_free = True\<rparr>)"
    have run: "split_block x sz h = Some ((), h\<lparr>headers := ?H\<rparr>)"
      using True i H w by (auto simp: split_block_def Let_def ns_def nb_def split: if_splits)
    have stop: "nb + 24 + nat ns \<le> (if n \<noteq> 0 then n else mend h)"
      using True end_x n_hi by (auto simp: ns_def)
    have laid_ys: "laid (nb + 24 + nat ns) ys (mend h)"
      using ys(2) n stop by (cases ys) (auto split: if_splits)
    have nb_seg: "seg ((headers h)(nb \<mapsto> \<lparr>blk_size = nat ns, blk_next = n, blk_free = True\<rparr>)) nb ((nb, nat ns, True) # ys) 0"
      using replace_block [of "headers h" nb "[]" nb nb n ys "nb + 24 + nat ns" "mend h" "nat ns" True] nb ys(1) laid_ys True
      by simp
    have nb_laid: "laid (x + 24 + sz) ((nb, nat ns, True) # ys) (mend h)" using nb laid_ys True by simp
    have "nb \<notin> fst ` set xs" using laid_bounds [OF xs(2)] xs(3) nb(1) by fastforce
    then have "seg ((headers h)(nb \<mapsto> \<lparr>blk_size = nat ns, blk_next = n, blk_free = True\<rparr>)) (base h) xs x"
      using xs(1) by (simp add: seg_frame)
    from replace_block [OF this xs(2,3) H(2) nb_seg, of "x + 24 + sz" "mend h" sz True] nb_laid sz(1)
    have "seg ?H (base h) (xs @ (x, sz, True) # (nb, nat ns, True) # ys) 0" by simp
    moreover have "laid 1 (xs @ (x, sz, True) # (nb, nat ns, True) # ys) (mend h)"
      using xs(2,3) al sz(1) nb_laid laid_mono [OF xs(2), of 1 x] by (auto simp: laid_append)
    ultimately show ?thesis
      using run sz by (intro exI [of _ ?H] exI [of _ sz] exI [of _ "[(nb, nat ns, True)]"]) (simp add: heap_shape_def)
  qed
qed

lemma mark_block:
  assumes "heap_shape h (xs @ (x, s, f) # ys)"
  shows "\<exists>b. headers h x = Some b \<and> blk_size b = s \<and>
    heap_shape (h\<lparr>headers := (headers h)(x \<mapsto> b\<lparr>blk_free := g\<rparr>)\<rparr>) (xs @ (x, s, g) # ys)"
proof -
  obtain n mid where H: "headers h x = Some \<lparr>blk_size = s, blk_next = n, blk_free = f\<rparr>" "x \<noteq> 0"
    and xs: "seg (headers h) (base h) xs x" "laid 1 xs mid" "mid \<le> x" and al: "(x + 24) mod 32 = 0" "0 < s"
    and ys: "seg (headers h) n ys 0" "laid (x + 24 + s) ys (mend h)"
    by (rule heap_at [OF assms])
  have "laid 1 (xs @ (x, s, g) # ys) (mend h)" using xs(2,3) al ys(2) laid_mono [OF xs(2), of 1 x] by (auto simp: laid_append)
  then show ?thesis
    using H(1) replace_block [OF xs H(2) ys, of s g] al(2) by (simp add: heap_shape_def)
qed

lemma live_simps [simp]:
  "live [] = {}" "live ((x, s, f) # bs) = (if f then live bs else insert (x, s) (live bs))" "live (xs @ ys) = live xs \<union> live ys"
  by (auto simp: live_def)

lemma live_free: "list_all (\<lambda>b. snd (snd b)) bs \<Longrightarrow> live bs = {} \<and> live_bytes bs = 0"
  by (induction bs) (auto simp: live_bytes_def)

lemma live_bytes_simps [simp]:
  "live_bytes [] = 0" "live_bytes ((x, s, f) # bs) = (if f then 0 else s + 24) + live_bytes bs"
  "live_bytes (xs @ ys) = live_bytes xs + live_bytes ys"
  by (simp_all add: live_bytes_def)

lemma live_bytes_le: "laid lo bs hi \<Longrightarrow> lo + live_bytes bs \<le> hi"
  by (induction lo bs hi rule: laid.induct) auto

lemma seg_base: "seg H a bs 0 \<Longrightarrow> a = (case bs of [] \<Rightarrow> 0 | b # _ \<Rightarrow> fst b) \<and> (bs \<noteq> [] \<longrightarrow> a \<noteq> 0)"
  by (cases bs) auto

text \<open>What a caller of \<open>allocate\<close> gets.\<close>

definition gives :: "nat \<Rightarrow> block list \<Rightarrow> nat \<Rightarrow> block list \<Rightarrow> bool" where
  "gives sz bs p bs' \<longleftrightarrow> (\<exists>s. p mod 32 = 0 \<and> 24 < p \<and> sz \<le> s \<and> (p - 24, s) \<notin> live bs \<and> live bs' = insert (p - 24, s) (live bs) \<and>
     live_bytes bs' = live_bytes bs + s + 24 \<and> (\<forall>(y, t) \<in> live bs. p + s \<le> y \<or> y + 24 + t \<le> p - 24))"

lemma givesI:
  assumes l: "laid 1 bs' hi" and mem: "(x, s, False) \<in> set bs'" "sz \<le> s" and new: "x \<notin> fst ` live bs" "live bs' = insert (x, s) (live bs)"
    and bytes: "live_bytes bs' = live_bytes bs + s + 24"
  shows "gives sz bs (x + 24) bs'"
proof -
  have x: "(x + 24) mod 32 = 0" "1 \<le> x" using laid_bounds [OF l mem(1)] by auto
  have "x + 24 + s \<le> y \<or> y + 24 + t \<le> x" if "(y, t) \<in> live bs" for y t
  proof -
    have "(y, t, False) \<in> set bs'" "x \<noteq> y" using that new by (force simp: live_def)+
    then show ?thesis using laid_disjoint [OF l mem(1), of y t False] by auto
  qed
  moreover have "(x, s) \<notin> live bs" using new(1) by force
  ultimately show ?thesis using x new bytes mem(2) unfolding gives_def by (intro exI [of _ s]) auto
qed

lemma allocate_ok:
  assumes inv: "heap_inv h bs" and sz: "0 < sz" "sz + 64 < 2 ^ 31"
    and room: "mend h + sz + 2 ^ 33 \<le> 2 ^ 64" "bs \<noteq> [] \<longrightarrow> mend h + sz + 64 < base h + 2 ^ 31" "0 < mend h"
  shows "\<exists>p h' bs'. allocate sz h = Some (p, h') \<and> heap_inv h' bs' \<and> gives sz bs p bs'"
proof -
  have shape: "heap_shape h bs" and s: "seg (headers h) (base h) bs 0" and l: "laid 1 bs (mend h)" and al: "allocated h = live_bytes bs"
    using inv by (auto simp: heap_inv_def heap_shape_def)
  let ?y = "realign (mend h)"
  have r: "mend h \<le> ?y" "?y < mend h + 32" "(?y + 24) mod 32 = 0" using realign_spec [of "mend h"] room by auto
  have y: "?y \<noteq> 0" using r(1) room(3) by simp
  have lb: "live_bytes bs \<le> mend h" using live_bytes_le [OF l] by simp
  have wy: "wrap64 (?y + 24) = ?y + 24" using r room by (intro wrap64_small) simp
  have wa: "wrap64 (live_bytes bs + (sz + 24)) = live_bytes bs + (sz + 24)" using lb room by (intro wrap64_small) simp
  have fresh: "?y \<notin> fst ` live bs" using laid_bounds [OF l] r(1) by (fastforce simp: live_def)
  let ?bs = "bs @ [(?y, sz, False)]"
  have l': "laid 1 ?bs (?y + sz + 25)" by (rule laid_snoc [OF l r(1,3) sz(1)]) simp
  have new: "gives sz bs (?y + 24) ?bs" by (rule givesI [OF l' _ _ fresh]) auto
  show ?thesis
  proof (cases "base h = 0")
    case True
    then have bs: "bs = []" using seg_base [OF s] by auto
    obtain h' where h': "requestSpace 0 sz h = Some (?y, h')" "allocated h' = allocated h" "mend h' = ?y + sz + 25"
      "headers h' ?y = Some \<lparr>blk_size = sz, blk_next = 0, blk_free = False\<rparr>" "block_sz ?y h' = Some sz"
      using requestSpace_ok [OF shape _ sz(1) room(1), of 0] bs by auto
    let ?h = "h'\<lparr>base := ?y, allocated := live_bytes bs + (sz + 24)\<rparr>"
    have "allocate sz h = Some (?y + 24, ?h)"
      using h' True sz(1) y wy wa al by (simp add: allocate_def block_sz_def)
    moreover have "heap_inv ?h ?bs"
      using h' y l' r sz room bs by (auto simp: heap_inv_def)
    ultimately show ?thesis using new by blast
  next
    case False
    then have ne: "bs \<noteq> []" using seg_base [OF s] by auto
    have base: "base h = fst (hd bs)" using seg_base [OF s] ne by (cases bs) auto
    define xs where "xs = takeWhile (\<lambda>b. \<not> fits sz b) bs"
    have find: "find_free_block h (base h) sz = Some (case dropWhile (\<lambda>b. \<not> fits sz b) bs of [] \<Rightarrow> 0 | b # _ \<Rightarrow> fst b, last (base h # map fst xs))"
      unfolding find_free_block_def xs_def by (rule findFree_loop_ok [OF s])
    show ?thesis
    proof (cases "dropWhile (\<lambda>b. \<not> fits sz b) bs")
      case Nil
      then have "xs = bs" unfolding xs_def by (metis append.right_neutral takeWhile_dropWhile_id)
      then have prev: "last (base h # map fst xs) = fst (last bs)" using ne by (simp add: last_map)
      obtain h' where h': "requestSpace (fst (last bs)) sz h = Some (?y, h')" "allocated h' = allocated h" "mend h' = ?y + sz + 25"
        "base h' = base h" "seg (headers h') (base h) ?bs 0" "block_sz ?y h' = Some sz"
        using requestSpace_ok [OF shape _ sz(1) room(1), of "fst (last bs)"] ne by auto
      let ?h = "h'\<lparr>allocated := live_bytes bs + (sz + 24)\<rparr>"
      have "allocate sz h = Some (?y + 24, ?h)"
        using h' False sz(1) y wy wa al find Nil prev by (simp add: allocate_def)
      moreover have "heap_inv ?h ?bs"
        using h' l' r room ne by (auto simp: heap_inv_def)
      ultimately show ?thesis using new by blast
    next
      case (Cons b ys)
      have b: "fits sz b" using hd_dropWhile [of "\<lambda>b. \<not> fits sz b" bs] Cons by auto
      then obtain x u where x: "b = (x, u, True)" "sz \<le> u" by (cases b) (auto simp: fits_def)
      have bs: "bs = xs @ (x, u, True) # ys" using takeWhile_dropWhile_id [of "\<lambda>b. \<not> fits sz b" bs] Cons x by (simp add: xs_def)
      have mem: "(x, u, True) \<in> set bs" by (simp add: bs)
      have "base h \<le> x"
      proof (cases xs)
        case Nil
        then show ?thesis using base bs by simp
      next
        case (Cons b' xs')
        obtain z w k where b': "b' = (z, w, k)" by (cases b')
        have "laid (z + 24 + w) (xs' @ (x, u, True) # ys) (mend h)" using l bs Cons b' by simp
        from laid_bounds [OF this, of x u True] show ?thesis using base bs Cons b' by simp
      qed
      then have span: "mend h < x + 2 ^ 31" "mend h + 2 ^ 32 \<le> 2 ^ 64" using inv ne by (auto simp: heap_inv_def)
      obtain H s' extra where sp: "split_block x sz h = Some ((), h\<lparr>headers := H\<rparr>)"
        and shape': "heap_shape (h\<lparr>headers := H\<rparr>) (xs @ (x, s', True) # extra @ ys)" and s': "sz \<le> s'" "s' \<le> u"
        and extra: "list_all (\<lambda>b. snd (snd b)) extra"
        using split_block_ok [OF shape [unfolded bs] sz(1) x(2) span] by blast
      let ?bs' = "xs @ (x, s', False) # extra @ ys"
      obtain m where m: "H x = Some m" "blk_size m = s'"
        and shape'': "heap_shape (h\<lparr>headers := H(x \<mapsto> m\<lparr>blk_free := False\<rparr>)\<rparr>) ?bs'"
        using mark_block [OF shape', of False] by auto
      let ?h = "h\<lparr>headers := H(x \<mapsto> m\<lparr>blk_free := False\<rparr>), allocated := live_bytes bs + (s' + 24)\<rparr>"
      have bound: "x + 24 + s' \<le> mend h" "x \<noteq> 0" using laid_bounds [OF l mem] s' by auto
      have w: "wrap64 (x + 24) = x + 24" "wrap64 (live_bytes bs + (s' + 24)) = live_bytes bs + (s' + 24)"
        using bound lb span room(1) by (auto intro!: wrap64_small)
      have run: "allocate sz h = Some (x + 24, ?h)"
        using False sz(1) find Cons x sp m bound w al by (simp add: allocate_def block_sz_def)
      have l'': "laid 1 ?bs' (mend h)" using shape'' by (simp add: heap_shape_def)
      have bytes: "live_bytes ?bs' = live_bytes bs + s' + 24" using live_free [OF extra] by (simp add: bs)
      have "heap_inv ?h ?bs'" using shape'' inv ne bytes by (simp add: heap_shape_def heap_inv_def)
      moreover have "x \<notin> fst ` live bs"
        by (auto simp: live_def dest: laid_unique [OF l mem])
      then have "gives sz bs (x + 24) ?bs'"
        by (intro givesI [OF l'' _ s'(1)]) (use live_free [OF extra] bytes bs in auto)
      ultimately show ?thesis using run by blast
    qed
  qed
qed


section \<open>Freeing\<close>

text \<open>What \<open>merge\<close> makes of the list: free neighbours become one block.\<close>

fun merged :: "block list \<Rightarrow> block list" where
  "merged ((x, s, f) # (y, t, g) # bs) =
     (if f \<and> g then merged ((x, s + (24 + t), f) # bs) else (x, s, f) # merged ((y, t, g) # bs))"
| "merged [] = []"
| "merged [b] = [b]"

lemma merged_live: "live (merged bs) = live bs \<and> live_bytes (merged bs) = live_bytes bs"
  by (induction bs rule: merged.induct) auto

lemma merged_start: "merged ((x, s, f) # bs) = c # cs \<Longrightarrow> fst c = x \<and> snd (snd c) = f"
  by (induction "(x, s, f) # bs" arbitrary: s bs rule: merged.induct) (auto split: if_splits)

lemma merged_ne: "merged (b # bs) \<noteq> []"
  by (induction "b # bs" arbitrary: b bs rule: merged.induct) auto

text \<open>No two neighbours are left free.\<close>

abbreviation coalesced :: "block list \<Rightarrow> bool" where
  "coalesced \<equiv> successively (\<lambda>b c. \<not> (snd (snd b) \<and> snd (snd c)))"

lemma merged_coalesced: "coalesced (merged bs)"
proof (induction bs rule: merged.induct)
  case (1 x s f y t g bs)
  obtain c cs where c: "merged ((y, t, g) # bs) = c # cs" using merged_ne by (metis neq_Nil_conv)
  from 1 merged_start [OF c] c show ?case by (auto simp: successively_Cons)
qed auto

lemma merge_step:
  assumes h: "heap_shape h (xs @ (x, s, True) # (y, t, True) # bs)" and top: "mend h + 2 ^ 32 \<le> 2 ^ 64"
  obtains n m where "headers h x = Some \<lparr>blk_size = s, blk_next = y, blk_free = True\<rparr>" "y \<noteq> 0" "x \<noteq> 0"
    "headers h y = Some \<lparr>blk_size = t, blk_next = n, blk_free = True\<rparr>" "wrap64 (s + (24 + t)) = s + (24 + t)"
    "heap_shape (h\<lparr>headers := (headers h)(x \<mapsto> \<lparr>blk_size = s + (24 + t), blk_next = n, blk_free = True\<rparr>)\<rparr>)
       (xs @ (x, s + (24 + t), True) # bs)"
proof -
  obtain n' mid where x: "headers h x = Some \<lparr>blk_size = s, blk_next = n', blk_free = True\<rparr>" "x \<noteq> 0"
    and xs: "seg (headers h) (base h) xs x" "laid 1 xs mid" "mid \<le> x" and al: "(x + 24) mod 32 = 0" "0 < s"
    and ys: "seg (headers h) n' ((y, t, True) # bs) 0" "laid (x + 24 + s) ((y, t, True) # bs) (mend h)"
    by (rule heap_at [OF h])
  obtain n where y: "n' = y" "y \<noteq> 0" "headers h y = Some \<lparr>blk_size = t, blk_next = n, blk_free = True\<rparr>" "seg (headers h) n bs 0"
    using ys(1) by auto
  have bs: "x + 24 + s \<le> y" "0 < t" "laid (y + 24 + t) bs (mend h)" using ys(2) by auto
  have "y + 24 + t \<le> mend h" by (rule laid_le [OF bs(3)])
  then have w: "wrap64 (s + (24 + t)) = s + (24 + t)" using bs(1) top by (intro wrap64_small) simp
  have "seg ((headers h)(x \<mapsto> \<lparr>blk_size = s + (24 + t), blk_next = n, blk_free = True\<rparr>)) (base h) (xs @ (x, s + (24 + t), True) # bs) 0"
    by (rule replace_block [OF xs x(2) y(4) bs(3)]) (use bs(1) in simp)
  moreover have "laid 1 (xs @ (x, s + (24 + t), True) # bs) (mend h)"
    using laid_mono [OF xs(2) order_refl xs(3)] laid_mono [OF bs(3), of "x + 24 + (s + (24 + t))" "mend h"] bs(1) al
      laid_le [OF xs(2)] xs(3) by (auto simp: laid_append)
  ultimately show ?thesis using that x y w by (simp add: heap_shape_def)
qed

lemma merge_loop_ok:
  "heap_shape h (xs @ bs) \<Longrightarrow> mend h + 2 ^ 32 \<le> 2 ^ 64 \<Longrightarrow> cur = (case bs of [] \<Rightarrow> 0 | b # _ \<Rightarrow> fst b) \<Longrightarrow>
   \<exists>H k. merge_loop cur cnt h = Some (k, h\<lparr>headers := H\<rparr>) \<and> heap_shape (h\<lparr>headers := H\<rparr>) (xs @ merged bs)"
proof (induction bs arbitrary: h xs cur cnt rule: merged.induct)
  case (1 x s f y t g bs)
  show ?case
  proof (cases "f \<and> g")
    case True
    then have shape: "heap_shape h (xs @ (x, s, True) # (y, t, True) # bs)" using 1(3) by simp
    obtain n where x: "headers h x = Some \<lparr>blk_size = s, blk_next = y, blk_free = True\<rparr>" "y \<noteq> 0" "x \<noteq> 0"
      and y: "headers h y = Some \<lparr>blk_size = t, blk_next = n, blk_free = True\<rparr>" "wrap64 (s + (24 + t)) = s + (24 + t)"
      and sh: "heap_shape (h\<lparr>headers := (headers h)(x \<mapsto> \<lparr>blk_size = s + (24 + t), blk_next = n, blk_free = True\<rparr>)\<rparr>)
       (xs @ (x, s + (24 + t), True) # bs)"
      by (rule merge_step [OF shape 1(4)])
    let ?h = "h\<lparr>headers := (headers h)(x \<mapsto> \<lparr>blk_size = s + (24 + t), blk_next = n, blk_free = True\<rparr>)\<rparr>"
    have step: "merge_loop cur cnt h = merge_loop x (Suc cnt) ?h"
      using x y 1(5) by (subst merge_loop.simps) simp
    show ?thesis
      using 1(1) [OF True, of ?h xs x "Suc cnt"] sh 1(4) True unfolding step by auto
  next
    case False
    have shape: "heap_shape h (xs @ (x, s, f) # (y, t, g) # bs)" using 1(3) by simp
    obtain n where x: "headers h x = Some \<lparr>blk_size = s, blk_next = n, blk_free = f\<rparr>" "x \<noteq> 0" "n = y"
      by (rule heap_at [OF shape]) auto
    have "heap_shape h ((xs @ [(x, s, f)]) @ (y, t, g) # bs)" using shape by simp
    then obtain m where y: "headers h y = Some \<lparr>blk_size = t, blk_next = m, blk_free = g\<rparr>" "y \<noteq> 0"
      by (rule heap_at) auto
    have step: "merge_loop cur cnt h = merge_loop y cnt h"
      using x y 1(5) False by (subst merge_loop.simps) auto
    show ?thesis
      using 1(2) [OF False, of h "xs @ [(x, s, f)]" y cnt] shape 1(4) False unfolding step by auto
  qed
next
  case 2
  then show ?case by (subst merge_loop.simps) (auto intro!: exI [of _ "headers h"])
next
  case (3 b)
  obtain x s f where b: "b = (x, s, f)" by (cases b)
  obtain n where x: "headers h x = Some \<lparr>blk_size = s, blk_next = n, blk_free = f\<rparr>" "n = 0"
    by (rule heap_at [of h xs x s f "[]"]) (use 3 b in auto)
  have "merge_loop cur cnt h = Some (cnt, h\<lparr>headers := headers h\<rparr>)"
    using x 3(3) b by (subst merge_loop.simps) auto
  then show ?case using 3(1) by (intro exI [of _ "headers h"] exI [of _ cnt]) simp
qed

lemma live_once: "laid 1 (xs @ (x, s, f) # ys) hi \<Longrightarrow> (x, t) \<notin> live xs \<and> (x, t) \<notin> live ys"
proof -
  assume "laid 1 (xs @ (x, s, f) # ys) hi"
  then obtain mid where xs: "laid 1 xs mid" "mid \<le> x" and ys: "laid (x + 24 + s) ys hi" by (auto simp: laid_append)
  show ?thesis using laid_bounds [OF xs(1), of x t False] laid_bounds [OF ys, of x t False] xs(2) by (auto simp: live_def)
qed

lemma free_ptr_ok:
  assumes inv: "heap_inv h bs" and live: "(x, s) \<in> live bs"
  shows "\<exists>h' bs'. free_ptr (x + 24) h = Some ((), h') \<and> heap_inv h' bs' \<and> live bs' = live bs - {(x, s)} \<and>
    live_bytes bs = live_bytes bs' + s + 24 \<and> coalesced bs' \<and> mend h' = mend h"
proof -
  obtain xs ys where bs: "bs = xs @ (x, s, False) # ys" using live by (auto simp: live_def dest: split_list)
  have shape: "heap_shape h (xs @ (x, s, False) # ys)" and top: "mend h + 2 ^ 32 \<le> 2 ^ 64" and al: "allocated h = live_bytes bs"
    using inv bs by (auto simp: heap_inv_def heap_shape_def)
  have l: "laid 1 bs (mend h)" using inv by (simp add: heap_inv_def)
  have mem: "(x, s, False) \<in> set bs" by (simp add: bs)
  obtain b where b: "headers h x = Some b" "blk_size b = s"
    and sh: "heap_shape (h\<lparr>headers := (headers h)(x \<mapsto> b\<lparr>blk_free := True\<rparr>)\<rparr>) (xs @ (x, s, True) # ys)"
    using mark_block [OF shape, of True] by auto
  let ?bs = "xs @ (x, s, True) # ys"
  let ?h = "h\<lparr>headers := (headers h)(x \<mapsto> b\<lparr>blk_free := True\<rparr>), allocated := live_bytes ?bs\<rparr>"
  have block: "getBlock (x + 24) = x"
    using laid_bounds [OF l mem] top by (simp add: getBlock_def u64_def)
  have bytes: "u64 (int (live_bytes bs) - int (s + 24)) = live_bytes ?bs"
    using live_bytes_le [OF l] top by (simp add: u64_def bs)
  have "heap_shape ?h ([] @ ?bs)" using sh by (simp add: heap_shape_def)
  moreover have "base h = (case ?bs of [] \<Rightarrow> 0 | b # _ \<Rightarrow> fst b)"
    using seg_base sh by (fastforce simp: heap_shape_def)
  ultimately obtain H k where run: "merge_loop (base h) 0 ?h = Some (k, ?h\<lparr>headers := H\<rparr>)"
    and out: "heap_shape (?h\<lparr>headers := H\<rparr>) (merged ?bs)"
    using merge_loop_ok [of ?h "[]" ?bs "base h" 0] top by auto
  have "free_ptr (x + 24) h = Some ((), ?h\<lparr>headers := H\<rparr>)"
    using run b al bytes by (simp add: free_ptr_def block merge_def)
  moreover have "heap_inv (?h\<lparr>headers := H\<rparr>) (merged ?bs)"
    using out inv bs merged_live [of ?bs] by (auto simp: heap_inv_def heap_shape_def)
  moreover have "live (merged ?bs) = live bs - {(x, s)}"
    using merged_live [of ?bs] live_once [OF l [unfolded bs]] by (auto simp: bs)
  ultimately show ?thesis using merged_live [of ?bs] merged_coalesced [of ?bs] by (auto simp: bs)
qed

lemma setBounds_inv: "base h = 0 \<Longrightarrow> allocated h = 0 \<Longrightarrow> 0 < s0 \<Longrightarrow> s0 + 2 ^ 32 \<le> 2 ^ 64 \<Longrightarrow> heap_inv (setBounds s0 hi h) []"
  by (simp add: heap_inv_def setBounds_def live_bytes_def)

section \<open>Properties\<close>

text \<open>C9. \<open>allocate\<close> gives an address that is a multiple of 32 with at least the requested size behind it, apart from
  the header and the bytes of every block that is live, and keeps the heap well formed: the linked headers
  describe blocks that do not overlap and \<open>allocated\<close> is the sum of the live ones.\<close>

theorem allocate_disjoint:
  assumes "heap_inv h bs" and "0 < sz" and "sz + 64 < 2 ^ 31" and "mend h + sz + 2 ^ 33 \<le> 2 ^ 64"
    and "bs \<noteq> [] \<longrightarrow> mend h + sz + 64 < base h + 2 ^ 31" and "0 < mend h"
  shows "\<exists>p s h' bs'. allocate sz h = Some (p, h') \<and> heap_inv h' bs' \<and> p mod 32 = 0 \<and> 24 < p \<and> sz \<le> s \<and>
    live bs' = insert (p - 24, s) (live bs) \<and> allocated h' = allocated h + s + 24 \<and>
    (\<forall>(y, t) \<in> live bs. p + s \<le> y \<or> y + 24 + t \<le> p - 24)"
proof -
  obtain p h' bs' where a: "allocate sz h = Some (p, h')" "heap_inv h' bs'" "gives sz bs p bs'"
    using allocate_ok [OF assms] by blast
  moreover have "allocated h' = live_bytes bs'" "allocated h = live_bytes bs"
    using a(2) assms(1) by (simp_all add: heap_inv_def)
  ultimately show ?thesis unfolding gives_def by (elim exE conjE) (intro exI conjI, assumption+, simp)
qed

text \<open>C10. \<open>free\<close> of a live block makes exactly that block dead, takes its bytes from \<open>allocated\<close>, joins free
  neighbours, and keeps the heap well formed and of the same extent.\<close>

theorem free_releases:
  assumes "heap_inv h bs" and "(x, s) \<in> live bs"
  shows "\<exists>h' bs'. free_ptr (x + 24) h = Some ((), h') \<and> heap_inv h' bs' \<and> live bs' = live bs - {(x, s)} \<and>
    allocated h = allocated h' + s + 24 \<and> mend h' = mend h \<and>
    successively (\<lambda>b c. \<not> (snd (snd b) \<and> snd (snd c))) bs'"
proof -
  obtain h' bs' where f: "free_ptr (x + 24) h = Some ((), h')" "heap_inv h' bs'" "live bs' = live bs - {(x, s)}"
    "live_bytes bs = live_bytes bs' + s + 24" "coalesced bs'" "mend h' = mend h"
    using free_ptr_ok [OF assms] by blast
  moreover have "allocated h' = live_bytes bs'" "allocated h = live_bytes bs"
    using f(2) assms(1) by (simp_all add: heap_inv_def)
  ultimately show ?thesis by auto
qed

definition sample_heap :: memory where
  "sample_heap = setBounds 4096 65536 (new_memory 0 0)"

lemma sample_heap_inv: "heap_inv sample_heap []"
  unfolding sample_heap_def by (rule setBounds_inv) (simp_all add: new_memory_def)

lemma sample_heap_end: "mend sample_heap = 4096" "base sample_heap = 0"
  by (simp_all add: sample_heap_def setBounds_def new_memory_def)

theorem allocate_disjoint_witness:
  "\<exists>p h'. allocate 100 sample_heap = Some (p, h') \<and> p mod 32 = 0"
  using allocate_disjoint [OF sample_heap_inv, of 100] by (auto simp: sample_heap_end)

theorem free_releases_witness:
  "\<exists>h x h'. allocate 100 sample_heap = Some (x + 24, h) \<and> free_ptr (x + 24) h = Some ((), h')"
proof -
  obtain p h bs where a: "allocate 100 sample_heap = Some (p, h)" "heap_inv h bs" "gives 100 [] p bs"
    using allocate_ok [OF sample_heap_inv, of 100] by (auto simp: sample_heap_end)
  then obtain s where s: "(p - 24, s) \<in> live bs" "p = p - 24 + 24" by (auto simp: gives_def)
  with a(1) free_releases [OF a(2) s(1)] show ?thesis by metis
qed

text \<open>The size that \<open>calloc\<close> asks for and clears is the product at 64 bits: a count of \<open>2 ^ 59 + 1\<close> objects of 32
  bytes gets a block for 32 bytes.\<close>

lemma calloc_wraps: "calloc (2 ^ 59 + 1) 32 g = calloc 1 32 g"
proof -
  have "wrap64 ((2 ^ 59 + 1) * 32) = wrap64 (1 * 32)" by (simp add: wrap64_def)
  then show ?thesis by (simp only: calloc_def)
qed

end
