(* ===== verification/Mutexes.thy ===== *)
theory Mutexes
  imports Prelude
begin

text \<open>
  \<open>include/Mutex.h\<close>: \<open>Mutex\<close>, \<open>RecursiveMutex\<close> and \<open>Lock\<close>.

  A thread is a number \<open>i\<close>, \<open>tid i\<close> is its \<open>currentThreadID()\<close>. A thread that is inside a method has
  a program point; one step of a thread touches at most one of the two atomic flags (\<open>submutex\<close> and
  \<open>locked\<close>), and \<open>owner\<close> and \<open>depth\<close> only between \<open>submutex.lock()\<close> and \<open>submutex.unlock()\<close>. Threads
  interleave in any order (\<open>rstep\<close>). A failed \<open>assert\<close> halts its thread.

  \<open>currentThreadID()\<close> (\<open>src/Threading.cpp\<close>) is a variable of the thread that starts at 0, and nothing in the
  repository calls its setter: as the program stands \<open>tid i\<close> is 0 for every thread, and
  \<open>recursive_mutex_id_0\<close> is the property that applies. The properties for different ids other than 0 are about
  the class as it is used once the ids are set.
\<close>

section \<open>The operations\<close>

text \<open>\<open>Atomic<bool>::exchange\<close>: the old value, and the flag afterwards.\<close>

definition exchange :: "bool \<Rightarrow> bool \<Rightarrow> bool \<times> bool" where
  "exchange new old = (old, new)"

text \<open>\<open>Mutex\<close> is one flag. One round of the loop of \<open>lock\<close>: whether it is over.\<close>

definition mutex_lock_round :: "bool \<Rightarrow> bool \<times> bool" where
  "mutex_lock_round m = (let (old, m) = exchange True m in (\<not> old, m))"

definition mutex_try_lock :: "bool \<Rightarrow> bool \<times> bool" where
  "mutex_try_lock m = (let (old, m) = exchange True m in (\<not> old, m))"

definition mutex_unlock :: "bool \<Rightarrow> (unit \<times> bool) option" where
  "mutex_unlock m = (let (old, m) = exchange False m in if \<not> old then None else Some ((), m))"

definition mutex_try_unlock :: "bool \<Rightarrow> bool \<times> bool" where
  "mutex_try_unlock m = exchange False m"

text \<open>\<open>RecursiveMutex\<close>, a method at a time; \<open>Unlock True\<close> is \<open>unlock\<close> and \<open>Unlock False\<close> \<open>try_unlock\<close>.\<close>

record recursive_mutex =
  submutex :: bool
  rlocked :: bool
  owner :: nat
  depth :: int

definition new_recursive_mutex :: recursive_mutex where
  "new_recursive_mutex = \<lparr>submutex = False, rlocked = False, owner = 0, depth = 0\<rparr>"

datatype point =
    Returned bool
  | Lock_sub | Lock_test | Lock_again | Lock_leave | Lock_spin | Lock_sub2 | Lock_own | Lock_return
  | Try_sub | Try_test | Try_exchange | Try_own | Try_return bool
  | Unlock_sub bool | Unlock_test bool | Unlock_clear bool | Unlock_return bool bool
  | Halted

definition enter :: "point \<Rightarrow> point \<Rightarrow> recursive_mutex \<Rightarrow> point \<times> recursive_mutex" where
  "enter here next m = (let (ok, b) = mutex_lock_round (submutex m) in (if ok then next else here, m\<lparr>submutex := b\<rparr>))"

definition leave :: "point \<Rightarrow> recursive_mutex \<Rightarrow> point \<times> recursive_mutex" where
  "leave next m = (case mutex_unlock (submutex m) of None \<Rightarrow> (Halted, m) | Some (_, b) \<Rightarrow> (next, m\<lparr>submutex := b\<rparr>))"

text \<open>\<open>--depth\<close>, and whether it was the last.\<close>

definition drop_level :: "bool \<Rightarrow> recursive_mutex \<Rightarrow> point \<times> recursive_mutex" where
  "drop_level strict m =
     (if \<not> 0 < depth m then (Halted, m)
      else if depth m - 1 = 0 then (Unlock_clear strict, m\<lparr>depth := depth m - 1, owner := 0\<rparr>)
      else (Unlock_return strict False, m\<lparr>depth := depth m - 1\<rparr>))"

fun act :: "nat \<Rightarrow> point \<Rightarrow> recursive_mutex \<Rightarrow> point \<times> recursive_mutex" where
  "act t (Returned r) m = (Returned r, m)"
| "act t Halted m = (Halted, m)"
| "act t Lock_sub m = enter Lock_sub Lock_test m"
| "act t Lock_test m = (if \<not> rlocked m \<and> owner m = t then (Lock_again, m\<lparr>depth := depth m + 1\<rparr>) else (Lock_leave, m))"
| "act t Lock_again m = leave (Returned True) m"
| "act t Lock_leave m = leave Lock_spin m"
| "act t Lock_spin m = (let (old, b) = exchange True (rlocked m) in (if old then Lock_spin else Lock_sub2, m\<lparr>rlocked := b\<rparr>))"
| "act t Lock_sub2 m = enter Lock_sub2 Lock_own m"
| "act t Lock_own m = (Lock_return, m\<lparr>owner := t, depth := 1\<rparr>)"
| "act t Lock_return m = leave (Returned True) m"
| "act t Try_sub m = enter Try_sub Try_test m"
| "act t Try_test m = (if rlocked m \<and> owner m = t then (Try_return True, m\<lparr>depth := depth m + 1\<rparr>) else (Try_exchange, m))"
| "act t Try_exchange m =
     (let (old, b) = exchange True (rlocked m) in (if old then Try_return False else Try_own, m\<lparr>rlocked := b\<rparr>))"
| "act t Try_own m = (Try_return True, m\<lparr>owner := t, depth := 1\<rparr>)"
| "act t (Try_return r) m = leave (Returned r) m"
| "act t (Unlock_sub strict) m = enter (Unlock_sub strict) (Unlock_test strict) m"
| "act t (Unlock_test strict) m =
     (if rlocked m \<and> owner m = t then drop_level strict m
      else if strict then (Halted, m) else (Unlock_return strict False, m))"
| "act t (Unlock_clear strict) m = (Unlock_return strict True, m\<lparr>rlocked := False\<rparr>)"
| "act t (Unlock_return strict r) m = leave (Returned r) m"

text \<open>
  How the calls change what a thread holds: a \<open>lock\<close> or a successful \<open>try_lock\<close> that returns adds a
  level, the \<open>--depth\<close> of an unlock takes one.
\<close>

definition gained :: "point \<Rightarrow> point \<Rightarrow> recursive_mutex \<Rightarrow> recursive_mutex \<Rightarrow> int" where
  "gained p q m m' =
     (case p of Unlock_test strict \<Rightarrow> depth m' - depth m
      | _ \<Rightarrow> (case q of Returned r \<Rightarrow> if p = Lock_again \<or> p = Lock_return \<or> p = Try_return True then 1 else 0 | _ \<Rightarrow> 0))"

record rstate =
  rmutex :: recursive_mutex
  points :: "nat \<Rightarrow> point"
  held :: "nat \<Rightarrow> int"

definition rinit :: rstate where
  "rinit = \<lparr>rmutex = new_recursive_mutex, points = (\<lambda>_. Returned False), held = (\<lambda>_. 0)\<rparr>"

definition calls :: "point set" where
  "calls = {Lock_sub, Try_sub, Unlock_sub True, Unlock_sub False}"

inductive rstep :: "(nat \<Rightarrow> nat) \<Rightarrow> rstate \<Rightarrow> rstate \<Rightarrow> bool" for tid where
  call: "points s i = Returned r \<Longrightarrow> p \<in> calls \<Longrightarrow> rstep tid s (s\<lparr>points := (points s)(i := p)\<rparr>)"
| step: "act (tid i) (points s i) (rmutex s) = (p, m) \<Longrightarrow>
    rstep tid s (s\<lparr>rmutex := m, points := (points s)(i := p), held := (held s)(i := held s i + gained (points s i) p (rmutex s) m)\<rparr>)"

inductive reach :: "(nat \<Rightarrow> nat) \<Rightarrow> rstate \<Rightarrow> rstate \<Rightarrow> bool" for tid where
  start: "reach tid s s"
| more: "reach tid s t \<Longrightarrow> rstep tid t u \<Longrightarrow> reach tid s u"

section \<open>The invariant of \<open>RecursiveMutex\<close>\<close>

text \<open>
  Who is between \<open>submutex.lock()\<close> and \<open>submutex.unlock()\<close>, who has set \<open>locked\<close>, and who is about to return
  with the lock.
\<close>

fun in_sub :: "point \<Rightarrow> bool" where
  "in_sub (Returned r) = False"
| "in_sub Lock_sub = False"
| "in_sub Lock_spin = False"
| "in_sub Lock_sub2 = False"
| "in_sub Try_sub = False"
| "in_sub (Unlock_sub strict) = False"
| "in_sub _ = True"

definition in_between :: "point \<Rightarrow> bool" where
  "in_between p \<longleftrightarrow> p = Lock_sub2 \<or> p = Lock_own \<or> p = Try_own \<or> (\<exists>strict. p = Unlock_clear strict)"

definition returning :: "point \<Rightarrow> int" where
  "returning p = (if p = Lock_return \<or> p = Try_return True then 1 else 0)"

text \<open>
  The invariant names the thread inside \<open>submutex\<close> (\<open>so\<close>) and the thread that has set \<open>locked\<close> (\<open>lo\<close>);
  \<open>tinv\<close> is what it says of the thread \<open>i\<close> with the id \<open>t\<close>, at the point \<open>p\<close>, that holds \<open>h\<close> levels.
\<close>

definition ginv :: "recursive_mutex \<Rightarrow> nat option \<Rightarrow> nat option \<Rightarrow> bool" where
  "ginv m so lo \<longleftrightarrow> (submutex m \<longleftrightarrow> so \<noteq> None) \<and> (rlocked m \<longleftrightarrow> lo \<noteq> None) \<and> (owner m \<noteq> 0 \<longrightarrow> 0 < depth m)"

definition tinv :: "recursive_mutex \<Rightarrow> nat option \<Rightarrow> nat option \<Rightarrow> nat \<Rightarrow> nat \<Rightarrow> point \<Rightarrow> int \<Rightarrow> bool" where
  "tinv m so lo i t p h \<longleftrightarrow> (in_sub p \<longleftrightarrow> so = Some i) \<and> (in_between p \<or> owner m = t \<longleftrightarrow> lo = Some i) \<and>
     (in_between p \<longrightarrow> owner m \<noteq> t) \<and> (returning p = 1 \<longrightarrow> owner m = t) \<and>
     h = (if owner m = t then depth m - returning p else 0) \<and> p \<noteq> Lock_again"

definition so_after :: "nat \<Rightarrow> point \<Rightarrow> nat option \<Rightarrow> nat option" where
  "so_after i p so = (if in_sub p then Some i else if so = Some i then None else so)"

definition lo_after :: "nat \<Rightarrow> nat \<Rightarrow> point \<Rightarrow> recursive_mutex \<Rightarrow> nat option \<Rightarrow> nat option" where
  "lo_after i t p m lo = (if in_between p \<or> owner m = t then Some i else if lo = Some i then None else lo)"

lemmas method_defs = enter_def leave_def drop_level_def mutex_lock_round_def mutex_unlock_def exchange_def
lemmas inv_defs = ginv_def tinv_def so_after_def lo_after_def in_between_def returning_def gained_def

lemma act_own:
  assumes "ginv m so lo" "tinv m so lo i t p h" "t \<noteq> 0" "act t p m = (p', m')"
  shows "ginv m' (so_after i p' so) (lo_after i t p' m' lo) \<and>
    tinv m' (so_after i p' so) (lo_after i t p' m' lo) i t p' (h + gained p p' m m')"
  using assms by (cases p; hypsubst; clarsimp simp: inv_defs method_defs split: if_split_asm; auto)

text \<open>What a step leaves alone.\<close>

lemma act_effect:
  assumes "ginv m so lo" "tinv m so lo i t p h" "act t p m = (p', m')"
  shows "(in_sub p' \<longrightarrow> so = None \<or> so = Some i) \<and> (in_between p' \<or> owner m' = t \<longrightarrow> lo = None \<or> lo = Some i) \<and>
    (owner m' = t \<or> owner m' = 0 \<or> owner m' = owner m) \<and> (owner m' \<noteq> owner m \<or> depth m' \<noteq> depth m \<longrightarrow> lo = Some i)"
  using assms by (cases p; hypsubst; auto simp: ginv_def tinv_def in_between_def method_defs split: if_splits)

lemma act_other:
  assumes g: "ginv m so lo" and i: "tinv m so lo i t p h" and act: "act t p m = (p', m')"
    and j: "tinv m so lo j u q k" "u \<noteq> t" "u \<noteq> 0" "j \<noteq> i"
  shows "tinv m' (so_after i p' so) (lo_after i t p' m' lo) j u q k"
proof -
  note e = act_effect [OF g i act]
  have so: "so_after i p' so = Some j \<longleftrightarrow> so = Some j" using e j(4) by (auto simp: so_after_def)
  have lo: "lo_after i t p' m' lo = Some j \<longleftrightarrow> lo = Some j" using e j(4) by (auto simp: lo_after_def)
  have "owner m = u \<Longrightarrow> lo = Some j" using j(1) by (auto simp: tinv_def)
  then have own: "owner m' = u \<longleftrightarrow> owner m = u" and dep: "owner m = u \<Longrightarrow> depth m' = depth m"
    using e j(2-4) by auto
  show ?thesis using j(1) by (simp add: tinv_def so lo own dep)
qed

definition rinv :: "(nat \<Rightarrow> nat) \<Rightarrow> rstate \<Rightarrow> nat option \<Rightarrow> nat option \<Rightarrow> bool" where
  "rinv tid s so lo \<longleftrightarrow> ginv (rmutex s) so lo \<and> (\<forall>i. tinv (rmutex s) so lo i (tid i) (points s i) (held s i))"

lemma rinv_init: "\<forall>i. tid i \<noteq> 0 \<Longrightarrow> rinv tid rinit None None"
  by (simp add: rinv_def ginv_def tinv_def rinit_def new_recursive_mutex_def in_between_def returning_def)

lemma tinv_call: "tinv m so lo i t (Returned r) h \<Longrightarrow> p \<in> calls \<Longrightarrow> tinv m so lo i t p h"
  by (auto simp: tinv_def calls_def in_between_def returning_def)

lemma rinv_step:
  assumes "rstep tid s s'" "rinv tid s so lo" and tid: "inj tid" "\<forall>i. tid i \<noteq> 0"
  shows "\<exists>so' lo'. rinv tid s' so' lo'"
  using assms(1,2)
proof (induction rule: rstep.induct)
  case (call s i r p)
  have "tinv (rmutex s) so lo i (tid i) p (held s i)"
    by (rule tinv_call [OF _ call(2)]) (use call(1,3) in \<open>auto simp: rinv_def dest: spec [of _ i]\<close>)
  then have "rinv tid (s\<lparr>points := (points s)(i := p)\<rparr>) so lo" using call(3) by (auto simp: rinv_def)
  then show ?case by blast
next
  case (step i s p m)
  have g: "ginv (rmutex s) so lo" and t: "tinv (rmutex s) so lo j (tid j) (points s j) (held s j)" for j
    using step(2) by (auto simp: rinv_def)
  have nz: "tid j \<noteq> 0" for j using tid(2) by simp
  have "tid j \<noteq> tid i" if "j \<noteq> i" for j using tid(1) that by (auto simp: inj_def)
  then show ?case
    using act_own [OF g t nz step(1)] act_other [OF g t step(1) t _ nz] unfolding rinv_def
    by (intro exI [of _ "so_after i p so"] exI [of _ "lo_after i (tid i) p m lo"]) simp
qed

lemma rinv_reach:
  assumes tid: "inj tid" "\<forall>i. tid i \<noteq> 0"
  shows "reach tid s s' \<Longrightarrow> rinv tid s so lo \<Longrightarrow> \<exists>so' lo'. rinv tid s' so' lo'"
proof (induction rule: reach.induct)
  case (more s t u)
  then show ?case using rinv_step [OF more(2) _ tid] by blast
qed blast

text \<open>Threads with different ids that are not 0: at most one of them holds the lock, at any interleaving.\<close>

lemma rinv_held:
  assumes "rinv tid s so lo"
  shows "0 < held s i \<Longrightarrow> owner (rmutex s) = tid i \<and> rlocked (rmutex s) \<and> lo = Some i"
  using assms by (auto simp: rinv_def ginv_def tinv_def split: if_splits dest: spec [of _ i])

text \<open>A thread that holds the lock and calls \<open>lock\<close> again waits for ever.\<close>

definition relocking :: "point \<Rightarrow> bool" where
  "relocking p \<longleftrightarrow> p = Lock_sub \<or> p = Lock_test \<or> p = Lock_leave \<or> p = Lock_spin"

lemma relock_step:
  assumes "rstep tid s s'" "rinv tid s so lo" and i: "0 < held s i" "relocking (points s i)"
  shows "0 < held s' i \<and> relocking (points s' i)"
  using assms(1-4)
proof (induction rule: rstep.induct)
  case (call s j r p)
  then show ?case by (auto simp: relocking_def)
next
  case (step j s p m)
  have "rlocked (rmutex s)" "submutex (rmutex s) \<or> \<not> in_sub (points s i)"
    using rinv_held [OF step(2,3)] step(2) by (auto simp: rinv_def ginv_def tinv_def)
  then show ?case
    using step(1,3,4) by (auto simp: relocking_def method_defs gained_def split: if_splits)
qed

lemma relock_reach:
  assumes tid: "inj tid" "\<forall>i. tid i \<noteq> 0"
  shows "reach tid s s' \<Longrightarrow> rinv tid s so lo \<Longrightarrow> 0 < held s i \<Longrightarrow> relocking (points s i) \<Longrightarrow>
    0 < held s' i \<and> relocking (points s' i)"
proof (induction rule: reach.induct)
  case (more s t u)
  obtain so' lo' where "rinv tid t so' lo'" using rinv_reach [OF tid more(1,4)] by blast
  from relock_step [OF more(2) this] more show ?case by blast
qed blast

text \<open>With the id 0, the default of \<open>threadID\<close>, \<open>lock\<close> on a mutex nobody holds returns without setting \<open>locked\<close>.\<close>

text \<open>A thread that runs alone for \<open>n\<close> steps.\<close>

fun alone :: "(nat \<Rightarrow> nat) \<Rightarrow> nat \<Rightarrow> nat \<Rightarrow> rstate \<Rightarrow> rstate" where
  "alone tid i 0 s = s"
| "alone tid i (Suc n) s = (case act (tid i) (points s i) (rmutex s) of (p, m) \<Rightarrow>
     alone tid i n (s\<lparr>rmutex := m, points := (points s)(i := p), held := (held s)(i := held s i + gained (points s i) p (rmutex s) m)\<rparr>))"

lemma reach_alone: "reach tid s t \<Longrightarrow> reach tid s (alone tid i n t)"
  by (induction n arbitrary: t) (auto split: prod.split intro: reach.more rstep.step)

lemma reach_call:
  assumes "points s i = Returned r" and "p \<in> calls"
  shows "reach tid s (alone tid i n (s\<lparr>points := (points s)(i := p)\<rparr>))"
  by (rule reach_alone [OF reach.more [OF reach.start rstep.call [OF assms]]])

text \<open>The undisturbed \<open>lock\<close> of a free mutex, by a thread whose id is 0 and by another.\<close>

lemma lock_id_0:
  assumes "tid i = 0" and "points s i = Returned r" and m: "submutex (rmutex s) = False" "rlocked (rmutex s) = False" "owner (rmutex s) = 0"
  shows "reach tid s (s\<lparr>rmutex := (rmutex s)\<lparr>depth := depth (rmutex s) + 1\<rparr>, points := (points s)(i := Returned True),
    held := (held s)(i := held s i + 1)\<rparr>)"
  using reach_call [OF assms(2), of Lock_sub tid 3] m
  by (cases "rmutex s") (simp add: numeral_eq_Suc method_defs gained_def assms(1) calls_def)

lemma lock_id:
  assumes "tid i \<noteq> owner (rmutex s)" and "points s i = Returned r" and m: "submutex (rmutex s) = False" "rlocked (rmutex s) = False"
  shows "reach tid s (s\<lparr>rmutex := \<lparr>submutex = False, rlocked = True, owner = tid i, depth = 1\<rparr>,
    points := (points s)(i := Returned True), held := (held s)(i := held s i + 1)\<rparr>)"
  using reach_call [OF assms(2), of Lock_sub tid 8] m assms(1)
  by (cases "rmutex s") (simp add: numeral_eq_Suc method_defs gained_def calls_def)


section \<open>\<open>Mutex\<close>\<close>

text \<open>The points of a thread that uses a \<open>Mutex\<close>: outside, in the loop of \<open>lock\<close>, inside, halted.\<close>

datatype place = Outside | Waiting | Inside | Stopped

inductive mstep :: "bool \<times> (nat \<Rightarrow> place) \<Rightarrow> bool \<times> (nat \<Rightarrow> place) \<Rightarrow> bool" where
  wants: "at i = Outside \<Longrightarrow> mstep (m, at) (m, at(i := Waiting))"
| round: "at i = Waiting \<Longrightarrow> mutex_lock_round m = (ok, m') \<Longrightarrow> mstep (m, at) (m', at(i := if ok then Inside else Waiting))"
| tries: "at i = Outside \<Longrightarrow> mutex_try_lock m = (ok, m') \<Longrightarrow> mstep (m, at) (m', at(i := if ok then Inside else Outside))"
| unlocks: "at i = Inside \<Longrightarrow> mstep (m, at) (case mutex_unlock m of None \<Rightarrow> (m, at(i := Stopped)) | Some (_, m') \<Rightarrow> (m', at(i := Outside)))"
| try_unlocks: "at i = Inside \<Longrightarrow> mutex_try_unlock m = (ok, m') \<Longrightarrow> mstep (m, at) (m', at(i := Outside))"

definition mutex_ok :: "bool \<times> (nat \<Rightarrow> place) \<Rightarrow> bool" where
  "mutex_ok s \<longleftrightarrow> (case s of (m, at) \<Rightarrow> (m \<longleftrightarrow> (\<exists>i. at i = Inside)) \<and>
     (\<forall>i j. at i = Inside \<and> at j = Inside \<longrightarrow> i = j) \<and> (\<forall>i. at i \<noteq> Stopped))"

lemma mutex_ok_step: "mstep s t \<Longrightarrow> mutex_ok s \<Longrightarrow> mutex_ok t"
proof (induction rule: mstep.induct)
  case (unlocks at i m)
  then have "mutex_unlock m = Some ((), False)"
    by (auto simp: mutex_ok_def mutex_unlock_def exchange_def)
  with unlocks show ?case by (auto simp: mutex_ok_def)
qed (auto simp: mutex_ok_def mutex_lock_round_def mutex_try_lock_def mutex_try_unlock_def exchange_def split: if_splits, (metis place.distinct)+)


section \<open>Properties\<close>

lemma mutex_ok_steps: "mstep\<^sup>*\<^sup>* s t \<Longrightarrow> mutex_ok s \<Longrightarrow> mutex_ok t"
  by (induction rule: rtranclp_induct) (auto intro: mutex_ok_step)

text \<open>C29. Mutual exclusion of \<open>Mutex\<close>: at every interleaving of \<open>lock\<close>, \<open>try_lock\<close>, \<open>unlock\<close> and \<open>try_unlock\<close> by any
  number of threads that unlock only what they hold, at most one thread is inside, the flag says whether one
  is, and the assertion of \<open>unlock\<close> never fails.\<close>

theorem mutex_exclusion:
  assumes "mstep\<^sup>*\<^sup>* (False, \<lambda>_. Outside) (m, at)"
  shows "(at i = Inside \<and> at j = Inside \<longrightarrow> i = j) \<and> (m \<longleftrightarrow> (\<exists>k. at k = Inside)) \<and> at i \<noteq> Stopped"
  using mutex_ok_steps [OF assms] by (simp add: mutex_ok_def)

theorem mutex_exclusion_witness: "\<exists>at. mstep\<^sup>*\<^sup>* (False, \<lambda>_. Outside) (True, at) \<and> (\<exists>k. at k = Inside)"
proof -
  have "mstep (False, \<lambda>_. Outside) (True, (\<lambda>_. Outside)(3 := if True then Inside else Outside))"
    by (rule mstep.tries) (simp_all add: mutex_try_lock_def exchange_def)
  then have "mstep\<^sup>*\<^sup>* (False, \<lambda>_. Outside) (True, (\<lambda>_. Outside)(3 := if True then Inside else Outside))" by blast
  with mutex_exclusion [OF this] show ?thesis by blast
qed

text \<open>C11. Mutual exclusion of \<open>RecursiveMutex\<close> for threads whose ids are pairwise different and not 0, at every
  interleaving of its four methods, called by anyone at any time: at most one thread holds levels of the
  lock, and while it does, the mutex is locked and names it as the owner. The condition on the ids is needed:
  nothing in the repository sets them, all are 0, and then two threads do hold the lock at once, see
  \<open>recursive_mutex_id_0\<close>.\<close>

theorem recursive_mutex_exclusion:
  assumes "inj tid" and "\<forall>i. tid i \<noteq> 0" and "reach tid rinit s" and "0 < held s i"
  shows "(0 < held s j \<longrightarrow> j = i) \<and> rlocked (rmutex s) \<and> owner (rmutex s) = tid i"
proof -
  obtain so lo where inv: "rinv tid s so lo" using rinv_reach [OF assms(1-3) rinv_init [OF assms(2)]] by blast
  show ?thesis using rinv_held [OF inv assms(4)] rinv_held [OF inv, of j] by auto
qed

theorem recursive_mutex_exclusion_witness:
  "\<exists>s. reach Suc rinit s \<and> 0 < held s 1 \<and> owner (rmutex s) = 2 \<and> \<not> 0 < held s 4"
proof -
  obtain s where s: "reach Suc rinit s" "held s 1 = 1"
    using lock_id [of Suc 1 rinit False] by (auto simp: rinit_def new_recursive_mutex_def)
  then show ?thesis using recursive_mutex_exclusion [of Suc s 1 4] by auto
qed

text \<open>C30. When the ids of the threads are pairwise different and not 0, a thread that holds a \<open>RecursiveMutex\<close>
  and calls \<open>lock\<close> again never returns from the call, whatever the others do: the test for the owner asks for
  \<open>!locked\<close>. With the id 0, which every thread of the repository has, the mutex is not set to locked by the
  first call and the second one returns.\<close>

theorem relock_never_returns:
  assumes "inj tid" and "\<forall>i. tid i \<noteq> 0" and "reach tid rinit s" and "0 < held s i" and "points s i = Returned r"
    and "reach tid (s\<lparr>points := (points s)(i := Lock_sub)\<rparr>) s'"
  shows "points s' i \<noteq> Returned b"
proof -
  obtain so lo where "rinv tid s so lo" using rinv_reach [OF assms(1-3) rinv_init [OF assms(2)]] by blast
  moreover have "rstep tid s (s\<lparr>points := (points s)(i := Lock_sub)\<rparr>)"
    by (rule rstep.call [OF assms(5)]) (simp add: calls_def)
  ultimately obtain so' lo' where "rinv tid (s\<lparr>points := (points s)(i := Lock_sub)\<rparr>) so' lo'"
    using rinv_step assms(1,2) by blast
  from relock_reach [OF assms(1,2,6) this, of i] assms(4) show ?thesis by (auto simp: relocking_def)
qed

theorem relock_never_returns_witness:
  "\<exists>s. reach Suc rinit s \<and> 0 < held s 1 \<and> (\<forall>n b. points (alone Suc 1 n (s\<lparr>points := (points s)(1 := Lock_sub)\<rparr>)) 1 \<noteq> Returned b)"
proof -
  obtain s where s: "reach Suc rinit s" "held s 1 = 1" "points s 1 = Returned True"
    using lock_id [of Suc 1 rinit False] by (auto simp: rinit_def new_recursive_mutex_def)
  then have "points (alone Suc 1 n (s\<lparr>points := (points s)(1 := Lock_sub)\<rparr>)) 1 \<noteq> Returned b" for n b
    by (intro relock_never_returns [of Suc s 1 True]) (simp_all add: reach_alone reach.start)
  with s show ?thesis by auto
qed

definition nobody :: "rstate \<Rightarrow> bool" where
  "nobody s \<longleftrightarrow> \<not> submutex (rmutex s) \<and> \<not> rlocked (rmutex s) \<and> owner (rmutex s) = 0"

lemma reach_trans: "reach tid t u \<Longrightarrow> reach tid s t \<Longrightarrow> reach tid s u"
  by (induction rule: reach.induct) (auto intro: reach.more)

lemma lock_nobody:
  assumes "reach tid s s'" and "nobody s'" and "points s' i = Returned r" and "tid i = 0"
  shows "\<exists>u. reach tid s u \<and> nobody u \<and> held u = (held s')(i := held s' i + 1) \<and> points u = (points s')(i := Returned True)"
proof -
  note go = reach_trans [OF lock_id_0 [of tid i s' r] assms(1)]
  show ?thesis by (rule exI, rule conjI, rule go) (use assms in \<open>simp_all add: nobody_def\<close>)
qed

text \<open>C35. Threads whose id is 0, as it is for every thread until \<open>currentThreadID\<close> is set: two threads hold the
  \<open>RecursiveMutex\<close> at once, and it is not locked.\<close>

theorem recursive_mutex_id_0: "\<exists>s. reach (\<lambda>_. 0) rinit s \<and> 0 < held s 1 \<and> 0 < held s 2 \<and> \<not> rlocked (rmutex s)"
proof -
  let ?z = "\<lambda>_ :: nat. 0 :: nat"
  obtain s1 where s1: "reach ?z rinit s1" "nobody s1" "held s1 = (\<lambda>_. 0)(1 := 1)" "points s1 = (\<lambda>_. Returned False)(1 := Returned True)"
    using lock_nobody [OF reach.start, of rinit 1 False ?z] by (auto simp: nobody_def rinit_def new_recursive_mutex_def)
  obtain s2 where "reach ?z rinit s2" "nobody s2" "held s2 = (\<lambda>_. 0)(1 := 1, 2 := 1)"
    using lock_nobody [OF s1(1,2), of 2 False] s1(3,4) by auto
  then show ?thesis by (auto simp: nobody_def intro!: exI [of _ s2])
qed

end
