(* ===== verification/Page_Meta.thy ===== *)
theory Page_Meta
  imports Thorn_Util "HOL-Library.Word"
begin

text \<open>
  Physical frames and page tables: \<open>PageMeta\<close> and \<open>PageMeta4K\<close> of \<open>src/arch/x86_64/PageMeta.cpp\<close> and the
  index functions of \<open>PageTableWrapper.h\<close>.

  The bitmap is a list of 64-bit words (\<open>nullptr\<close> is the empty list), an access past its end is
  undefined (\<open>None\<close>). Page tables lie in a memory that holds one 64-bit entry at every address, which is exact
  when all tables and slots are at multiples of 8; addresses are numbers below \<open>2 ^ 64\<close>. \<open>hlt\<close> for ever is \<open>None\<close>; messages are not modelled.
\<close>

unbundle bit_operations_syntax

record pager =
  physicalStart :: nat
  physicalMemoryMap :: nat
  disableMemset :: bool
  physicalMemoryMapReady :: bool
  pages :: int
  bitmap :: "64 word list"
  bitmap_at :: nat
  ptmem :: "nat \<Rightarrow> 64 word"

definition new_pager :: "nat \<Rightarrow> nat \<Rightarrow> 64 word list \<Rightarrow> int \<Rightarrow> (nat \<Rightarrow> 64 word) \<Rightarrow> pager" where
  "new_pager physical_start bitmap_address words pages' mem =
     \<lparr>physicalStart = physical_start, physicalMemoryMap = 0, disableMemset = True, physicalMemoryMapReady = False,
      pages = pages', bitmap = words, bitmap_at = bitmap_address, ptmem = mem\<rparr>"

definition pageSize :: nat where "pageSize = 4 * 2 ^ 10"

definition bitmapSize :: "pager \<Rightarrow> nat" where
  "bitmapSize m = (if pages m = - 1 \<or> bitmap m = [] then 0 else updiv (u64 (pages m)) 64 * 8)"

definition clear_bitmap :: "pager \<Rightarrow> (unit \<times> pager) option" where
  "clear_bitmap m =
     (if pages m = - 1 then Some ((), m)
      else let n = updiv (u64 (pages m)) 64 in
        if n \<le> length (bitmap m) then Some ((), m\<lparr>bitmap := replicate n 0 @ drop n (bitmap m)\<rparr>) else None)"

text \<open>\<open>findFree\<close> goes over whole words of the bitmap; \<open>start\<close> counts words, and so does the bound.\<close>

fun findFree_words :: "64 word list \<Rightarrow> nat list \<Rightarrow> int option" where
  "findFree_words bm [] = Some (- 1)"
| "findFree_words bm (i # is) =
     (if length bm \<le> i then None
      else if bm ! i \<noteq> - 1 then
        (case find (\<lambda>j. bm ! i AND push_bit j 1 = 0) [0..<64] of
           Some j \<Rightarrow> Some (i32 (wrap64 (i * 64 + j)))
         | None \<Rightarrow> findFree_words bm is)
      else findFree_words bm is)"

definition findFree :: "nat \<Rightarrow> pager \<Rightarrow> int option" where
  "findFree start m = (if pages m \<noteq> - 1 then findFree_words (bitmap m) [start..<u64 (pages m) div 64] else Some (- 1))"

definition mark :: "int \<Rightarrow> bool \<Rightarrow> pager \<Rightarrow> (unit \<times> pager) option" where
  "mark index used m =
     (if pages m = - 1 then Some ((), m)
      else let k = u64 index div 64; j = u64 index mod 64 in
        if k < length (bitmap m) then
          Some ((), m\<lparr>bitmap := (bitmap m)[k := if used then bitmap m ! k OR push_bit j 1 else bitmap m ! k AND NOT (push_bit j 1)]\<rparr>)
        else None)"

text \<open>
  The mask of \<open>isFree\<close> is \<open>1 << (index & 63)\<close> at the width of \<open>int\<close>: undefined from 32 on, and 31 gives
  the sign bit, which the conversion to 64 bits extends.
\<close>

definition frame_isFree :: "nat \<Rightarrow> pager \<Rightarrow> bool option" where
  "frame_isFree index m =
     (let k = index div 64; j = index mod 64 in
      if length (bitmap m) \<le> k \<or> 32 \<le> j then None
      else let mask = (if j = 31 then - (push_bit 31 1) else push_bit j 1) :: 64 word
        in Some (bitmap m ! k AND mask \<noteq> 0))"

fun frames_free :: "nat \<Rightarrow> nat list \<Rightarrow> pager \<Rightarrow> bool option" where
  "frames_free index [] m = Some True"
| "frames_free index (i # is) m = do {
     b \<leftarrow> frame_isFree (wrap64 (index + i)) m;
     if \<not> b then Some False else frames_free index is m
   }"

partial_function (option) allocate_run :: "int \<Rightarrow> nat \<Rightarrow> pager \<Rightarrow> (nat \<times> pager) option" where
  "allocate_run index cnt m = do {
     index \<leftarrow> findFree (u64 (index + 1)) m;
     b \<leftarrow> frames_free (u64 index) [1..<cnt] m;
     if \<not> b then allocate_run index cnt m
     else do {
       (_, m) \<leftarrow> mark index True m;
       Some (wrap64 (physicalStart m + u64 index * pageSize), m)
     }
   }"

definition allocateFreePhysicalAddress :: "nat \<Rightarrow> pager \<Rightarrow> (nat \<times> pager) option" where
  "allocateFreePhysicalAddress cnt m =
     (if cnt = 0 then Some (0, m)
      else if cnt = 1 then do {
        free_index \<leftarrow> findFree 0 m;
        if free_index = - 1 then Some (0, m)
        else do {
          (_, m) \<leftarrow> mark free_index True m;
          Some (wrap64 (physicalStart m + u64 free_index * pageSize), m)
        }
      }
      else allocate_run (- 1) cnt m)"

definition allocateFreePhysicalFrame :: "nat \<Rightarrow> pager \<Rightarrow> (nat \<times> pager) option" where
  "allocateFreePhysicalFrame cnt m = do { (a, m) \<leftarrow> allocateFreePhysicalAddress cnt m; Some (a div 4096, m) }"

definition pagesUsed :: "pager \<Rightarrow> nat option" where
  "pagesUsed m =
     (let n = bitmapSize m div 8
      in if n \<le> length (bitmap m) then Some (sum_list (map (\<lambda>w. card {j. j < 64 \<and> bit w j}) (take n (bitmap m)))) else None)"


section \<open>Page tables\<close>

definition getPML4Index :: "64 word \<Rightarrow> nat" where "getPML4Index addr = unat (drop_bit 39 addr AND 0x1ff)"
definition getPDPTIndex :: "64 word \<Rightarrow> nat" where "getPDPTIndex addr = unat (drop_bit 30 addr AND 0x1ff)"
definition getPDTIndex :: "64 word \<Rightarrow> nat" where "getPDTIndex addr = unat (drop_bit 21 addr AND 0x1ff)"
definition getPTIndex :: "64 word \<Rightarrow> nat" where "getPTIndex addr = unat (drop_bit 12 addr AND 0x1ff)"
definition getOffset :: "64 word \<Rightarrow> nat" where "getOffset addr = unat (addr AND 0xfff)"

definition isPresent :: "64 word \<Rightarrow> bool" where
  "isPresent e \<longleftrightarrow> e AND 1 \<noteq> 0"

definition addressToEntry :: "nat \<Rightarrow> 64 word" where
  "addressToEntry address = ((word_of_nat address AND NOT 0xfff) OR 1) OR 2"

text \<open>The table an entry points to, the address of an entry, and a write.\<close>

definition table_of :: "64 word \<Rightarrow> nat" where
  "table_of e = unat (e AND NOT 0xfff)"

definition slot :: "nat \<Rightarrow> nat \<Rightarrow> nat" where
  "slot table i = wrap64 (table + 8 * i)"

definition set_slot :: "nat \<Rightarrow> 64 word \<Rightarrow> pager \<Rightarrow> pager" where
  "set_slot a e m = m\<lparr>ptmem := (ptmem m)(a := e)\<rparr>"

definition zero_page :: "nat \<Rightarrow> pager \<Rightarrow> pager" where
  "zero_page a m = m\<lparr>ptmem := (\<lambda>x. if a \<le> x \<and> x < a + 4096 then 0 else ptmem m x)\<rparr>"

definition modifyEntry :: "nat \<Rightarrow> 64 word \<Rightarrow> (64 word \<Rightarrow> 64 word) \<Rightarrow> pager \<Rightarrow> bool \<times> pager" where
  "modifyEntry entries' virtual_address modifier m =
     (let e4 = ptmem m (slot entries' (getPML4Index virtual_address)) in
      if \<not> isPresent e4 then (False, m)
      else let e3 = ptmem m (slot (table_of e4) (getPDPTIndex virtual_address)) in
      if \<not> isPresent e3 then (False, m)
      else let e2 = ptmem m (slot (table_of e3) (getPDTIndex virtual_address)) in
      if \<not> isPresent e2 then (False, m)
      else let a = slot (table_of e2) (getPTIndex virtual_address) in
      if \<not> isPresent (ptmem m a) then (False, m)
      else (True, set_slot a (modifier (ptmem m a)) m))"

definition andMeta :: "nat \<Rightarrow> 64 word \<Rightarrow> 64 word \<Rightarrow> pager \<Rightarrow> bool \<times> pager" where
  "andMeta entries' virtual_address meta m = modifyEntry entries' virtual_address (\<lambda>e. e AND meta) m"

definition orMeta :: "nat \<Rightarrow> 64 word \<Rightarrow> 64 word \<Rightarrow> pager \<Rightarrow> bool \<times> pager" where
  "orMeta entries' virtual_address meta m = modifyEntry entries' virtual_address (\<lambda>e. e OR meta) m"

definition freeEntry :: "nat \<Rightarrow> 64 word \<Rightarrow> pager \<Rightarrow> bool \<times> pager" where
  "freeEntry entries' virtual_address m = modifyEntry entries' virtual_address (\<lambda>_. 0) m"

text \<open>
  What \<open>assign\<close> and \<open>assignBeforePMM\<close> do three times: when the entry at \<open>seen\<close> is not present, a new frame is
  entered at \<open>a\<close> (the same address, but for one place in \<open>assignBeforePMM\<close>) and set to zero at \<open>at frame\<close>.
\<close>

definition ensure_table :: "bool \<Rightarrow> (nat \<Rightarrow> nat) \<Rightarrow> nat \<Rightarrow> nat \<Rightarrow> pager \<Rightarrow> (unit \<times> pager) option" where
  "ensure_table zero at seen a m =
     (if isPresent (ptmem m seen) then Some ((), m)
      else do {
        (free_addr, m) \<leftarrow> allocateFreePhysicalAddress 1 m;
        if free_addr \<noteq> 0 then
          (let m = set_slot a (addressToEntry free_addr) m in Some ((), if zero then zero_page (at free_addr) m else m))
        else None
      })"

definition canonical :: "nat \<Rightarrow> bool" where
  "canonical a = isCanonical (word_of_nat a)"

definition assign :: "nat \<Rightarrow> nat \<Rightarrow> nat \<Rightarrow> nat \<Rightarrow> nat \<Rightarrow> nat \<Rightarrow> 64 word \<Rightarrow> pager \<Rightarrow> (64 word \<times> pager) option" where
  "assign entries' pml4_index pdpt_index pdt_index pt_index physical_address extra_meta m =
     (let access = (\<lambda>ptr. wrap64 (physicalMemoryMap m + ptr)) in
      if pages m = - 1 then Some (0, m)
      else if \<not> canonical entries' then None
      else do {
        (_, m) \<leftarrow> ensure_table True access (slot entries' pml4_index) (slot entries' pml4_index) m;
        let pdpt = table_of (ptmem m (slot entries' pml4_index));
        if \<not> canonical pdpt then None else do {
        let pdpt = access pdpt;
        (_, m) \<leftarrow> ensure_table True access (slot pdpt pdpt_index) (slot pdpt pdpt_index) m;
        let pdt = table_of (ptmem m (slot pdpt pdpt_index));
        if \<not> canonical pdt then None else do {
        let pdt = access pdt;
        (_, m) \<leftarrow> ensure_table True access (slot pdt pdt_index) (slot pdt pdt_index) m;
        let pt = table_of (ptmem m (slot pdt pdt_index));
        if \<not> canonical pt then None else do {
        let a = slot (access pt) pt_index;
        if \<not> isPresent (ptmem m a) then
          (if physical_address \<noteq> 0 then
             (let e = addressToEntry physical_address OR extra_meta in Some (e, set_slot a e m))
           else do {
             (free_addr, m) \<leftarrow> allocateFreePhysicalAddress 1 m;
             if free_addr \<noteq> 0 then
               (let m = zero_page (access free_addr) (set_slot a (addressToEntry free_addr OR extra_meta) m) in Some (ptmem m a, m))
             else None
           })
        else Some (0, m)
        }}}
      })"

text \<open>
  Before the physical memory is mapped: addresses from 32 MiB on are offset; the test of the second level
  offsets its table twice; \<open>extra_meta\<close> is left out when the physical address is given.
\<close>

definition assignBeforePMM :: "nat \<Rightarrow> nat \<Rightarrow> nat \<Rightarrow> nat \<Rightarrow> nat \<Rightarrow> nat \<Rightarrow> 64 word \<Rightarrow> pager \<Rightarrow> (64 word \<times> pager) option" where
  "assignBeforePMM entries' pml4_index pdpt_index pdt_index pt_index physical_address extra_meta m =
     (let access = (\<lambda>ptr. if ptr < 0x2000000 then ptr else wrap64 (physicalMemoryMap m + ptr));
          zero = \<not> disableMemset m in
      if pages m = - 1 then Some (0, m)
      else if \<not> canonical entries' then None
      else do {
        (_, m) \<leftarrow> ensure_table zero id (slot entries' pml4_index) (slot entries' pml4_index) m;
        let pdpt = table_of (ptmem m (slot entries' pml4_index));
        if \<not> canonical pdpt then None else do {
        let pdpt = access pdpt;
        (_, m) \<leftarrow> ensure_table zero id (slot (access pdpt) pdpt_index) (slot pdpt pdpt_index) m;
        let pdt = table_of (ptmem m (slot pdpt pdpt_index));
        if \<not> canonical pdt then None else do {
        let pdt = access pdt;
        (_, m) \<leftarrow> ensure_table zero id (slot pdt pdt_index) (slot pdt pdt_index) m;
        let pt = table_of (ptmem m (slot pdt pdt_index));
        if \<not> canonical pt then None else do {
        let a = slot (access pt) pt_index;
        if \<not> isPresent (ptmem m a) then
          (if physical_address \<noteq> 0 then
             Some (addressToEntry physical_address, set_slot a (addressToEntry physical_address) m)
           else do {
             (free_addr, m) \<leftarrow> allocateFreePhysicalAddress 1 m;
             if free_addr \<noteq> 0 then
               (let m = set_slot a (addressToEntry free_addr OR extra_meta) m;
                    m = (if zero then zero_page free_addr m else m)
                in Some (ptmem m a, m))
             else None
           })
        else Some (0, m)
        }}}
      })"

definition assignAddress :: "nat \<Rightarrow> 64 word \<Rightarrow> nat \<Rightarrow> 64 word \<Rightarrow> pager \<Rightarrow> (bool \<times> pager) option" where
  "assignAddress entries' virtual_address physical_address extra_meta m = do {
     (out, m) \<leftarrow> (if physicalMemoryMapReady m then assign else assignBeforePMM) entries'
       (getPML4Index virtual_address) (getPDPTIndex virtual_address) (getPDTIndex virtual_address) (getPTIndex virtual_address)
       physical_address extra_meta m;
     Some (out \<noteq> 0, m)
   }"

definition identityMap :: "nat \<Rightarrow> nat \<Rightarrow> 64 word \<Rightarrow> pager \<Rightarrow> (bool \<times> pager) option" where
  "identityMap entries' address extra_meta m = assignAddress entries' (word_of_nat address) address extra_meta m"

text \<open>\<open>bitmap + i\<close> advances by \<open>i\<close> words, while \<open>i\<close> counts bytes.\<close>

fun assignSelf_pages :: "nat \<Rightarrow> nat list \<Rightarrow> pager \<Rightarrow> (unit \<times> pager) option" where
  "assignSelf_pages entries' [] m = Some ((), m)"
| "assignSelf_pages entries' (k # ks) m = do {
     let address = word_of_nat (bitmap_at m + 8 * (k * pageSize));
     (_, m) \<leftarrow> assign entries' (getPML4Index address) (getPDPTIndex address) (getPDTIndex address) (getPTIndex address) 0 0 m;
     assignSelf_pages entries' ks m
   }"

definition assignSelf :: "nat \<Rightarrow> pager \<Rightarrow> (unit \<times> pager) option" where
  "assignSelf entries' m =
     (if pages m = - 1 then Some ((), m) else assignSelf_pages entries' [0..<updiv (bitmapSize m) pageSize] m)"


section \<open>The frames of the bitmap\<close>

text \<open>Frames are handed out from the whole words of the bitmap.\<close>

definition frames :: "pager \<Rightarrow> nat" where
  "frames m = 64 * (nat (pages m) div 64)"

definition clear_at :: "64 word list \<Rightarrow> nat \<Rightarrow> bool" where
  "clear_at bm k \<longleftrightarrow> \<not> bit (bm ! (k div 64)) (k mod 64)"

definition spare :: "pager \<Rightarrow> nat set" where
  "spare m = {k. k < frames m \<and> clear_at (bitmap m) k}"

definition frame_addr :: "pager \<Rightarrow> nat \<Rightarrow> nat" where
  "frame_addr m k = physicalStart m + 4096 * k"

definition pager_ok :: "pager \<Rightarrow> bool" where
  "pager_ok m \<longleftrightarrow> 0 \<le> pages m \<and> pages m < 2 ^ 31 \<and> frames m \<le> 64 * length (bitmap m) \<and>
     0 < physicalStart m \<and> physicalStart m mod 4096 = 0 \<and> physicalStart m + 4096 * frames m \<le> 2 ^ 47 \<and>
     physicalMemoryMap m + 2 ^ 47 \<le> 2 ^ 64"

lemma mask_bit: "(w AND push_bit j 1 = 0) = (\<not> bit w j)" for w :: "64 word"
  by (simp add: push_bit_eq_mult and_exp_eq_0_iff_not_bit)

lemma findFree_words_ok:
  assumes "64 * n \<le> 2 ^ 31" "n \<le> length bm"
  shows "s \<le> n \<Longrightarrow> \<exists>r. findFree_words bm [s..<n] = Some r \<and>
    (r = - 1 \<and> (\<forall>k. 64 * s \<le> k \<and> k < 64 * n \<longrightarrow> \<not> clear_at bm k) \<or>
     (\<exists>k. r = int k \<and> 64 * s \<le> k \<and> k < 64 * n \<and> clear_at bm k \<and> (\<forall>l. 64 * s \<le> l \<and> l < k \<longrightarrow> \<not> clear_at bm l)))"
proof (induction "n - s" arbitrary: s)
  case 0
  then show ?case by auto
next
  case (Suc d)
  then have s: "s < n" "d = n - Suc s" "Suc s \<le> n" by auto
  have word: "k div 64 = s \<and> k mod 64 = k - 64 * s" if "64 * s \<le> k" "k < 64 * Suc s" for k
    using that by (auto simp: div_nat_eqI modulo_nat_def)
  have skip: "findFree_words bm [s..<n] = findFree_words bm [Suc s..<n]" if full: "\<forall>j < 64. bit (bm ! s) j"
  proof -
    have "bm ! s = - 1" using full by (auto simp: bit_eq_iff)
    then show ?thesis using s(1) assms by (simp add: upt_conv_Cons)
  qed
  show ?case
  proof (cases "\<forall>j < 64. bit (bm ! s) j")
    case True
    have used: "\<not> clear_at bm k" if "64 * s \<le> k" "k < 64 * Suc s" for k
      using True word [OF that] that by (auto simp: clear_at_def)
    have lower: "64 * Suc s \<le> k" if "64 * s \<le> k" "clear_at bm k" for k
      using used [OF that(1)] that(2) by (meson not_less)
    have weaker: "64 * s \<le> k" if "64 * Suc s \<le> k" for k using that by simp
    have step: "\<not> clear_at bm l" if "\<forall>l. 64 * Suc s \<le> l \<and> l < b \<longrightarrow> \<not> clear_at bm l" "64 * s \<le> l" "l < b" for l b
      using that lower by blast
    show ?thesis
      using Suc(1) [OF s(2,3)] unfolding skip [OF True] by (elim ex_forward conj_forward disj_forward) (use weaker step in \<open>blast+\<close>)
  next
    case False
    let ?P = "\<lambda>j. bm ! s AND push_bit j 1 = 0"
    obtain j where j: "find ?P [0..<64] = Some j"
    proof (cases "find ?P [0..<64]")
      case None
      then show thesis using False by (auto simp: find_None_iff mask_bit and_exp_eq_0_iff_not_bit)
    qed (use that in blast)
    then obtain i where i: "i < 64" "?P i" "j = i" "\<forall>l < i. \<not> ?P l"
      by (auto simp: find_Some_iff)
    have ne: "bm ! s \<noteq> - 1" using False by auto
    have val: "i32 (wrap64 (s * 64 + j)) = int (64 * s + j)"
      using s(1) i assms(1) by (simp add: i32_def Let_def)
    have "findFree_words bm [s..<n] = Some (int (64 * s + j))"
      using s(1) assms ne j val by (simp add: upt_conv_Cons)
    moreover have "clear_at bm (64 * s + j)" "64 * s + j < 64 * n"
      using i word [of "64 * s + j"] s(1) by (auto simp: clear_at_def mask_bit and_exp_eq_0_iff_not_bit)
    moreover have "\<not> clear_at bm l" if "64 * s \<le> l" "l < 64 * s + j" for l
      using that i word [of l] by (auto simp: clear_at_def mask_bit and_exp_eq_0_iff_not_bit)
    ultimately show ?thesis by (intro exI [of _ "int (64 * s + j)"] conjI disjI2 exI [of _ "64 * s + j"]) auto
  qed
qed

lemma findFree_ok:
  assumes "pager_ok m" and "64 * s \<le> frames m"
  shows "\<exists>r. findFree s m = Some r \<and> (r = - 1 \<and> (\<forall>k \<in> spare m. k < 64 * s) \<or>
    (\<exists>k. r = int k \<and> 64 * s \<le> k \<and> k \<in> spare m \<and> (\<forall>l \<in> spare m. l < 64 * s \<or> k \<le> l)))"
proof -
  have "64 * (nat (pages m) div 64) \<le> nat (pages m)" by simp
  then have n: "64 * (nat (pages m) div 64) \<le> 2 ^ 31" "nat (pages m) div 64 \<le> length (bitmap m)" "s \<le> nat (pages m) div 64"
    using assms by (auto simp: pager_ok_def frames_def)
  have "u64 (pages m) = nat (pages m)" using assms(1) by (simp add: pager_ok_def)
  then have "findFree s m = findFree_words (bitmap m) [s..<nat (pages m) div 64]"
    using assms(1) by (auto simp: findFree_def pager_ok_def)
  with findFree_words_ok [OF n] show ?thesis
    by (auto simp: spare_def frames_def not_less) (metis not_less)+
qed

lemma mark_ok:
  assumes ok: "pager_ok m" and k: "k < frames m"
  shows "\<exists>bm. mark (int k) used m = Some ((), m\<lparr>bitmap := bm\<rparr>) \<and> length bm = length (bitmap m) \<and>
    (\<forall>l < frames m. clear_at bm l = (if l = k then \<not> used else clear_at (bitmap m) l))"
proof -
  let ?w = "k div 64" and ?j = "k mod 64"
  have len: "?w < length (bitmap m)" using ok k by (auto simp: pager_ok_def)
  have u: "u64 (int k) = k"
    using ok k by (intro u64_of_nat) (auto simp: pager_ok_def frames_def)
  let ?v = "if used then bitmap m ! ?w OR push_bit ?j 1 else bitmap m ! ?w AND NOT (push_bit ?j 1)"
  have run: "mark (int k) used m = Some ((), m\<lparr>bitmap := (bitmap m)[?w := ?v]\<rparr>)"
    using ok len by (auto simp: mark_def u Let_def pager_ok_def)
  have "clear_at ((bitmap m)[?w := ?v]) l = (if l = k then \<not> used else clear_at (bitmap m) l)" for l
  proof (cases "l div 64 = ?w")
    case True
    then have "l = k \<longleftrightarrow> l mod 64 = ?j" by (metis div_mult_mod_eq)
    then show ?thesis using True len by (auto simp: clear_at_def bit_simps)
  next
    case False
    then show ?thesis by (auto simp: clear_at_def)
  qed
  with run show ?thesis by (intro exI [of _ "(bitmap m)[?w := ?v]"]) simp
qed

text \<open>One frame: the first spare one, which is spare no longer.\<close>

lemma allocate_frame:
  assumes ok: "pager_ok m"
  shows "spare m = {} \<and> allocateFreePhysicalAddress 1 m = Some (0, m) \<or>
    (\<exists>k bm. k \<in> spare m \<and> (\<forall>l \<in> spare m. k \<le> l) \<and> allocateFreePhysicalAddress 1 m = Some (frame_addr m k, m\<lparr>bitmap := bm\<rparr>) \<and>
       pager_ok (m\<lparr>bitmap := bm\<rparr>) \<and> spare (m\<lparr>bitmap := bm\<rparr>) = spare m - {k})"
proof -
  obtain r where r: "findFree 0 m = Some r" "r = - 1 \<and> spare m = {} \<or> (\<exists>k. r = int k \<and> k \<in> spare m \<and> (\<forall>l \<in> spare m. k \<le> l))"
    using findFree_ok [OF ok, of 0] by auto
  show ?thesis
  proof (cases "r = - 1")
    case True
    then show ?thesis using r by (auto simp: allocateFreePhysicalAddress_def)
  next
    case False
    then obtain k where k: "r = int k" "k \<in> spare m" "\<forall>l \<in> spare m. k \<le> l" using r(2) by auto
    have lt: "k < frames m" using k(2) by (simp add: spare_def)
    obtain bm where bm: "mark (int k) True m = Some ((), m\<lparr>bitmap := bm\<rparr>)" "length bm = length (bitmap m)"
      "\<forall>l < frames m. clear_at bm l = (if l = k then \<not> True else clear_at (bitmap m) l)"
      using mark_ok [OF ok lt, of True] by blast
    have b: "physicalStart m + 4096 * k < 2 ^ 47" using ok lt unfolding pager_ok_def by linarith
    then have "u64 (int k) = k" "wrap64 (physicalStart m + k * pageSize) = frame_addr m k"
      by (simp_all add: pageSize_def frame_addr_def mult.commute)
    then have "allocateFreePhysicalAddress 1 m = Some (frame_addr m k, m\<lparr>bitmap := bm\<rparr>)"
      using r(1) k(1) bm(1) by (simp add: allocateFreePhysicalAddress_def)
    moreover have "spare (m\<lparr>bitmap := bm\<rparr>) = spare m - {k}"
      using bm(3) by (auto simp: spare_def frames_def split: if_splits)
    moreover have "pager_ok (m\<lparr>bitmap := bm\<rparr>)" using ok bm(2) by (simp add: pager_ok_def frames_def)
    ultimately show ?thesis using k by auto
  qed
qed

section \<open>Mapping a page\<close>

text \<open>
  A table is in use when no spare frame, seen through the map of the physical memory, overlaps it.
  \<open>path_ok\<close>: the tables on the way that exist are in use; \<open>walk\<close> follows the entries, as the
  processor does, and gives the last one if it is present.
\<close>

definition in_use :: "pager \<Rightarrow> nat \<Rightarrow> bool" where
  "in_use m t \<longleftrightarrow> t + 4096 \<le> 2 ^ 64 \<and>
     (\<forall>k \<in> spare m. t + 4096 \<le> physicalMemoryMap m + frame_addr m k \<or> physicalMemoryMap m + frame_addr m k + 4096 \<le> t)"

fun path_ok :: "pager \<Rightarrow> nat \<Rightarrow> nat list \<Rightarrow> bool" where
  "path_ok m t [] \<longleftrightarrow> in_use m t"
| "path_ok m t (i # is) \<longleftrightarrow> in_use m t \<and> (let e = ptmem m (slot t i) in
     isPresent e \<longrightarrow> canonical (table_of e) \<and> path_ok m (physicalMemoryMap m + table_of e) is)"

fun walk :: "pager \<Rightarrow> nat \<Rightarrow> nat list \<Rightarrow> 64 word option" where
  "walk m t [] = None"
| "walk m t (i # is) = (let e = ptmem m (slot t i) in
     if \<not> isPresent e then None else if is = [] then Some e else walk m (physicalMemoryMap m + table_of e) is)"

definition keeps :: "pager \<Rightarrow> pager \<Rightarrow> bool" where
  "keeps m m' \<longleftrightarrow> pager_ok m' \<and> physicalMemoryMap m' = physicalMemoryMap m \<and> physicalStart m' = physicalStart m \<and>
     spare m' \<subseteq> spare m \<and>
     (\<forall>t x. in_use m t \<longrightarrow> t \<le> x \<longrightarrow> x < t + 4096 \<longrightarrow> isPresent (ptmem m x) \<longrightarrow> ptmem m' x = ptmem m x)"

lemma finite_spare [simp]: "finite (spare m)"
  by (simp add: spare_def)

lemma keeps_refl: "pager_ok m \<Longrightarrow> keeps m m"
  by (simp add: keeps_def)

lemma keeps_in_use: "keeps m m' \<Longrightarrow> in_use m t \<Longrightarrow> in_use m' t"
  by (auto simp: keeps_def in_use_def frame_addr_def)

lemma keepsD: "keeps m m' \<Longrightarrow> in_use m t \<Longrightarrow> t \<le> x \<Longrightarrow> x < t + 4096 \<Longrightarrow> isPresent (ptmem m x) \<Longrightarrow> ptmem m' x = ptmem m x"
  by (auto simp: keeps_def)

lemma keeps_trans:
  assumes "keeps m m'" and "keeps m' m''"
  shows "keeps m m''"
proof -
  have "ptmem m'' x = ptmem m x" if "in_use m t" "t \<le> x" "x < t + 4096" "isPresent (ptmem m x)" for t x
    using keepsD [OF assms(1) that] keepsD [OF assms(2) keeps_in_use [OF assms(1) that(1)] that(2,3)] that(4) by simp
  with assms show ?thesis by (auto simp: keeps_def)
qed

lemma slot_small: "in_use m t \<Longrightarrow> i < 512 \<Longrightarrow> slot t i = t + 8 * i"
  by (simp add: slot_def in_use_def)

lemma low_mask: "(0xfff :: 64 word) = mask 12"
  by (simp add: mask_eq_exp_minus_1)

lemma present_entry: "isPresent (addressToEntry a OR y)" "isPresent (addressToEntry a)"
proof -
  have "bit ((addressToEntry a OR y) AND 1) 0" "bit (addressToEntry a AND 1) 0" by (simp_all add: addressToEntry_def bit_simps)
  then show "isPresent (addressToEntry a OR y)" "isPresent (addressToEntry a)" by (auto simp: isPresent_def)
qed

lemma table_of_entry:
  assumes "f mod 4096 = 0" "f < 2 ^ 64"
  shows "table_of (addressToEntry f) = f"
proof -
  have "addressToEntry f AND NOT 0xfff = word_of_nat f AND NOT 0xfff"
    unfolding addressToEntry_def low_mask by (rule bit_word_eqI) (auto simp: bit_simps)
  moreover have "take_bit 12 f = 0" using assms(1) by (simp add: take_bit_eq_mod)
  then have "take_bit 12 (word_of_nat f :: 64 word) = 0" by (simp add: take_bit_of_nat)
  then have "j < 12 \<Longrightarrow> \<not> bit (word_of_nat f :: 64 word) j" for j by (auto simp: bit_eq_iff bit_take_bit_iff)
  then have "(word_of_nat f :: 64 word) AND NOT (mask 12) = word_of_nat f"
    by (intro bit_word_eqI) (auto simp: bit_simps not_less dest: leI)
  ultimately show ?thesis using assms(2) by (simp add: table_of_def low_mask unat_of_nat)
qed

lemma zero_absent [simp]: "\<not> isPresent 0"
  by (simp add: isPresent_def)

lemma frame_facts:
  assumes "pager_ok m" and "k \<in> spare m"
  shows "frame_addr m k mod 4096 = 0" "0 < frame_addr m k" "frame_addr m k + 4096 \<le> 2 ^ 47"
    "frame_addr m k < 2 ^ 64" "canonical (frame_addr m k)"
proof -
  have k: "k < frames m" using assms(2) by (simp add: spare_def)
  then have "4096 * k + 4096 \<le> 4096 * frames m" by simp
  then show b: "frame_addr m k + 4096 \<le> 2 ^ 47"
    using assms(1) unfolding pager_ok_def frame_addr_def by linarith
  show "frame_addr m k mod 4096 = 0" "0 < frame_addr m k"
    using assms(1) by (auto simp: pager_ok_def frame_addr_def)
  show "frame_addr m k < 2 ^ 64" using b by simp
  have "(word_of_nat (frame_addr m k) :: 64 word) < 2 ^ 47"
    using b by (simp add: word_less_nat_alt unat_of_nat)
  then show "canonical (frame_addr m k)" by (simp add: canonical_def isCanonical_def)
qed

text \<open>One level: afterwards the entry is present and leads to a table in use, and what was present is kept.\<close>

lemma ensure_table_ok:
  assumes ok: "pager_ok m" and path: "path_ok m t (i # is)" and lt: "i < 512" "list_all (\<lambda>j. j < 512) is" and room: "spare m \<noteq> {}"
  defines "a \<equiv> slot t i"
  shows "\<exists>m'. ensure_table True (\<lambda>p. wrap64 (physicalMemoryMap m + p)) a a m = Some ((), m') \<and> keeps m m' \<and>
    card (spare m) \<le> card (spare m') + 1 \<and> isPresent (ptmem m' a) \<and> canonical (table_of (ptmem m' a)) \<and>
    path_ok m' (physicalMemoryMap m + table_of (ptmem m' a)) is \<and>
    (if isPresent (ptmem m a) then m' = m
     else \<forall>j < 512. ptmem m' (slot (physicalMemoryMap m + table_of (ptmem m' a)) j) = 0)"
proof (cases "isPresent (ptmem m a)")
  case True
  then show ?thesis using path ok by (auto simp: ensure_table_def a_def Let_def keeps_refl)
next
  case False
  have t: "in_use m t" using path by simp
  have a: "a = t + 8 * i" using slot_small [OF t lt(1)] by (simp add: a_def)
  obtain k bm where k: "k \<in> spare m" and run: "allocateFreePhysicalAddress 1 m = Some (frame_addr m k, m\<lparr>bitmap := bm\<rparr>)"
    and ok1: "pager_ok (m\<lparr>bitmap := bm\<rparr>)" and sp: "spare (m\<lparr>bitmap := bm\<rparr>) = spare m - {k}"
    using allocate_frame [OF ok] room by auto
  note f = frame_facts [OF ok k]
  let ?P = "physicalMemoryMap m + frame_addr m k"
  have w: "wrap64 ?P = ?P" using f(3) ok by (intro wrap64_small) (simp add: pager_ok_def)
  define m' where "m' = zero_page ?P (set_slot a (addressToEntry (frame_addr m k)) (m\<lparr>bitmap := bm\<rparr>))"
  have m'_simps: "physicalMemoryMap m' = physicalMemoryMap m" "physicalStart m' = physicalStart m" "spare m' = spare m - {k}"
    "pager_ok m'"
    using sp ok1 by (simp_all add: m'_def zero_page_def set_slot_def spare_def frames_def pager_ok_def)
  have apart: "in_use m u \<Longrightarrow> u \<le> x \<Longrightarrow> x < u + 4096 \<Longrightarrow> \<not> (?P \<le> x \<and> x < ?P + 4096)" for u x
    using k by (fastforce simp: in_use_def)
  have mem: "ptmem m' x = (if ?P \<le> x \<and> x < ?P + 4096 then 0 else if x = a then addressToEntry (frame_addr m k) else ptmem m x)" for x
    by (simp add: m'_def zero_page_def set_slot_def)
  have at_a: "ptmem m' a = addressToEntry (frame_addr m k)"
    using apart [OF t, of a] a lt(1) by (auto simp: mem)
  have go: "ensure_table True (\<lambda>p. wrap64 (physicalMemoryMap m + p)) a a m = Some ((), m')"
    using False run f(2) by (simp add: ensure_table_def Let_def w m'_def)
  have keep: "keeps m m'"
    using apart False m'_simps unfolding keeps_def by (auto simp: mem)
  have "frame_addr m l + 4096 \<le> frame_addr m k \<or> frame_addr m k + 4096 \<le> frame_addr m l" if "l \<noteq> k" for l
    using that by (cases "l < k") (auto simp: frame_addr_def)
  then have used: "in_use m' ?P"
    using m'_simps f(3) ok by (force simp: in_use_def frame_addr_def pager_ok_def)
  have zero: "ptmem m' (slot ?P j) = 0" if "j < 512" for j
    using slot_small [OF used that] that by (simp add: mem)
  have "path_ok m' ?P is"
  proof (cases "is")
    case (Cons j js)
    with used zero [of j] lt(2) show ?thesis by simp
  qed (use used in simp)
  then show ?thesis
    using False zero go keep k m'_simps(3) f(5) present_entry(2) [of "frame_addr m k"]
    by (intro exI [of _ m']) (simp add: at_a table_of_entry [OF f(1,4)] card_Diff_singleton_if)
qed

text \<open>\<open>assign\<close> with a given physical address.\<close>

lemma assign_ok:
  fixes extra :: "64 word"
  assumes ok: "pager_ok m" and path: "path_ok m w [i4, i3, i2]" and canon: "canonical w"
    and lt: "i4 < 512" "i3 < 512" "i2 < 512" "i1 < 512" and room: "3 \<le> card (spare m)" and phys: "phys \<noteq> 0"
  defines "e \<equiv> addressToEntry phys OR extra"
  shows "wp (assign w i4 i3 i2 i1 phys extra m) (\<lambda>r m'. keeps m m' \<and>
    (case walk m w [i4, i3, i2, i1] of
       None \<Rightarrow> r = e \<and> walk m' w [i4, i3, i2, i1] = Some e
     | Some old \<Rightarrow> r = 0 \<and> walk m' w [i4, i3, i2, i1] = Some old))"
proof -
  have pages: "pages m \<noteq> - 1" using ok by (simp add: pager_ok_def)
  have room1: "spare m \<noteq> {}" using room by auto
  have w: "in_use m w" using path by simp
  define a4 where "a4 = slot w i4"
  obtain m1 where m1: "ensure_table True (\<lambda>p. wrap64 (physicalMemoryMap m + p)) a4 a4 m = Some ((), m1)" "keeps m m1"
    "card (spare m) \<le> card (spare m1) + 1" "isPresent (ptmem m1 a4)" "canonical (table_of (ptmem m1 a4))"
    "path_ok m1 (physicalMemoryMap m + table_of (ptmem m1 a4)) [i3, i2]"
    "if isPresent (ptmem m a4) then m1 = m else \<forall>j < 512. ptmem m1 (slot (physicalMemoryMap m + table_of (ptmem m1 a4)) j) = 0"
    using ensure_table_ok [OF ok path lt(1) _ room1] lt unfolding a4_def by auto
  define t3 where "t3 = physicalMemoryMap m + table_of (ptmem m1 a4)"
  define a3 where "a3 = slot t3 i3"
  have p1: "pager_ok m1" "physicalMemoryMap m1 = physicalMemoryMap m" using m1(2) by (auto simp: keeps_def)
  have room2: "spare m1 \<noteq> {}" using room m1(3) by auto
  obtain m2 where m2: "ensure_table True (\<lambda>p. wrap64 (physicalMemoryMap m + p)) a3 a3 m1 = Some ((), m2)" "keeps m1 m2"
    "card (spare m1) \<le> card (spare m2) + 1" "isPresent (ptmem m2 a3)" "canonical (table_of (ptmem m2 a3))"
    "path_ok m2 (physicalMemoryMap m + table_of (ptmem m2 a3)) [i2]"
    "if isPresent (ptmem m1 a3) then m2 = m1 else \<forall>j < 512. ptmem m2 (slot (physicalMemoryMap m + table_of (ptmem m2 a3)) j) = 0"
    using ensure_table_ok [OF p1(1) m1(6) lt(2) _ room2, unfolded p1(2)] lt unfolding a3_def t3_def by auto
  define t2 where "t2 = physicalMemoryMap m + table_of (ptmem m2 a3)"
  define a2 where "a2 = slot t2 i2"
  have p2: "pager_ok m2" "physicalMemoryMap m2 = physicalMemoryMap m" using m2(2) p1 by (auto simp: keeps_def)
  have room3: "spare m2 \<noteq> {}" using room m1(3) m2(3) by auto
  obtain m3 where m3: "ensure_table True (\<lambda>p. wrap64 (physicalMemoryMap m + p)) a2 a2 m2 = Some ((), m3)" "keeps m2 m3"
    "isPresent (ptmem m3 a2)" "canonical (table_of (ptmem m3 a2))" "path_ok m3 (physicalMemoryMap m + table_of (ptmem m3 a2)) []"
    "if isPresent (ptmem m2 a2) then m3 = m2 else \<forall>j < 512. ptmem m3 (slot (physicalMemoryMap m + table_of (ptmem m3 a2)) j) = 0"
    using ensure_table_ok [OF p2(1) m2(6) lt(3) _ room3, unfolded p2(2)] unfolding a2_def t2_def by auto
  define t1 where "t1 = physicalMemoryMap m + table_of (ptmem m3 a2)"
  define a1 where "a1 = slot t1 i1"
  have p3: "pager_ok m3" "physicalMemoryMap m3 = physicalMemoryMap m" using m3(2) p2 by (auto simp: keeps_def)
  have used: "in_use m1 w" "in_use m1 t3" "in_use m2 t2" "in_use m3 t1"
    using keeps_in_use [OF m1(2) w] m1(6) m2(6) m3(5) by (auto simp: t3_def t2_def t1_def)
  have acc: "wrap64 (physicalMemoryMap m + table_of (ptmem m1 a4)) = t3" "wrap64 (physicalMemoryMap m + table_of (ptmem m2 a3)) = t2"
    "wrap64 (physicalMemoryMap m + table_of (ptmem m3 a2)) = t1"
    using used by (auto simp: t3_def t2_def t1_def in_use_def intro!: wrap64_small)
  note small = slot_small [OF used(1) lt(1)] slot_small [OF used(2) lt(2)] slot_small [OF used(3) lt(3)] slot_small [OF used(4) lt(4)]
  have k4: "ptmem m3 a4 = ptmem m1 a4"
    using keepsD [OF keeps_trans [OF m2(2) m3(2)] used(1), of a4] m1(4) small(1) lt(1) by (simp add: a4_def)
  have k3: "ptmem m3 a3 = ptmem m2 a3"
    using keepsD [OF m3(2) keeps_in_use [OF m2(2) used(2)], of a3] m2(4) small(2) lt(2) by (simp add: a3_def)
  have walk3: "walk m3 w [i4, i3, i2, i1] = (if isPresent (ptmem m3 a1) then Some (ptmem m3 a1) else None)"
    using m1(4) m2(4) m3(3) k4 k3
    by (simp add: Let_def p3(2) flip: a4_def t3_def a3_def t2_def a2_def t1_def a1_def)
  have zero: "\<not> isPresent (ptmem m a4) \<Longrightarrow> ptmem m1 a3 = 0" "\<not> isPresent (ptmem m1 a3) \<Longrightarrow> ptmem m2 a2 = 0"
    "\<not> isPresent (ptmem m2 a2) \<Longrightarrow> ptmem m3 a1 = 0"
    using m1(7) m2(7) m3(6) lt by (auto simp: a3_def t3_def a2_def t2_def a1_def t1_def)
  have same: "walk m3 w [i4, i3, i2, i1] = walk m w [i4, i3, i2, i1]"
  proof (cases "isPresent (ptmem m a4) \<and> isPresent (ptmem m1 a3) \<and> isPresent (ptmem m2 a2)")
    case True
    then show ?thesis using m1(7) m2(7) m3(6) by simp
  next
    case False
    then have "ptmem m3 a1 = 0" using zero by (metis zero_absent)
    moreover have "walk m w [i4, i3, i2, i1] = None"
    proof (cases "isPresent (ptmem m a4)")
      case p4: True
      then have e1: "m1 = m" and A3: "slot (physicalMemoryMap m + table_of (ptmem m a4)) i3 = a3"
        using m1(7) by (simp_all add: a3_def t3_def)
      show ?thesis
      proof (cases "isPresent (ptmem m a3)")
        case p3: True
        then have "m2 = m" and A2: "slot (physicalMemoryMap m + table_of (ptmem m a3)) i2 = a2"
          using m2(7) e1 by (simp_all add: a2_def t2_def)
        then show ?thesis using False p4 p3 e1 by (simp add: Let_def A3 A2 flip: a4_def)
      qed (use p4 in \<open>simp add: Let_def A3 flip: a4_def\<close>)
    qed (simp add: Let_def flip: a4_def)
    ultimately show ?thesis unfolding walk3 by simp
  qed
  show ?thesis
  proof (cases "isPresent (ptmem m3 a1)")
    case True
    then have "assign w i4 i3 i2 i1 phys extra m = Some (0, m3)"
      using pages canon m1(1,5) m2(1,5) m3(1,4)
      by (simp add: assign_def Let_def acc flip: a4_def a3_def a2_def a1_def)
    then show ?thesis using True walk3 same keeps_trans [OF m1(2) keeps_trans [OF m2(2) m3(2)]] by (simp del: walk.simps)
  next
    case False
    let ?m = "set_slot a1 e m3"
    have run: "assign w i4 i3 i2 i1 phys extra m = Some (e, ?m)"
      using pages canon m1(1,5) m2(1,5) m3(1,4) False phys
      by (simp add: assign_def Let_def acc e_def flip: a4_def a3_def a2_def a1_def)
    have ne: "a4 \<noteq> a1" "a3 \<noteq> a1" "a2 \<noteq> a1" using False m1(4) m2(4) m3(3) k4 k3 by auto
    have "keeps m3 ?m" using False p3 by (auto simp: keeps_def set_slot_def pager_ok_def spare_def frames_def)
    moreover have "walk ?m w [i4, i3, i2, i1] = Some e"
      using m1(4) m2(4) m3(3) k4 k3 ne present_entry(1) [of phys extra]
      by (simp add: Let_def set_slot_def p3(2) e_def flip: a4_def t3_def a3_def t2_def a2_def t1_def a1_def)
    ultimately show ?thesis
      using run False walk3 same keeps_trans [OF m1(2) keeps_trans [OF m2(2) keeps_trans [OF m3(2)]]] by (simp del: walk.simps)
  qed
qed


section \<open>Properties\<close>

text \<open>C13. \<open>allocateFreePhysicalAddress\<close> hands out the first frame whose bit is clear, sets its bit and no other;
  it gives 0 when no bit is clear in the whole words of the bitmap: frames of a last partial word are
  never handed out.\<close>

theorem frame_allocation:
  assumes "pager_ok m"
  shows "if \<exists>k < 64 * (nat (pages m) div 64). clear_at (bitmap m) k
    then \<exists>k bm. k < 64 * (nat (pages m) div 64) \<and> clear_at (bitmap m) k \<and> (\<forall>l < k. \<not> clear_at (bitmap m) l) \<and>
      allocateFreePhysicalAddress 1 m = Some (physicalStart m + 4096 * k, m\<lparr>bitmap := bm\<rparr>) \<and> \<not> clear_at bm k \<and>
      (\<forall>l < 64 * (nat (pages m) div 64). l \<noteq> k \<longrightarrow> clear_at bm l = clear_at (bitmap m) l)
    else allocateFreePhysicalAddress 1 m = Some (0, m)"
proof -
  have mem: "k \<in> spare m \<longleftrightarrow> k < 64 * (nat (pages m) div 64) \<and> clear_at (bitmap m) k" for k
    by (simp add: spare_def frames_def)
  show ?thesis
  proof (cases "spare m = {}")
    case True
    then show ?thesis using allocate_frame [OF assms] mem by auto
  next
    case False
    then obtain k bm where k: "k \<in> spare m" "\<forall>l \<in> spare m. k \<le> l"
      "allocateFreePhysicalAddress 1 m = Some (frame_addr m k, m\<lparr>bitmap := bm\<rparr>)" "spare (m\<lparr>bitmap := bm\<rparr>) = spare m - {k}"
      using allocate_frame [OF assms] by auto
    have after: "l < 64 * (nat (pages m) div 64) \<Longrightarrow> clear_at bm l \<longleftrightarrow> l \<noteq> k \<and> clear_at (bitmap m) l" for l
      using k(4) mem [of l] by (auto simp: spare_def frames_def)
    have "\<not> clear_at (bitmap m) l" if "l < k" for l
      using that k(1,2) mem by (meson less_trans not_less)
    then show ?thesis using k mem after by (auto simp: frame_addr_def intro!: exI [of _ k] exI [of _ bm])
  qed
qed

text \<open>C12. Once the physical memory is mapped, \<open>assign\<close> with a physical address maps the page: the walk through the
  four tables, as the processor does it, finds the new entry (or the old one when the page was mapped),
  whatever tables had to be created on the way; the frames of the new tables were spare, and no entry that
  was present in a table in use is changed.\<close>

theorem assign_maps_page:
  fixes extra :: "64 word"
  assumes "pager_ok m" and "path_ok m w [i4, i3, i2]" and "canonical w"
    and "i4 < 512" and "i3 < 512" and "i2 < 512" and "i1 < 512" and "3 \<le> card (spare m)" and "phys \<noteq> 0"
  shows "wp (assign w i4 i3 i2 i1 phys extra m) (\<lambda>r m'.
    walk m' w [i4, i3, i2, i1] =
      (case walk m w [i4, i3, i2, i1] of None \<Rightarrow> Some (addressToEntry phys OR extra) | Some old \<Rightarrow> Some old) \<and>
    pager_ok m' \<and> spare m' \<subseteq> spare m \<and>
    (\<forall>t x. in_use m t \<longrightarrow> t \<le> x \<longrightarrow> x < t + 4096 \<longrightarrow> isPresent (ptmem m x) \<longrightarrow> ptmem m' x = ptmem m x))"
  by (rule wp_mono [OF assign_ok [OF assms, of extra]]) (auto simp: keeps_def simp del: walk.simps split: option.splits)

text \<open>\<open>isFree\<close> says the opposite of its name for the first 31 frames of each word of the bitmap.\<close>

lemma isFree_inverted:
  assumes "k < 64 * length (bitmap m)" and "k mod 64 < 31"
  shows "frame_isFree k m = Some (\<not> clear_at (bitmap m) k)"
proof -
  have "k div 64 < length (bitmap m)" using assms(1) by (simp add: less_mult_imp_div_less mult.commute)
  then show ?thesis using assms(2)
    by (simp add: frame_isFree_def Let_def clear_at_def push_bit_eq_mult and_exp_eq_0_iff_not_bit)
qed

text \<open>An empty level-four table at 4096; 64 frames at 65536, the first of them used.\<close>

definition sample_pager :: pager where
  "sample_pager = (new_pager 65536 0 [1] 100 (\<lambda>_. 0))\<lparr>physicalMemoryMap := 0\<rparr>"

lemma sample_pager_ok: "pager_ok sample_pager"
  by (simp add: pager_ok_def sample_pager_def new_pager_def frames_def)

lemma sample_spare: "spare sample_pager = {1..<64}"
proof -
  have "clear_at [1] k \<longleftrightarrow> k \<noteq> 0" if "k < 64" for k
    using that by (simp add: clear_at_def bit_1_iff)
  then show ?thesis by (auto simp: spare_def frames_def sample_pager_def new_pager_def intro: gr0I)
qed

theorem frame_allocation_witness:
  "\<exists>bm. allocateFreePhysicalAddress 1 sample_pager = Some (69632, sample_pager\<lparr>bitmap := bm\<rparr>)"
proof -
  have mem: "k < 64 * (nat (pages sample_pager) div 64) \<and> clear_at (bitmap sample_pager) k \<longleftrightarrow> 1 \<le> k \<and> k < 64" for k
    using sample_spare unfolding spare_def frames_def set_eq_iff mem_Collect_eq atLeastLessThan_iff by blast
  have "\<exists>k < 64 * (nat (pages sample_pager) div 64). clear_at (bitmap sample_pager) k"
    using mem [of 1] by auto
  with frame_allocation [OF sample_pager_ok] obtain k bm where k: "1 \<le> k" "k < 64" "\<forall>l < k. \<not> clear_at (bitmap sample_pager) l"
    "allocateFreePhysicalAddress 1 sample_pager = Some (physicalStart sample_pager + 4096 * k, sample_pager\<lparr>bitmap := bm\<rparr>)"
    using mem by (auto split: if_splits)
  have "clear_at (bitmap sample_pager) 1" using mem [of 1] by simp
  then have "\<not> 1 < k" using k(3) by blast
  then have "k = 1" using k(1) by simp
  with k(4) show ?thesis by (simp add: sample_pager_def new_pager_def)
qed

theorem assign_maps_page_witness:
  "wp (assign 4096 1 2 3 4 8192 0 sample_pager) (\<lambda>r m'. walk m' 4096 [1, 2, 3, 4] = Some (addressToEntry 8192))"
proof -
  have zero: "ptmem sample_pager x = 0" for x by (simp add: sample_pager_def new_pager_def)
  have "in_use sample_pager 4096"
    unfolding in_use_def sample_spare by (auto simp: frame_addr_def sample_pager_def new_pager_def)
  then have "path_ok sample_pager 4096 [1, 2, 3]" by (simp add: zero)
  moreover have "canonical 4096" by (simp add: canonical_def isCanonical_def)
  moreover have "walk sample_pager 4096 [1, 2, 3, 4] = None" by (simp add: zero)
  ultimately show ?thesis
    using assign_maps_page [OF sample_pager_ok, of 4096 1 2 3 4 8192 0] by (auto simp: sample_spare elim!: wp_mono simp del: walk.simps path_ok.simps)
qed

lemma isFree_inverted_example: "frame_isFree 0 sample_pager = Some True \<and> frame_isFree 1 sample_pager = Some False"
  using isFree_inverted [of 0 sample_pager] isFree_inverted [of 1 sample_pager]
  by (simp add: sample_pager_def new_pager_def clear_at_def bit_1_iff)

end
