(* ===== verification/Memset.thy ===== *)
theory Memset
  imports Prelude
begin

text \<open>
  \<open>memset\<close> of \<open>src/memory/memset.cpp\<close>: the bytes up to the next multiple of 8 are set one by one,
  then words of 8 bytes are stored, eight and one at a time, and the last bytes one by one again.
  Memory is a function from addresses to bytes, \<open>dstp\<close> an address modulo \<open>2 ^ 64\<close>. The backtrace
  that is printed for one destination is output and left out.
\<close>

text \<open>\<open>((op_t *) p)[0] = cccc\<close> on a little-endian machine.\<close>

definition put_op :: "64 word \<Rightarrow> nat \<Rightarrow> (nat \<Rightarrow> byte) \<Rightarrow> nat \<Rightarrow> byte" where
  "put_op cccc p m = upd m p (le_bytes 8 (unat cccc))"

definition spread :: "32 word \<Rightarrow> 64 word" where
  "spread c =
     (let cccc = ucast (ucast c :: byte);
          cccc = or cccc (push_bit 8 cccc);
          cccc = or cccc (push_bit 16 cccc)
      in or cccc (push_bit 16 (push_bit 16 cccc)))"

lemma wrap64_mod_8: "wrap64 n mod 8 = n mod 8"
proof -
  have "(8 :: nat) dvd 2 ^ 64" by (rule dvdI [of _ _ "2 ^ 61"]) simp
  then show ?thesis by (simp add: wrap64_def mod_mod_cancel)
qed

function align_loop :: "32 word \<Rightarrow> nat \<Rightarrow> nat \<Rightarrow> (nat \<Rightarrow> byte) \<Rightarrow> nat \<times> nat \<times> (nat \<Rightarrow> byte)" where
  "align_loop c dstp len m =
     (if dstp mod 8 \<noteq> 0 then align_loop c (wrap64 (dstp + 1)) (u64 (int len - 1)) (upd m dstp [ucast c])
      else (dstp, len, m))"
  by auto

termination
proof (relation "measure (\<lambda>(c, dstp, len, m). if dstp mod 8 = 0 then 0 else 8 - dstp mod 8)")
  fix c :: "32 word" and dstp len :: nat and m :: "nat \<Rightarrow> byte"
  assume "dstp mod 8 \<noteq> 0"
  moreover have "Suc dstp mod 8 = (if Suc (dstp mod 8) = 8 then 0 else Suc (dstp mod 8))" by (rule mod_Suc)
  ultimately show "((c, wrap64 (dstp + 1), u64 (int len - 1), upd m dstp [ucast c]), (c, dstp, len, m))
      \<in> measure (\<lambda>(c, dstp, len, m). if dstp mod 8 = 0 then 0 else 8 - dstp mod 8)"
    by (auto simp: wrap64_mod_8)
qed simp

declare align_loop.simps [simp del]

primrec block_loop :: "64 word \<Rightarrow> nat \<Rightarrow> nat \<Rightarrow> (nat \<Rightarrow> byte) \<Rightarrow> nat \<times> (nat \<Rightarrow> byte)" where
  "block_loop cccc 0 dstp m = (dstp, m)"
| "block_loop cccc (Suc xlen) dstp m =
     (let m = put_op cccc dstp m;
          m = put_op cccc (wrap64 (dstp + 8)) m;
          m = put_op cccc (wrap64 (dstp + 16)) m;
          m = put_op cccc (wrap64 (dstp + 24)) m;
          m = put_op cccc (wrap64 (dstp + 32)) m;
          m = put_op cccc (wrap64 (dstp + 40)) m;
          m = put_op cccc (wrap64 (dstp + 48)) m;
          m = put_op cccc (wrap64 (dstp + 56)) m
      in block_loop cccc xlen (wrap64 (dstp + 8 * 8)) m)"

primrec op_loop :: "64 word \<Rightarrow> nat \<Rightarrow> nat \<Rightarrow> (nat \<Rightarrow> byte) \<Rightarrow> nat \<times> (nat \<Rightarrow> byte)" where
  "op_loop cccc 0 dstp m = (dstp, m)"
| "op_loop cccc (Suc xlen) dstp m = op_loop cccc xlen (wrap64 (dstp + 8)) (put_op cccc dstp m)"

primrec byte_loop :: "32 word \<Rightarrow> nat \<Rightarrow> nat \<Rightarrow> (nat \<Rightarrow> byte) \<Rightarrow> nat \<Rightarrow> byte" where
  "byte_loop c 0 dstp m = m"
| "byte_loop c (Suc len) dstp m = byte_loop c len (wrap64 (dstp + 1)) (upd m dstp [ucast c])"

definition memset :: "nat \<Rightarrow> 32 word \<Rightarrow> nat \<Rightarrow> (nat \<Rightarrow> byte) \<Rightarrow> nat \<times> (nat \<Rightarrow> byte)" where
  "memset dstpp c len m =
     (if 8 \<le> len then
        (case align_loop c dstpp len m of (dstp, len, m) \<Rightarrow>
         case block_loop (spread c) (len div (8 * 8)) dstp m of (dstp, m) \<Rightarrow>
         let len = len mod (8 * 8) in
         case op_loop (spread c) (len div 8) dstp m of (dstp, m) \<Rightarrow>
         let len = len mod 8 in (dstpp, byte_loop c len dstp m))
      else (dstpp, byte_loop c len dstpp m))"


section \<open>Every loop fills a range\<close>

definition fill :: "(nat \<Rightarrow> byte) \<Rightarrow> nat \<Rightarrow> nat \<Rightarrow> byte \<Rightarrow> nat \<Rightarrow> byte" where
  "fill m p n b = upd m p (replicate n b)"

lemma fill_0 [simp]: "fill m p 0 b = m"
  by (simp add: fill_def)

lemma fill_fill: "q = p + k \<Longrightarrow> fill (fill m p k b) q n b = fill m p (k + n) b"
  by (simp add: fill_def replicate_add upd_append)

lemma upd_single: "upd m p [b] = fill m p 1 b"
  by (simp add: fill_def)

lemma byte_of_drop: "(word_of_nat (unat w div 2 ^ k mod 256) :: byte) = ucast (drop_bit k (w :: 64 word))"
proof -
  have "take_bit 8 (unat w div 2 ^ k) = unat w div 2 ^ k mod 256" by (simp add: take_bit_eq_mod)
  moreover have "take_bit 64 (unat w) = unat w" using unsigned_less [of w] by (intro take_bit_nat_eq_self) simp
  ultimately have "unat (ucast (drop_bit k w) :: byte) = unat w div 2 ^ k mod 256"
    by (simp add: unsigned_ucast_eq unsigned_drop_bit_eq drop_bit_eq_div [where 'a = nat])
  then show ?thesis unfolding word_eq_iff_unsigned [where ?'a = nat] by (simp only: unat_word_of_nat_mod)
qed

text \<open>Each step doubles the number of copies of the byte.\<close>

definition copies :: "32 word \<Rightarrow> nat \<Rightarrow> 64 word \<Rightarrow> bool" where
  "copies c k w \<longleftrightarrow> (\<forall>n. bit w n \<longleftrightarrow> n < k \<and> bit c (n mod 8))"

lemma copies_double:
  assumes "copies c k w" and "k mod 8 = 0" and "2 * k \<le> 64"
  shows "copies c (2 * k) (or w (push_bit k w))"
proof -
  have "(n - k) mod 8 = n mod 8" if "k \<le> n" for n
    using assms(2) that by (metis add_0 le_add_diff_inverse mod_add_left_eq)
  then show ?thesis using assms by (auto simp: copies_def bit_simps)
qed

lemma spread_copies: "copies c 64 (spread c)"
proof -
  have 8: "copies c 8 (ucast (ucast c :: byte))" by (auto simp: copies_def bit_simps)
  have "push_bit 16 (push_bit 16 w) = push_bit 32 w" for w :: "64 word" by (simp add: push_bit_push_bit)
  with copies_double [OF copies_double [OF copies_double [OF 8]]] show ?thesis by (simp add: spread_def Let_def)
qed

lemma spread_byte:
  assumes "k mod 8 = 0" and "k + 8 \<le> 64"
  shows "word_of_nat (unat (spread c) div 2 ^ k mod 256) = (ucast c :: byte)"
proof -
  have "bit (ucast (drop_bit k (spread c)) :: byte) n = bit (ucast c :: byte) n" for n
  proof (cases "n < 8")
    case True
    then have "(k + n) mod 8 = n" "k + n < 64" using assms by (auto simp: mod_add_left_eq [symmetric, of k])
    with True show ?thesis using spread_copies [of c] by (simp add: copies_def bit_simps)
  qed (simp add: bit_simps)
  then show ?thesis unfolding byte_of_drop by (rule bit_eqI)
qed

lemma spread_bytes: "le_bytes 8 (unat (spread c)) = replicate 8 (ucast c)"
proof -
  note b = spread_byte [of _ c]
  have 8: "8 = Suc (Suc (Suc (Suc (Suc (Suc (Suc (Suc 0)))))))" by simp
  show ?thesis unfolding 8
    using b [of 0] b [of 8] b [of 16] b [of 24] b [of 32] b [of 40] b [of 48] b [of 56]
    by (simp add: div_mult2_eq [symmetric])
qed


lemma put_op_fill: "put_op (spread c) p m = fill m p 8 (ucast c)"
  by (simp add: put_op_def fill_def spread_bytes)

lemma align_loop_ok:
  "n < 8 \<Longrightarrow> p mod 8 + n = 8 \<or> p mod 8 = 0 \<and> n = 0 \<Longrightarrow> n \<le> len \<Longrightarrow> p + len < 2 ^ 64 \<Longrightarrow>
   align_loop c p len m = (p + n, len - n, fill m p n (ucast c))"
proof (induction n arbitrary: p len m)
  case 0
  then show ?case by (auto simp: align_loop.simps [of c p])
next
  case (Suc n)
  have small: "p + 1 < 2 ^ 64" "len \<noteq> 0" using Suc.prems by auto
  have "n \<le> len - 1" "p + 1 + (len - 1) < 2 ^ 64" using Suc.prems(3,4) by simp_all
  moreover have "(p + 1) mod 8 + n = 8 \<or> (p + 1) mod 8 = 0 \<and> n = 0"
    using Suc.prems(2) mod_Suc [of p 8] by (auto split: if_splits)
  ultimately have "align_loop c (p + 1) (len - 1) (upd m p [ucast c])
      = (p + 1 + n, len - 1 - n, fill (upd m p [ucast c]) (p + 1) n (ucast c))"
    using Suc.prems(1) by (intro Suc.IH) simp
  moreover have "u64 (int len - 1) = len - 1"
    using Suc.prems(4) small u64_of_nat [of "len - 1"] by (simp add: of_nat_diff)
  moreover have "p mod 8 \<noteq> 0" using Suc.prems(1,2) by auto
  ultimately show ?case using small
    by (simp add: align_loop.simps [of c p] upd_single fill_fill)
qed

lemma block_loop_ok:
  "p + 64 * n < 2 ^ 64 \<Longrightarrow> block_loop (spread c) n p m = (p + 64 * n, fill m p (64 * n) (ucast c))"
proof (induction n arbitrary: p m)
  case (Suc n)
  then show ?case by (simp add: put_op_fill fill_fill Let_def)
qed simp

lemma op_loop_ok:
  "p + 8 * n < 2 ^ 64 \<Longrightarrow> op_loop (spread c) n p m = (p + 8 * n, fill m p (8 * n) (ucast c))"
  by (induction n arbitrary: p m) (simp_all add: put_op_fill fill_fill)

lemma byte_loop_ok: "p + n < 2 ^ 64 \<Longrightarrow> byte_loop c n p m = fill m p n (ucast c)"
  by (induction n arbitrary: p m) (simp_all add: upd_single fill_fill)


lemma memset_ok:
  assumes "dst + len < 2 ^ 64"
  shows "memset dst c len m = (dst, fill m dst len (ucast c))"
proof (cases "8 \<le> len")
  case True
  define n where "n = (if dst mod 8 = 0 then 0 else 8 - dst mod 8)"
  define k where "k = len - n"
  define i j l where "i = k div 64" and "j = k mod 64 div 8" and "l = k mod 64 mod 8"
  have n: "n < 8" "n \<le> len" "dst mod 8 + n = 8 \<or> dst mod 8 = 0 \<and> n = 0" "n + k = len"
    using True by (auto simp: n_def k_def)
  have parts: "64 * i + 8 * j + l = k" by (simp add: i_def j_def l_def)
  note a = align_loop_ok [OF n(1,3,2) assms, of c m]
  have b: "block_loop (spread c) i (dst + n) (fill m dst n (ucast c))
      = (dst + n + 64 * i, fill m dst (n + 64 * i) (ucast c))"
    using block_loop_ok [of "dst + n" i c] n(4) parts assms by (simp add: fill_fill add.assoc)
  have o: "op_loop (spread c) j (dst + n + 64 * i) (fill m dst (n + 64 * i) (ucast c))
      = (dst + n + 64 * i + 8 * j, fill m dst (n + 64 * i + 8 * j) (ucast c))"
    using op_loop_ok [of "dst + n + 64 * i" j c] n(4) parts assms
    by (simp add: fill_fill add.assoc)
  have "byte_loop c (l) (dst + n + 64 * i + 8 * j)
      (fill m dst (n + 64 * i + 8 * j) (ucast c)) = fill m dst len (ucast c)"
    using byte_loop_ok [of "dst + n + 64 * i + 8 * j" l c] n(4) parts assms
    by (simp add: fill_fill add.assoc)
  then show ?thesis using True a b o by (simp add: memset_def k_def [symmetric] i_def [symmetric] j_def [symmetric] l_def [symmetric])
qed (use assms in \<open>simp add: memset_def byte_loop_ok\<close>)

text \<open>C31. \<open>memset\<close> stores the low byte of its argument at the \<open>len\<close> addresses from the destination and nowhere else,
  as its last loop alone would: the aligned words and the groups of eight words make no difference.\<close>

theorem memset_fills:
  assumes "dst + len < 2 ^ 64"
  shows "memset dst c len m = (dst, upd m dst (replicate len (ucast c))) \<and> snd (memset dst c len m) = byte_loop c len dst m"
  using memset_ok [OF assms] byte_loop_ok [OF assms] by (simp add: fill_def)

theorem memset_fills_witness:
  "memset 5 44 77 (\<lambda>_. 1) = (5, upd (\<lambda>_. 1) 5 (replicate 77 44))"
  using memset_fills [of 5 77 44 "\<lambda>_. 1"] by simp

end
