(* ===== verification/Keyboard.thy ===== *)
theory Keyboard
  imports Prelude "HOL-Library.Char_ord"
begin

text \<open>
  The keyboard of \<open>src/hardware/Keyboard.cpp\<close> and the scan codes of \<open>src/hardware/PS2Keyboard.cpp\<close>.
  An \<open>InputKey\<close> is an enumeration over \<open>short\<close> whose values index the table of names; a key is
  modelled by its value, and the constants that the code mentions are abbreviations of theirs.
\<close>

type_synonym input_key = nat

abbreviation InvalidKey :: input_key where "InvalidKey \<equiv> 0"
abbreviation KeyA :: input_key where "KeyA \<equiv> 4"
abbreviation KeyB :: input_key where "KeyB \<equiv> 5"
abbreviation KeyC :: input_key where "KeyC \<equiv> 6"
abbreviation KeyD :: input_key where "KeyD \<equiv> 7"
abbreviation KeyE :: input_key where "KeyE \<equiv> 8"
abbreviation KeyF :: input_key where "KeyF \<equiv> 9"
abbreviation KeyG :: input_key where "KeyG \<equiv> 10"
abbreviation KeyH :: input_key where "KeyH \<equiv> 11"
abbreviation KeyI :: input_key where "KeyI \<equiv> 12"
abbreviation KeyJ :: input_key where "KeyJ \<equiv> 13"
abbreviation KeyK :: input_key where "KeyK \<equiv> 14"
abbreviation KeyL :: input_key where "KeyL \<equiv> 15"
abbreviation KeyM :: input_key where "KeyM \<equiv> 16"
abbreviation KeyN :: input_key where "KeyN \<equiv> 17"
abbreviation KeyO :: input_key where "KeyO \<equiv> 18"
abbreviation KeyP :: input_key where "KeyP \<equiv> 19"
abbreviation KeyQ :: input_key where "KeyQ \<equiv> 20"
abbreviation KeyR :: input_key where "KeyR \<equiv> 21"
abbreviation KeyS :: input_key where "KeyS \<equiv> 22"
abbreviation KeyT :: input_key where "KeyT \<equiv> 23"
abbreviation KeyU :: input_key where "KeyU \<equiv> 24"
abbreviation KeyV :: input_key where "KeyV \<equiv> 25"
abbreviation KeyW :: input_key where "KeyW \<equiv> 26"
abbreviation KeyX :: input_key where "KeyX \<equiv> 27"
abbreviation KeyY :: input_key where "KeyY \<equiv> 28"
abbreviation KeyZ :: input_key where "KeyZ \<equiv> 29"
abbreviation Key1 :: input_key where "Key1 \<equiv> 30"
abbreviation Key2 :: input_key where "Key2 \<equiv> 31"
abbreviation Key3 :: input_key where "Key3 \<equiv> 32"
abbreviation Key4 :: input_key where "Key4 \<equiv> 33"
abbreviation Key5 :: input_key where "Key5 \<equiv> 34"
abbreviation Key6 :: input_key where "Key6 \<equiv> 35"
abbreviation Key7 :: input_key where "Key7 \<equiv> 36"
abbreviation Key8 :: input_key where "Key8 \<equiv> 37"
abbreviation Key9 :: input_key where "Key9 \<equiv> 38"
abbreviation Key0 :: input_key where "Key0 \<equiv> 39"
abbreviation KeyEnter :: input_key where "KeyEnter \<equiv> 40"
abbreviation KeyEscape :: input_key where "KeyEscape \<equiv> 41"
abbreviation KeyBackspace :: input_key where "KeyBackspace \<equiv> 42"
abbreviation KeyTab :: input_key where "KeyTab \<equiv> 43"
abbreviation KeySpacebar :: input_key where "KeySpacebar \<equiv> 44"
abbreviation KeyDash :: input_key where "KeyDash \<equiv> 45"
abbreviation KeyEqual :: input_key where "KeyEqual \<equiv> 46"
abbreviation KeyOpenBracket :: input_key where "KeyOpenBracket \<equiv> 47"
abbreviation KeyCloseBracket :: input_key where "KeyCloseBracket \<equiv> 48"
abbreviation KeyBackslash :: input_key where "KeyBackslash \<equiv> 49"
abbreviation KeySemicolon :: input_key where "KeySemicolon \<equiv> 51"
abbreviation KeyApostrophe :: input_key where "KeyApostrophe \<equiv> 52"
abbreviation KeyGraveAccent :: input_key where "KeyGraveAccent \<equiv> 53"
abbreviation KeyComma :: input_key where "KeyComma \<equiv> 54"
abbreviation KeyPeriod :: input_key where "KeyPeriod \<equiv> 55"
abbreviation KeySlash :: input_key where "KeySlash \<equiv> 56"
abbreviation KeyCapsLock :: input_key where "KeyCapsLock \<equiv> 57"
abbreviation KeyF1 :: input_key where "KeyF1 \<equiv> 58"
abbreviation KeyF2 :: input_key where "KeyF2 \<equiv> 59"
abbreviation KeyF3 :: input_key where "KeyF3 \<equiv> 60"
abbreviation KeyF4 :: input_key where "KeyF4 \<equiv> 61"
abbreviation KeyF5 :: input_key where "KeyF5 \<equiv> 62"
abbreviation KeyF6 :: input_key where "KeyF6 \<equiv> 63"
abbreviation KeyF7 :: input_key where "KeyF7 \<equiv> 64"
abbreviation KeyF8 :: input_key where "KeyF8 \<equiv> 65"
abbreviation KeyF9 :: input_key where "KeyF9 \<equiv> 66"
abbreviation KeyF10 :: input_key where "KeyF10 \<equiv> 67"
abbreviation KeyF11 :: input_key where "KeyF11 \<equiv> 68"
abbreviation KeyF12 :: input_key where "KeyF12 \<equiv> 69"
abbreviation KeyScrollLock :: input_key where "KeyScrollLock \<equiv> 71"
abbreviation KeyInsert :: input_key where "KeyInsert \<equiv> 73"
abbreviation KeyHome :: input_key where "KeyHome \<equiv> 74"
abbreviation KeyPageUp :: input_key where "KeyPageUp \<equiv> 75"
abbreviation KeyEnd :: input_key where "KeyEnd \<equiv> 77"
abbreviation KeyPageDown :: input_key where "KeyPageDown \<equiv> 78"
abbreviation KeyRightArrow :: input_key where "KeyRightArrow \<equiv> 79"
abbreviation KeyLeftArrow :: input_key where "KeyLeftArrow \<equiv> 80"
abbreviation KeyDownArrow :: input_key where "KeyDownArrow \<equiv> 81"
abbreviation KeyUpArrow :: input_key where "KeyUpArrow \<equiv> 82"
abbreviation KeyNumLock :: input_key where "KeyNumLock \<equiv> 83"
abbreviation KeyKpStar :: input_key where "KeyKpStar \<equiv> 85"
abbreviation KeyKpDash :: input_key where "KeyKpDash \<equiv> 86"
abbreviation KeyKpPlus :: input_key where "KeyKpPlus \<equiv> 87"
abbreviation KeyKp1 :: input_key where "KeyKp1 \<equiv> 89"
abbreviation KeyKp2 :: input_key where "KeyKp2 \<equiv> 90"
abbreviation KeyKp3 :: input_key where "KeyKp3 \<equiv> 91"
abbreviation KeyKp4 :: input_key where "KeyKp4 \<equiv> 92"
abbreviation KeyKp5 :: input_key where "KeyKp5 \<equiv> 93"
abbreviation KeyKp6 :: input_key where "KeyKp6 \<equiv> 94"
abbreviation KeyKp7 :: input_key where "KeyKp7 \<equiv> 95"
abbreviation KeyKp8 :: input_key where "KeyKp8 \<equiv> 96"
abbreviation KeyKp9 :: input_key where "KeyKp9 \<equiv> 97"
abbreviation KeyKp0 :: input_key where "KeyKp0 \<equiv> 98"
abbreviation KeyKpPeriod :: input_key where "KeyKpPeriod \<equiv> 99"
abbreviation KeyEurope2 :: input_key where "KeyEurope2 \<equiv> 100"
abbreviation KeyKpEqual :: input_key where "KeyKpEqual \<equiv> 103"
abbreviation KeyF13 :: input_key where "KeyF13 \<equiv> 104"
abbreviation KeyF14 :: input_key where "KeyF14 \<equiv> 105"
abbreviation KeyF15 :: input_key where "KeyF15 \<equiv> 106"
abbreviation KeyF16 :: input_key where "KeyF16 \<equiv> 107"
abbreviation KeyF17 :: input_key where "KeyF17 \<equiv> 108"
abbreviation KeyF18 :: input_key where "KeyF18 \<equiv> 109"
abbreviation KeyF19 :: input_key where "KeyF19 \<equiv> 110"
abbreviation KeyF20 :: input_key where "KeyF20 \<equiv> 111"
abbreviation KeyF21 :: input_key where "KeyF21 \<equiv> 112"
abbreviation KeyF22 :: input_key where "KeyF22 \<equiv> 113"
abbreviation KeyF23 :: input_key where "KeyF23 \<equiv> 114"
abbreviation KeyF24 :: input_key where "KeyF24 \<equiv> 115"
abbreviation KeyEqualSign :: input_key where "KeyEqualSign \<equiv> 134"
abbreviation KeyI10L1 :: input_key where "KeyI10L1 \<equiv> 135"
abbreviation KeyI10L2 :: input_key where "KeyI10L2 \<equiv> 136"
abbreviation KeyI10L3 :: input_key where "KeyI10L3 \<equiv> 137"
abbreviation KeyI10L4 :: input_key where "KeyI10L4 \<equiv> 138"
abbreviation KeyI10L5 :: input_key where "KeyI10L5 \<equiv> 139"
abbreviation KeyLang1 :: input_key where "KeyLang1 \<equiv> 144"
abbreviation KeyLang3 :: input_key where "KeyLang3 \<equiv> 146"
abbreviation KeyLang4 :: input_key where "KeyLang4 \<equiv> 147"
abbreviation KeySysReq :: input_key where "KeySysReq \<equiv> 154"
abbreviation KeyTilde :: input_key where "KeyTilde \<equiv> 165"
abbreviation KeyUnderscore :: input_key where "KeyUnderscore \<equiv> 166"
abbreviation KeyDoubleQuote :: input_key where "KeyDoubleQuote \<equiv> 167"
abbreviation KeyQuestionMark :: input_key where "KeyQuestionMark \<equiv> 168"
abbreviation KeyCurrencyUnit :: input_key where "KeyCurrencyUnit \<equiv> 180"
abbreviation KeyKpOpenParenthesis :: input_key where "KeyKpOpenParenthesis \<equiv> 182"
abbreviation KeyKpCloseParenthesis :: input_key where "KeyKpCloseParenthesis \<equiv> 183"
abbreviation KeyKpOpenBrace :: input_key where "KeyKpOpenBrace \<equiv> 184"
abbreviation KeyKpCloseBrace :: input_key where "KeyKpCloseBrace \<equiv> 185"
abbreviation KeyKpCaret :: input_key where "KeyKpCaret \<equiv> 195"
abbreviation KeyKpPercent :: input_key where "KeyKpPercent \<equiv> 196"
abbreviation KeyKpSmallerThan :: input_key where "KeyKpSmallerThan \<equiv> 197"
abbreviation KeyKpGreaterThan :: input_key where "KeyKpGreaterThan \<equiv> 198"
abbreviation KeyKpAmp :: input_key where "KeyKpAmp \<equiv> 199"
abbreviation KeyKpPipe :: input_key where "KeyKpPipe \<equiv> 201"
abbreviation KeyKpColon :: input_key where "KeyKpColon \<equiv> 203"
abbreviation KeyKpNumber :: input_key where "KeyKpNumber \<equiv> 204"
abbreviation KeyKpAt :: input_key where "KeyKpAt \<equiv> 206"
abbreviation KeyKpExclamationMark :: input_key where "KeyKpExclamationMark \<equiv> 207"
abbreviation KeyLeftCtrl :: input_key where "KeyLeftCtrl \<equiv> 224"
abbreviation KeyLeftShift :: input_key where "KeyLeftShift \<equiv> 225"
abbreviation KeyLeftAlt :: input_key where "KeyLeftAlt \<equiv> 226"
abbreviation KeyLeftMeta :: input_key where "KeyLeftMeta \<equiv> 227"
abbreviation KeyRightCtrl :: input_key where "KeyRightCtrl \<equiv> 228"
abbreviation KeyRightShift :: input_key where "KeyRightShift \<equiv> 229"
abbreviation KeyRightAlt :: input_key where "KeyRightAlt \<equiv> 230"
abbreviation KeyRightMeta :: input_key where "KeyRightMeta \<equiv> 231"

text \<open>\<open>keyNames\<close>.\<close>

definition keyNames :: "string list" where
  "keyNames =
    [''Invalid'', ''Invalid'', ''Invalid'', ''Invalid'', ''a'', ''b'', ''c'', ''d'', ''e'', ''f'', ''g'', ''h'',
     ''i'', ''j'', ''k'', ''l'', ''m'', ''n'', ''o'', ''p'', ''q'', ''r'', ''s'', ''t'', ''u'', ''v'', ''w'', ''x'',
     ''y'', ''z'', ''1'', ''2'', ''3'', ''4'', ''5'', ''6'', ''7'', ''8'', ''9'', ''0'', ''Enter'', ''Escape'',
     ''Backspace'', [CHR 0x09], '' '', ''-'', ''='', ''['', '']'', [CHR 0x5C], ''Europe1'', '';'', [CHR 0x27],
     [CHR 0x60], '','', ''.'', ''/'', ''CapsLock'', ''F1'', ''F2'', ''F3'', ''F4'', ''F5'', ''F6'', ''F7'', ''F8'',
     ''F9'', ''F10'', ''F11'', ''F12'', ''PrintScreen'', ''ScrollLock'', ''Pause'', ''Insert'', ''Home'', ''PageUp'',
     ''Delete'', ''End'', ''PageDown'', ''RightArrow'', ''LeftArrow'', ''DownArrow'', ''UpArrow'', ''NumLock'',
     ''/'', ''*'', ''-'', ''+'', ''KpEnter'', ''1'', ''2'', ''3'', ''4'', ''5'', ''6'', ''7'', ''8'', ''9'', ''0'',
     ''.'', ''Europe2'', ''Application'', ''Power'', ''='', ''F13'', ''F14'', ''F15'', ''F16'', ''F17'', ''F18'',
     ''F19'', ''F20'', ''F21'', ''F22'', ''F23'', ''F24'', ''Execute'', ''Help'', ''Menu'', ''Select'', ''Stop'',
     ''Again'', ''Undo'', ''Cut'', ''Copy'', ''Paste'', ''Find'', ''Mute'', ''VolumeUp'', ''VolumeDown'',
     ''LockingCapsLock'', ''LockingNumLock'', ''LockingScrollLock'', '','', ''='', ''I10L1'', ''I10L2'', ''I10L3'',
     ''I10L4'', ''I10L5'', ''I10L6'', ''I10L7'', ''I10L8'', ''I10L9'', ''Lang1'', ''Lang2'', ''Lang3'', ''Lang4'',
     ''Lang5'', ''Lang6'', ''Lang7'', ''Lang8'', ''Lang9'', ''AltErase'', ''SysReq'', ''Cancel'', ''Clear'',
     ''Prior'', ''Return'', ''Separator'', ''Out'', ''Oper'', ''ClearAgain'', ''CrSel'', ''ExSel'', ''~'', ''_'',
     [CHR 0x22], ''?'', ''Invalid'', ''Invalid'', ''Invalid'', ''Invalid'', ''Invalid'', ''Invalid'', ''Invalid'',
     ''Kp00'', ''Kp000'', ''ThousandsSep'', ''DecimalSep'', ''$'', ''CurrencySubunit'', ''('', '')'', ''{'', ''}'',
     [CHR 0x09], ''KpBackspace'', ''KpA'', ''KpB'', ''KpC'', ''KpD'', ''KpE'', ''KpF'', ''^'', ''^'', ''%'', ''<'',
     ''>'', ''&'', ''&&'', ''|'', ''||'', '':'', ''#'', '' '', ''@'', ''!'', ''KpMemStore'', ''KpMemRecall'',
     ''KpMemClear'', ''KpMemAdd'', ''KpMemSubtract'', ''KpMemMultiply'', ''KpMemDivide'', ''KpPlusMinus'',
     ''KpClear'', ''KpClearEntry'', ''KpBin'', ''KpOct'', ''KpDec'', ''KpHex'', ''Invalid'', ''Invalid'',
     ''LeftCtrl'', ''LeftShift'', ''LeftAlt'', ''LeftMeta'', ''RightCtrl'', ''RightShift'', ''RightAlt'',
     ''RightMeta'']"

text \<open>The tables of the two switches of \<open>transform\<close>.\<close>

definition keypad_table :: "(input_key \<times> input_key) list" where
  "keypad_table =
    [(KeyKp0, KeyInsert), (KeyKp1, KeyEnd), (KeyKp2, KeyDownArrow), (KeyKp3, KeyPageDown), (KeyKp4, KeyLeftArrow),
     (KeyKp6, KeyRightArrow), (KeyKp7, KeyHome), (KeyKp8, KeyUpArrow), (KeyKp9, KeyPageUp)]"

definition shift_table :: "(input_key \<times> input_key) list" where
  "shift_table =
    [(KeyGraveAccent, KeyTilde), (Key1, KeyKpExclamationMark), (Key2, KeyKpAt), (Key3, KeyKpNumber),
     (Key4, KeyCurrencyUnit), (Key5, KeyKpPercent), (Key6, KeyKpCaret), (Key7, KeyKpAmp), (Key8, KeyKpStar),
     (Key9, KeyKpOpenParenthesis), (Key0, KeyKpCloseParenthesis), (KeyDash, KeyUnderscore),
     (KeyKpDash, KeyUnderscore), (KeyEqual, KeyKpPlus), (KeyKpEqual, KeyKpPlus), (KeyEqualSign, KeyKpPlus),
     (KeyOpenBracket, KeyKpOpenBrace), (KeyCloseBracket, KeyKpCloseBrace), (KeySemicolon, KeyKpColon),
     (KeyApostrophe, KeyDoubleQuote), (KeyComma, KeyKpSmallerThan), (KeyPeriod, KeyKpGreaterThan),
     (KeySlash, KeyQuestionMark), (KeyBackslash, KeyKpPipe)]"

datatype input_page = InvalidPage | GeneralDesktop | KeyboardPage | LED | Buttons | Consumer

type_synonym scanmap = "input_page \<times> input_key"

definition invalid_scan :: scanmap where
  "invalid_scan = (InvalidPage, InvalidKey)"

definition scan :: "input_key \<Rightarrow> scanmap" where
  "scan key = (KeyboardPage, key)"

definition scanmapNormal :: "scanmap list" where
  "scanmapNormal =
    [invalid_scan, scan KeyEscape, scan Key1, scan Key2, scan Key3, scan Key4, scan Key5, scan Key6, scan Key7,
     scan Key8, scan Key9, scan Key0, scan KeyDash, scan KeyEqual, scan KeyBackspace, scan KeyTab, scan KeyQ,
     scan KeyW, scan KeyE, scan KeyR, scan KeyT, scan KeyY, scan KeyU, scan KeyI, scan KeyO, scan KeyP,
     scan KeyOpenBracket, scan KeyCloseBracket, scan KeyEnter, scan KeyLeftCtrl, scan KeyA, scan KeyS, scan KeyD,
     scan KeyF, scan KeyG, scan KeyH, scan KeyJ, scan KeyK, scan KeyL, scan KeySemicolon, scan KeyApostrophe,
     scan KeyGraveAccent, scan KeyLeftShift, scan KeyBackslash, scan KeyZ, scan KeyX, scan KeyC, scan KeyV,
     scan KeyB, scan KeyN, scan KeyM, scan KeyComma, scan KeyPeriod, scan KeySlash, scan KeyRightShift,
     scan KeyKpStar, scan KeyLeftAlt, scan KeySpacebar, scan KeyCapsLock, scan KeyF1, scan KeyF2, scan KeyF3,
     scan KeyF4, scan KeyF5, scan KeyF6, scan KeyF7, scan KeyF8, scan KeyF9, scan KeyF10, scan KeyNumLock,
     scan KeyScrollLock, scan KeyKp7, scan KeyKp8, scan KeyKp9, scan KeyKpDash, scan KeyKp4, scan KeyKp5,
     scan KeyKp6, scan KeyKpPlus, scan KeyKp1, scan KeyKp2, scan KeyKp3, scan KeyKp0, scan KeyKpPeriod,
     scan KeySysReq, invalid_scan, scan KeyEurope2, scan KeyF11, scan KeyF12, scan KeyKpEqual, invalid_scan,
     scan KeyLeftMeta, scan KeyI10L2, invalid_scan, invalid_scan, invalid_scan, invalid_scan, invalid_scan,
     invalid_scan, invalid_scan, scan KeyF13, scan KeyF14, scan KeyF15, scan KeyF16, scan KeyF17, scan KeyF18,
     scan KeyF19, scan KeyF20, scan KeyF21, scan KeyF22, scan KeyF23, invalid_scan, scan KeyI10L2, scan KeyLang1,
     scan KeyLang1, scan KeyI10L1, invalid_scan, invalid_scan, scan KeyF24, scan KeyLang4, scan KeyLang3,
     scan KeyI10L4, invalid_scan, scan KeyI10L5, invalid_scan, scan KeyI10L3, scan KeyEqualSign, invalid_scan]"


section \<open>The state of the keyboard\<close>

datatype modifier = Ctrl | Shift | Alt | Meta

primrec mask :: "modifier \<Rightarrow> byte" where
  "mask Ctrl = 1"
| "mask Shift = 2"
| "mask Alt = 4"
| "mask Meta = 8"

record keyboard =
  modifiers :: byte
  capslock :: bool
  numlock :: bool

definition new_keyboard :: keyboard where
  "new_keyboard = \<lparr>modifiers = 0, capslock = False, numlock = True\<rparr>"

text \<open>The cases of the switches over modifier keys.\<close>

definition modifier_of :: "input_key \<Rightarrow> modifier option" where
  "modifier_of key =
     (if key = KeyLeftShift \<or> key = KeyRightShift then Some Shift
      else if key = KeyLeftAlt \<or> key = KeyRightAlt then Some Alt
      else if key = KeyLeftCtrl \<or> key = KeyRightCtrl then Some Ctrl
      else if key = KeyLeftMeta \<or> key = KeyRightMeta then Some Meta
      else None)"

definition getModifier :: "input_key \<Rightarrow> byte" where
  "getModifier key = (case modifier_of key of Some m \<Rightarrow> mask m | None \<Rightarrow> 0)"

definition hasModifier :: "modifier \<Rightarrow> keyboard \<Rightarrow> bool" where
  "hasModifier m k \<longleftrightarrow> and (modifiers k) (mask m) \<noteq> 0"

definition isModifier :: "modifier \<Rightarrow> keyboard \<Rightarrow> bool" where
  "isModifier m k \<longleftrightarrow> modifiers k = mask m"

definition transform :: "input_key \<Rightarrow> keyboard \<Rightarrow> input_key" where
  "transform key k =
     (let key = (if numlock k then (case map_of keypad_table key of Some key' \<Rightarrow> key' | None \<Rightarrow> key) else key)
      in if hasModifier Shift k then (case map_of shift_table key of Some key' \<Rightarrow> key' | None \<Rightarrow> key) else key)"

text \<open>\<open>Kernel::onKey\<close>, which gets the transformed key, does nothing.\<close>

definition onKey :: "input_key \<Rightarrow> bool \<Rightarrow> keyboard \<Rightarrow> keyboard" where
  "onKey key down k =
     (if key = InvalidKey then k
      else let k = (if key = KeyCapsLock \<and> down then k\<lparr>capslock := \<not> capslock k\<rparr> else k);
               k = (if key = KeyNumLock \<and> down then k\<lparr>numlock := \<not> numlock k\<rparr> else k)
           in if down then
                (case modifier_of key of Some m \<Rightarrow> k\<lparr>modifiers := or (modifiers k) (mask m)\<rparr> | None \<Rightarrow> k)
              else
                (case modifier_of key of Some m \<Rightarrow> k\<lparr>modifiers := and (modifiers k) (not (mask m))\<rparr> | None \<Rightarrow> k))"

definition modifierString :: "byte \<Rightarrow> string" where
  "modifierString mods =
     (let out = [];
          out = (if and mods (mask Ctrl) \<noteq> 0 then (if out \<noteq> [] then out @ '' '' else out) @ ''ctrl'' else out);
          out = (if and mods (mask Shift) \<noteq> 0 then (if out \<noteq> [] then out @ '' '' else out) @ ''shift'' else out);
          out = (if and mods (mask Alt) \<noteq> 0 then (if out \<noteq> [] then out @ '' '' else out) @ ''alt'' else out);
          out = (if and mods (mask Meta) \<noteq> 0 then (if out \<noteq> [] then out @ '' '' else out) @ ''meta'' else out)
      in out)"

definition key_string :: "input_key \<Rightarrow> keyboard \<Rightarrow> string option" where
  "key_string key k =
     (if \<not> key < length keyNames then None
      else if key < KeyA \<or> KeyZ < key then Some (keyNames ! key)
      else let ch = hd (keyNames ! key) in
        if hasModifier Shift k \<noteq> capslock k then Some [char_of (of_char ch + 65 - 97 :: nat)] else Some [ch])"

text \<open>
  The interrupt of the keyboard: the byte from the port 0x60 is put into the queue, and \<open>looping\<close> is
  cleared at the left Alt key. The test indexes the table of 128 entries with the byte itself.
\<close>

definition irq1 :: "byte \<Rightarrow> bool \<times> byte list \<Rightarrow> (unit \<times> bool \<times> byte list) option" where
  "irq1 b s = (case s of (looping, fifo) \<Rightarrow>
     if unat b < length scanmapNormal then
       Some ((), if snd (scanmapNormal ! unat b) = KeyLeftAlt then False else looping, fifo @ [b])
     else None)"



section \<open>Modifiers\<close>

primrec mask_bit :: "modifier \<Rightarrow> nat" where
  "mask_bit Ctrl = 0"
| "mask_bit Shift = 1"
| "mask_bit Alt = 2"
| "mask_bit Meta = 3"

lemma mask_exp: "mask m = 2 ^ mask_bit m"
  by (cases m) simp_all

lemma mask_bit_inject [simp]: "mask_bit m = mask_bit n \<longleftrightarrow> m = n"
  by (cases m; cases n) simp_all

lemma mask_bit_less [simp]: "mask_bit m < 8"
  by (cases m) simp_all

lemma hasModifier_bit: "hasModifier m k \<longleftrightarrow> bit (modifiers k) (mask_bit m)"
  by (simp add: hasModifier_def mask_exp and_exp_eq_0_iff_not_bit)

lemma modifiers_onKey:
  "modifiers (onKey key down k) = (case modifier_of key of None \<Rightarrow> modifiers k
     | Some m \<Rightarrow> if down then or (modifiers k) (mask m) else and (modifiers k) (not (mask m)))"
  by (auto simp: onKey_def Let_def modifier_of_def split: option.split)

lemma hasModifier_onKey:
  "hasModifier m (onKey key down k) = (if modifier_of key = Some m then down else hasModifier m k)"
  by (auto simp: hasModifier_bit modifiers_onKey mask_exp bit_simps split: option.split)

lemma locks_onKey:
  "capslock (onKey key down k) = (capslock k \<noteq> (key = KeyCapsLock \<and> down))"
  "numlock (onKey key down k) = (numlock k \<noteq> (key = KeyNumLock \<and> down))"
  by (auto simp: onKey_def Let_def modifier_of_def split: option.split)

text \<open>A sequence of keys that go down (\<open>True\<close>) or up.\<close>

definition keys :: "(input_key \<times> bool) list \<Rightarrow> keyboard \<Rightarrow> keyboard" where
  "keys events k = fold (\<lambda>(key, down). onKey key down) events k"

lemma keys_snoc: "keys (events @ [(key, down)]) k = onKey key down (keys events k)"
  by (simp add: keys_def)

text \<open>One of the keys of a modifier went down and none of them moved since.\<close>

definition pressed_last :: "modifier \<Rightarrow> (input_key \<times> bool) list \<Rightarrow> bool" where
  "pressed_last m events \<longleftrightarrow> (\<exists>before key after. events = before @ (key, True) # after \<and>
     modifier_of key = Some m \<and> (\<forall>(key', down) \<in> set after. modifier_of key' \<noteq> Some m))"

lemma pressed_last_press:
  assumes "modifier_of key = Some m"
  shows "pressed_last m (events @ [(key, down)]) \<longleftrightarrow> down"
proof
  assume "pressed_last m (events @ [(key, down)])"
  then obtain b k a where *: "events @ [(key, down)] = b @ (k, True) # a"
    "\<forall>(key', down) \<in> set a. modifier_of key' \<noteq> Some m" by (auto simp: pressed_last_def)
  then show down using assms by (cases a rule: rev_cases) auto
next
  assume down
  then show "pressed_last m (events @ [(key, down)])" using assms
    unfolding pressed_last_def by (intro exI [of _ events] exI [of _ key] exI [of _ "[]"]) simp
qed

lemma pressed_last_other:
  assumes "modifier_of key \<noteq> Some m"
  shows "pressed_last m (events @ [(key, down)]) \<longleftrightarrow> pressed_last m events"
proof
  assume "pressed_last m (events @ [(key, down)])"
  then obtain b k a where *: "events @ [(key, down)] = b @ (k, True) # a" "modifier_of k = Some m"
    "\<forall>(key', down) \<in> set a. modifier_of key' \<noteq> Some m" by (auto simp: pressed_last_def)
  with assms show "pressed_last m events" by (cases a rule: rev_cases) (auto simp: pressed_last_def)
next
  assume "pressed_last m events"
  then obtain b k a where "events = b @ (k, True) # a" "modifier_of k = Some m"
    "\<forall>(key', down) \<in> set a. modifier_of key' \<noteq> Some m" by (auto simp: pressed_last_def)
  then show "pressed_last m (events @ [(key, down)])" using assms
    unfolding pressed_last_def by (intro exI [of _ b] exI [of _ k] exI [of _ "a @ [(key, down)]"]) auto
qed

lemma hasModifier_keys: "hasModifier m (keys events new_keyboard) \<longleftrightarrow> pressed_last m events"
proof (induction events rule: rev_induct)
  case (snoc e events)
  then show ?case using pressed_last_press pressed_last_other by (cases e) (auto simp: keys_snoc hasModifier_onKey)
qed (simp add: keys_def new_keyboard_def hasModifier_def pressed_last_def)

lemma locks_keys:
  "capslock (keys events new_keyboard) \<longleftrightarrow> odd (count_list events (KeyCapsLock, True))"
  "numlock (keys events new_keyboard) \<longleftrightarrow> even (count_list events (KeyNumLock, True))"
  by (induction events rule: rev_induct) (auto simp: keys_snoc locks_onKey, auto simp: keys_def new_keyboard_def)

text \<open>C33. After any sequence of keys a modifier is set when the last event of one of its two keys was a press: a release
  of the left key clears it though the right one is still held. The locks change at each press of their key.\<close>

theorem modifiers_follow_last_event:
  "(hasModifier m (keys events new_keyboard) \<longleftrightarrow>
     (\<exists>before key after. events = before @ (key, True) # after \<and> modifier_of key = Some m \<and>
        (\<forall>(key', down) \<in> set after. modifier_of key' \<noteq> Some m))) \<and>
   (capslock (keys events new_keyboard) \<longleftrightarrow> odd (count_list events (KeyCapsLock, True))) \<and>
   (numlock (keys events new_keyboard) \<longleftrightarrow> even (count_list events (KeyNumLock, True)))"
  by (simp only: hasModifier_keys pressed_last_def locks_keys)

theorem modifiers_follow_last_event_witness:
  "hasModifier Ctrl (keys [(KeyLeftCtrl, True), (KeyCapsLock, True)] new_keyboard) \<and>
   capslock (keys [(KeyLeftCtrl, True), (KeyCapsLock, True)] new_keyboard)"
proof -
  let ?events = "[(KeyLeftCtrl, True), (KeyCapsLock, True)]"
  have "?events = [] @ (KeyLeftCtrl, True) # [(KeyCapsLock, True)]" "modifier_of KeyLeftCtrl = Some Ctrl"
    "\<forall>(key', down) \<in> set [(KeyCapsLock, True)]. modifier_of key' \<noteq> Some Ctrl"
    by (simp_all add: modifier_of_def)
  then have "hasModifier Ctrl (keys ?events new_keyboard)"
    by (intro modifiers_follow_last_event [THEN conjunct1, THEN iffD2] exI conjI)
  moreover have "odd (count_list ?events (KeyCapsLock, True))" by simp
  ultimately show ?thesis by (simp only: modifiers_follow_last_event [THEN conjunct2, THEN conjunct1] simp_thms)
qed

lemma release_of_one_of_two:
  "\<not> hasModifier Shift (keys [(KeyLeftShift, True), (KeyRightShift, True), (KeyLeftShift, False)] k)"
  by (simp add: keys_def hasModifier_onKey modifier_of_def)


section \<open>The layout\<close>

text \<open>The string that a scan code gives in a state of the keyboard.\<close>

definition typed :: "keyboard \<Rightarrow> nat \<Rightarrow> string option" where
  "typed k code = key_string (transform (snd (scanmapNormal ! code)) k) k"

text \<open>The scan codes of the keys for ASCII characters, row by row.\<close>

definition ascii_codes :: "nat list" where
  "ascii_codes = 0x29 # [0x02..<0x0e] @ [0x10..<0x1c] @ 0x2b # [0x1e..<0x29] @ [0x2c..<0x36] @ [0x39]"

lemma layout_plain:
  "map (typed new_keyboard) ascii_codes =
     map (\<lambda>c. Some [c]) (CHR 0x60 # ''1234567890-=qwertyuiop[]'' @ CHR 0x5C # ''asdfghjkl;'' @ CHR 0x27 # ''zxcvbnm,./ '')"
  by code_simp

lemma layout_shift:
  "map (typed (onKey KeyLeftShift True new_keyboard)) ascii_codes =
     map (\<lambda>c. Some [c]) (''~!@#$%^&*()_+QWERTYUIOP{}|ASDFGHJKL:'' @ CHR 0x22 # ''ZXCVBNM<>? '')"
  by code_simp

lemma layout_caps:
  "map (typed (onKey KeyCapsLock True new_keyboard)) ascii_codes =
     map (\<lambda>c. Some [c]) (CHR 0x60 # ''1234567890-=QWERTYUIOP[]'' @ CHR 0x5C # ''ASDFGHJKL;'' @ CHR 0x27 # ''ZXCVBNM,./ '')"
  by code_simp

text \<open>The tables of scan codes, key names and shifted keys agree: the keys for ASCII characters give those of the US
  layout, plain and with the shift key down; with CapsLock on the letters change their case and nothing else
  does.\<close>

lemma us_layout:
  "map (typed new_keyboard) ascii_codes =
     map (\<lambda>c. Some [c]) (CHR 0x60 # ''1234567890-=qwertyuiop[]'' @ CHR 0x5C # ''asdfghjkl;'' @ CHR 0x27 # ''zxcvbnm,./ '') \<and>
   map (typed (onKey KeyLeftShift True new_keyboard)) ascii_codes =
     map (\<lambda>c. Some [c]) (''~!@#$%^&*()_+QWERTYUIOP{}|ASDFGHJKL:'' @ CHR 0x22 # ''ZXCVBNM<>? '') \<and>
   map (typed (onKey KeyCapsLock True new_keyboard)) ascii_codes =
     map (\<lambda>c. Some [c]) (CHR 0x60 # ''1234567890-=QWERTYUIOP[]'' @ CHR 0x5C # ''ASDFGHJKL;'' @ CHR 0x27 # ''ZXCVBNM,./ '')"
  by (intro conjI layout_plain layout_shift layout_caps)

end
