(* ===== verification/Terminal.thy ===== *)
theory Terminal
  imports Prelude
begin

text \<open>
  The text screen of \<open>src/Terminal.cpp\<close>. \<open>buffer\<close> is the memory from \<open>0xB8000\<close> in cells of two
  bytes: the screen is its first \<open>25 * 80\<close> cells, an index beyond them is a store outside of the
  screen. \<open>char\<close> is a byte; \<open>size_t\<close> values are numbers below \<open>2 ^ 64\<close>.
\<close>

definition VGA_WIDTH :: nat where
  "VGA_WIDTH = 80"

definition VGA_HEIGHT :: nat where
  "VGA_HEIGHT = 25"

record terminal =
  row :: nat
  column :: nat
  color :: byte
  tabSize :: byte
  buffer :: "nat \<Rightarrow> 16 word"

definition vgaEntryColor :: "nat \<Rightarrow> nat \<Rightarrow> byte" where
  "vgaEntryColor fg bg = word_of_nat (or fg (push_bit 4 bg))"

definition vgaEntry :: "byte \<Rightarrow> byte \<Rightarrow> 16 word" where
  "vgaEntry uc clr = or (ucast uc) (push_bit 8 (ucast clr))"

text \<open>The colours that the code uses, and the initial values of the static members.\<close>

definition Black :: nat where "Black = 0"

definition Green :: nat where "Green = 2"

definition LightGray :: nat where "LightGray = 7"

definition blank :: "16 word" where
  "blank = vgaEntry 32 (vgaEntryColor LightGray Black)"

definition new_terminal :: "(nat \<Rightarrow> 16 word) \<Rightarrow> terminal" where
  "new_terminal b = \<lparr>row = 0, column = 0, color = vgaEntryColor LightGray Black, tabSize = 4, buffer = b\<rparr>"

definition clear_screen :: "terminal \<Rightarrow> terminal" where
  "clear_screen t = t\<lparr>buffer := upd (buffer t) 0 (replicate (VGA_HEIGHT * VGA_WIDTH) 0), row := 0, column := 0\<rparr>"

definition setColor :: "byte \<Rightarrow> terminal \<Rightarrow> terminal" where
  "setColor c t = t\<lparr>color := c\<rparr>"

definition putEntryAt :: "byte \<Rightarrow> byte \<Rightarrow> nat \<Rightarrow> nat \<Rightarrow> terminal \<Rightarrow> terminal" where
  "putEntryAt c clr x y t = t\<lparr>buffer := (buffer t)(wrap64 (y * VGA_WIDTH + x) := vgaEntry c clr)\<rparr>"

text \<open>\<open>memcpy\<close> of one row over the one above, and the blank last row.\<close>

definition copy_row :: "nat \<Rightarrow> (nat \<Rightarrow> 16 word) \<Rightarrow> nat \<Rightarrow> 16 word" where
  "copy_row j b = upd b (j * VGA_WIDTH) (rd b ((j + 1) * VGA_WIDTH) VGA_WIDTH)"

definition scroll_once :: "(nat \<Rightarrow> 16 word) \<Rightarrow> nat \<Rightarrow> 16 word" where
  "scroll_once b = fold (\<lambda>j b. b(j := blank)) [(VGA_HEIGHT - 1) * VGA_WIDTH..<VGA_HEIGHT * VGA_WIDTH]
     (fold copy_row [0..<VGA_HEIGHT - 1] b)"

definition scrollUp :: "byte \<Rightarrow> terminal \<Rightarrow> terminal" where
  "scrollUp ls t = t\<lparr>buffer := (scroll_once ^^ unat ls) (buffer t)\<rparr>"

definition nextLine :: "terminal \<Rightarrow> terminal" where
  "nextLine t =
     (let t = t\<lparr>column := 0, row := wrap64 (row t + 1)\<rparr> in
      if VGA_HEIGHT \<le> row t then let t = scrollUp 1 t in t\<lparr>row := row t - 1\<rparr> else t)"

text \<open>The tab rounds up to a multiple of \<open>tabSize\<close>; the mask is an \<open>int\<close> extended to 64 bits.\<close>

definition tab_stop :: "nat \<Rightarrow> byte \<Rightarrow> nat" where
  "tab_stop col tab = unat (and (word_of_nat col + ucast tab) (not (ucast tab - 1)) :: 64 word)"

definition putChar :: "byte \<Rightarrow> terminal \<Rightarrow> terminal" where
  "putChar c t =
     (if c = 10 then nextLine t
      else if c = 13 then t\<lparr>column := 0\<rparr>
      else if c = 9 then t\<lparr>column := tab_stop (column t) (tabSize t)\<rparr>
      else let t = putEntryAt c (color t) (column t) (row t) t;
               t = t\<lparr>column := wrap64 (column t + 1)\<rparr>
           in if column t = VGA_WIDTH then nextLine t else t)"

definition write_text :: "byte list \<Rightarrow> terminal \<Rightarrow> terminal" where
  "write_text cs t = fold putChar cs t"

definition left :: "byte \<Rightarrow> bool \<Rightarrow> terminal \<Rightarrow> terminal" where
  "left amount wrap t =
     (if wrap then
        let move_up = unat amount div VGA_WIDTH; amount = unat amount mod VGA_WIDTH;
            (move_up, col) = (if column t < amount then (move_up + 1, wrap64 (column t + (VGA_WIDTH - amount)))
                              else (move_up, column t - amount))
        in t\<lparr>column := col, row := if move_up \<le> row t then row t - move_up else 0\<rparr>
      else t\<lparr>column := if unat amount \<le> column t then column t - unat amount else 0\<rparr>)"

definition right :: "byte \<Rightarrow> bool \<Rightarrow> terminal \<Rightarrow> terminal" where
  "right amount wrap t =
     (if wrap then
        let move_down = unat amount div VGA_WIDTH; amount = unat amount mod VGA_WIDTH;
            (move_down, col) =
              (if VGA_WIDTH \<le> wrap64 (column t + amount)
               then (move_down + 1, u64 (int (column t) + (int amount - int VGA_WIDTH)))
               else (move_down, wrap64 (column t + amount)))
        in t\<lparr>column := col,
             row := if VGA_HEIGHT \<le> wrap64 (row t + move_down) then VGA_HEIGHT - 1 else wrap64 (row t + move_down)\<rparr>
      else t\<lparr>column := if VGA_WIDTH \<le> wrap64 (column t + unat amount) then VGA_WIDTH - 1
                        else wrap64 (column t + unat amount)\<rparr>)"

text \<open>The operations of the class, as a caller can issue them.\<close>

datatype terminal_op = Write "byte list" | Clear | SetColor byte | Left byte bool | Right byte bool | ScrollUp byte

fun perform :: "terminal_op \<Rightarrow> terminal \<Rightarrow> terminal" where
  "perform (Write cs) t = write_text cs t"
| "perform Clear t = clear_screen t"
| "perform (SetColor c) t = setColor c t"
| "perform (Left n wrap) t = left n wrap t"
| "perform (Right n wrap) t = right n wrap t"
| "perform (ScrollUp n) t = scrollUp n t"


section \<open>Scrolling\<close>

lemmas screen_size = VGA_WIDTH_def VGA_HEIGHT_def

lemma copy_row_step:
  assumes "c = (\<lambda>i. if i < n * VGA_WIDTH then b (i + VGA_WIDTH) else b i)"
  shows "copy_row n c = (\<lambda>i. if i < Suc n * VGA_WIDTH then b (i + VGA_WIDTH) else b i)"
proof -
  define A where "A = n * VGA_WIDTH"
  have A: "Suc n * VGA_WIDTH = A + VGA_WIDTH" "(n + 1) * VGA_WIDTH = A + VGA_WIDTH" "n * VGA_WIDTH = A" by (simp_all add: A_def)
  have "c (A + VGA_WIDTH + (i - A)) = b (i + VGA_WIDTH)" if "A \<le> i" for i
    using that by (simp add: assms A add.commute add.left_commute)
  then show ?thesis by (intro ext) (simp add: copy_row_def A upd_def, simp add: assms A)
qed

lemma fold_copy_row: "fold copy_row [0..<n] b = (\<lambda>i. if i < n * VGA_WIDTH then b (i + VGA_WIDTH) else b i)"
  by (induction n) (simp_all add: copy_row_step del: mult_Suc)

lemma fold_fill: "fold (\<lambda>j b. b(j := v)) [m..<m + n] b = (\<lambda>i. if m \<le> i \<and> i < m + n then v else b i)"
  by (induction n) (auto simp: fun_eq_iff)

lemma scroll_once_eq:
  "scroll_once b i = (if i < 1920 then b (i + 80) else if i < 2000 then blank else b i)"
  using fold_fill [of blank 1920 80] by (simp add: scroll_once_def fold_copy_row screen_size)



section \<open>Staying on the screen\<close>

definition on_screen :: "terminal \<Rightarrow> bool" where
  "on_screen t \<longleftrightarrow> row t < VGA_HEIGHT \<and> column t < VGA_WIDTH"

definition keeps_memory :: "terminal \<Rightarrow> terminal \<Rightarrow> bool" where
  "keeps_memory t t' \<longleftrightarrow> (\<forall>i \<ge> VGA_HEIGHT * VGA_WIDTH. buffer t' i = buffer t i)"

definition contained :: "terminal \<Rightarrow> terminal \<Rightarrow> bool" where
  "contained t t' \<longleftrightarrow> on_screen t' \<and> keeps_memory t t'"

lemma contained_trans: "contained t u \<Longrightarrow> contained u v \<Longrightarrow> contained t v"
  by (simp add: contained_def keeps_memory_def)

lemma scrollUp_contained: "on_screen t \<Longrightarrow> contained t (scrollUp n t)"
proof -
  have "(scroll_once ^^ k) b i = b i" if "2000 \<le> i" for k b i
    by (induction k) (use that in \<open>simp_all add: scroll_once_eq\<close>)
  then show "on_screen t \<Longrightarrow> ?thesis" by (simp add: contained_def on_screen_def keeps_memory_def scrollUp_def screen_size)
qed

lemma nextLine_contained: "row t < VGA_HEIGHT \<Longrightarrow> contained t (nextLine t)"
  by (auto simp: contained_def on_screen_def keeps_memory_def nextLine_def scrollUp_def scroll_once_eq screen_size Let_def)

lemma putChar_contained: "on_screen t \<Longrightarrow> c \<noteq> 9 \<Longrightarrow> contained t (putChar c t)"
proof -
  assume t: "on_screen t" and c: "c \<noteq> 9"
  let ?u = "(putEntryAt c (color t) (column t) (row t) t)\<lparr>column := wrap64 (column t + 1)\<rparr>"
  have u: "keeps_memory t ?u" "row ?u < VGA_HEIGHT" "column ?u \<le> VGA_WIDTH"
    using t by (auto simp: keeps_memory_def putEntryAt_def on_screen_def screen_size)
  have "contained t (nextLine ?u)" using nextLine_contained [OF u(2)] u(1) by (simp add: contained_def keeps_memory_def)
  then show ?thesis using t c u nextLine_contained [of t]
    by (auto simp: putChar_def Let_def contained_def on_screen_def keeps_memory_def putEntryAt_def screen_size)
qed

lemma write_text_contained: "on_screen t \<Longrightarrow> 9 \<notin> set cs \<Longrightarrow> contained t (write_text cs t)"
proof (induction cs arbitrary: t)
  case (Cons c cs)
  then have "contained t (putChar c t)" using putChar_contained [of t c] by simp
  with Cons show ?case by (simp add: write_text_def contained_def keeps_memory_def)
qed (simp add: write_text_def contained_def keeps_memory_def)

lemma byte_less: "unat (n :: byte) < 256"
  using unsigned_less [of n] by simp

lemma left_contained: "on_screen t \<Longrightarrow> contained t (left n wrap t)"
  using byte_less [of n] by (auto simp: left_def Let_def contained_def on_screen_def keeps_memory_def screen_size)

lemma right_contained: "on_screen t \<Longrightarrow> contained t (right n wrap t)"
  using byte_less [of n] by (auto simp: right_def Let_def contained_def on_screen_def keeps_memory_def screen_size)

lemma perform_contained: "on_screen t \<Longrightarrow> \<forall>cs. op = Write cs \<longrightarrow> 9 \<notin> set cs \<Longrightarrow> contained t (perform op t)"
  by (cases op) (auto simp: write_text_contained left_contained right_contained scrollUp_contained,
    auto simp: contained_def on_screen_def keeps_memory_def clear_screen_def setColor_def screen_size)

lemma operations_contained:
  "on_screen t \<Longrightarrow> \<forall>cs. Write cs \<in> set ops \<longrightarrow> 9 \<notin> set cs \<Longrightarrow> contained t (fold perform ops t)"
proof (induction ops arbitrary: t)
  case (Cons op ops)
  then have "contained t (perform op t)" by (intro perform_contained) auto
  with Cons show ?case by (auto simp: contained_def keeps_memory_def)
qed (simp add: contained_def keeps_memory_def)

text \<open>Characters that do not reach the last column, or start beyond it, are stored one after the other.\<close>

definition printable :: "byte list \<Rightarrow> bool" where
  "printable cs \<longleftrightarrow> 9 \<notin> set cs \<and> 10 \<notin> set cs \<and> 13 \<notin> set cs"

lemma upd_Cons: "upd f p (e # es) = upd (f(p := e)) (p + 1) es"
proof -
  have "upd f p [e] = f(p := e)" by (rule ext) (auto simp: upd_def)
  then show ?thesis using upd_append [of f p "[e]" es] by simp
qed

lemma write_text_line:
  "printable cs \<Longrightarrow> column t + length cs < VGA_WIDTH \<or> VGA_WIDTH \<le> column t \<Longrightarrow>
   row t * VGA_WIDTH + column t + length cs < 2 ^ 64 \<Longrightarrow>
   write_text cs t = t\<lparr>column := column t + length cs,
     buffer := upd (buffer t) (row t * VGA_WIDTH + column t) (map (\<lambda>c. vgaEntry c (color t)) cs)\<rparr>"
proof (induction cs arbitrary: t)
  case (Cons c cs)
  let ?u = "t\<lparr>column := column t + 1, buffer := (buffer t)(row t * VGA_WIDTH + column t := vgaEntry c (color t))\<rparr>"
  have "putChar c t = ?u"
    using Cons.prems by (auto simp: putChar_def putEntryAt_def printable_def)
  moreover have "write_text cs ?u = ?u\<lparr>column := column ?u + length cs,
      buffer := upd (buffer ?u) (row ?u * VGA_WIDTH + column ?u) (map (\<lambda>c. vgaEntry c (color ?u)) cs)\<rparr>"
    by (rule Cons.IH) (use Cons.prems in \<open>auto simp: printable_def\<close>)
  ultimately show ?case by (simp add: write_text_def upd_Cons)
qed (simp add: write_text_def)

lemma tab_stop_4: "76 \<le> col \<Longrightarrow> col < 80 \<Longrightarrow> tab_stop col 4 = 80"
proof -
  assume "76 \<le> col" "col < 80"
  then have "col \<in> {76, 77, 78, 79}" by auto
  then show ?thesis by (auto simp: tab_stop_def)
qed


section \<open>Properties\<close>

text \<open>C34. A terminal whose cursor is on the screen keeps it there, and stores in no cell outside the 25 rows of 80, in
  every sequence of operations that prints no tab.\<close>

theorem screen_contained:
  assumes "row t < 25" and "column t < 80" and "\<forall>cs. Write cs \<in> set ops \<longrightarrow> 9 \<notin> set cs"
  shows "row (fold perform ops t) < 25 \<and> column (fold perform ops t) < 80 \<and>
    (\<forall>i \<ge> 2000. buffer (fold perform ops t) i = buffer t i)"
  using operations_contained [of t ops] assms by (simp add: contained_def on_screen_def keeps_memory_def screen_size)

theorem screen_contained_witness:
  "row (fold perform [Write [72, 105, 10], Right 200 True, ScrollUp 3, Left 99 True] (new_terminal (\<lambda>_. 0))) < 25"
  using screen_contained [of "new_terminal (\<lambda>_. 0)" "[Write [72, 105, 10], Right 200 True, ScrollUp 3, Left 99 True]"]
  by (simp add: new_terminal_def)

text \<open>C40. A tab in one of the last four columns puts the cursor beyond the last column, and the text that follows never
  comes to the next line: however long it is, it is stored in the cells that follow, in the last row outside
  of the screen from its first character on.\<close>

theorem tab_escapes:
  assumes "row t < 25" and "76 \<le> column t" and "column t < 80" and "tabSize t = 4"
    and "9 \<notin> set cs" and "10 \<notin> set cs" and "13 \<notin> set cs" and "length cs < 2 ^ 63"
  shows "write_text (9 # cs) t = t\<lparr>column := 80 + length cs,
    buffer := upd (buffer t) (row t * 80 + 80) (map (\<lambda>c. vgaEntry c (color t)) cs)\<rparr>"
proof -
  let ?u = "t\<lparr>column := 80\<rparr>"
  have "putChar 9 t = ?u" using assms(2-4) by (simp add: putChar_def tab_stop_4)
  then have "write_text (9 # cs) t = write_text cs ?u" by (simp add: write_text_def)
  also have "\<dots> = ?u\<lparr>column := column ?u + length cs,
      buffer := upd (buffer ?u) (row ?u * VGA_WIDTH + column ?u) (map (\<lambda>c. vgaEntry c (color ?u)) cs)\<rparr>"
    by (rule write_text_line) (use assms in \<open>simp_all add: printable_def screen_size\<close>)
  finally show ?thesis by (simp add: screen_size)
qed

theorem tab_escapes_witness:
  "\<exists>t. row t = 24 \<and> column t = 76 \<and> buffer (write_text [9, 88] t) 2000 \<noteq> buffer t 2000"
proof -
  let ?t = "(new_terminal (\<lambda>_. 0))\<lparr>row := 24, column := 76\<rparr>"
  have "buffer (write_text [9, 88] ?t) 2000 = vgaEntry 88 (color ?t)"
    using tab_escapes [of ?t "[88]"] by (simp add: new_terminal_def upd_def)
  moreover have "vgaEntry 88 (color ?t) \<noteq> 0"
    by (simp add: new_terminal_def vgaEntry_def vgaEntryColor_def LightGray_def Black_def)
  ultimately show ?thesis by (intro exI [of _ ?t]) (simp add: new_terminal_def)
qed

end
