(* ===== verification/Line_Editor.thy ===== *)
theory Line_Editor
  imports Keyboard Terminal
begin

text \<open>
  The input line of the test shell: the loop of \<open>testPS2Keyboard\<close> in \<open>src/Test.cpp\<close> that takes scan
  codes from the queue, moves the cursor, and edits \<open>text\<close>. The command that a finished line starts
  (\<open>handleInput\<close>) is an argument, a function on the rest of the system (\<open>'w\<close>) and the terminal that
  may not come back. \<open>std::string\<close> throws on a position behind its end: that is \<open>None\<close>.
\<close>

record 'w editor =
  line :: string
  index :: nat
  kb :: keyboard
  screen :: terminal
  world :: 'w

definition print_char :: "char \<Rightarrow> 'w editor \<Rightarrow> 'w editor" where
  "print_char c s = s\<lparr>screen := putChar (of_char c) (screen s)\<rparr>"

definition prompt :: "'w editor \<Rightarrow> 'w editor" where
  "prompt s = s\<lparr>screen := setColor (vgaEntryColor LightGray Black)
     (write_text [62, 32] (setColor (vgaEntryColor Green Black) (screen s)))\<rparr>"

definition handle_key ::
  "(string \<Rightarrow> 'w \<times> terminal \<Rightarrow> ('w \<times> terminal) option) \<Rightarrow> input_key \<Rightarrow> 'w editor \<Rightarrow> 'w editor option" where
  "handle_key handleInput key s =
     (if key = KeyLeftArrow then
        Some (if 0 < index s then s\<lparr>screen := left 1 True (screen s), index := index s - 1\<rparr> else s)
      else if key = KeyRightArrow then
        Some (if index s < length (line s) then s\<lparr>screen := right 1 True (screen s), index := index s + 1\<rparr> else s)
      else if key = KeyBackspace then
        (if 0 < index s then
           let s = s\<lparr>screen := left 1 True (write_text [32] (left 1 True (screen s))), index := index s - 1\<rparr>
           in if index s \<le> length (line s) then Some (s\<lparr>line := take (index s) (line s)\<rparr>) else None
         else Some s)
      else if key = KeyEnter then do {
        (w, t) \<leftarrow> handleInput (line s) (world s, screen s);
        Some (prompt (s\<lparr>world := w, screen := t, index := 0, line := []\<rparr>))
      }
      else if modifier_of key \<noteq> None \<or> key = KeyCapsLock \<or> key = InvalidKey then Some s
      else do {
        name \<leftarrow> key_string key (kb s);
        if index s \<le> length (line s) \<and> name \<noteq> [] then
          Some (print_char (hd name)
            (s\<lparr>line := take (index s) (line s) @ take 1 name @ drop (index s) (line s), index := index s + 1\<rparr>))
        else None
      })"

definition on_scancode ::
  "(string \<Rightarrow> 'w \<times> terminal \<Rightarrow> ('w \<times> terminal) option) \<Rightarrow> byte \<Rightarrow> 'w editor \<Rightarrow> 'w editor option" where
  "on_scancode handleInput scancode s =
     (if scancode = 0 then Some s
      else let key = snd (scanmapNormal ! unat (and scancode (not 0x80)));
               down = (and scancode 0x80 = 0);
               scancode = (if key = InvalidKey then and scancode 0x80 else scancode);
               s = s\<lparr>kb := onKey key (and scancode 0x80 = 0) (kb s)\<rparr>;
               key = transform key (kb s)
           in if down then handle_key handleInput key s else Some s)"

primrec drain ::
  "(string \<Rightarrow> 'w \<times> terminal \<Rightarrow> ('w \<times> terminal) option) \<Rightarrow> byte list \<Rightarrow> 'w editor \<Rightarrow> 'w editor option" where
  "drain handleInput [] s = Some s"
| "drain handleInput (scancode # fifo) s = do { s \<leftarrow> on_scancode handleInput scancode s; drain handleInput fifo s }"


section \<open>Every key has a name\<close>

lemma keyNames_length: "length keyNames = 232"
  by (simp add: keyNames_def)

lemma scan_keys: "i < 128 \<Longrightarrow> snd (scanmapNormal ! i) < 232"
proof -
  have "list_all (\<lambda>p. snd p < 232) scanmapNormal" "length scanmapNormal = 128"
    by (simp_all add: scanmapNormal_def scan_def invalid_scan_def)
  then show "i < 128 \<Longrightarrow> ?thesis" by (simp add: list_all_length)
qed

lemma table_values: "map_of keypad_table key = Some key' \<Longrightarrow> key' < 232" "map_of shift_table key = Some key' \<Longrightarrow> key' < 232"
proof -
  have "\<forall>p \<in> set keypad_table. snd p < 232" "\<forall>p \<in> set shift_table. snd p < 232"
    by (simp_all add: keypad_table_def shift_table_def)
  then show "map_of keypad_table key = Some key' \<Longrightarrow> key' < 232" "map_of shift_table key = Some key' \<Longrightarrow> key' < 232"
    by (auto dest!: map_of_SomeD)
qed

lemma transform_keys: "key < 232 \<Longrightarrow> transform key k < 232"
  by (auto simp: transform_def Let_def intro: table_values split: option.split)

lemma key_string_ok: "key < 232 \<Longrightarrow> \<exists>name. key_string key k = Some name \<and> name \<noteq> []"
proof -
  have "\<forall>name \<in> set keyNames. name \<noteq> []" by (simp add: keyNames_def)
  then have "key < 232 \<Longrightarrow> keyNames ! key \<noteq> []" using keyNames_length by (metis nth_mem)
  then show "key < 232 \<Longrightarrow> ?thesis" by (auto simp: key_string_def keyNames_length Let_def)
qed

lemma code_range: "unat (and b (not 0x80) :: byte) < 128"
proof -
  have "(not 0x80 :: byte) = 0x7f" unfolding word_eq_iff_unsigned [where ?'a = nat] by simp
  then have "and b (not 0x80) = (and b 0x7f :: byte)" by (simp only:)
  also have "\<dots> = take_bit 7 b" by (simp add: take_bit_eq_mask mask_eq_exp_minus_1)
  finally show ?thesis by (simp add: unsigned_take_bit_eq take_bit_nat_less_exp [of 7, simplified])
qed


section \<open>Editing\<close>

lemma handle_key_ok:
  assumes "\<forall>l x. handle l x \<noteq> None" and "key < 232" and "index s \<le> length (line s)"
  shows "\<exists>s'. handle_key handle key s = Some s' \<and> index s' \<le> length (line s')"
proof -
  obtain w t where "handle (line s) (world s, screen s) = Some (w, t)" using assms(1) by fastforce
  moreover obtain name where "key_string key (kb s) = Some name" "name \<noteq> []" using key_string_ok assms(2) by blast
  ultimately show ?thesis using assms(3)
    by (cases name) (auto simp: handle_key_def Let_def prompt_def print_char_def)
qed

lemma on_scancode_ok:
  assumes "\<forall>l x. handle l x \<noteq> None" and "index s \<le> length (line s)"
  shows "\<exists>s'. on_scancode handle b s = Some s' \<and> index s' \<le> length (line s')"
  using assms handle_key_ok [OF assms(1) transform_keys [OF scan_keys [OF code_range]]]
  by (simp add: on_scancode_def Let_def)

lemma drain_ok:
  assumes "\<forall>l x. handle l x \<noteq> None"
  shows "index s \<le> length (line s) \<Longrightarrow> \<exists>s'. drain handle codes s = Some s' \<and> index s' \<le> length (line s')"
proof (induction codes arbitrary: s)
  case (Cons b codes)
  obtain s' where "on_scancode handle b s = Some s'" "index s' \<le> length (line s')"
    using on_scancode_ok [OF assms Cons.prems] by blast
  with Cons.IH [of s'] show ?case by simp
qed simp

text \<open>The keys of \<open>ascii_codes\<close> change nothing in the keyboard and are handled by the last case.\<close>

definition plain_key :: "input_key \<Rightarrow> bool" where
  "plain_key key \<longleftrightarrow> key \<notin> {KeyLeftArrow, KeyRightArrow, KeyBackspace, KeyEnter, KeyCapsLock, KeyNumLock, InvalidKey} \<and>
     modifier_of key = None"

definition ascii_ok :: "nat \<Rightarrow> bool" where
  "ascii_ok code \<longleftrightarrow> (let key = snd (scanmapNormal ! code); b = word_of_nat code :: byte in
     b \<noteq> 0 \<and> and b 0x80 = 0 \<and> unat (and b (not 0x80)) = code \<and> plain_key key \<and>
     map_of keypad_table key = None \<and> (case map_of shift_table key of None \<Rightarrow> True | Some key' \<Rightarrow> plain_key key'))"

lemma ascii_ok: "code \<in> set ascii_codes \<Longrightarrow> ascii_ok code"
proof -
  have "list_all ascii_ok ascii_codes" by code_simp
  then show "code \<in> set ascii_codes \<Longrightarrow> ?thesis" by (simp add: list_all_iff)
qed

lemma onKey_plain: "plain_key key \<Longrightarrow> onKey key down k = k"
  by (simp add: plain_key_def onKey_def Let_def)

lemma ascii_scancode:
  assumes "code \<in> set ascii_codes" and "typed (kb s) code = Some [c]" and "index s \<le> length (line s)"
  shows "on_scancode handle (word_of_nat code) s = Some (print_char c
    (s\<lparr>line := take (index s) (line s) @ c # drop (index s) (line s), index := index s + 1\<rparr>))"
proof -
  have ok: "ascii_ok code" by (rule ascii_ok [OF assms(1)])
  let ?key = "snd (scanmapNormal ! code)" and ?b = "word_of_nat code :: byte"
  have key: "plain_key ?key" "plain_key (transform ?key (kb s))"
    and bits: "and ?b 0x80 = 0" "unat (and ?b (not 0x80)) = code" "?b \<noteq> 0"
    using ok by (auto simp: ascii_ok_def Let_def transform_def split: option.splits)
  show ?thesis using bits key assms(2,3)
    by (auto simp: on_scancode_def Let_def onKey_plain handle_key_def typed_def plain_key_def)
qed

lemma backspace_scancode:
  assumes "0 < index s" and "index s \<le> length (line s)"
  shows "map_option line (on_scancode handle 0x0e s) = Some (take (index s - 1) (line s))"
proof -
  have key: "snd (scanmapNormal ! 14) = KeyBackspace" by (simp add: scanmapNormal_def scan_def)
  have "transform KeyBackspace k = KeyBackspace" for k
    by (simp add: transform_def Let_def keypad_table_def shift_table_def)
  then show ?thesis using assms key
    by (simp add: on_scancode_def Let_def handle_key_def)
qed


section \<open>Properties\<close>

text \<open>C32. Whatever scan codes arrive, the editor comes back, provided that the commands do: no position is out of the
  line and every key has a name. A key of an ASCII character puts its character in at the cursor. Backspace
  takes away the character before the cursor and all that follow it, since \<open>erase\<close> gets no count.\<close>

theorem editor_edits:
  assumes "index s \<le> length (line s)" and "\<forall>l x. handle l x \<noteq> None"
  shows "(\<exists>s'. drain handle codes s = Some s' \<and> index s' \<le> length (line s')) \<and>
    (code \<in> set ascii_codes \<and> typed (kb s) code = Some [c] \<longrightarrow>
       map_option line (on_scancode handle (word_of_nat code) s) = Some (take (index s) (line s) @ c # drop (index s) (line s))) \<and>
    (0 < index s \<longrightarrow> map_option line (on_scancode handle 0x0e s) = Some (take (index s - 1) (line s)))"
  using drain_ok [OF assms(2,1)] ascii_scancode [OF _ _ assms(1)] backspace_scancode [OF _ assms(1)]
  by (auto simp: print_char_def)

theorem editor_edits_witness:
  "\<exists>s :: unit editor. line s = ''abcd'' \<and> index s = 2 \<and>
     map_option line (on_scancode (\<lambda>_ x. Some x) 0x0e s) = Some ''a''"
proof -
  let ?s = "\<lparr>line = ''abcd'', index = 2, kb = new_keyboard, screen = new_terminal (\<lambda>_. 0), world = ()\<rparr>"
  show ?thesis using editor_edits [of ?s "\<lambda>_ x. Some x"] by (intro exI [of _ ?s]) simp
qed

end
