(* ===== verification/Locks.thy ===== *)
theory Locks
  imports Mutexes
begin

text \<open>
  \<open>Lock\<close> of \<open>include/Mutex.h\<close> and \<open>Locked\<close> of \<open>include/Locked.h\<close>, templates over the class of the mutex: its
  \<open>lock\<close> and \<open>try_unlock\<close> are a record of functions on the state of one mutex, and a \<open>Lock\<close> is the address
  of a mutex or 0 for \<open>nullptr\<close>. One thread runs here, so a loop that waits for another does not come
  back. The locale \<open>lockable\<close> is what the templates ask of the class; \<open>Mutex\<close> and \<open>RecursiveMutex\<close> provide
  it.
\<close>

record 'm mutex_ops =
  m_lock :: "'m \<Rightarrow> (unit \<times> 'm) option"
  m_try_unlock :: "'m \<Rightarrow> (bool \<times> 'm) option"

definition lock_lock :: "'m mutex_ops \<Rightarrow> nat \<Rightarrow> (nat \<Rightarrow> 'm) \<Rightarrow> (unit \<times> (nat \<Rightarrow> 'm)) option" where
  "lock_lock ops l ms = (if l = 0 then None else do { (_, m) \<leftarrow> m_lock ops (ms l); Some ((), ms(l := m)) })"

definition lock_unlock :: "'m mutex_ops \<Rightarrow> nat \<Rightarrow> (nat \<Rightarrow> 'm) \<Rightarrow> (unit \<times> (nat \<Rightarrow> 'm)) option" where
  "lock_unlock ops l ms = (if l = 0 then None else do { (_, m) \<leftarrow> m_try_unlock ops (ms l); Some ((), ms(l := m)) })"

definition lock_construct :: "'m mutex_ops \<Rightarrow> nat \<Rightarrow> (nat \<Rightarrow> 'm) \<Rightarrow> (nat \<times> (nat \<Rightarrow> 'm)) option" where
  "lock_construct ops l ms = do { (_, ms) \<leftarrow> lock_lock ops l ms; Some (l, ms) }"

text \<open>The move takes the mutex of the other lock, which is empty afterwards; what the lock held before is not unlocked.\<close>

definition lock_move :: "nat \<Rightarrow> nat \<Rightarrow> nat \<times> nat" where
  "lock_move self other = (other, 0)"

definition lock_release :: "nat \<Rightarrow> nat" where
  "lock_release self = 0"

definition lock_destruct :: "'m mutex_ops \<Rightarrow> nat \<Rightarrow> (nat \<Rightarrow> 'm) \<Rightarrow> (unit \<times> (nat \<Rightarrow> 'm)) option" where
  "lock_destruct ops l ms = (if l \<noteq> 0 then lock_unlock ops l ms else Some ((), ms))"

text \<open>\<open>Locked::get\<close> assigns a fresh lock on the object's mutex to the caller's.\<close>

definition locked_get :: "'m mutex_ops \<Rightarrow> nat \<Rightarrow> nat \<Rightarrow> (nat \<Rightarrow> 'm) \<Rightarrow> (nat \<times> (nat \<Rightarrow> 'm)) option" where
  "locked_get ops self mtx ms = do {
     (tmp, ms) \<leftarrow> lock_construct ops mtx ms;
     let (self, tmp) = lock_move self tmp;
     (_, ms) \<leftarrow> lock_destruct ops tmp ms;
     Some (self, ms)
   }"


section \<open>What the templates ask of a mutex\<close>

locale lockable =
  fixes ops :: "'m mutex_ops"
    and free :: "'m \<Rightarrow> bool"
    and taken :: "'m \<Rightarrow> bool"
  assumes lock_law: "free m \<Longrightarrow> wp (m_lock ops m) (\<lambda>_. taken)"
    and unlock_law: "taken m \<Longrightarrow> wp (m_try_unlock ops m) (\<lambda>released m'. released \<and> free m')"
begin

lemma get_ok:
  assumes "mtx \<noteq> 0" and "free (ms mtx)"
  shows "wp (locked_get ops self mtx ms) (\<lambda>self' ms'. self' = mtx \<and> taken (ms' mtx) \<and> (\<forall>l. l \<noteq> mtx \<longrightarrow> ms' l = ms l))"
  using lock_law [OF assms(2)] assms(1)
  by (auto simp: locked_get_def lock_construct_def lock_lock_def lock_move_def lock_destruct_def elim!: wp_mono)

lemma destruct_ok:
  assumes "l \<noteq> 0" and "taken (ms l)"
  shows "wp (lock_destruct ops l ms) (\<lambda>_ ms'. free (ms' l) \<and> (\<forall>l'. l' \<noteq> l \<longrightarrow> ms' l' = ms l'))"
  using unlock_law [OF assms(2)] assms(1) by (auto simp: lock_destruct_def lock_unlock_def elim!: wp_mono)

text \<open>The scope of a lock: taken inside, free after the destructor; no other mutex changes.\<close>

lemma scope_ok:
  assumes "mtx \<noteq> 0" and "free (ms mtx)"
  shows "wp (do { (self, ms) \<leftarrow> locked_get ops old mtx ms; lock_destruct ops self ms })
    (\<lambda>_ ms'. free (ms' mtx) \<and> (\<forall>l. l \<noteq> mtx \<longrightarrow> ms' l = ms l))"
  by (rule wp_then [OF get_ok [where ms = ms and mtx = mtx, OF assms]]) (use assms(1) in \<open>auto intro!: wp_mono [OF destruct_ok]\<close>)

end


section \<open>\<open>Mutex\<close>\<close>

definition mutex_lock :: "bool \<Rightarrow> (unit \<times> bool) option" where
  "mutex_lock m = (let (over, m) = mutex_lock_round m in if over then Some ((), m) else None)"

definition plain_mutex :: "bool mutex_ops" where
  "plain_mutex = \<lparr>m_lock = mutex_lock, m_try_unlock = (\<lambda>m. Some (mutex_try_unlock m))\<rparr>"

lemmas mutex_defs = mutex_lock_def mutex_lock_round_def mutex_unlock_def mutex_try_unlock_def exchange_def

interpretation mutex: lockable plain_mutex Not "\<lambda>m. m"
  by unfold_locales (simp_all add: plain_mutex_def mutex_defs)


section \<open>\<open>RecursiveMutex\<close>\<close>

text \<open>The two methods as a thread with the id \<open>t\<close> runs them alone.\<close>

definition sub_lock :: "recursive_mutex \<Rightarrow> (unit \<times> recursive_mutex) option" where
  "sub_lock m = do { (_, b) \<leftarrow> mutex_lock (submutex m); Some ((), m\<lparr>submutex := b\<rparr>) }"

definition sub_unlock :: "recursive_mutex \<Rightarrow> (unit \<times> recursive_mutex) option" where
  "sub_unlock m = do { (_, b) \<leftarrow> mutex_unlock (submutex m); Some ((), m\<lparr>submutex := b\<rparr>) }"

definition recursive_lock :: "nat \<Rightarrow> recursive_mutex \<Rightarrow> (unit \<times> recursive_mutex) option" where
  "recursive_lock t m = do {
     (_, m) \<leftarrow> sub_lock m;
     if \<not> rlocked m \<and> owner m = t then sub_unlock (m\<lparr>depth := depth m + 1\<rparr>)
     else do {
       (_, m) \<leftarrow> sub_unlock m;
       (_, b) \<leftarrow> mutex_lock (rlocked m);
       (_, m) \<leftarrow> sub_lock (m\<lparr>rlocked := b\<rparr>);
       sub_unlock (m\<lparr>owner := t, depth := 1\<rparr>)
     }
   }"

definition recursive_try_unlock :: "nat \<Rightarrow> recursive_mutex \<Rightarrow> (bool \<times> recursive_mutex) option" where
  "recursive_try_unlock t m = do {
     (_, m) \<leftarrow> sub_lock m;
     if rlocked m \<and> owner m = t then
       (if \<not> 0 < depth m then None
        else let m = m\<lparr>depth := depth m - 1\<rparr> in
          if depth m = 0 then do { (_, m) \<leftarrow> sub_unlock (m\<lparr>owner := 0, rlocked := False\<rparr>); Some (True, m) }
          else do { (_, m) \<leftarrow> sub_unlock m; Some (False, m) })
     else do { (_, m) \<leftarrow> sub_unlock m; Some (False, m) }
   }"

lemmas recursive_defs = recursive_lock_def recursive_try_unlock_def sub_lock_def sub_unlock_def mutex_defs

text \<open>They are what the steps of \<open>Mutexes\<close> do when no other thread moves.\<close>

lemma recursive_lock_steps:
  assumes "recursive_lock (tid i) (rmutex s) = Some ((), m)"
  shows "points (alone tid i 8 (s\<lparr>points := (points s)(i := Lock_sub)\<rparr>)) i = Returned True \<and>
    rmutex (alone tid i 8 (s\<lparr>points := (points s)(i := Lock_sub)\<rparr>)) = m"
  using assms
  by (cases "rmutex s") (auto simp: numeral_eq_Suc recursive_defs method_defs gained_def split: if_splits option.splits)

lemma recursive_try_unlock_steps:
  assumes "recursive_try_unlock (tid i) (rmutex s) = Some (r, m)"
  shows "points (alone tid i 4 (s\<lparr>points := (points s)(i := Unlock_sub False)\<rparr>)) i = Returned r \<and>
    rmutex (alone tid i 4 (s\<lparr>points := (points s)(i := Unlock_sub False)\<rparr>)) = m"
  using assms
  by (cases "rmutex s") (auto simp: numeral_eq_Suc recursive_defs method_defs gained_def split: if_splits option.splits)

definition recursive_ops :: "nat \<Rightarrow> recursive_mutex mutex_ops" where
  "recursive_ops t = \<lparr>m_lock = recursive_lock t, m_try_unlock = recursive_try_unlock t\<rparr>"

definition recursive_free :: "nat \<Rightarrow> recursive_mutex \<Rightarrow> bool" where
  "recursive_free t m \<longleftrightarrow> t \<noteq> 0 \<and> \<not> submutex m \<and> \<not> rlocked m \<and> owner m = 0"

definition recursive_taken :: "nat \<Rightarrow> recursive_mutex \<Rightarrow> bool" where
  "recursive_taken t m \<longleftrightarrow> t \<noteq> 0 \<and> \<not> submutex m \<and> rlocked m \<and> owner m = t \<and> depth m = 1"

interpretation recursive: lockable "recursive_ops t" "recursive_free t" "recursive_taken t" for t
  by unfold_locales
    (auto simp: recursive_ops_def recursive_free_def recursive_taken_def recursive_defs split: if_splits)

text \<open>
  The scope of a lock on either kind of mutex, for a thread with an id of its own. With the id 0 a
  \<open>Lock<RecursiveMutex>\<close> locks nothing.
\<close>

lemma lock_scope:
  "mtx \<noteq> 0 \<Longrightarrow> \<not> ms mtx \<Longrightarrow>
     wp (do { (self, ms) \<leftarrow> locked_get plain_mutex old mtx ms; lock_destruct plain_mutex self ms })
       (\<lambda>_ ms'. \<not> ms' mtx \<and> (\<forall>l. l \<noteq> mtx \<longrightarrow> ms' l = ms l))"
  "mtx \<noteq> 0 \<Longrightarrow> recursive_free t (rms mtx) \<Longrightarrow>
     wp (do { (self, ms) \<leftarrow> locked_get (recursive_ops t) old mtx rms; lock_destruct (recursive_ops t) self ms })
       (\<lambda>_ ms'. recursive_free t (ms' mtx) \<and> (\<forall>l. l \<noteq> mtx \<longrightarrow> ms' l = rms l))"
  by (rule mutex.scope_ok recursive.scope_ok; assumption)+

lemma lock_scope_id_0:
  assumes "mtx \<noteq> 0" and "rms mtx = new_recursive_mutex"
  shows "wp (locked_get (recursive_ops 0) old mtx rms) (\<lambda>_ ms'. \<not> rlocked (ms' mtx))"
  using assms
  by (simp add: locked_get_def lock_construct_def lock_lock_def lock_move_def lock_destruct_def recursive_ops_def
    new_recursive_mutex_def recursive_defs)

end
