(* ===== verification/Ports.thy ===== *)
theory Ports
  imports Prelude
begin

text \<open>
  The instructions of \<open>src/hardware/Ports.cpp\<close> and the string transfers of the IDE driver: functions on
  the state \<open>'p\<close> of what is behind the ports, an argument of every definition that uses them. Most
  drivers use bytes only; the configuration space of PCI is also reached through words.
\<close>

record 'p ports =
  inb :: "nat \<Rightarrow> 'p \<Rightarrow> byte \<times> 'p"
  outb :: "nat \<Rightarrow> byte \<Rightarrow> 'p \<Rightarrow> 'p"
  insw :: "nat \<Rightarrow> nat \<Rightarrow> 'p \<Rightarrow> byte list \<times> 'p"
  outsw :: "nat \<Rightarrow> byte list \<Rightarrow> 'p \<Rightarrow> 'p"
  insl :: "nat \<Rightarrow> nat \<Rightarrow> 'p \<Rightarrow> byte list \<times> 'p"

record 'p wide_ports =
  in_byte :: "nat \<Rightarrow> 'p \<Rightarrow> byte \<times> 'p"
  in_word :: "nat \<Rightarrow> 'p \<Rightarrow> 16 word \<times> 'p"
  in_long :: "nat \<Rightarrow> 'p \<Rightarrow> 32 word \<times> 'p"
  out_byte :: "nat \<Rightarrow> byte \<Rightarrow> 'p \<Rightarrow> 'p"
  out_word :: "nat \<Rightarrow> 16 word \<Rightarrow> 'p \<Rightarrow> 'p"
  out_long :: "nat \<Rightarrow> 32 word \<Rightarrow> 'p \<Rightarrow> 'p"

end
