(* ===== verification/IDE.thy ===== *)
theory IDE
  imports Storage Ports
begin

text \<open>
  The driver of IDE disks, \<open>src/hardware/IDE.cpp\<close>, and the device on top of it,
  \<open>src/device/IDEDevice.cpp\<close>. The driver talks to the disk through ports only: the instructions of
  \<open>src/hardware/Ports.cpp\<close> and the string transfers are a record of functions on the state \<open>'p\<close> of what
  is behind the ports, an argument of every definition. Delays and messages are left out.

  A loop that waits for the disk is a \<open>partial_function (option)\<close>. A transfer into a buffer returns the
  bytes that it stores, from the start of the buffer on; one that reads its buffer takes a list.
\<close>

definition SECTOR_SIZE :: nat where
  "SECTOR_SIZE = 512"

text \<open>\<open>Device\<close> and \<open>ChannelRegisters\<close>.\<close>

datatype ide_type = IDE_ATA | IDE_ATAPI

record ide_drive =
  d_reserved :: bool
  d_channel :: nat
  d_drive :: nat
  d_type :: ide_type
  d_signature :: "16 word"
  d_capabilities :: "16 word"
  d_commandSets :: "32 word"
  d_size :: nat
  d_model :: "byte list"

record channel_registers =
  c_base :: nat
  c_ctrl :: nat
  c_bmide :: nat
  c_nIEN :: byte

record 'p ide =
  devices :: "nat \<Rightarrow> ide_drive"
  channels :: "nat \<Rightarrow> channel_registers"
  ideStatus :: nat
  irqInvoked :: bool
  io :: 'p

text \<open>Registers, status bits, commands and error numbers.\<close>

abbreviation (input) ATA_REG_DATA :: nat where "ATA_REG_DATA \<equiv> 0x00"
abbreviation (input) ATA_REG_ERROR :: nat where "ATA_REG_ERROR \<equiv> 0x01"
abbreviation (input) ATA_REG_FEATURES :: nat where "ATA_REG_FEATURES \<equiv> 0x01"
abbreviation (input) ATA_REG_SECCOUNT0 :: nat where "ATA_REG_SECCOUNT0 \<equiv> 0x02"
abbreviation (input) ATA_REG_LBA0 :: nat where "ATA_REG_LBA0 \<equiv> 0x03"
abbreviation (input) ATA_REG_LBA1 :: nat where "ATA_REG_LBA1 \<equiv> 0x04"
abbreviation (input) ATA_REG_LBA2 :: nat where "ATA_REG_LBA2 \<equiv> 0x05"
abbreviation (input) ATA_REG_HDDEVSEL :: nat where "ATA_REG_HDDEVSEL \<equiv> 0x06"
abbreviation (input) ATA_REG_COMMAND :: nat where "ATA_REG_COMMAND \<equiv> 0x07"
abbreviation (input) ATA_REG_STATUS :: nat where "ATA_REG_STATUS \<equiv> 0x07"
abbreviation (input) ATA_REG_SECCOUNT1 :: nat where "ATA_REG_SECCOUNT1 \<equiv> 0x08"
abbreviation (input) ATA_REG_LBA3 :: nat where "ATA_REG_LBA3 \<equiv> 0x09"
abbreviation (input) ATA_REG_LBA4 :: nat where "ATA_REG_LBA4 \<equiv> 0x0a"
abbreviation (input) ATA_REG_LBA5 :: nat where "ATA_REG_LBA5 \<equiv> 0x0b"
abbreviation (input) ATA_REG_CONTROL :: nat where "ATA_REG_CONTROL \<equiv> 0x0c"
abbreviation (input) ATA_REG_ALTSTATUS :: nat where "ATA_REG_ALTSTATUS \<equiv> 0x0c"

abbreviation (input) ATA_SR_BSY :: byte where "ATA_SR_BSY \<equiv> 0x80"
abbreviation (input) ATA_SR_DF :: byte where "ATA_SR_DF \<equiv> 0x20"
abbreviation (input) ATA_SR_DRQ :: byte where "ATA_SR_DRQ \<equiv> 0x08"
abbreviation (input) ATA_SR_ERR :: byte where "ATA_SR_ERR \<equiv> 0x01"

abbreviation (input) EIO :: nat where "EIO \<equiv> 5"
abbreviation (input) ENXIO :: nat where "ENXIO \<equiv> 6"
abbreviation (input) EINVAL :: nat where "EINVAL \<equiv> 22"


section \<open>Registers\<close>

text \<open>The chain of conditions shared by \<open>read\<close>, \<open>write\<close> and \<open>readBuffer\<close>.\<close>

definition reg_port :: "channel_registers \<Rightarrow> nat \<Rightarrow> nat option" where
  "reg_port c reg =
     (if reg < 0x08 then Some ((c_base c + reg) mod 2 ^ 16)
      else if reg < 0x0c then Some ((c_base c + reg - 0x06) mod 2 ^ 16)
      else if reg < 0x0e then Some ((c_ctrl c + reg - 0x0a) mod 2 ^ 16)
      else if reg < 0x16 then Some ((c_bmide c + reg - 0x0e) mod 2 ^ 16)
      else None)"

definition write_port :: "'p ports \<Rightarrow> nat \<Rightarrow> nat \<Rightarrow> byte \<Rightarrow> 'p ide \<Rightarrow> 'p ide" where
  "write_port P channel reg data s =
     (case reg_port (channels s channel) reg of
        None \<Rightarrow> s
      | Some port \<Rightarrow> s\<lparr>io := outb P port data (io s)\<rparr>)"

text \<open>The high registers are reached with the bit 0x80 of the control register set around the access.\<close>

definition high_bank :: "'p ports \<Rightarrow> nat \<Rightarrow> nat \<Rightarrow> bool \<Rightarrow> 'p ide \<Rightarrow> 'p ide" where
  "high_bank P channel reg on s =
     (if 0x07 < reg \<and> reg < 0x0c then
        write_port P channel ATA_REG_CONTROL
          (if on then or 0x80 (c_nIEN (channels s channel)) else c_nIEN (channels s channel)) s
      else s)"

definition write_reg :: "'p ports \<Rightarrow> nat \<Rightarrow> nat \<Rightarrow> byte \<Rightarrow> 'p ide \<Rightarrow> 'p ide" where
  "write_reg P channel reg data s =
     high_bank P channel reg False (write_port P channel reg data (high_bank P channel reg True s))"

definition read_reg :: "'p ports \<Rightarrow> nat \<Rightarrow> nat \<Rightarrow> 'p ide \<Rightarrow> byte \<times> 'p ide" where
  "read_reg P channel reg s =
     (let s = high_bank P channel reg True s;
          (result, s) = (case reg_port (channels s channel) reg of
             None \<Rightarrow> (0, s)
           | Some port \<Rightarrow> (case inb P port (io s) of (r, p) \<Rightarrow> (r, s\<lparr>io := p\<rparr>)))
      in (result, high_bank P channel reg False s))"

definition readBuffer :: "'p ports \<Rightarrow> nat \<Rightarrow> nat \<Rightarrow> nat \<Rightarrow> 'p ide \<Rightarrow> byte list \<times> 'p ide" where
  "readBuffer P channel reg quads s =
     (let s = high_bank P channel reg True s;
          (result, s) = (case reg_port (channels s channel) reg of
             None \<Rightarrow> ([], s)
           | Some port \<Rightarrow> (case insl P port quads (io s) of (r, p) \<Rightarrow> (r, s\<lparr>io := p\<rparr>)))
      in (result, high_bank P channel reg False s))"

text \<open>\<open>while (read(channel, ATA_REG_STATUS) & mask);\<close>\<close>

partial_function (option) wait_clear :: "'p ports \<Rightarrow> nat \<Rightarrow> byte \<Rightarrow> 'p ide \<Rightarrow> (unit \<times> 'p ide) option" where
  "wait_clear P channel bits s =
     (case read_reg P channel ATA_REG_STATUS s of
        (status, s) \<Rightarrow> if and status bits \<noteq> 0 then wait_clear P channel bits s else Some ((), s))"

definition skip_altstatus :: "'p ports \<Rightarrow> nat \<Rightarrow> 'p ide \<Rightarrow> 'p ide" where
  "skip_altstatus P channel s = ((\<lambda>s. snd (read_reg P channel ATA_REG_ALTSTATUS s)) ^^ 4) s"

definition polling :: "'p ports \<Rightarrow> nat \<Rightarrow> bool \<Rightarrow> 'p ide \<Rightarrow> (nat \<times> 'p ide) option" where
  "polling P channel advanced_check s = do {
     (_, s) \<leftarrow> wait_clear P channel ATA_SR_BSY (skip_altstatus P channel s);
     if advanced_check then
       (case read_reg P channel ATA_REG_STATUS s of
          (state, s) \<Rightarrow>
            if and state (or ATA_SR_DF ATA_SR_ERR) \<noteq> 0 \<or> and state ATA_SR_DRQ = 0 then Some (EIO, s) else Some (0, s))
     else Some (0, s)
   }"


section \<open>Transfers of sectors\<close>

text \<open>How the address is put into registers: the mode, six bytes and the low bits of the device register.\<close>

datatype lba_mode = CHS | LBA28 | LBA48

definition lba_registers :: "ide_drive \<Rightarrow> nat \<Rightarrow> lba_mode \<times> byte list \<times> byte" where
  "lba_registers d lba =
     (if 0x10000000 \<le> lba then
        (LBA48, [word_of_nat (lba mod 256), word_of_nat (lba div 2 ^ 8 mod 256), word_of_nat (lba div 2 ^ 16 mod 256),
                 word_of_nat (lba div 2 ^ 24 mod 256), 0, 0], 0)
      else if and (d_capabilities d) 0x200 \<noteq> 0 then
        (LBA28, [word_of_nat (lba mod 256), word_of_nat (lba div 2 ^ 8 mod 256), word_of_nat (lba div 2 ^ 16 mod 256),
                 0, 0, 0], word_of_nat (lba div 2 ^ 24 mod 16))
      else
        let sect = lba mod 63 + 1; cyl = ((lba + 1 - sect) div (16 * 63)) mod 2 ^ 16
        in (CHS, [word_of_nat sect, word_of_nat (cyl mod 256), word_of_nat (cyl div 256 mod 256), 0, 0, 0],
            word_of_nat ((lba + 1 - sect) mod (16 * 63) div 63)))"

primrec read_sectors :: "'p ports \<Rightarrow> nat \<Rightarrow> nat \<Rightarrow> nat \<Rightarrow> byte list \<Rightarrow> 'p ide \<Rightarrow> ((nat \<times> byte list) \<times> 'p ide) option" where
  "read_sectors P channel bus 0 out s = Some ((0, out), s)"
| "read_sectors P channel bus (Suc n) out s = do {
     (err, s) \<leftarrow> polling P channel True s;
     if err \<noteq> 0 then Some ((err, out), s)
     else case insw P bus 256 (io s) of
       (got, p) \<Rightarrow> read_sectors P channel bus n (out @ got) (s\<lparr>io := p\<rparr>)
   }"

primrec write_sectors :: "'p ports \<Rightarrow> nat \<Rightarrow> nat \<Rightarrow> nat \<Rightarrow> byte list \<Rightarrow> 'p ide \<Rightarrow> (unit \<times> 'p ide) option" where
  "write_sectors P channel bus 0 buffer s = Some ((), s)"
| "write_sectors P channel bus (Suc n) buffer s = do {
     (_, s) \<leftarrow> polling P channel False s;
     write_sectors P channel bus n (drop 512 buffer) (s\<lparr>io := outsw P bus (take 512 buffer) (io s)\<rparr>)
   }"

text \<open>
  The part of \<open>accessATA\<close> up to the command: it waits, selects the drive and writes the parameters.
  The command is one of the PIO commands, since \<open>dma\<close> is 0.
\<close>

definition select_sectors ::
  "'p ports \<Rightarrow> bool \<Rightarrow> nat \<Rightarrow> nat \<Rightarrow> nat \<Rightarrow> 'p ide \<Rightarrow> (lba_mode \<times> 'p ide) option" where
  "select_sectors P writing drive lba numsects s = do {
     let channel = d_channel (devices s drive);
     let slavebit = d_drive (devices s drive);
     let s = s\<lparr>irqInvoked := False, channels := (channels s)(channel := (channels s channel)\<lparr>c_nIEN := 0x02\<rparr>)\<rparr>;
     let s = write_reg P channel ATA_REG_CONTROL 0x02 s;
     let (mode, lba_io, head) = lba_registers (devices s drive) lba;
     (_, s) \<leftarrow> wait_clear P channel ATA_SR_BSY s;
     let s = write_reg P channel ATA_REG_HDDEVSEL
       (or (or (if mode = CHS then 0xa0 else 0xe0) (push_bit 4 (word_of_nat slavebit))) head) s;
     let s = (if mode = LBA48 then
         write_reg P channel ATA_REG_LBA5 (lba_io ! 5)
          (write_reg P channel ATA_REG_LBA4 (lba_io ! 4)
            (write_reg P channel ATA_REG_LBA3 (lba_io ! 3)
              (write_reg P channel ATA_REG_SECCOUNT1 0 s)))
       else s);
     let s = write_reg P channel ATA_REG_SECCOUNT0 (word_of_nat numsects) s;
     let s = write_reg P channel ATA_REG_LBA0 (lba_io ! 0) s;
     let s = write_reg P channel ATA_REG_LBA1 (lba_io ! 1) s;
     let s = write_reg P channel ATA_REG_LBA2 (lba_io ! 2) s;
     let cmd = (if \<not> writing then (if mode = LBA48 then 0x24 else 0x20) else (if mode = LBA48 then 0x34 else 0x30));
     Some (mode, write_reg P channel ATA_REG_COMMAND cmd s)
   }"

definition accessATA_read :: "'p ports \<Rightarrow> nat \<Rightarrow> nat \<Rightarrow> nat \<Rightarrow> 'p ide \<Rightarrow> ((nat \<times> byte list) \<times> 'p ide) option" where
  "accessATA_read P drive lba numsects s = do {
     let channel = d_channel (devices s drive);
     let bus = c_base (channels s channel);
     (mode, s) \<leftarrow> select_sectors P False drive lba numsects s;
     read_sectors P channel bus numsects [] s
   }"

definition accessATA_write :: "'p ports \<Rightarrow> nat \<Rightarrow> nat \<Rightarrow> nat \<Rightarrow> byte list \<Rightarrow> 'p ide \<Rightarrow> (nat \<times> 'p ide) option" where
  "accessATA_write P drive lba numsects buffer s = do {
     let channel = d_channel (devices s drive);
     let bus = c_base (channels s channel);
     (mode, s) \<leftarrow> select_sectors P True drive lba numsects s;
     (_, s) \<leftarrow> write_sectors P channel bus numsects buffer s;
     let s = write_reg P channel ATA_REG_COMMAND (if mode = LBA48 then 0xea else 0xe7) s;
     (_, s) \<leftarrow> polling P channel False s;
     Some (0, s)
   }"

text \<open>
  \<open>readATAPI\<close>. \<open>waitIRQ\<close> spins until \<open>irqInvoked\<close> is set, and no code sets it: the interrupt handlers for
  the two channels have the assignment commented out.
\<close>

definition waitIRQ :: "'p ide \<Rightarrow> (unit \<times> 'p ide) option" where
  "waitIRQ s = (if irqInvoked s then Some ((), s\<lparr>irqInvoked := False\<rparr>) else None)"

definition readATAPI :: "'p ports \<Rightarrow> nat \<Rightarrow> nat \<Rightarrow> 'p ide \<Rightarrow> ((nat \<times> byte list) \<times> 'p ide) option" where
  "readATAPI P drive lba s = do {
     let channel = d_channel (devices s drive);
     let slavebit = d_drive (devices s drive);
     let bus = c_base (channels s channel);
     let s = s\<lparr>irqInvoked := False, channels := (channels s)(channel := (channels s channel)\<lparr>c_nIEN := 0\<rparr>)\<rparr>;
     let s = write_reg P channel ATA_REG_CONTROL 0 s;
     let packet = [0xa8, 0, word_of_nat (lba div 2 ^ 24 mod 256), word_of_nat (lba div 2 ^ 16 mod 256),
       word_of_nat (lba div 2 ^ 8 mod 256), word_of_nat (lba mod 256), 0, 0, 0, 1, 0, 0];
     let s = write_reg P channel ATA_REG_HDDEVSEL (push_bit 4 (word_of_nat slavebit)) s;
     let s = skip_altstatus P channel s;
     let s = write_reg P channel ATA_REG_FEATURES 0 s;
     let s = write_reg P channel ATA_REG_LBA1 (word_of_nat (1024 * 2 mod 256)) s;
     let s = write_reg P channel ATA_REG_LBA2 (word_of_nat (1024 * 2 div 256)) s;
     let s = write_reg P channel ATA_REG_COMMAND 0xa0 s;
     (err, s) \<leftarrow> polling P channel True s;
     if err \<noteq> 0 then Some ((err, []), s)
     else do {
       (_, s) \<leftarrow> waitIRQ (s\<lparr>io := outsw P bus packet (io s)\<rparr>);
       (err, s) \<leftarrow> polling P channel True s;
       if err \<noteq> 0 then Some ((err, []), s)
       else do {
         let (got, p) = insw P bus 1024 (io s);
         (_, s) \<leftarrow> waitIRQ (s\<lparr>io := p\<rparr>);
         (_, s) \<leftarrow> wait_clear P channel (or ATA_SR_BSY ATA_SR_DRQ) s;
         Some ((0, got), s)
       }
     }
   }"

primrec readATAPI_loop ::
  "'p ports \<Rightarrow> nat \<Rightarrow> nat \<Rightarrow> nat \<Rightarrow> nat \<Rightarrow> byte list \<Rightarrow> 'p ide \<Rightarrow> ((nat \<times> byte list) \<times> 'p ide) option" where
  "readATAPI_loop P drive lba 0 err out s = Some ((err, out), s)"
| "readATAPI_loop P drive lba (Suc n) err out s = do {
     ((err, got), s) \<leftarrow> readATAPI P drive lba s;
     readATAPI_loop P drive (u32 (int lba + 1)) n err (out @ got) s
   }"

text \<open>\<open>printError\<close> turns an error into a number of its own; for error 2 the last set bit decides.\<close>

definition printError :: "'p ports \<Rightarrow> nat \<Rightarrow> nat \<Rightarrow> 'p ide \<Rightarrow> nat \<times> 'p ide" where
  "printError P drive err s =
     (if err = 0 then (0, s)
      else if err = 1 then (19, s)
      else if err = 2 then
        (case read_reg P (d_channel (devices s drive)) ATA_REG_ERROR s of (st, s) \<Rightarrow>
          (let err = (if and st 0x01 \<noteq> 0 then 7 else err);
               err = (if and st 0x02 \<noteq> 0 then 3 else err);
               err = (if and st 0x04 \<noteq> 0 then 20 else err);
               err = (if and st 0x08 \<noteq> 0 then 3 else err);
               err = (if and st 0x10 \<noteq> 0 then 21 else err);
               err = (if and st 0x20 \<noteq> 0 then 3 else err);
               err = (if and st 0x40 \<noteq> 0 then 22 else err);
               err = (if and st 0x80 \<noteq> 0 then 13 else err)
           in (err, s)))
      else if err = 3 then (23, s)
      else if err = 4 then (8, s)
      else (err, s))"

text \<open>The number of sectors is a \<open>uint8_t\<close>, the address a \<open>uint32_t\<close>.\<close>

definition readSectors :: "'p ports \<Rightarrow> nat \<Rightarrow> nat \<Rightarrow> nat \<Rightarrow> 'p ide \<Rightarrow> ((int \<times> byte list) \<times> 'p ide) option" where
  "readSectors P drive numsects lba s =
     (let numsects = numsects mod 2 ^ 8; lba = lba mod 2 ^ 32 in
      if 3 < drive \<or> \<not> d_reserved (devices s drive) then Some ((- int ENXIO, []), s)
      else if d_size (devices s drive) < u32 (int (lba + numsects)) \<and> d_type (devices s drive) = IDE_ATA then
        Some ((- int EINVAL, []), s)
      else do {
        ((err, got), s) \<leftarrow> (case d_type (devices s drive) of
            IDE_ATA \<Rightarrow> accessATA_read P drive lba numsects s
          | IDE_ATAPI \<Rightarrow> readATAPI_loop P drive lba numsects 0 [] s);
        let (status, s) = printError P drive err s;
        Some ((- int status, got), s)
      })"

definition writeSectors :: "'p ports \<Rightarrow> nat \<Rightarrow> nat \<Rightarrow> nat \<Rightarrow> byte list \<Rightarrow> 'p ide \<Rightarrow> (int \<times> 'p ide) option" where
  "writeSectors P drive numsects lba buffer s =
     (let numsects = numsects mod 2 ^ 8; lba = lba mod 2 ^ 32 in
      if 3 < drive \<or> \<not> d_reserved (devices s drive) then Some (- 1, s\<lparr>ideStatus := 1\<rparr>)
      else if d_size (devices s drive) < u32 (int (lba + numsects)) \<and> d_type (devices s drive) = IDE_ATA then
        Some (- 2, s\<lparr>ideStatus := 2\<rparr>)
      else do {
        (err, s) \<leftarrow> (case d_type (devices s drive) of
            IDE_ATA \<Rightarrow> accessATA_write P drive lba numsects buffer s
          | IDE_ATAPI \<Rightarrow> Some (4, s));
        let (status, s) = printError P drive err s;
        Some (- int status, s\<lparr>ideStatus := status\<rparr>)
      })"


section \<open>Transfers of bytes\<close>

text \<open>The loop of \<open>readBytes\<close>; \<open>offset\<close> is the one in the first sector.\<close>

partial_function (option) readBytes_loop ::
  "'p ports \<Rightarrow> nat \<Rightarrow> nat \<Rightarrow> nat \<Rightarrow> nat \<Rightarrow> byte list \<Rightarrow> 'p ide \<Rightarrow> ((int \<times> byte list) \<times> 'p ide) option" where
  "readBytes_loop P drive bytes offset lba out s =
     (if 0 < bytes then do {
        ((status, read_buffer), s) \<leftarrow> readSectors P drive 1 lba s;
        if status \<noteq> 0 then Some ((status, out), s)
        else let to_copy = (if SECTOR_SIZE - offset < bytes then SECTOR_SIZE - offset else bytes) in
          readBytes_loop P drive (bytes - to_copy) 0 (u32 (int lba + 1)) (out @ take to_copy (drop offset read_buffer)) s
      }
      else Some ((0, out), s))"

definition readBytes :: "'p ports \<Rightarrow> nat \<Rightarrow> nat \<Rightarrow> nat \<Rightarrow> 'p ide \<Rightarrow> ((int \<times> byte list) \<times> 'p ide) option" where
  "readBytes P drive bytes offset s =
     readBytes_loop P drive bytes (offset mod SECTOR_SIZE) (u32 (int (offset div SECTOR_SIZE))) [] s"

text \<open>The loop of \<open>writeBytes\<close>; what is left of the buffer is the list.\<close>

partial_function (option) writeBytes_loop ::
  "'p ports \<Rightarrow> nat \<Rightarrow> byte list \<Rightarrow> nat \<Rightarrow> 'p ide \<Rightarrow> (int \<times> 'p ide) option" where
  "writeBytes_loop P drive cbuffer lba s =
     (if cbuffer = [] then Some (0, s)
      else if length cbuffer < SECTOR_SIZE then do {
        ((status, write_buffer), s) \<leftarrow> readSectors P drive 1 lba s;
        if status \<noteq> 0 then Some (status, s)
        else do {
          (status, s) \<leftarrow> writeSectors P drive 1 lba (cbuffer @ drop (length cbuffer) write_buffer) s;
          Some (status, s)
        }
      }
      else do {
        (status, s) \<leftarrow> writeSectors P drive 1 lba cbuffer s;
        if status \<noteq> 0 then Some (status, s)
        else writeBytes_loop P drive (drop SECTOR_SIZE cbuffer) (u32 (int lba + 1)) s
      })"

definition writeBytes :: "'p ports \<Rightarrow> nat \<Rightarrow> nat \<Rightarrow> byte list \<Rightarrow> 'p ide \<Rightarrow> (int \<times> 'p ide) option" where
  "writeBytes P drive offset buffer s =
     (let lba = u32 (int (offset div SECTOR_SIZE)); offset = offset mod SECTOR_SIZE; bytes = length buffer in
      if bytes mod SECTOR_SIZE = 0 \<and> offset = 0 then writeSectors P drive (bytes div SECTOR_SIZE) lba buffer s
      else if offset \<noteq> 0 then do {
        ((status, write_buffer), s) \<leftarrow> readSectors P drive 1 lba s;
        if status \<noteq> 0 then Some (status, s)
        else let to_write = (if SECTOR_SIZE - offset < bytes then SECTOR_SIZE - offset else bytes) in do {
          (status, s) \<leftarrow> writeSectors P drive 1 lba
            (take offset write_buffer @ take to_write buffer @ drop (offset + to_write) write_buffer) s;
          if status \<noteq> 0 then Some (status, s)
          else writeBytes_loop P drive (drop to_write buffer) (u32 (int lba + 1)) s
        }
      }
      else writeBytes_loop P drive buffer lba s)"


section \<open>The device\<close>

definition ide_read :: "'p ports \<Rightarrow> nat \<Rightarrow> nat \<Rightarrow> nat \<Rightarrow> 'p ide \<Rightarrow> ((int \<times> byte list) \<times> 'p ide) option" where
  "ide_read P ideID sz offset s =
     (if offset mod SECTOR_SIZE = 0 \<and> sz mod SECTOR_SIZE = 0 then
        readSectors P ideID (sz div SECTOR_SIZE) (offset div SECTOR_SIZE) s
      else readBytes P ideID sz offset s)"

definition ide_write :: "'p ports \<Rightarrow> nat \<Rightarrow> byte list \<Rightarrow> nat \<Rightarrow> 'p ide \<Rightarrow> (int \<times> 'p ide) option" where
  "ide_write P ideID buffer offset s =
     (if offset mod SECTOR_SIZE = 0 \<and> length buffer mod SECTOR_SIZE = 0 then
        writeSectors P ideID (length buffer div SECTOR_SIZE) (offset div SECTOR_SIZE) buffer s
      else writeBytes P ideID offset buffer s)"

text \<open>
  \<open>clear\<close>: sector by sector, or in chunks from a buffer that is not initialised (\<open>junk\<close>). When there
  is no sector to clear the status is not initialised either.
\<close>

fun clear_sectors :: "'p ports \<Rightarrow> nat \<Rightarrow> nat \<Rightarrow> nat \<Rightarrow> 'p ide \<Rightarrow> (int \<times> 'p ide) option" where
  "clear_sectors P ideID lba 0 s = None"
| "clear_sectors P ideID lba (Suc n) s = do {
     (status, s) \<leftarrow> writeSectors P ideID 1 lba (replicate SECTOR_SIZE 0) s;
     if status \<noteq> 0 \<or> n = 0 then Some (status, s) else clear_sectors P ideID (lba + 1) n s
   }"

partial_function (option) chunk_size :: "nat \<Rightarrow> nat \<Rightarrow> nat option" where
  "chunk_size sz chunk = (if even sz \<and> chunk < SECTOR_SIZE then chunk_size (sz div 2) (chunk * 2) else Some chunk)"

primrec clear_chunks :: "'p ports \<Rightarrow> nat \<Rightarrow> nat \<Rightarrow> byte list \<Rightarrow> nat \<Rightarrow> 'p ide \<Rightarrow> (int \<times> 'p ide) option" where
  "clear_chunks P ideID offset buffer 0 s = Some (0, s)"
| "clear_chunks P ideID offset buffer (Suc n) s = do {
     (status, s) \<leftarrow> writeBytes P ideID offset buffer s;
     if status \<noteq> 0 then Some (status, s)
     else clear_chunks P ideID (wrap64 (offset + length buffer)) buffer n s
   }"

definition ide_clear :: "'p ports \<Rightarrow> (nat \<Rightarrow> byte) \<Rightarrow> nat \<Rightarrow> nat \<Rightarrow> nat \<Rightarrow> 'p ide \<Rightarrow> (int \<times> 'p ide) option" where
  "ide_clear P junk ideID offset sz s =
     (if offset mod SECTOR_SIZE = 0 \<and> sz mod SECTOR_SIZE = 0 then
        clear_sectors P ideID (offset div SECTOR_SIZE) (sz div SECTOR_SIZE) s
      else do {
        chunk \<leftarrow> chunk_size sz 1;
        clear_chunks P ideID offset (map junk [0..<chunk]) (sz div chunk) s
      })"

definition getName :: "nat \<Rightarrow> 'p ide \<Rightarrow> byte list" where
  "getName ideID s = takeWhile (\<lambda>b. b \<noteq> 0) (d_model (devices s ideID))"

definition ide_ops :: "'p ports \<Rightarrow> (nat \<Rightarrow> byte) \<Rightarrow> nat \<Rightarrow> 'p ide storage" where
  "ide_ops P junk ideID =
     \<lparr>sread = ide_read P ideID, swrite = ide_write P ideID, sclear = ide_clear P junk ideID\<rparr>"


section \<open>Detection\<close>

text \<open>\<open>bar\<close> without its two low bits, or the legacy port when it is 0; a \<open>uint16_t\<close>.\<close>

definition bar_port :: "nat \<Rightarrow> nat \<Rightarrow> nat" where
  "bar_port bar legacy = (bar div 4 * 4 + (if bar = 0 then legacy else 0)) mod 2 ^ 16"

definition set_channels :: "nat \<Rightarrow> nat \<Rightarrow> nat \<Rightarrow> nat \<Rightarrow> nat \<Rightarrow> 'p ide \<Rightarrow> 'p ide" where
  "set_channels bar0 bar1 bar2 bar3 bar4 s =
     s\<lparr>channels := (channels s)
        (0 := (channels s 0)\<lparr>c_base := bar_port bar0 0x1f0, c_ctrl := bar_port bar1 0x3f6, c_bmide := bar4 div 4 * 4 mod 2 ^ 16\<rparr>,
         1 := (channels s 1)\<lparr>c_base := bar_port bar2 0x170, c_ctrl := bar_port bar3 0x376, c_bmide := (bar4 div 4 * 4 + 8) mod 2 ^ 16\<rparr>)\<rparr>"

text \<open>The wait for the answer to IDENTIFY: the error bit, or not busy and data to read.\<close>

partial_function (option) wait_identify :: "'p ports \<Rightarrow> nat \<Rightarrow> 'p ide \<Rightarrow> (bool \<times> 'p ide) option" where
  "wait_identify P i s =
     (case read_reg P i ATA_REG_STATUS s of (status, s) \<Rightarrow>
        if and status ATA_SR_ERR \<noteq> 0 then Some (True, s)
        else if and status ATA_SR_BSY = 0 \<and> and status ATA_SR_DRQ \<noteq> 0 then Some (False, s)
        else wait_identify P i s)"

text \<open>A field of the answer, and the drive that it describes; the bytes of the model come in pairs.\<close>

definition ident_field :: "byte list \<Rightarrow> nat \<Rightarrow> nat \<Rightarrow> nat" where
  "ident_field buf at n = le_nat (take n (drop at buf))"

definition identified :: "ide_type \<Rightarrow> nat \<Rightarrow> nat \<Rightarrow> byte list \<Rightarrow> ide_drive" where
  "identified type i j buf =
     (let sets = word_of_nat (ident_field buf 164 4) in
      \<lparr>d_reserved = True, d_channel = i, d_drive = j, d_type = type, d_signature = word_of_nat (ident_field buf 0 2),
       d_capabilities = word_of_nat (ident_field buf 98 2), d_commandSets = sets,
       d_size = (if bit sets 26 then ident_field buf 200 4 else ident_field buf 120 4),
       d_model = concat (map (\<lambda>k. [buf ! (54 + 2 * k + 1), buf ! (54 + 2 * k)]) [0..<20]) @ [0]\<rparr>)"

text \<open>
  One round of the loops over channels and drives. \<open>count\<close> is the slot for the next drive; a drive that
  does not answer leaves it. The identification fills the first 512 bytes of \<open>ideBuffer\<close>.
\<close>

definition probe :: "'p ports \<Rightarrow> nat \<Rightarrow> nat \<Rightarrow> nat \<Rightarrow> 'p ide \<Rightarrow> (nat \<times> 'p ide) option" where
  "probe P i j count s = do {
     let s = s\<lparr>devices := (devices s)(count := (devices s count)\<lparr>d_reserved := False\<rparr>)\<rparr>;
     let s = write_reg P i ATA_REG_HDDEVSEL (or 0xa0 (push_bit 4 (word_of_nat j))) s;
     let s = write_reg P i ATA_REG_COMMAND 0xec s;
     let (status, s) = read_reg P i ATA_REG_STATUS s;
     if status = 0 then Some (count, s)
     else do {
       (err, s) \<leftarrow> wait_identify P i s;
       let ((cl, ch), s) =
         (if err then
            case read_reg P i ATA_REG_LBA1 s of (cl, s) \<Rightarrow>
            case read_reg P i ATA_REG_LBA2 s of (ch, s) \<Rightarrow> ((cl, ch), s)
          else ((0, 0), s));
       if err \<and> \<not> (cl = 0x14 \<and> ch = 0xeb) \<and> \<not> (cl = 0x69 \<and> ch = 0x96) then Some (count, s)
       else do {
         let type = (if err then IDE_ATAPI else IDE_ATA);
         let s = (if err then write_reg P i ATA_REG_COMMAND 0xa1 s else s);
         let (buf, s) = readBuffer P i ATA_REG_DATA 128 s;
         Some (count + 1, s\<lparr>devices := (devices s)(count := identified type i j buf)\<rparr>)
       }
     }
   }"

definition ide_init_at :: "'p ports \<Rightarrow> nat \<Rightarrow> nat \<Rightarrow> nat \<Rightarrow> nat \<Rightarrow> nat \<Rightarrow> 'p ide \<Rightarrow> (nat \<times> 'p ide) option" where
  "ide_init_at P bar0 bar1 bar2 bar3 bar4 s = do {
     let s = set_channels bar0 bar1 bar2 bar3 bar4 s;
     let s = write_reg P 0 ATA_REG_CONTROL 2 s;
     let s = write_reg P 1 ATA_REG_CONTROL 2 s;
     (count, s) \<leftarrow> probe P 0 0 0 s;
     (count, s) \<leftarrow> probe P 0 1 count s;
     (count, s) \<leftarrow> probe P 1 0 count s;
     (count, s) \<leftarrow> probe P 1 1 count s;
     Some (length (filter (\<lambda>i. d_reserved (devices s i)) [0..<4]), s)
   }"

definition ide_init :: "'p ports \<Rightarrow> 'p ide \<Rightarrow> (nat \<times> 'p ide) option" where
  "ide_init P s = ide_init_at P 0x1f0 0x3f6 0x170 0x376 0 s"



section \<open>Packets\<close>

lemma irqInvoked_registers [simp]:
  "irqInvoked (write_reg P c r v s) = irqInvoked s" "irqInvoked (snd (read_reg P c r s)) = irqInvoked s"
  "irqInvoked (high_bank P c r b s) = irqInvoked s"
proof -
  have w: "irqInvoked (write_port P c r v s) = irqInvoked s" for r v s
    by (simp add: write_port_def split: option.split)
  then have h: "irqInvoked (high_bank P c r b s) = irqInvoked s" for r b s
    by (simp add: high_bank_def)
  then show "irqInvoked (high_bank P c r b s) = irqInvoked s" .
  show "irqInvoked (write_reg P c r v s) = irqInvoked s" by (simp add: write_reg_def h w)
  show "irqInvoked (snd (read_reg P c r s)) = irqInvoked s"
    by (simp add: read_reg_def Let_def h split: option.split prod.split)
qed

lemma wait_clear_irqInvoked: "wait_clear P c bits s = Some y \<Longrightarrow> irqInvoked (snd y) = irqInvoked s"
proof (rule wait_clear.raw_induct [where Pa = "\<lambda>a y. irqInvoked (snd y) = irqInvoked (snd a)", simplified])
  fix wait c and s :: "'a ide" and y :: "unit \<times> 'a ide" and P and bits :: byte
  assume IH: "\<And>c bits s b y. wait c bits s b = Some y \<Longrightarrow> irqInvoked (snd y) = irqInvoked b"
    and eq: "(case read_reg P c ATA_REG_STATUS s of
        (status, s) \<Rightarrow> if and status bits \<noteq> 0 then wait P c bits s else Some ((), s)) = Some y"
  obtain v t where t: "read_reg P c ATA_REG_STATUS s = (v, t)" by fastforce
  then have "irqInvoked t = irqInvoked s" using irqInvoked_registers(2) [of P c ATA_REG_STATUS s] by simp
  then show "irqInvoked (snd y) = irqInvoked s" using eq IH [of P c bits t y] t by (auto split: if_splits)
qed

text \<open>Reading from a packet device never succeeds: no code sets the flag that \<open>waitIRQ\<close> waits for.\<close>

lemma polling_irqInvoked:
  assumes "polling P c b s = Some (err, s')"
  shows "irqInvoked s' = irqInvoked s"
proof -
  have "irqInvoked (((\<lambda>s. snd (read_reg P c ATA_REG_ALTSTATUS s)) ^^ n) s) = irqInvoked s" for n
    by (induction n) simp_all
  then have skip: "irqInvoked (skip_altstatus P c s) = irqInvoked s" by (simp only: skip_altstatus_def)
  obtain u where u: "wait_clear P c ATA_SR_BSY (skip_altstatus P c s) = Some ((), u)"
    using assms by (auto simp: polling_def split: Option.bind_splits)
  obtain v t where t: "read_reg P c ATA_REG_STATUS u = (v, t)" by fastforce
  have "irqInvoked t = irqInvoked u" using irqInvoked_registers(2) [of P c ATA_REG_STATUS u] t by simp
  then show ?thesis using assms wait_clear_irqInvoked [OF u] skip u t by (auto simp: polling_def split: if_splits)
qed

lemma readATAPI_never: "readATAPI P drive lba s \<noteq> Some ((0, got), s')"
proof
  assume r: "readATAPI P drive lba s = Some ((0, got), s')"
  have skip: "irqInvoked (skip_altstatus P c s) = irqInvoked s" for c s
  proof -
    have "irqInvoked (((\<lambda>s. snd (read_reg P c ATA_REG_ALTSTATUS s)) ^^ n) s) = irqInvoked s" for n
      by (induction n) simp_all
    then show ?thesis by (simp only: skip_altstatus_def)
  qed
  from r show False
    by (auto simp: readATAPI_def Let_def waitIRQ_def skip dest!: polling_irqInvoked split: Option.bind_splits if_splits)
qed

end
