(* ===== verification/IDE_Drive.thy ===== *)
theory IDE_Drive
  imports IDE
begin

text \<open>
  A disk behind the ports, as the ATA standard describes its programmed input and output: the master of
  the primary channel, always ready. The driver of \<open>IDE\<close> is run against it; on it the device of
  \<open>src/device/IDEDevice.cpp\<close> is an array of bytes for transfers of fewer than 256 sectors.

  The registers 2 to 5 remember the value before the last, which the 48-bit commands use for the high
  halves. A command sets the address of the next sector and the number of sectors to transfer; the
  data port takes and gives whole sectors. A count of 0 stands for 256, or 65536 with 48 bits.
\<close>

record pio =
  regs :: "nat \<Rightarrow> byte"
  previous :: "nat \<Rightarrow> byte"
  cursor :: nat
  due :: nat
  media :: "nat \<Rightarrow> byte"

definition push_reg :: "nat \<Rightarrow> byte \<Rightarrow> pio \<Rightarrow> pio" where
  "push_reg r v d = d\<lparr>previous := (previous d)(r := regs d r), regs := (regs d)(r := v)\<rparr>"

definition address :: "pio \<Rightarrow> nat" where
  "address d =
     (if bit (regs d 6) 6 then le_nat [regs d 3, regs d 4, regs d 5] + 2 ^ 24 * (unat (regs d 6) mod 16)
      else (le_nat [regs d 4, regs d 5] * 16 + unat (regs d 6) mod 16) * 63 + unat (regs d 3) - 1)"

definition address_ext :: "pio \<Rightarrow> nat" where
  "address_ext d = le_nat [regs d 3, regs d 4, regs d 5, previous d 3, previous d 4, previous d 5]"

definition command :: "byte \<Rightarrow> pio \<Rightarrow> pio" where
  "command v d =
     (if bit (regs d 6) 4 then d
      else if v = 0x20 \<or> v = 0x30 then
        d\<lparr>cursor := address d, due := (if regs d 2 = 0 then 256 else unat (regs d 2))\<rparr>
      else if v = 0x24 \<or> v = 0x34 then
        d\<lparr>cursor := address_ext d, due := (let n = le_nat [regs d 2, previous d 2] in if n = 0 then 65536 else n)\<rparr>
      else d\<lparr>due := 0\<rparr>)"

definition pio_outb :: "nat \<Rightarrow> byte \<Rightarrow> pio \<Rightarrow> pio" where
  "pio_outb port v d =
     (if port = 0x1f7 then command v d
      else if 0x1f2 \<le> port \<and> port \<le> 0x1f5 then push_reg (port - 0x1f0) v d
      else if port = 0x1f6 then d\<lparr>regs := (regs d)(6 := v)\<rparr>
      else d)"

definition pio_inb :: "nat \<Rightarrow> pio \<Rightarrow> byte \<times> pio" where
  "pio_inb port d = (if port = 0x1f7 \<or> port = 0x3f6 then (if 0 < due d then 0x58 else 0x50) else 0, d)"

definition pio_insw :: "nat \<Rightarrow> nat \<Rightarrow> pio \<Rightarrow> byte list \<times> pio" where
  "pio_insw port words d =
     (if port = 0x1f0 \<and> words = 256 \<and> 0 < due d then
        (rd (media d) (cursor d * 512) 512, d\<lparr>cursor := cursor d + 1, due := due d - 1\<rparr>)
      else (replicate (2 * words) 0xff, d))"

definition pio_outsw :: "nat \<Rightarrow> byte list \<Rightarrow> pio \<Rightarrow> pio" where
  "pio_outsw port bs d =
     (if port = 0x1f0 \<and> length bs = 512 \<and> 0 < due d then
        d\<lparr>media := upd (media d) (cursor d * 512) bs, cursor := cursor d + 1, due := due d - 1\<rparr>
      else d)"

definition disk :: "pio ports" where
  "disk = \<lparr>inb = pio_inb, outb = pio_outb, insw = pio_insw, outsw = pio_outsw,
     insl = (\<lambda>port n d. (replicate (4 * n) 0, d))\<rparr>"

text \<open>The drive \<open>dr\<close> of the driver is this disk with \<open>n\<close> sectors.\<close>

definition ide_good :: "nat \<Rightarrow> nat \<Rightarrow> pio ide \<Rightarrow> bool" where
  "ide_good dr n s \<longleftrightarrow> dr \<le> 3 \<and> n < 2 ^ 32 \<and> c_base (channels s 0) = 0x1f0 \<and> c_ctrl (channels s 0) = 0x3f4 \<and>
     d_reserved (devices s dr) \<and> d_type (devices s dr) = IDE_ATA \<and> d_size (devices s dr) = n \<and>
     d_channel (devices s dr) = 0 \<and> d_drive (devices s dr) = 0 \<and>
     (and (d_capabilities (devices s dr)) 0x200 \<noteq> 0 \<or> n \<le> 2 ^ 16 * 16 * 63)"

definition ide_bytes :: "pio ide \<Rightarrow> nat \<Rightarrow> byte" where
  "ide_bytes s = media (io s)"


section \<open>Registers of the disk\<close>

lemma disk_simps [simp]:
  "inb disk = pio_inb" "outb disk = pio_outb" "insw disk = pio_insw" "outsw disk = pio_outsw"
  by (simp_all add: disk_def)

definition primary :: "pio ide \<Rightarrow> bool" where
  "primary s \<longleftrightarrow> c_base (channels s 0) = 0x1f0 \<and> c_ctrl (channels s 0) = 0x3f4"

lemma good_primary: "ide_good dr n s \<Longrightarrow> primary s"
  by (simp add: ide_good_def primary_def)

lemma primary_io [simp]: "primary (s\<lparr>io := p\<rparr>) = primary s"
  by (simp add: primary_def)

lemma write_port_disk:
  assumes "primary s"
  shows "write_port disk 0 0x02 v s = s\<lparr>io := push_reg 2 v (io s)\<rparr>" "write_port disk 0 0x03 v s = s\<lparr>io := push_reg 3 v (io s)\<rparr>"
    "write_port disk 0 0x04 v s = s\<lparr>io := push_reg 4 v (io s)\<rparr>" "write_port disk 0 0x05 v s = s\<lparr>io := push_reg 5 v (io s)\<rparr>"
    "write_port disk 0 0x06 v s = s\<lparr>io := (io s)\<lparr>regs := (regs (io s))(6 := v)\<rparr>\<rparr>"
    "write_port disk 0 0x07 v s = s\<lparr>io := command v (io s)\<rparr>"
    "write_port disk 0 0x08 v s = s\<lparr>io := push_reg 2 v (io s)\<rparr>" "write_port disk 0 0x09 v s = s\<lparr>io := push_reg 3 v (io s)\<rparr>"
    "write_port disk 0 0x0a v s = s\<lparr>io := push_reg 4 v (io s)\<rparr>" "write_port disk 0 0x0b v s = s\<lparr>io := push_reg 5 v (io s)\<rparr>"
    "write_port disk 0 0x0c v s = s"
  using assms by (simp_all add: write_port_def reg_port_def primary_def pio_outb_def)

lemma write_reg_disk:
  assumes "primary s"
  shows "write_reg disk 0 0x02 v s = s\<lparr>io := push_reg 2 v (io s)\<rparr>" "write_reg disk 0 0x03 v s = s\<lparr>io := push_reg 3 v (io s)\<rparr>"
    "write_reg disk 0 0x04 v s = s\<lparr>io := push_reg 4 v (io s)\<rparr>" "write_reg disk 0 0x05 v s = s\<lparr>io := push_reg 5 v (io s)\<rparr>"
    "write_reg disk 0 0x06 v s = s\<lparr>io := (io s)\<lparr>regs := (regs (io s))(6 := v)\<rparr>\<rparr>"
    "write_reg disk 0 0x07 v s = s\<lparr>io := command v (io s)\<rparr>"
    "write_reg disk 0 0x08 v s = s\<lparr>io := push_reg 2 v (io s)\<rparr>" "write_reg disk 0 0x09 v s = s\<lparr>io := push_reg 3 v (io s)\<rparr>"
    "write_reg disk 0 0x0a v s = s\<lparr>io := push_reg 4 v (io s)\<rparr>" "write_reg disk 0 0x0b v s = s\<lparr>io := push_reg 5 v (io s)\<rparr>"
    "write_reg disk 0 0x0c v s = s"
  using assms by (simp_all add: write_reg_def high_bank_def write_port_disk)

lemma read_status_disk: "primary s \<Longrightarrow> read_reg disk 0 0x07 s = (if 0 < due (io s) then 0x58 else 0x50, s)"
  and read_alt_disk: "primary s \<Longrightarrow> read_reg disk 0 0x0c s = (if 0 < due (io s) then 0x58 else 0x50, s)"
  by (simp_all add: read_reg_def high_bank_def reg_port_def primary_def pio_inb_def Let_def)

lemma wait_clear_disk: "primary s \<Longrightarrow> wait_clear disk 0 0x80 s = Some ((), s)"
  by (subst wait_clear.simps) (simp add: read_status_disk)

lemma skip_altstatus_disk: "primary s \<Longrightarrow> skip_altstatus disk 0 s = s"
proof -
  assume p: "primary s"
  have "((\<lambda>s. snd (read_reg disk 0 0x0c s)) ^^ k) s = s" for k
    by (induction k) (simp_all add: read_alt_disk [OF p])
  then show ?thesis by (simp only: skip_altstatus_def)
qed

lemma polling_disk:
  "primary s \<Longrightarrow> polling disk 0 False s = Some (0, s)"
  "primary s \<Longrightarrow> 0 < due (io s) \<Longrightarrow> polling disk 0 True s = Some (0, s)"
  by (simp_all add: polling_def skip_altstatus_disk wait_clear_disk read_status_disk)



section \<open>Addresses\<close>

lemma le_bytes_2: "le_bytes 2 x = [word_of_nat (x mod 256), word_of_nat (x div 256 mod 256)]"
proof -
  have 2: "2 = Suc (Suc 0)" by simp
  show ?thesis unfolding 2 by simp
qed

lemma le_bytes_3: "le_bytes 3 x = [word_of_nat (x mod 256), word_of_nat (x div 2 ^ 8 mod 256), word_of_nat (x div 2 ^ 16 mod 256)]"
proof -
  have 3: "3 = Suc (Suc (Suc 0))" by simp
  have "x div 256 div 256 = x div 2 ^ 16" by (simp add: div_mult2_eq [symmetric])
  then show ?thesis unfolding 3 by simp
qed

lemma le_bytes_6:
  assumes "x < 2 ^ 32"
  shows "le_bytes 6 x = [word_of_nat (x mod 256), word_of_nat (x div 2 ^ 8 mod 256), word_of_nat (x div 2 ^ 16 mod 256),
    word_of_nat (x div 2 ^ 24 mod 256), 0, 0]"
proof -
  have 6: "6 = Suc (Suc (Suc (Suc (Suc (Suc 0)))))" by simp
  have "x div 256 div 256 = x div 2 ^ 16" "x div 2 ^ 16 div 256 = x div 2 ^ 24" "x div 2 ^ 24 div 256 = 0"
    using assms by (simp_all add: div_mult2_eq [symmetric])
  then show ?thesis unfolding 6 by simp
qed

text \<open>The device register: the LBA bit, the drive 0, and the head or the top of the address.\<close>

lemma device_register:
  fixes h :: nat and a :: byte
  assumes "h < 16" and "a = 0xa0 \<or> a = 0xe0"
  shows "unat (or (or a 0) (word_of_nat h)) mod 16 = h" and "bit (or (or a 0) (word_of_nat h)) 6 \<longleftrightarrow> a = 0xe0"
    and "\<not> bit (or (or a 0) (word_of_nat h)) 4"
proof -
  have "list_all (\<lambda>h. list_all (\<lambda>a. unat (or (or a 0) (word_of_nat h)) mod 16 = h \<and>
      (bit (or (or a 0) (word_of_nat h)) 6 \<longleftrightarrow> a = 0xe0) \<and> \<not> bit (or (or a 0) (word_of_nat h)) 4) [0xa0, 0xe0 :: byte]) [0..<16]"
    by code_simp
  then have "\<forall>h \<in> set [0..<16]. \<forall>a \<in> set [0xa0, 0xe0 :: byte]. unat (or (or a 0) (word_of_nat h)) mod 16 = h \<and>
      (bit (or (or a 0) (word_of_nat h)) 6 \<longleftrightarrow> a = 0xe0) \<and> \<not> bit (or (or a 0) (word_of_nat h)) 4"
    unfolding list_all_iff .
  moreover have "h \<in> set [0..<16]" "a \<in> set [0xa0, 0xe0]" using assms by auto
  ultimately show "unat (or (or a 0) (word_of_nat h)) mod 16 = h" and "bit (or (or a 0) (word_of_nat h)) 6 \<longleftrightarrow> a = 0xe0"
    and "\<not> bit (or (or a 0) (word_of_nat h)) 4"
    by blast+
qed

lemma chs_decode:
  fixes lba :: nat
  defines "sect \<equiv> lba mod 63 + 1"
  assumes "lba < 2 ^ 16 * 16 * 63"
  shows "((lba + 1 - sect) div (16 * 63)) mod 2 ^ 16 * 16 * 63 + (lba + 1 - sect) mod (16 * 63) div 63 * 63 + sect - 1 = lba"
    and "(lba + 1 - sect) mod (16 * 63) div 63 < 16"
proof -
  define q where "q = lba div 63"
  have lba: "lba = 63 * q + lba mod 63" by (simp add: q_def)
  then have x: "lba + 1 - sect = 63 * q" by (simp add: sect_def)
  have "q < 2 ^ 16 * 16" using assms(2) by (simp add: q_def less_mult_imp_div_less)
  then have cyl: "63 * q div (16 * 63) mod 2 ^ 16 = q div 16"
    using div_mult2_eq [of "63 * q" 63 16] by (simp add: mult.commute less_mult_imp_div_less)
  have head: "63 * q mod (16 * 63) div 63 = q mod 16"
    using mult_mod_right [of 63 q 16] by (simp add: mult.commute)
  have "q div 16 * 16 * 63 + q mod 16 * 63 = q * 63" by (metis add_mult_distrib div_mult_mod_eq)
  then have parts: "1008 * (q div 16) + q mod 16 * 63 = 63 * q" by simp
  show "((lba + 1 - sect) div (16 * 63)) mod 2 ^ 16 * 16 * 63 + (lba + 1 - sect) mod (16 * 63) div 63 * 63 + sect - 1 = lba"
    unfolding x cyl head using lba by (simp add: sect_def parts)
  show "(lba + 1 - sect) mod (16 * 63) div 63 < 16" unfolding x head by simp
qed

text \<open>What the registers hold after the parameters, for each mode, is the address again.\<close>

lemma registers_address:
  assumes "lba_registers d lba = (mode, b, head)" and "lba < 2 ^ 32"
    and "and (d_capabilities d) 0x200 \<noteq> 0 \<or> lba < 2 ^ 16 * 16 * 63"
  shows "mode = LBA48 \<Longrightarrow> head = 0 \<and> le_nat [b ! 0, b ! 1, b ! 2, b ! 3, b ! 4, b ! 5] = lba"
    and "mode = LBA28 \<Longrightarrow> \<exists>h < 16. head = word_of_nat h \<and> le_nat [b ! 0, b ! 1, b ! 2] + 2 ^ 24 * h = lba"
    and "mode = CHS \<Longrightarrow> \<exists>h < 16. head = word_of_nat h \<and> (le_nat [b ! 1, b ! 2] * 16 + h) * 63 + unat (b ! 0) - 1 = lba"
proof -
  assume "mode = LBA48"
  then have b: "b = le_bytes 6 lba" "head = 0" using assms(1) le_bytes_6 [OF assms(2)]
    by (auto simp: lba_registers_def Let_def split: if_splits)
  have "[b ! 0, b ! 1, b ! 2, b ! 3, b ! 4, b ! 5] = b" unfolding b le_bytes_6 [OF assms(2)] by simp
  then show "head = 0 \<and> le_nat [b ! 0, b ! 1, b ! 2, b ! 3, b ! 4, b ! 5] = lba"
    using assms(2) b by (simp only: le_nat_le_bytes) simp
next
  assume "mode = LBA28"
  then have b: "[b ! 0, b ! 1, b ! 2] = le_bytes 3 lba" "head = word_of_nat (lba div 2 ^ 24 mod 16)" "lba < 0x10000000"
    using assms(1) by (auto simp: lba_registers_def Let_def le_bytes_3 split: if_splits)
  have "lba mod 2 ^ 24 + 2 ^ 24 * (lba div 2 ^ 24) = lba" by simp
  moreover have "lba div 2 ^ 24 mod 16 = lba div 2 ^ 24" using b(3) by simp
  ultimately have "le_nat [b ! 0, b ! 1, b ! 2] + 2 ^ 24 * (lba div 2 ^ 24 mod 16) = lba"
    unfolding b(1) le_nat_le_bytes by simp
  then show "\<exists>h < 16. head = word_of_nat h \<and> le_nat [b ! 0, b ! 1, b ! 2] + 2 ^ 24 * h = lba"
    using b(2) by (intro exI [of _ "lba div 2 ^ 24 mod 16"]) simp
next
  assume "mode = CHS"
  then have small: "lba < 2 ^ 16 * 16 * 63"
    using assms(1,3) by (auto simp: lba_registers_def Let_def split: if_splits)
  define sect where "sect = lba mod 63 + 1"
  define cyl where "cyl = ((lba + 1 - sect) div (16 * 63)) mod 2 ^ 16"
  define h where "h = (lba + 1 - sect) mod (16 * 63) div 63"
  have b: "[b ! 1, b ! 2] = le_bytes 2 cyl" "b ! 0 = word_of_nat sect" "head = word_of_nat h"
    using assms(1) \<open>mode = CHS\<close>
    by (auto simp: lba_registers_def Let_def le_bytes_2 sect_def cyl_def h_def split: if_splits)
  have "sect < 256" by (simp add: sect_def)
  then have "unat (b ! 0) = sect" using unat_word_of_nat_mod [of sect] b(2) by simp
  moreover have "le_nat [b ! 1, b ! 2] = cyl" unfolding b(1) le_nat_le_bytes by (simp add: cyl_def)
  moreover have "cyl * 16 * 63 + h * 63 + sect - 1 = lba" "h < 16"
    unfolding cyl_def h_def sect_def by (rule chs_decode [OF small])+
  ultimately show "\<exists>h < 16. head = word_of_nat h \<and> (le_nat [b ! 1, b ! 2] * 16 + h) * 63 + unat (b ! 0) - 1 = lba"
    using b(3) by (intro exI [of _ h]) (simp add: add_mult_distrib)
qed



section \<open>Transfers\<close>

text \<open>The disk is about to transfer \<open>k\<close> sectors from \<open>lba\<close> on, its contents being \<open>m\<close>.\<close>

definition at_sector :: "nat \<Rightarrow> nat \<Rightarrow> (nat \<Rightarrow> byte) \<Rightarrow> nat \<Rightarrow> nat \<Rightarrow> pio ide \<Rightarrow> bool" where
  "at_sector dr n m lba k s \<longleftrightarrow> ide_good dr n s \<and> cursor (io s) = lba \<and> due (io s) = k \<and> media (io s) = m"

lemma good_io [simp]: "ide_good dr n (s\<lparr>io := p\<rparr>) = ide_good dr n s"
  by (simp add: ide_good_def)

lemma good_select [simp]:
  "ide_good dr n (s\<lparr>irqInvoked := i, channels := (channels s)(0 := (channels s 0)\<lparr>c_nIEN := v\<rparr>)\<rparr>) = ide_good dr n s"
  by (simp add: ide_good_def)

lemma select_sectors_ok:
  assumes "ide_good dr n s" and "lba + k \<le> n" and "0 < k" and "k < 256"
  shows "wp (select_sectors disk writing dr lba k s) (\<lambda>_ s'. at_sector dr n (ide_bytes s) lba k s')"
proof -
  obtain mode b head where r: "lba_registers (devices s dr) lba = (mode, b, head)" by (metis prod_cases3)
  have small: "lba < 2 ^ 32" "and (d_capabilities (devices s dr)) 0x200 \<noteq> 0 \<or> lba < 2 ^ 16 * 16 * 63"
    using assms by (auto simp: ide_good_def)
  note address = registers_address [OF r small]
  have chan: "d_channel (devices s dr) = 0" "d_drive (devices s dr) = 0" using assms(1) by (auto simp: ide_good_def)
  let ?s = "s\<lparr>irqInvoked := False, channels := (channels s)(0 := (channels s 0)\<lparr>c_nIEN := 2\<rparr>)\<rparr>"
  have prim: "primary (?s\<lparr>io := p\<rparr>)" "primary ?s" for p using assms(1) by (auto simp: ide_good_def primary_def)
  have count: "(word_of_nat k :: byte) \<noteq> 0" "unat (word_of_nat k :: byte) = k" "le_nat [word_of_nat k, 0] = k"
    using assms(3,4) unat_word_of_nat_mod [of k] by (auto simp: word_of_nat_eq_0_iff dvd_imp_le)
  note simps = select_sectors_def Let_def chan r wait_clear_disk [OF prim(2)] write_reg_disk [OF prim(1)] write_reg_disk [OF prim(2)]
    push_reg_def command_def at_sector_def ide_bytes_def count assms(1,3)
  show ?thesis
  proof (cases mode)
    case LBA48
    then show ?thesis using address(1) by (simp add: simps address_ext_def)
  next
    case LBA28
    then obtain h where h: "h < 16" "head = word_of_nat h" "le_nat [b ! 0, b ! 1, b ! 2] + 2 ^ 24 * h = lba"
      using address(2) by blast
    then show ?thesis using LBA28 device_register [of h "0xe0"] by (simp add: simps address_def)
  next
    case CHS
    then obtain h where h: "h < 16" "head = word_of_nat h" "(le_nat [b ! 1, b ! 2] * 16 + h) * 63 + unat (b ! 0) - 1 = lba"
      using address(3) by blast
    then show ?thesis using CHS device_register [of h "0xa0"] by (simp add: simps address_def)
  qed
qed

lemma read_sectors_ok:
  "at_sector dr n m lba k s \<Longrightarrow> j \<le> k \<Longrightarrow>
   wp (read_sectors disk 0 0x1f0 j out s) (\<lambda>r s'. r = (0, out @ rd m (lba * 512) (j * 512)) \<and> at_sector dr n m (lba + j) (k - j) s')"
proof (induction j arbitrary: lba k out s)
  case (Suc j)
  let ?s = "s\<lparr>io := (io s)\<lparr>cursor := cursor (io s) + 1, due := due (io s) - 1\<rparr>\<rparr>"
  have p: "primary s" "0 < due (io s)" and k: "j \<le> k - 1"
    using Suc.prems by (auto simp: at_sector_def good_primary)
  have "at_sector dr n m (lba + 1) (k - 1) ?s" using Suc.prems by (simp add: at_sector_def)
  from Suc.IH [OF this k, of "out @ rd m (lba * 512) 512"]
  show ?case using Suc.prems(1) p rd_append [of m "lba * 512" 512 "j * 512"]
    by (auto simp: polling_disk pio_insw_def at_sector_def add.commute elim!: wp_mono)
qed (simp add: at_sector_def)

lemma write_sectors_ok:
  "at_sector dr n m lba k s \<Longrightarrow> j \<le> k \<Longrightarrow> j * 512 \<le> length buf \<Longrightarrow>
   wp (write_sectors disk 0 0x1f0 j buf s)
     (\<lambda>r s'. at_sector dr n (upd m (lba * 512) (take (j * 512) buf)) (lba + j) (k - j) s')"
proof (induction j arbitrary: lba k buf s m)
  case (Suc j)
  let ?m = "upd m (lba * 512) (take 512 buf)"
  let ?s = "s\<lparr>io := (io s)\<lparr>media := ?m, cursor := cursor (io s) + 1, due := due (io s) - 1\<rparr>\<rparr>"
  have p: "primary s" and k: "j \<le> k - 1" "j * 512 \<le> length (drop 512 buf)"
    using Suc.prems by (auto simp: at_sector_def good_primary)
  have "at_sector dr n ?m (lba + 1) (k - 1) ?s" using Suc.prems by (simp add: at_sector_def)
  note IH = Suc.IH [OF this k]
  have "take (Suc j * 512) buf = take 512 buf @ take (j * 512) (drop 512 buf)"
    by (simp add: take_add)
  then have m: "upd m (lba * 512) (take (Suc j * 512) buf) = upd ?m ((lba + 1) * 512) (take (j * 512) (drop 512 buf))"
    using Suc.prems(3) by (simp add: upd_append min_def add.commute)
  show ?case using IH Suc.prems p unfolding m
    by (auto simp: polling_disk pio_outsw_def at_sector_def elim!: wp_mono)
qed (simp add: at_sector_def)

lemma at_sector_good: "at_sector dr n m lba k s \<Longrightarrow> ide_good dr n s \<and> ide_bytes s = m \<and> primary s"
  by (auto simp: at_sector_def ide_bytes_def intro: good_primary)

lemma accessATA_read_ok:
  assumes "ide_good dr n s" and "lba + k \<le> n" and "0 < k" and "k < 256"
  shows "wp (accessATA_read disk dr lba k s)
    (\<lambda>r s'. r = (0, rd (ide_bytes s) (lba * 512) (k * 512)) \<and> ide_good dr n s' \<and> ide_bytes s' = ide_bytes s)"
proof -
  have chan: "d_channel (devices s dr) = 0" "c_base (channels s 0) = 0x1f0" using assms(1) by (simp_all add: ide_good_def)
  show ?thesis unfolding accessATA_read_def Let_def chan
    by (rule wp_then [OF select_sectors_ok [OF assms]])
      (auto dest: at_sector_good intro!: wp_mono [OF read_sectors_ok [of dr n "ide_bytes s" lba k]])
qed

lemma accessATA_write_ok:
  assumes "ide_good dr n s" and "lba + k \<le> n" and "0 < k" and "k < 256" and "k * 512 \<le> length buf"
  shows "wp (accessATA_write disk dr lba k buf s)
    (\<lambda>r s'. r = 0 \<and> ide_good dr n s' \<and> ide_bytes s' = upd (ide_bytes s) (lba * 512) (take (k * 512) buf))"
proof -
  have chan: "d_channel (devices s dr) = 0" "c_base (channels s 0) = 0x1f0" using assms(1) by (simp_all add: ide_good_def)
  show ?thesis unfolding accessATA_write_def Let_def chan
    by (rule wp_then [OF select_sectors_ok [OF assms(1-4)]], simp only: prod.case,
      rule wp_then [OF write_sectors_ok [of dr n "ide_bytes s" lba k]])
      (use assms(5) in \<open>auto dest!: at_sector_good simp: write_reg_disk polling_disk command_def\<close>,
        auto simp: ide_bytes_def)
qed

lemma u32_sum: "lba + k \<le> n \<Longrightarrow> n < 2 ^ 32 \<Longrightarrow> u32 (int lba + int k) = lba + k"
  by (simp flip: of_nat_add)

lemma readSectors_ok:
  assumes "ide_good dr n s" and "lba + k \<le> n" and "0 < k" and "k < 256"
  shows "wp (readSectors disk dr k lba s)
    (\<lambda>r s'. r = (0, rd (ide_bytes s) (lba * 512) (k * 512)) \<and> ide_good dr n s' \<and> ide_bytes s' = ide_bytes s)"
proof -
  have "dr \<le> 3" "d_reserved (devices s dr)" "d_type (devices s dr) = IDE_ATA" "d_size (devices s dr) = n" "lba < 2 ^ 32"
    "u32 (int lba + int k) = lba + k" "k mod 2 ^ 8 = k"
    using assms u32_sum [of lba k n] by (auto simp: ide_good_def)
  then show ?thesis using assms(2) accessATA_read_ok [OF assms]
    by (auto simp: readSectors_def Let_def printError_def elim!: wp_mono)
qed

lemma writeSectors_ok:
  assumes "ide_good dr n s" and "lba + k \<le> n" and "0 < k" and "k < 256" and "k * 512 \<le> length buf"
  shows "wp (writeSectors disk dr k lba buf s)
    (\<lambda>r s'. r = 0 \<and> ide_good dr n s' \<and> ide_bytes s' = upd (ide_bytes s) (lba * 512) (take (k * 512) buf))"
proof -
  have "dr \<le> 3" "d_reserved (devices s dr)" "d_type (devices s dr) = IDE_ATA" "d_size (devices s dr) = n" "lba < 2 ^ 32"
    "u32 (int lba + int k) = lba + k" "k mod 2 ^ 8 = k"
    using assms u32_sum [of lba k n] by (auto simp: ide_good_def)
  moreover have "ide_good dr n (s'\<lparr>ideStatus := i\<rparr>) = ide_good dr n s'" "ide_bytes (s'\<lparr>ideStatus := i\<rparr>) = ide_bytes s'" for s' i
    by (simp_all add: ide_good_def ide_bytes_def)
  ultimately show ?thesis using assms(2) accessATA_write_ok [OF assms]
    by (auto simp: writeSectors_def Let_def printError_def elim!: wp_mono)
qed

text \<open>One sector at a time: a range that starts inside the sector \<open>lba\<close>.\<close>

lemma readBytes_loop_ok:
  "ide_good dr n s \<Longrightarrow> z < 512 \<Longrightarrow> lba * 512 + z + len \<le> n * 512 \<Longrightarrow>
   wp (readBytes_loop disk dr len z lba out s)
     (\<lambda>r s'. r = (0, out @ rd (ide_bytes s) (lba * 512 + z) len) \<and> ide_good dr n s' \<and> ide_bytes s' = ide_bytes s)"
proof (induction len arbitrary: z lba out s rule: less_induct)
  case (less len)
  show ?case
  proof (cases "len = 0")
    case True
    then show ?thesis using less.prems(1) by (subst readBytes_loop.simps) simp
  next
    case False
    define c where "c = min (512 - z) len"
    have c: "0 < c" "c \<le> len" "z + c \<le> 512" using False less.prems(2) by (auto simp: c_def)
    have one: "lba + 1 \<le> n" using less.prems False by linarith
    then have next_lba: "u32 (int lba + 1) = lba + 1" using u32_sum [of lba 1 n] less.prems(1) by (simp add: ide_good_def)
    have IH: "ide_good dr n s' \<Longrightarrow> ide_bytes s' = ide_bytes s \<Longrightarrow>
        wp (readBytes_loop disk dr (len - c) 0 (lba + 1) (out @ rd (ide_bytes s) (lba * 512 + z) c) s')
          (\<lambda>r s''. r = (0, out @ rd (ide_bytes s) (lba * 512 + z) len) \<and> ide_good dr n s'' \<and> ide_bytes s'' = ide_bytes s)" for s'
    proof (cases "c = len")
      case True
      then show "ide_good dr n s' \<Longrightarrow> ide_bytes s' = ide_bytes s \<Longrightarrow> ?thesis"
        by (subst readBytes_loop.simps) simp
    next
      case F: False
      then have "c = 512 - z" by (simp add: c_def min_def split: if_splits)
      then have at: "(lba + 1) * 512 = lba * 512 + z + c" using less.prems(2) by simp
      have "rd (ide_bytes s) (lba * 512 + z) len
          = rd (ide_bytes s) (lba * 512 + z) c @ rd (ide_bytes s) ((lba + 1) * 512) (len - c)"
        using rd_append [of "ide_bytes s" "lba * 512 + z" c "len - c"] c(2) unfolding at by simp
      moreover have "len - c < len" "(lba + 1) * 512 + 0 + (len - c) \<le> n * 512" using c False at less.prems(3) by simp_all
      moreover assume "ide_good dr n s'" "ide_bytes s' = ide_bytes s"
      ultimately show ?thesis using less.IH [of "len - c" s' 0 "lba + 1" "out @ rd (ide_bytes s) (lba * 512 + z) c"]
        by simp
    qed
    have step: "(if 512 - z < len then 512 - z else len) = c" by (simp add: c_def)
    have eq: "readBytes_loop disk dr len z lba out s = do {
        ((status, b), s) \<leftarrow> readSectors disk dr 1 lba s;
        if status \<noteq> 0 then Some ((status, out), s)
        else readBytes_loop disk dr (len - c) 0 (lba + 1) (out @ take c (drop z b)) s }"
      using False by (subst readBytes_loop.simps) (simp only: SECTOR_SIZE_def step Let_def next_lba if_True neq0_conv [symmetric] not_False_eq_True)
    have "min c (512 - z) = c" using c by simp
    then show ?thesis unfolding eq
      by - (rule wp_then [OF readSectors_ok [OF less.prems(1) one]], auto intro!: IH [simplified])
  qed
qed

text \<open>Writing back a sector with some of its bytes replaced.\<close>

lemma upd_patch:
  assumes "z + length b \<le> l"
  shows "upd m a (take z (rd m a l) @ b @ drop (z + length b) (rd m a l)) = upd m (a + z) b"
proof (rule ext)
  fix i
  have len: "length (take z (rd m a l) @ b @ drop (z + length b) (rd m a l)) = l" using assms by simp
  show "upd m a (take z (rd m a l) @ b @ drop (z + length b) (rd m a l)) i = upd m (a + z) b i"
    using assms unfolding upd_def len by (auto simp: nth_append)
qed

lemma writeBytes_loop_ok:
  "ide_good dr n s \<Longrightarrow> lba * 512 + length buf \<le> n * 512 \<Longrightarrow>
   wp (writeBytes_loop disk dr buf lba s)
     (\<lambda>r s'. r = 0 \<and> ide_good dr n s' \<and> ide_bytes s' = upd (ide_bytes s) (lba * 512) buf)"
proof (induction buf arbitrary: lba s rule: length_induct)
  case (1 buf)
  show ?case
  proof (cases "buf = []")
    case True
    then show ?thesis using 1(2) by (subst writeBytes_loop.simps) simp
  next
    case ne: False
    then have one: "lba + 1 \<le> n" using 1(3) by (cases buf) auto
    then have next_lba: "u32 (int lba + 1) = lba + 1" using u32_sum [of lba 1 n] 1(2) by (simp add: ide_good_def)
    show ?thesis
    proof (cases "length buf < 512")
      case True
      have patch: "upd m (lba * 512) (take (1 * 512) (buf @ drop (length buf) (rd m (lba * 512) 512))) = upd m (lba * 512) buf" for m
        using upd_patch [of 0 buf 512 m "lba * 512"] True by simp
      have "wp (writeSectors disk dr 1 lba (buf @ drop (length buf) (rd (ide_bytes s) (lba * 512) 512)) s')
          (\<lambda>r s''. r = 0 \<and> ide_good dr n s'' \<and> ide_bytes s'' = upd (ide_bytes s) (lba * 512) buf)"
        if "ide_good dr n s'" "ide_bytes s' = ide_bytes s" for s'
        using writeSectors_ok [OF that(1) one, of "buf @ drop (length buf) (rd (ide_bytes s) (lba * 512) 512)"] patch [of "ide_bytes s"] that(2) True
        by simp
      then show ?thesis using ne True
        by (subst writeBytes_loop.simps, simp only: SECTOR_SIZE_def if_True if_False)
          (rule wp_then [OF readSectors_ok [OF 1(2) one]], auto)
    next
      case False
      have at: "(lba + 1) * 512 = lba * 512 + 512" by simp
      have upd: "upd (ide_bytes s) (lba * 512) buf = upd (upd (ide_bytes s) (lba * 512) (take 512 buf)) ((lba + 1) * 512) (drop 512 buf)"
        using upd_append [of "ide_bytes s" "lba * 512" "take 512 buf" "drop 512 buf"] False unfolding at by simp
      have len: "length (drop 512 buf) < length buf" "(lba + 1) * 512 + length (drop 512 buf) \<le> n * 512"
        using 1(3) ne False by simp_all
      have IH: "wp (writeBytes_loop disk dr (drop 512 buf) (lba + 1) s')
          (\<lambda>r s''. r = 0 \<and> ide_good dr n s'' \<and> ide_bytes s'' = upd (ide_bytes s) (lba * 512) buf)"
        if "ide_good dr n s'" "ide_bytes s' = upd (ide_bytes s) (lba * 512) (take 512 buf)" for s'
        using 1(1) [rule_format, OF len(1) that(1) len(2)] unfolding upd that(2) .
      show ?thesis using ne False
        by (subst writeBytes_loop.simps, simp only: SECTOR_SIZE_def if_False next_lba)
          (rule wp_then [OF writeSectors_ok [OF 1(2) one]], auto intro!: IH [simplified])
    qed
  qed
qed

lemma sector_of:
  assumes "ide_good dr n s" and "off < n * 512"
  shows "u32 (int (off div 512)) = off div 512" and "off div 512 + 1 \<le> n"
proof -
  show "off div 512 + 1 \<le> n" using assms(2) less_mult_imp_div_less [of off n 512] by simp
  then have "off div 512 < 2 ^ 32" using assms(1) by (simp add: ide_good_def)
  then show "u32 (int (off div 512)) = off div 512" by simp
qed

lemma readBytes_ok:
  assumes "ide_good dr n s" and "0 < len" and "off + len \<le> n * 512"
  shows "wp (readBytes disk dr len off s)
    (\<lambda>r s'. r = (0, rd (ide_bytes s) off len) \<and> ide_good dr n s' \<and> ide_bytes s' = ide_bytes s)"
  using readBytes_loop_ok [OF assms(1), of "off mod 512" "off div 512" len "[]"] sector_of [OF assms(1), of off] assms(2,3)
  by (simp add: readBytes_def SECTOR_SIZE_def)

lemma writeBytes_ok:
  assumes "ide_good dr n s" and "buf \<noteq> []" and "off + length buf \<le> n * 512"
    and "\<not> (length buf mod 512 = 0 \<and> off mod 512 = 0)"
  shows "wp (writeBytes disk dr off buf s)
    (\<lambda>r s'. r = 0 \<and> ide_good dr n s' \<and> ide_bytes s' = upd (ide_bytes s) off buf)"
proof -
  define lba z where "lba = off div 512" and "z = off mod 512"
  have off: "off = lba * 512 + z" "z < 512" by (simp_all add: lba_def z_def)
  have "off < n * 512" using assms(2,3) by (cases buf) auto
  note sector = sector_of [OF assms(1) this, folded lba_def]
  note fast = assms(4) [folded z_def]
  show ?thesis
  proof (cases "z = 0")
    case True
    then show ?thesis using writeBytes_loop_ok [OF assms(1), of lba buf] assms(3) fast sector off(1)
      by (simp add: writeBytes_def Let_def SECTOR_SIZE_def lba_def [symmetric] z_def [symmetric])
  next
    case False
    define c where "c = min (512 - z) (length buf)"
    have step: "(if 512 - z < length buf then 512 - z else length buf) = c" by (simp add: c_def)
    have c: "z + c \<le> 512" "length (take c buf) = c" using off(2) by (auto simp: c_def)
    have next_lba: "u32 (int lba + 1) = lba + 1" using u32_sum [OF sector(2)] assms(1) by (simp add: ide_good_def)
    let ?b = "\<lambda>m. take z (rd m (lba * 512) 512) @ take c buf @ drop (z + c) (rd m (lba * 512) 512)"
    have first: "wp (writeSectors disk dr 1 lba (?b (ide_bytes s)) s')
        (\<lambda>r s''. r = 0 \<and> ide_good dr n s'' \<and> ide_bytes s'' = upd (ide_bytes s) off (take c buf))"
      if "ide_good dr n s'" "ide_bytes s' = ide_bytes s" for s'
      using writeSectors_ok [OF that(1) sector(2), of "?b (ide_bytes s)"] upd_patch [of z "take c buf" 512 "ide_bytes s" "lba * 512"]
        c that(2) off by simp
    have rest: "wp (writeBytes_loop disk dr (drop c buf) (lba + 1) s')
        (\<lambda>r s''. r = 0 \<and> ide_good dr n s'' \<and> ide_bytes s'' = upd (ide_bytes s) off buf)"
      if "ide_good dr n s'" "ide_bytes s' = upd (ide_bytes s) off (take c buf)" for s'
    proof (cases "c = length buf")
      case True
      then show ?thesis using that by (subst writeBytes_loop.simps) simp
    next
      case F: False
      then have "c = 512 - z" by (simp add: c_def min_def split: if_splits)
      then have at: "(lba + 1) * 512 = off + c" using off by simp
      have u: "upd (ide_bytes s) off buf = upd (upd (ide_bytes s) off (take c buf)) (off + c) (drop c buf)"
        using upd_append [of "ide_bytes s" off "take c buf" "drop c buf"] c(2) by simp
      have fits: "(lba + 1) * 512 + length (drop c buf) \<le> n * 512" using assms(3) c_def unfolding at by simp
      show ?thesis using writeBytes_loop_ok [OF that(1) fits] unfolding u at that(2) .
    qed
    have eq: "writeBytes disk dr off buf s = do {
        ((status, b), s) \<leftarrow> readSectors disk dr 1 lba s;
        if status \<noteq> 0 then Some (status, s)
        else do {
          (status, s) \<leftarrow> writeSectors disk dr 1 lba (take z b @ take c buf @ drop (z + c) b) s;
          if status \<noteq> 0 then Some (status, s) else writeBytes_loop disk dr (drop c buf) (lba + 1) s } }"
      using False
      by (simp only: writeBytes_def Let_def SECTOR_SIZE_def lba_def [symmetric] z_def [symmetric] sector(1) step next_lba)
        simp
    show ?thesis unfolding eq
      by (rule wp_then [OF readSectors_ok [OF assms(1) sector(2)]])
        (auto simp del: take_rd drop_rd One_nat_def intro!: wp_mono [OF first] rest [simplified])
  qed
qed



section \<open>The device\<close>

text \<open>
  Transfers of at most \<open>131071\<close> bytes are fewer than 256 sectors when they are whole sectors, so their
  number is not truncated.
\<close>

definition ide_limit :: nat where
  "ide_limit = 256 * 512 - 1"

lemma whole_sectors:
  assumes "len \<le> ide_limit" and "len mod 512 = 0" and "0 < len" and "off mod 512 = 0" and "off + len \<le> n * 512"
  shows "off div 512 + len div 512 \<le> n" and "0 < len div 512" and "len div 512 < 256" and "len div 512 * 512 = len"
    and "off div 512 * 512 = off"
proof -
  show l: "len div 512 * 512 = len" "off div 512 * 512 = off" using assms(2,4) div_mult_mod_eq [of len 512] div_mult_mod_eq [of off 512] by simp_all
  then have "(off div 512 + len div 512) * 512 \<le> n * 512" using assms(5) by (simp add: add_mult_distrib)
  then show "off div 512 + len div 512 \<le> n" by simp
  show "0 < len div 512" using l(1) assms(3) by (metis mult_0 neq0_conv)
  show "len div 512 < 256" using assms(1) by (simp add: ide_limit_def div_less_iff_less_mult)
qed

lemma ide_read_ok:
  assumes "ide_good dr n s" and "0 < len" and "len \<le> ide_limit" and "off + len \<le> n * 512"
  shows "wp (ide_read disk dr len off s)
    (\<lambda>r s'. r = (0, rd (ide_bytes s) off len) \<and> ide_good dr n s' \<and> ide_bytes s' = ide_bytes s)"
proof (cases "off mod 512 = 0 \<and> len mod 512 = 0")
  case True
  note w = whole_sectors [OF assms(3) _ assms(2) _ assms(4)]
  show ?thesis using readSectors_ok [OF assms(1) w(1-3)] w(4,5) True by (simp add: ide_read_def SECTOR_SIZE_def)
next
  case False
  then show ?thesis using readBytes_ok [OF assms(1,2,4)] by (auto simp: ide_read_def SECTOR_SIZE_def)
qed

lemma ide_write_ok:
  assumes "ide_good dr n s" and "buf \<noteq> []" and "length buf \<le> ide_limit" and "off + length buf \<le> n * 512"
  shows "wp (ide_write disk dr buf off s)
    (\<lambda>r s'. r = 0 \<and> ide_good dr n s' \<and> ide_bytes s' = upd (ide_bytes s) off buf)"
proof (cases "off mod 512 = 0 \<and> length buf mod 512 = 0")
  case True
  have "0 < length buf" using assms(2) by simp
  note w = whole_sectors [OF assms(3) _ this _ assms(4)]
  show ?thesis using writeSectors_ok [OF assms(1) w(1-3), of buf] w(4,5) True by (simp add: ide_write_def SECTOR_SIZE_def)
next
  case False
  then show ?thesis using writeBytes_ok [OF assms(1,2,4)] by (auto simp: ide_write_def SECTOR_SIZE_def)
qed

interpretation ide: transfer_device "ide_ops disk junk dr" ide_bytes "ide_good dr n" "n * 512" ide_limit for junk dr n
  by unfold_locales (simp_all add: ide_ops_def ide_read_ok ide_write_ok)

text \<open>A disk of \<open>n\<close> sectors, found by the driver as its drive 0.\<close>

definition found_disk :: "nat \<Rightarrow> (nat \<Rightarrow> byte) \<Rightarrow> pio ide" where
  "found_disk n m =
     \<lparr>devices = (\<lambda>_. \<lparr>d_reserved = True, d_channel = 0, d_drive = 0, d_type = IDE_ATA, d_signature = 0,
        d_capabilities = 0x200, d_commandSets = 0, d_size = n, d_model = []\<rparr>),
      channels = (\<lambda>_. \<lparr>c_base = 0x1f0, c_ctrl = 0x3f4, c_bmide = 0, c_nIEN = 0\<rparr>),
      ideStatus = 0, irqInvoked = False,
      io = \<lparr>regs = (\<lambda>_. 0), previous = (\<lambda>_. 0), cursor = 0, due = 0, media = m\<rparr>\<rparr>"

lemma found_disk_good: "n < 2 ^ 32 \<Longrightarrow> ide_good 0 n (found_disk n m)" "ide_bytes (found_disk n m) = m"
  by (simp_all add: ide_good_def found_disk_def ide_bytes_def)


section \<open>Properties\<close>

text \<open>C8. On a disk with programmed input and output of fewer than \<open>2 ^ 32\<close> sectors, identified as the master of the
  primary channel at the usual ports (a disk without LBA has at most 65536 cylinders of 16 heads and 63 sectors), the
  IDE device answers every sequence of nonempty reads and writes inside the disk, each of less than 128 KiB, as
  an array of bytes would: whatever their alignment, and whether the address goes to the disk as cylinder, head
  and sector, in 28 bits or in 48 bits.\<close>

theorem ide_device_is_an_array:
  assumes "ide_good dr n s" and "list_all (request_ok (n * 512) ide_limit) rs"
  shows "wp (serve (ide_ops disk junk dr) rs s) (\<lambda>out s'. out = array_serve rs (ide_bytes s) \<and> ide_good dr n s')"
  by (rule ide.serve_ok [OF assms])

theorem ide_device_is_an_array_witness:
  "wp (serve (ide_ops disk (\<lambda>_. 0) 0) [Put 510 [1, 2, 3], Get 511 3] (found_disk 100 (\<lambda>_. 9)))
     (\<lambda>out s'. out = [(0, []), (0, [2, 3, 9])])"
proof -
  have "list_all (request_ok (100 * 512) ide_limit) [Put 510 [1, 2, 3], Get 511 3]"
    by (simp add: request_ok_def ide_limit_def)
  from ide_device_is_an_array [OF found_disk_good(1) this, of "\<lambda>_. 0" "\<lambda>_. 9"]
  show ?thesis by (auto simp: found_disk_good rd_def upt_rec upd_def elim!: wp_mono)
qed

text \<open>A transfer of no sectors selects the sectors and does nothing else.\<close>

lemma media_command [simp]: "media (command v d) = media d"
  by (simp add: command_def)

lemma select_sectors_keeps:
  assumes "ide_good dr n s"
  shows "wp (select_sectors disk writing dr lba k s) (\<lambda>_ s'. ide_good dr n s' \<and> primary s' \<and> ide_bytes s' = ide_bytes s)"
proof -
  obtain mode b head where r: "lba_registers (devices s dr) lba = (mode, b, head)" by (metis prod_cases3)
  have chan: "d_channel (devices s dr) = 0" "d_drive (devices s dr) = 0" using assms(1) by (auto simp: ide_good_def)
  let ?s = "s\<lparr>irqInvoked := False, channels := (channels s)(0 := (channels s 0)\<lparr>c_nIEN := 2\<rparr>)\<rparr>"
  have prim: "primary (?s\<lparr>io := p\<rparr>)" "primary ?s" for p using assms(1) by (auto simp: ide_good_def primary_def)
  show ?thesis using assms prim
    by (simp add: select_sectors_def Let_def chan r wait_clear_disk [OF prim(2)] write_reg_disk [OF prim(1)] write_reg_disk [OF prim(2)]
      push_reg_def ide_bytes_def)
qed

lemma writeSectors_none:
  assumes "ide_good dr n s" and "lba \<le> n"
  shows "wp (writeSectors disk dr 0 lba buf s) (\<lambda>r s'. r = 0 \<and> ide_good dr n s' \<and> ide_bytes s' = ide_bytes s)"
proof -
  have d: "dr \<le> 3" "d_reserved (devices s dr)" "d_type (devices s dr) = IDE_ATA" "d_size (devices s dr) = n" "lba < 2 ^ 32"
    "d_channel (devices s dr) = 0" "c_base (channels s 0) = 0x1f0"
    using assms by (auto simp: ide_good_def)
  have "wp (accessATA_write disk dr lba 0 buf s) (\<lambda>r s'. r = 0 \<and> ide_good dr n s' \<and> ide_bytes s' = ide_bytes s)"
    unfolding accessATA_write_def Let_def d
    by (rule wp_then [OF select_sectors_keeps [OF assms(1)]])
      (auto simp: write_reg_disk polling_disk ide_bytes_def)
  moreover have "ide_good dr n (s'\<lparr>ideStatus := i\<rparr>) = ide_good dr n s'" "ide_bytes (s'\<lparr>ideStatus := i\<rparr>) = ide_bytes s'" for s' i
    by (simp_all add: ide_good_def ide_bytes_def)
  ultimately show ?thesis using d assms(2)
    by (auto simp: writeSectors_def Let_def printError_def elim!: wp_mono)
qed

text \<open>The number of sectors of a transfer is kept in a byte: of a write of whole sectors the first \<open>q mod 256\<close>
  sectors reach the disk, none of 256, and the status is that of a success.\<close>

lemma ide_write_truncates:
  assumes "ide_good dr n s" and "off mod 512 = 0" and "length buf = q * 512" and "off div 512 + q mod 256 \<le> n"
  shows "wp (ide_write disk dr buf off s) (\<lambda>r s'. r = 0 \<and> ide_good dr n s' \<and>
    ide_bytes s' = upd (ide_bytes s) off (take (q mod 256 * 512) buf))"
proof -
  have off: "off div 512 * 512 = off" using assms(2) div_mult_mod_eq [of off 512] by simp
  have eq: "ide_write disk dr buf off s = writeSectors disk dr (q mod 256) (off div 512) buf s"
    using assms(2,3) by (simp add: ide_write_def SECTOR_SIZE_def writeSectors_def)
  show ?thesis
  proof (cases "q mod 256 = 0")
    case True
    then show ?thesis using writeSectors_none [OF assms(1), of "off div 512" buf] assms(4) unfolding eq by simp
  next
    case False
    then show ?thesis using writeSectors_ok [OF assms(1,4), of buf] assms(3) off unfolding eq by simp
  qed
qed

lemma ide_write_truncates_witness:
  "wp (ide_write disk 0 (replicate (256 * 512) 7) 512 (found_disk 1000 (\<lambda>_. 0))) (\<lambda>r s'. r = 0 \<and> ide_bytes s' 512 = 0)"
  using ide_write_truncates [OF found_disk_good(1), of 1000 512 "replicate (256 * 512) 7" 256 "\<lambda>_. 0"]
  by (auto simp: found_disk_good simp del: replicate.simps elim!: wp_mono)

end
