(* ===== verification/AHCI_Port.thy ===== *)
theory AHCI_Port
  imports Storage
begin

text \<open>
  A port of an AHCI controller, \<open>AHCI::Port\<close> of \<open>src/hardware/AHCI.cpp\<close>. The driver and the controller
  share two things: the registers of the port and the physical memory with the command list, the
  command tables and the buffers. Both are reached through the record \<open>hba\<close> on a state \<open>'h\<close>, an
  argument of every definition; \<open>tick\<close> is what \<open>Kernel::wait(1, 1000)\<close> lets happen. Structures in
  memory are written as the bytes of their layouts; consecutive stores to one structure are one
  store. Messages are left out.

  \<open>None\<close> is an access outside an array.
\<close>

datatype port_reg = CLB | CLBU | FB | FBU | IS | IE | CMD | TFD | SIG | SSTS | SCTL | SERR | SACT | CI | FBS

record 'h hba =
  reg_get :: "port_reg \<Rightarrow> 'h \<Rightarrow> 32 word \<times> 'h"
  reg_put :: "port_reg \<Rightarrow> 32 word \<Rightarrow> 'h \<Rightarrow> 'h"
  cap_get :: "'h \<Rightarrow> 32 word \<times> 'h"
  ram_get :: "nat \<Rightarrow> nat \<Rightarrow> 'h \<Rightarrow> byte list"
  ram_put :: "nat \<Rightarrow> byte list \<Rightarrow> 'h \<Rightarrow> 'h"
  tick :: "'h \<Rightarrow> 'h"

datatype device_type = Null | SATA | SEMB | PortMultiplier | SATAPI

datatype access_status = Success | DiskError | BadSlot | Hung

text \<open>The members of the class that the transfers use.\<close>

record ahci_port =
  commandList :: nat
  commandTables :: "nat list"
  physicalBuffers :: "nat list"
  port_type :: device_type

abbreviation (input) BLOCKSIZE :: nat where "BLOCKSIZE \<equiv> 512"
abbreviation (input) SPIN_COUNT :: nat where "SPIN_COUNT \<equiv> 1000"

abbreviation (input) HBA_PxCMD_ST :: "32 word" where "HBA_PxCMD_ST \<equiv> 0x0001"
abbreviation (input) HBA_PxCMD_FRE :: "32 word" where "HBA_PxCMD_FRE \<equiv> 0x0010"
abbreviation (input) HBA_PxCMD_FR :: "32 word" where "HBA_PxCMD_FR \<equiv> 0x4000"
abbreviation (input) HBA_PxCMD_CR :: "32 word" where "HBA_PxCMD_CR \<equiv> 0x8000"


section \<open>Registers\<close>

text \<open>\<open>registers->r = registers->r | bits\<close> and \<open>registers->r = registers->r & ~bits\<close>.\<close>

definition reg_or :: "'h hba \<Rightarrow> port_reg \<Rightarrow> 32 word \<Rightarrow> 'h \<Rightarrow> 'h" where
  "reg_or H r bits h = (case reg_get H r h of (v, h) \<Rightarrow> reg_put H r (or v bits) h)"

definition reg_clear :: "'h hba \<Rightarrow> port_reg \<Rightarrow> 32 word \<Rightarrow> 'h \<Rightarrow> 'h" where
  "reg_clear H r bits h = (case reg_get H r h of (v, h) \<Rightarrow> reg_put H r (and v (not bits)) h)"

text \<open>\<open>while (cond && spin--) Kernel::wait(1, 1000);\<close>, with the last value of \<open>spin\<close>.\<close>

primrec spin_while :: "('h \<Rightarrow> bool \<times> 'h) \<Rightarrow> ('h \<Rightarrow> 'h) \<Rightarrow> nat \<Rightarrow> 'h \<Rightarrow> int \<times> 'h" where
  "spin_while cond pause 0 h = (case cond h of (c, h) \<Rightarrow> (if c then - 1 else 0, h))"
| "spin_while cond pause (Suc n) h =
     (case cond h of (c, h) \<Rightarrow> if c then spin_while cond pause n (pause h) else (int (Suc n), h))"

text \<open>\<open>registers->tfd & (ATA_DEV_BUSY | ATA_DEV_DRQ)\<close>\<close>

definition tfd_busy :: "'h hba \<Rightarrow> 'h \<Rightarrow> bool \<times> 'h" where
  "tfd_busy H h = (case reg_get H TFD h of (v, h) \<Rightarrow> (and v 0x88 \<noteq> 0, h))"

text \<open>\<open>registers->is & HBA_PxIS_TFES\<close>\<close>

definition task_error :: "'h hba \<Rightarrow> 'h \<Rightarrow> bool \<times> 'h" where
  "task_error H h = (case reg_get H IS h of (v, h) \<Rightarrow> (bit v 30, h))"

definition start :: "'h hba \<Rightarrow> 'h \<Rightarrow> 'h" where
  "start H h = reg_put H IS 0 (reg_or H CMD HBA_PxCMD_ST (reg_or H CMD HBA_PxCMD_FRE h))"

text \<open>The test in \<open>stop\<close>; the second read only happens when the first finds the bit clear.\<close>

definition running :: "'h hba \<Rightarrow> 'h \<Rightarrow> bool \<times> 'h" where
  "running H h =
     (case reg_get H CMD h of (v, h) \<Rightarrow>
        if and v HBA_PxCMD_FR \<noteq> 0 then (True, h)
        else case reg_get H CMD h of (v, h) \<Rightarrow> (and v HBA_PxCMD_CR \<noteq> 0, h))"

primrec stop_wait :: "'h hba \<Rightarrow> nat \<Rightarrow> 'h \<Rightarrow> 'h" where
  "stop_wait H 0 h = h"
| "stop_wait H (Suc n) h = (case running H h of (r, h) \<Rightarrow> if r then stop_wait H n (tick H h) else h)"

definition stop :: "'h hba \<Rightarrow> 'h \<Rightarrow> 'h" where
  "stop H h =
     reg_clear H CMD HBA_PxCMD_FRE
       (stop_wait H SPIN_COUNT (reg_clear H CMD HBA_PxCMD_FRE (reg_clear H CMD HBA_PxCMD_ST h)))"

text \<open>\<open>setCLB\<close>, \<open>setFB\<close> and the functions that read them back.\<close>

definition setCLB :: "'h hba \<Rightarrow> nat \<Rightarrow> 'h \<Rightarrow> 'h" where
  "setCLB H addr h = reg_put H CLBU (word_of_nat (addr div 2 ^ 32)) (reg_put H CLB (word_of_nat (addr mod 2 ^ 32)) h)"

definition getCLB :: "'h hba \<Rightarrow> 'h \<Rightarrow> nat \<times> 'h" where
  "getCLB H h = (case reg_get H CLB h of (lo, h) \<Rightarrow> case reg_get H CLBU h of (hi, h) \<Rightarrow> (unat lo + 2 ^ 32 * unat hi, h))"

definition setFB :: "'h hba \<Rightarrow> nat \<Rightarrow> 'h \<Rightarrow> 'h" where
  "setFB H addr h = reg_put H FBU (word_of_nat (addr div 2 ^ 32)) (reg_put H FB (word_of_nat (addr mod 2 ^ 32)) h)"

definition getFB :: "'h hba \<Rightarrow> 'h \<Rightarrow> nat \<times> 'h" where
  "getFB H h = (case reg_get H FB h of (lo, h) \<Rightarrow> case reg_get H FBU h of (hi, h) \<Rightarrow> (unat lo + 2 ^ 32 * unat hi, h))"

definition identifyDevice :: "'h hba \<Rightarrow> 'h \<Rightarrow> device_type \<times> 'h" where
  "identifyDevice H h =
     (case reg_get H SSTS h of (v, h) \<Rightarrow>
      case reg_get H SSTS h of (w, h) \<Rightarrow>
        if and w 0x0f \<noteq> 3 \<or> and (drop_bit 8 v) 0x0f \<noteq> 1 then (Null, h)
        else case reg_get H SIG h of (sig, h) \<Rightarrow>
          (if sig = 0xEB140101 then SATAPI
           else if sig = 0xC33C0101 then SEMB
           else if sig = 0x96690101 then PortMultiplier
           else SATA, h))"

text \<open>
  \<open>getCommandSlot\<close>: the number of slots is taken from four of the five bits of the capabilities, which
  hold the number less one.
\<close>

primrec find_slot :: "32 word \<Rightarrow> nat \<Rightarrow> nat \<Rightarrow> nat option" where
  "find_slot slots i 0 = None"
| "find_slot slots i (Suc n) = (if \<not> bit slots i then Some i else find_slot slots (Suc i) n)"

definition getCommandSlot :: "'h hba \<Rightarrow> 'h \<Rightarrow> nat option \<times> 'h" where
  "getCommandSlot H h =
     (case reg_get H SACT h of (sact, h) \<Rightarrow>
      case reg_get H CI h of (ci, h) \<Rightarrow>
      case cap_get H h of (cap, h) \<Rightarrow>
        (find_slot (or sact ci) 0 (unat (drop_bit 8 (and cap 0xf00))), h))"


section \<open>Commands\<close>

text \<open>\<open>FISRegH2D\<close>: 20 bytes. A field that the driver leaves out is 0.\<close>

definition fis_reg_h2d :: "byte \<Rightarrow> nat \<Rightarrow> byte \<Rightarrow> nat \<Rightarrow> byte \<Rightarrow> byte list" where
  "fis_reg_h2d com lba device cnt control =
     [0x27, 0x80, com, 0] @ le_bytes 3 lba @ [device] @ le_bytes 3 (lba div 2 ^ 24) @ [0] @
     le_bytes 2 cnt @ [0, control] @ replicate 4 0"

text \<open>\<open>HBACommandTable\<close> with one region: 144 bytes, cleared and then filled in.\<close>

definition command_table :: "byte list \<Rightarrow> nat \<Rightarrow> nat \<Rightarrow> byte list" where
  "command_table fis buffer dbc =
     fis @ replicate (0x80 - length fis) 0 @ le_bytes 4 buffer @ le_bytes 4 (buffer div 2 ^ 32) @ replicate 4 0 @
     le_bytes 4 (dbc mod 2 ^ 22 + 2 ^ 31)"

text \<open>
  The fields of \<open>HBACommandHeader\<close> that are set before a command. In the second byte \<open>reset\<close>, \<open>bist\<close>
  and the reserved bit keep their value; the length of the table and its address stay.
\<close>

definition put_header :: "'h hba \<Rightarrow> ahci_port \<Rightarrow> nat \<Rightarrow> bool \<Rightarrow> bool \<Rightarrow> 'h \<Rightarrow> 'h" where
  "put_header H p slot atapi writing h =
     (let at = commandList p + 32 * slot;
          flags = or 5 (or (push_bit 5 (of_bool atapi)) (push_bit 6 (of_bool writing)));
          kept = and 0x0b (hd (ram_get H (at + 1) 1 h))
      in ram_put H (at + 4) (replicate 4 0) (ram_put H at [flags, kept] h))"

text \<open>The wait for the command: it ends with an error, or with the last value of \<open>spin\<close>.\<close>

primrec complete_wait :: "'h hba \<Rightarrow> nat \<Rightarrow> nat \<Rightarrow> 'h \<Rightarrow> int option \<times> 'h" where
  "complete_wait H slot 0 h = (case reg_get H CI h of (v, h) \<Rightarrow> (Some (if bit v slot then - 1 else 0), h))"
| "complete_wait H slot (Suc n) h =
     (case reg_get H CI h of (v, h) \<Rightarrow>
        if \<not> bit v slot then (Some (int (Suc n)), h)
        else case task_error H h of (e, h) \<Rightarrow>
          if e then (None, h) else complete_wait H slot n (tick H h))"

text \<open>The second half of \<open>access\<close>: everything is in memory, the command is issued and awaited.\<close>

definition issue :: "'h hba \<Rightarrow> nat \<Rightarrow> 'h \<Rightarrow> access_status \<times> 'h" where
  "issue H slot h =
     (let h = reg_put H IE (- 1) h;
          h = reg_put H IS (- 1) h;
          h = start H h;
          h = reg_or H CI (push_bit slot 1) h;
          (result, h) = complete_wait H slot SPIN_COUNT h
      in case result of
        None \<Rightarrow> (DiskError, stop H h)
      | Some spin \<Rightarrow>
          if spin \<le> 0 then (Hung, h)
          else
            let (spin, h) = spin_while (tfd_busy H) (tick H) SPIN_COUNT h;
                h = stop H h
            in if spin \<le> 0 then (Hung, h)
               else let (e, h) = task_error H h in (if e then DiskError else Success, h))"

definition access ::
  "'h hba \<Rightarrow> ahci_port \<Rightarrow> nat \<Rightarrow> nat \<Rightarrow> nat \<Rightarrow> bool \<Rightarrow> 'h \<Rightarrow> (access_status \<times> 'h) option" where
  "access H p lba cnt buffer writing h =
     (let h = reg_put H IE (- 1) h;
          h = reg_put H IS 0 h;
          (slot, h) = getCommandSlot H h
      in case slot of
        None \<Rightarrow> Some (BadSlot, h)
      | Some slot \<Rightarrow>
          let h = reg_put H SERR 0 h;
              h = reg_put H TFD 0 h;
              h = put_header H p slot (port_type p = SATAPI) writing h
          in if length (commandTables p) \<le> slot then None
             else
               let fis = fis_reg_h2d (if writing then 0x35 else 0x25) lba 0x40 cnt 8;
                   h = ram_put H (commandTables p ! slot)
                         (command_table fis buffer (u64 (int (BLOCKSIZE * cnt) - 1))) h;
                   (spin, h) = spin_while (tfd_busy H) (tick H) SPIN_COUNT h
               in Some (if spin \<le> 0 then (Hung, h) else issue H slot h))"


section \<open>Transfers\<close>

text \<open>
  One of the three loops of \<open>read\<close>, which takes \<open>k\<close> blocks at a time. It returns whether a command
  failed, the bytes so far, and the address, the blocks and the bytes that are left.
\<close>

partial_function (option) read_chunks ::
  "'h hba \<Rightarrow> ahci_port \<Rightarrow> nat \<Rightarrow> nat \<Rightarrow> nat \<Rightarrow> nat \<Rightarrow> byte list \<Rightarrow> 'h \<Rightarrow>
   ((bool \<times> byte list \<times> nat \<times> nat \<times> nat) \<times> 'h) option" where
  "read_chunks H p k lba blocks cnt out h =
     (if k \<le> blocks \<and> cnt \<noteq> 0 then do {
        let sz = (if cnt < BLOCKSIZE * k then cnt else BLOCKSIZE * k);
        (status, h) \<leftarrow> access H p lba k (physicalBuffers p ! 1) False h;
        if status \<noteq> Success then Some ((True, out, lba, blocks, cnt), h)
        else read_chunks H p k (wrap64 (lba + k)) (blocks - k) (cnt - sz)
               (out @ ram_get H (physicalBuffers p ! 1) sz h) h
      }
      else Some ((False, out, lba, blocks, cnt), h))"

text \<open>\<open>read\<close>; the number of bytes is a \<open>uint32_t\<close>.\<close>

definition port_read ::
  "'h hba \<Rightarrow> ahci_port \<Rightarrow> nat \<Rightarrow> nat \<Rightarrow> 'h \<Rightarrow> ((access_status \<times> byte list) \<times> 'h) option" where
  "port_read H p lba cnt h = do {
     let cnt = cnt mod 2 ^ 32;
     ((failed, out, lba, blocks, cnt), h) \<leftarrow> read_chunks H p 8 lba ((cnt + BLOCKSIZE - 1) div BLOCKSIZE) cnt [] h;
     if failed then Some ((DiskError, out), h)
     else do {
       ((failed, out, lba, blocks, cnt), h) \<leftarrow> read_chunks H p 2 lba blocks cnt out h;
       if failed then Some ((DiskError, out), h)
       else do {
         ((failed, out, lba, blocks, cnt), h) \<leftarrow> read_chunks H p 1 lba blocks cnt out h;
         Some ((if failed then DiskError else Success, out), h)
       }
     }
   }"

text \<open>\<open>readBytes\<close>; \<open>offset\<close> is the one in the first block.\<close>

partial_function (option) port_readBytes_loop ::
  "'h hba \<Rightarrow> ahci_port \<Rightarrow> nat \<Rightarrow> nat \<Rightarrow> nat \<Rightarrow> byte list \<Rightarrow> 'h \<Rightarrow> ((access_status \<times> byte list) \<times> 'h) option" where
  "port_readBytes_loop H p cnt offset lba out h =
     (if 0 < cnt then do {
        ((status, read_buffer), h) \<leftarrow> port_read H p lba BLOCKSIZE h;
        if status \<noteq> Success then Some ((status, out), h)
        else let to_copy = (if BLOCKSIZE - offset < cnt then BLOCKSIZE - offset else cnt) in
          port_readBytes_loop H p (cnt - to_copy) 0 (wrap64 (lba + 1)) (out @ take to_copy (drop offset read_buffer)) h
      }
      else Some ((Success, out), h))"

definition port_readBytes ::
  "'h hba \<Rightarrow> ahci_port \<Rightarrow> nat \<Rightarrow> nat \<Rightarrow> 'h \<Rightarrow> ((access_status \<times> byte list) \<times> 'h) option" where
  "port_readBytes H p cnt offset h = port_readBytes_loop H p cnt (offset mod BLOCKSIZE) (offset div BLOCKSIZE) [] h"

text \<open>
  The loop of \<open>write\<close>. \<open>count\<close> is not decreased: every block but one below \<open>BLOCKSIZE\<close> bytes takes a
  whole block from the buffer, and a block beyond its end is undefined.
\<close>

primrec write_blocks_loop :: "'h hba \<Rightarrow> ahci_port \<Rightarrow> nat \<Rightarrow> nat \<Rightarrow> nat \<Rightarrow> byte list \<Rightarrow> 'h \<Rightarrow> (access_status \<times> 'h) option" where
  "write_blocks_loop H p lba 0 cnt cbuffer h = Some (Success, h)"
| "write_blocks_loop H p lba (Suc blocks) cnt cbuffer h =
     (if cnt = 0 then Some (Success, h)
      else let sz = (if cnt < BLOCKSIZE then cnt else BLOCKSIZE) in
        if length cbuffer < sz then None
        else do {
          (status, h) \<leftarrow> access H p lba 1 (physicalBuffers p ! 1) True (ram_put H (physicalBuffers p ! 1) (take sz cbuffer) h);
          if status \<noteq> Success then Some (status, h)
          else write_blocks_loop H p (wrap64 (lba + 1)) blocks cnt (drop sz cbuffer) h
        })"

definition port_write :: "'h hba \<Rightarrow> ahci_port \<Rightarrow> nat \<Rightarrow> nat \<Rightarrow> byte list \<Rightarrow> 'h \<Rightarrow> (access_status \<times> 'h) option" where
  "port_write H p lba cnt buffer h =
     (let cnt = cnt mod 2 ^ 32 in write_blocks_loop H p lba ((cnt + BLOCKSIZE - 1) div BLOCKSIZE) cnt buffer h)"

text \<open>
  The loop of \<open>writeBytes\<close>: \<open>cbuffer\<close> is what is left of the caller's buffer. A whole block is written
  from \<open>write_buffer\<close>, not from \<open>cbuffer\<close>.
\<close>

partial_function (option) port_writeBytes_loop ::
  "'h hba \<Rightarrow> ahci_port \<Rightarrow> byte list \<Rightarrow> byte list \<Rightarrow> nat \<Rightarrow> 'h \<Rightarrow> (access_status \<times> 'h) option" where
  "port_writeBytes_loop H p write_buffer cbuffer lba h =
     (if cbuffer = [] then Some (Success, h)
      else if length cbuffer < BLOCKSIZE then do {
        ((status, write_buffer), h) \<leftarrow> port_read H p lba BLOCKSIZE h;
        if status \<noteq> Success then Some (status, h)
        else port_write H p lba BLOCKSIZE (cbuffer @ drop (length cbuffer) write_buffer) h
      }
      else do {
        (status, h) \<leftarrow> port_write H p lba BLOCKSIZE write_buffer h;
        if status \<noteq> Success then Some (status, h)
        else port_writeBytes_loop H p write_buffer (drop BLOCKSIZE cbuffer) (wrap64 (lba + 1)) h
      })"

definition port_writeBytes :: "'h hba \<Rightarrow> ahci_port \<Rightarrow> nat \<Rightarrow> byte list \<Rightarrow> 'h \<Rightarrow> (access_status \<times> 'h) option" where
  "port_writeBytes H p offset buffer h =
     (let lba = offset div BLOCKSIZE; offset = offset mod BLOCKSIZE; cnt = length buffer in
      if cnt mod BLOCKSIZE = 0 \<and> offset = 0 then port_write H p lba cnt buffer h
      else if offset \<noteq> 0 then do {
        ((status, write_buffer), h) \<leftarrow> port_read H p lba BLOCKSIZE h;
        if status \<noteq> Success then Some (status, h)
        else
          let to_write = (if BLOCKSIZE - offset < cnt then BLOCKSIZE - offset else cnt);
              write_buffer = take offset write_buffer @ take to_write buffer @ drop (offset + to_write) write_buffer
          in do {
            (status, h) \<leftarrow> port_write H p lba BLOCKSIZE write_buffer h;
            if status \<noteq> Success then Some (status, h)
            else port_writeBytes_loop H p write_buffer (drop to_write buffer) (wrap64 (lba + 1)) h
          }
      }
      else port_writeBytes_loop H p (replicate BLOCKSIZE 0) buffer lba h)"


section \<open>Identification\<close>

text \<open>
  \<open>identify\<close> fills the caller's structure with the 512 bytes of the first buffer when it gets to the
  end. The wait before the command ends in \<open>return\<close> when \<open>spin\<close> is at least 0, which is when the port
  is ready.
\<close>

definition identify :: "'h hba \<Rightarrow> ahci_port \<Rightarrow> 'h \<Rightarrow> (byte list option \<times> 'h) option" where
  "identify H p h =
     (let h = reg_put H IE (- 1) h;
          h = reg_put H IS 0 h;
          h = reg_put H TFD 0 h;
          (slot, h) = getCommandSlot H h
      in case slot of
        None \<Rightarrow> Some (None, h)
      | Some slot \<Rightarrow>
          let h = put_header H p slot False False h in
          if length (commandTables p) \<le> slot then None
          else
            let (type, h) = identifyDevice H h;
                fis = fis_reg_h2d (if type = SATAPI then 0xa1 else 0xec) 0 0 0 0;
                h = ram_put H (commandTables p ! slot) (command_table fis (physicalBuffers p ! 0) (BLOCKSIZE - 1)) h;
                (spin, h) = spin_while (tfd_busy H) (tick H) SPIN_COUNT h
            in if 0 \<le> spin then Some (None, h)
               else
                 let h = reg_put H IE (- 1) (reg_put H IS (- 1) h);
                     h = start H h;
                     h = reg_or H SACT (push_bit slot 1) h;
                     h = reg_or H CI (push_bit slot 1) h;
                     (result, h) = complete_wait H slot SPIN_COUNT h;
                     h = stop H h
                 in case result of
                   None \<Rightarrow> Some (None, h)
                 | Some spin \<Rightarrow>
                     let (spin, h) = spin_while (tfd_busy H) (tick H) SPIN_COUNT h;
                         (e, h) = task_error H h
                     in Some (if e then (None, stop H h) else (Some (ram_get H (physicalBuffers p ! 0) 512 h), h)))"

text \<open>\<open>getInfo\<close>: the structure is kept, whether or not it has been filled.\<close>

definition getInfo :: "'h hba \<Rightarrow> ahci_port \<Rightarrow> bool \<Rightarrow> byte list \<Rightarrow> 'h \<Rightarrow> ((bool \<times> byte list) \<times> 'h) option" where
  "getInfo H p identified info h =
     (if identified then Some ((True, info), h)
      else do {
        (got, h) \<leftarrow> identify H p h;
        Some ((True, case got of None \<Rightarrow> info | Some info \<Rightarrow> info), h)
      })"

text \<open>
  \<open>ATA::DeviceInfo::copyModel\<close>: the words of the model, high byte first, up to a byte of 0, and without
  the spaces at the end.
\<close>

fun model_bytes :: "16 word list \<Rightarrow> byte list" where
  "model_bytes [] = []"
| "model_bytes (w # ws) =
     (let first = ucast (drop_bit 8 w); second = ucast (and w 0xff) in
      if first = 0 then [] else if second = 0 then [first] else first # second # model_bytes ws)"

definition copyModel :: "16 word list \<Rightarrow> byte list" where
  "copyModel model = rev (dropWhile (\<lambda>c. c = 32) (rev (model_bytes model)))"

text \<open>The caller's array of one byte more than the model has room for it and for the zero at its end.\<close>

lemma copyModel_fits: "length (copyModel model) \<le> 2 * length model"
proof -
  have "length (model_bytes model) \<le> 2 * length model"
    by (induction model rule: model_bytes.induct) (simp_all add: Let_def)
  then show ?thesis unfolding copyModel_def
    by (metis length_dropWhile_le length_rev order_trans)
qed

end
