(* ===== verification/AHCI_Disk.thy ===== *)
theory AHCI_Disk
  imports AHCI_Port
begin

text \<open>
  A controller with one disk behind the registers and the memory of \<open>AHCI_Port\<close>, as the AHCI and ATA
  specifications describe it: a command issued while the port is started is carried out \<open>lag\<close> ticks
  later, by the structures that lie in memory then. The driver of \<open>AHCI_Port\<close> is run against it.

  The task file is busy while a command is pending. Interrupt and error bits are cleared by writing
  ones, the bits FR and CR of the command register follow FRE and ST, and the task file cannot be
  written.
\<close>

record controller =
  regs :: "port_reg \<Rightarrow> 32 word"
  ram :: "nat \<Rightarrow> byte"
  media :: "nat \<Rightarrow> byte"
  sectors :: nat
  pending :: nat

definition address_of :: "(nat \<Rightarrow> byte) \<Rightarrow> nat \<Rightarrow> nat" where
  "address_of m at = le_nat (rd m at 8)"

text \<open>
  One command: the header of the slot, its table, the FIS and the first region. It is a transfer between
  sectors and a buffer, with its direction and the number of the ATA command.
\<close>

definition decode :: "(nat \<Rightarrow> byte) \<Rightarrow> nat \<Rightarrow> (bool \<times> byte \<times> nat \<times> nat \<times> nat) option" where
  "decode m header =
     (let table = address_of m (header + 8);
          lba = le_nat (rd m (table + 4) 3) + 2 ^ 24 * le_nat (rd m (table + 8) 3);
          cnt = le_nat (rd m (table + 12) 2);
          room = le_nat (rd m (table + 0x8c) 4) mod 2 ^ 22 + 1
      in if \<not> bit (m header) 5 \<and> le_nat (rd m (header + 2) 2) \<noteq> 0 \<and> m table = 0x27 \<and> bit (m (table + 1)) 7 \<and>
            cnt \<noteq> 0 \<and> cnt * 512 \<le> room
         then Some (bit (m header) 6, m (table + 2), lba, cnt, address_of m (table + 0x80)) else None)"

definition list_base :: "controller \<Rightarrow> nat" where
  "list_base h = unat (regs h CLB) + 2 ^ 32 * unat (regs h CLBU)"

definition task_fault :: "controller \<Rightarrow> controller" where
  "task_fault h = h\<lparr>regs := (regs h)(IS := or (regs h IS) (push_bit 30 1))\<rparr>"

definition carry_out :: "nat \<Rightarrow> controller \<Rightarrow> controller" where
  "carry_out slot h =
     (case decode (ram h) (list_base h + 32 * slot) of
        None \<Rightarrow> task_fault h
      | Some (writing, com, lba, cnt, buffer) \<Rightarrow>
          if sectors h < lba + cnt \<or> com \<noteq> (if writing then 0x35 else 0x25) then task_fault h
          else
            let h = h\<lparr>regs := (regs h)(IS := or (regs h IS) 1)\<rparr> in
            if writing then h\<lparr>media := upd (media h) (lba * 512) (rd (ram h) buffer (cnt * 512))\<rparr>
            else h\<lparr>ram := upd (ram h) buffer (rd (media h) (lba * 512) (cnt * 512))\<rparr>)"

text \<open>The driver issues one command at a time: the lowest slot that is set is the command.\<close>

definition finish :: "controller \<Rightarrow> controller" where
  "finish h =
     (let h = (case find_slot (not (regs h CI)) 0 32 of None \<Rightarrow> h | Some slot \<Rightarrow> carry_out slot h)
      in h\<lparr>regs := (regs h)(CI := 0), pending := 0\<rparr>)"

definition pass :: "controller \<Rightarrow> controller" where
  "pass h = (if pending h = 0 then h else if pending h = 1 then finish h else h\<lparr>pending := pending h - 1\<rparr>)"

definition get :: "port_reg \<Rightarrow> controller \<Rightarrow> 32 word \<times> controller" where
  "get r h =
     (if r = TFD then if 0 < pending h then 0x80 else 0x50
      else if r = CMD then
        or (regs h CMD) (or (push_bit 10 (and (regs h CMD) 0x10)) (push_bit 15 (and (regs h CMD) 1)))
      else regs h r, h)"

definition put :: "nat \<Rightarrow> port_reg \<Rightarrow> 32 word \<Rightarrow> controller \<Rightarrow> controller" where
  "put lag r v h =
     (if r = TFD \<or> r = SIG \<or> r = SSTS then h
      else if r = IS \<or> r = SERR then h\<lparr>regs := (regs h)(r := and (regs h r) (not v))\<rparr>
      else if r = CMD then h\<lparr>regs := (regs h)(CMD := and v (not 0xc000))\<rparr>
      else if r = CI then
        (if bit (regs h CMD) 0 \<and> v \<noteq> 0 then
           let h = h\<lparr>regs := (regs h)(CI := or (regs h CI) v), pending := lag\<rparr> in if lag = 0 then finish h else h
         else h)
      else h\<lparr>regs := (regs h)(r := v)\<rparr>)"

definition ahci :: "nat \<Rightarrow> 32 word \<Rightarrow> controller hba" where
  "ahci lag cap =
     \<lparr>reg_get = get, reg_put = put lag, cap_get = (\<lambda>h. (cap, h)),
      ram_get = (\<lambda>at n h. rd (ram h) at n), ram_put = (\<lambda>at bs h. h\<lparr>ram := upd (ram h) at bs\<rparr>), tick = pass\<rparr>"

text \<open>
  What the constructor of the port has set up: the addresses in the registers and in the header of the
  first slot, regions of memory that do not overlap, and no command under way.
\<close>

definition apart :: "nat \<Rightarrow> nat \<Rightarrow> nat \<Rightarrow> nat \<Rightarrow> bool" where
  "apart a m b n \<longleftrightarrow> a + m \<le> b \<or> b + n \<le> a"

definition port_good :: "ahci_port \<Rightarrow> controller \<Rightarrow> bool" where
  "port_good p h \<longleftrightarrow>
     (let L = commandList p; T = commandTables p ! 0; B = physicalBuffers p ! 1 in
        commandTables p \<noteq> [] \<and> port_type p \<noteq> SATAPI \<and>
        L < 2 ^ 64 \<and> T < 2 ^ 64 \<and> B < 2 ^ 64 \<and>
        apart L 32 T 144 \<and> apart L 32 B 4096 \<and> apart T 144 B 4096 \<and>
        list_base h = L \<and>
        address_of (ram h) (L + 8) = T \<and> le_nat (rd (ram h) (L + 2) 2) \<noteq> 0 \<and>
        regs h SACT = 0 \<and> regs h CI = 0 \<and> pending h = 0)"


section \<open>The driver on the controller\<close>

lemma ahci_simps [simp]:
  "reg_get (ahci lag cap) = get" "reg_put (ahci lag cap) = put lag" "cap_get (ahci lag cap) h = (cap, h)"
  "ram_get (ahci lag cap) at n h = rd (ram h) at n" "ram_put (ahci lag cap) at bs h = h\<lparr>ram := upd (ram h) at bs\<rparr>"
  "tick (ahci lag cap) = pass"
  by (simp_all add: ahci_def)

text \<open>What lies in memory and on the disk, and the registers that name addresses.\<close>

definition agree :: "controller \<Rightarrow> controller \<Rightarrow> bool" where
  "agree h h' \<longleftrightarrow> ram h' = ram h \<and> media h' = media h \<and> sectors h' = sectors h \<and>
     (\<forall>r \<in> {CLB, CLBU, SACT}. regs h' r = regs h r)"

lemma agree_refl [simp]: "agree h h" by (simp add: agree_def)

lemma agree_trans: "agree h h' \<Longrightarrow> agree h' h'' \<Longrightarrow> agree h h''" by (simp add: agree_def)

lemma agree_regs [simp]: "r \<notin> {CLB, CLBU, SACT} \<Longrightarrow> agree h0 (h\<lparr>regs := f(r := v)\<rparr>) = agree h0 (h\<lparr>regs := f\<rparr>)"
  by (auto simp: agree_def)

text \<open>\<open>calm\<close>: no command under way.\<close>

definition calm :: "controller \<Rightarrow> bool" where
  "calm h \<longleftrightarrow> regs h CI = 0 \<and> pending h = 0"

lemma put_other:
  assumes "calm h" and "r \<in> {IS, IE, SERR, TFD, CMD}"
  shows "calm (put lag r v h) \<and> agree h (put lag r v h)"
  using assms by (auto simp: put_def calm_def agree_def)

lemma reg_or_CMD [simp]: "reg_or (ahci lag cap) CMD b h = put lag CMD (or (fst (get CMD h)) b) h"
  and reg_clear_CMD [simp]: "reg_clear (ahci lag cap) CMD b h = put lag CMD (and (fst (get CMD h)) (not b)) h"
  by (simp_all add: reg_or_def reg_clear_def get_def)

lemma not_busy: "calm h \<Longrightarrow> tfd_busy (ahci lag cap) h = (False, h)"
  by (simp add: tfd_busy_def get_def calm_def)

lemma spin_idle: "calm h \<Longrightarrow> spin_while (tfd_busy (ahci lag cap)) pause n h = (int n, h)"
  by (cases n) (simp_all add: not_busy)

lemma put_calm: "calm h \<Longrightarrow> r \<in> {IS, IE, SERR, TFD, CMD} \<Longrightarrow> calm (put lag r v h)"
  "calm h \<Longrightarrow> r \<in> {IS, IE, SERR, TFD, CMD} \<Longrightarrow> agree h (put lag r v h)"
  using put_other by blast+

text \<open>\<open>stop\<close> changes nothing but the command register, and comes back at once.\<close>

lemma cmd_off:
  fixes v :: "32 word"
  assumes "and v 0xc011 = 0"
  shows "and v 0x10 = 0" "and v 1 = 0" "and v 0x4000 = 0" "and v 0x8000 = 0"
proof -
  have *: "and v k = 0" if k: "and 0xc011 k = k" for k
    by (subst k [symmetric]) (simp only: and.assoc [symmetric] assms and_zero_eq zero_and_eq)
  show "and v 0x10 = 0" "and v 1 = 0" "and v 0x4000 = 0" "and v 0x8000 = 0" by (rule *, simp)+
qed

lemma push_bit_and_1: "0 < n \<Longrightarrow> and (push_bit n x) 1 = (0 :: 32 word)"
  by (rule bit_word_eqI) (auto simp: bit_simps)

lemma get_cmd_off: "and (regs h CMD) 0xc011 = 0 \<Longrightarrow> get CMD h = (regs h CMD, h)"
  by (simp add: get_def cmd_off)

lemma not_running: "and (regs h CMD) 0xc011 = 0 \<Longrightarrow> running (ahci lag cap) h = (False, h)"
  by (simp add: running_def get_cmd_off cmd_off)

lemma put_CMD: "put lag CMD v h = h\<lparr>regs := (regs h)(CMD := and v (not 0xc000))\<rparr>"
  by (simp add: put_def)

lemma stopped: "and (regs (put lag CMD (and (fst (get CMD (put lag CMD (and w (not 1)) h))) (not 0x10)) h') CMD) 0xc011 = 0"
  by (simp add: put_CMD get_def and.assoc push_bit_and_1 bit.conj_disj_distrib2)

lemma stop_ahci:
  assumes "calm h"
  shows "calm (stop (ahci lag cap) h) \<and> agree h (stop (ahci lag cap) h) \<and> regs (stop (ahci lag cap) h) IS = regs h IS"
proof -
  have "stop_wait (ahci lag cap) n h' = h'" if "and (regs h' CMD) 0xc011 = 0" for n h'
    using that by (cases n) (simp_all add: not_running)
  from this [OF stopped] show ?thesis
    using assms by (simp add: stop_def put_CMD calm_def agree_def)
qed

text \<open>The wait for the command: it is carried out after \<open>pending\<close> ticks, if that is soon enough.\<close>

lemma finish_pending [simp]: "finish (h\<lparr>pending := k\<rparr>) = finish h"
  by (simp add: finish_def carry_out_def task_fault_def list_base_def Let_def split: option.split prod.split)

lemma get_plain: "r \<noteq> TFD \<Longrightarrow> r \<noteq> CMD \<Longrightarrow> get r h = (regs h r, h)"
  by (simp add: get_def)

lemma complete_wait_ahci:
  assumes "pending h \<le> n" and "bit (regs h CI) slot = (0 < pending h)" and "\<not> bit (regs h IS) 30"
    and "\<not> bit (regs (finish h) CI) slot"
  shows "complete_wait (ahci lag cap) slot n h =
    (Some (int (n - pending h)), if pending h = 0 then h else finish h)"
  using assms
proof (induction n arbitrary: h)
  case 0
  then show ?case by (simp add: get_plain)
next
  case (Suc n)
  show ?case
  proof (cases "pending h")
    case 0
    then show ?thesis using Suc.prems by (simp add: get_plain)
  next
    case (Suc k)
    show ?thesis
    proof (cases k)
      case 0
      have "complete_wait (ahci lag cap) slot n (finish h) = (Some (int n), finish h)"
        using Suc.prems(4) by (cases n) (simp_all add: get_plain)
      then show ?thesis using Suc.prems Suc 0 by (simp add: get_plain task_error_def pass_def)
    next
      case (Suc j)
      have "complete_wait (ahci lag cap) slot n (h\<lparr>pending := k\<rparr>) = (Some (int (n - k)), finish h)"
        using Suc.IH [of "h\<lparr>pending := k\<rparr>"] Suc.prems Suc \<open>pending h = Suc k\<close> by simp
      then show ?thesis using Suc.prems Suc \<open>pending h = Suc k\<close>
        by (simp add: get_plain task_error_def pass_def)
    qed
  qed
qed

lemma complete_wait_slow:
  assumes "n < pending h" and "bit (regs h CI) slot" and "\<not> bit (regs h IS) 30"
  shows "complete_wait (ahci lag cap) slot n h = (Some (- 1), h\<lparr>pending := pending h - n\<rparr>)"
  using assms
proof (induction n arbitrary: h)
  case (Suc n)
  then have "pass h = h\<lparr>pending := pending h - 1\<rparr>" by (simp add: pass_def)
  then show ?case using Suc by (simp add: get_plain task_error_def)
qed (simp add: get_plain)

text \<open>The first slot: what a command does to memory and disk.\<close>

lemma finish_first: "bit (regs h CI) 0 \<Longrightarrow> finish h =
    (carry_out 0 h)\<lparr>regs := (regs (carry_out 0 h))(CI := 0), pending := 0\<rparr>"
  by (simp add: finish_def Let_def bit_not_iff numeral_eq_Suc)

lemma carry_out_calm: "r \<noteq> IS \<Longrightarrow> regs (carry_out slot h) r = regs h r" "sectors (carry_out slot h) = sectors h"
  by (auto simp: carry_out_def task_fault_def Let_def split: option.split)

lemma carry_out_agree:
  assumes "agree h h'" and "regs h' IS = regs h IS"
  shows "ram (carry_out 0 h') = ram (carry_out 0 h)" "media (carry_out 0 h') = media (carry_out 0 h)"
    "regs (carry_out 0 h') IS = regs (carry_out 0 h) IS"
  using assms by (auto simp: carry_out_def task_fault_def list_base_def agree_def Let_def split: option.split)

text \<open>Up to the store that issues the command: the interrupt bits are clear and the port is started.\<close>

definition armed :: "nat \<Rightarrow> controller \<Rightarrow> controller" where
  "armed lag h = start (ahci lag 0) (put lag IS (- 1) (put lag IE (- 1) h))"

lemma armed_simps:
  assumes "calm h"
  shows "calm (armed lag h)" "agree h (armed lag h)" "regs (armed lag h) IS = 0" "bit (regs (armed lag h) CMD) 0"
proof -
  let ?h = "put lag IS (- 1) (put lag IE (- 1) h)"
  have h: "calm ?h" "agree h ?h" "regs ?h IS = 0"
    using assms by (auto simp: put_def calm_def agree_def)
  then show "calm (armed lag h)" "agree h (armed lag h)" "regs (armed lag h) IS = 0"
    by (auto simp: armed_def start_def put_def calm_def agree_def)
  show "bit (regs (armed lag h) CMD) 0"
    by (simp add: armed_def start_def put_def bit_or_iff bit_and_iff bit_not_iff)
qed

lemma issue_armed:
  "issue (ahci lag cap) slot h =
     (let (result, h) = complete_wait (ahci lag cap) slot SPIN_COUNT
            (reg_or (ahci lag cap) CI (push_bit slot 1) (armed lag h))
      in case result of
        None \<Rightarrow> (DiskError, stop (ahci lag cap) h)
      | Some spin \<Rightarrow>
          if spin \<le> 0 then (Hung, h)
          else
            let (spin, h) = spin_while (tfd_busy (ahci lag cap)) (tick (ahci lag cap)) SPIN_COUNT h;
                h = stop (ahci lag cap) h
            in if spin \<le> 0 then (Hung, h)
               else let (e, h) = task_error (ahci lag cap) h in (if e then DiskError else Success, h))"
  by (simp add: issue_def armed_def start_def Let_def)

text \<open>The state after the command has been carried out.\<close>

definition issued :: "nat \<Rightarrow> controller \<Rightarrow> controller" where
  "issued lag h = (armed lag h)\<lparr>regs := (regs (armed lag h))(CI := 1), pending := lag\<rparr>"

lemma reg_or_CI:
  "calm h \<Longrightarrow> reg_or (ahci lag cap) CI (push_bit 0 1) (armed lag h) =
    (if lag = 0 then finish (issued lag h) else issued lag h)"
  using armed_simps [of h lag] by (simp add: reg_or_def get_plain put_def issued_def calm_def Let_def)

lemma issued_CI [simp]: "regs (issued lag h) CI = 1" "pending (issued lag h) = lag"
  by (simp_all add: issued_def)

lemma finish_issued:
  assumes "calm h"
  defines "h0 \<equiv> h\<lparr>regs := (regs h)(IS := 0)\<rparr>"
  shows "calm (finish (issued lag h))" "ram (finish (issued lag h)) = ram (carry_out 0 h0)"
    "media (finish (issued lag h)) = media (carry_out 0 h0)" "regs (finish (issued lag h)) IS = regs (carry_out 0 h0) IS"
    "agree h (finish (issued lag h)\<lparr>ram := ram h, media := media h\<rparr>)"
proof -
  note a = armed_simps [OF assms(1), of lag]
  have ag: "agree h0 (issued lag h)" "regs (issued lag h) IS = regs h0 IS"
    using a by (simp_all add: issued_def h0_def agree_def)
  have f: "finish (issued lag h) = (carry_out 0 (issued lag h))
      \<lparr>regs := (regs (carry_out 0 (issued lag h)))(CI := 0), pending := 0\<rparr>"
    by (rule finish_first) (simp add: bit_1_iff)
  show "calm (finish (issued lag h))" by (simp add: f calm_def)
  show "ram (finish (issued lag h)) = ram (carry_out 0 h0)" "media (finish (issued lag h)) = media (carry_out 0 h0)"
    "regs (finish (issued lag h)) IS = regs (carry_out 0 h0) IS"
    using carry_out_agree [OF ag] by (simp_all add: f)
  show "agree h (finish (issued lag h)\<lparr>ram := ram h, media := media h\<rparr>)"
    using ag by (simp add: f agree_def carry_out_calm h0_def)
qed

lemma issue_ahci:
  assumes h: "calm h" and lag: "lag < SPIN_COUNT"
  defines "h0 \<equiv> h\<lparr>regs := (regs h)(IS := 0)\<rparr>"
  obtains h' where "issue (ahci lag cap) 0 h = (if bit (regs (carry_out 0 h0) IS) 30 then DiskError else Success, h')"
    and "calm h'" "ram h' = ram (carry_out 0 h0)" "media h' = media (carry_out 0 h0)"
    "agree h (h'\<lparr>ram := ram h, media := media h\<rparr>)"
proof
  let ?i = "issued lag h" let ?f = "finish ?i" let ?s = "stop (ahci lag cap) ?f"
  note f = finish_issued [OF h, of lag, folded h0_def]
  have CI: "regs ?f CI = 0" using f(1) by (simp add: calm_def)
  have w: "complete_wait (ahci lag cap) 0 SPIN_COUNT (reg_or (ahci lag cap) CI (push_bit 0 1) (armed lag h)) =
      (Some (int (SPIN_COUNT - lag)), ?f)"
  proof (cases "lag = 0")
    case True
    then show ?thesis unfolding reg_or_CI [OF h] using CI
      by (simp add: get_plain numeral_eq_Suc)
  next
    case False
    have "\<not> bit (regs ?i IS) 30" using armed_simps(3) [OF h] by (simp add: issued_def)
    then have "complete_wait (ahci lag cap) 0 SPIN_COUNT ?i = (Some (int (SPIN_COUNT - lag)), ?f)"
      using complete_wait_ahci [of ?i SPIN_COUNT 0 lag cap] lag False CI by (simp add: bit_1_iff)
    then show ?thesis unfolding reg_or_CI [OF h] using False by simp
  qed
  note s = stop_ahci [OF f(1), of lag cap]
  show "issue (ahci lag cap) 0 h = (if bit (regs (carry_out 0 h0) IS) 30 then DiskError else Success, ?s)"
    unfolding issue_armed w Let_def prod.case option.case using lag s f(4)
    by (simp add: spin_idle [OF f(1)] task_error_def get_plain)
  show "calm ?s" using s by simp
  show "ram ?s = ram (carry_out 0 h0)" "media ?s = media (carry_out 0 h0)"
    using s f(2,3) by (simp_all add: agree_def)
  show "agree h (?s\<lparr>ram := ram h, media := media h\<rparr>)"
    using s f(5) by (simp add: agree_def)
qed


section \<open>One access\<close>

text \<open>The memory after the driver has prepared a command.\<close>

definition prepared :: "ahci_port \<Rightarrow> nat \<Rightarrow> nat \<Rightarrow> nat \<Rightarrow> bool \<Rightarrow> (nat \<Rightarrow> byte) \<Rightarrow> nat \<Rightarrow> byte" where
  "prepared p lba cnt buffer writing m =
     upd (upd (upd m (commandList p)
            [or 5 (push_bit 6 (of_bool writing)), and 0x0b (m (commandList p + 1))])
          (commandList p + 4) (replicate 4 0))
       (commandTables p ! 0)
       (command_table (fis_reg_h2d (if writing then 0x35 else 0x25) lba 0x40 cnt 8) buffer (512 * cnt - 1))"

lemma length_fis [simp]: "length (fis_reg_h2d com lba device cnt control) = 20"
  by (simp add: fis_reg_h2d_def)

lemma length_command_table [simp]: "length fis = 20 \<Longrightarrow> length (command_table fis buffer dbc) = 144"
  by (simp add: command_table_def)

lemma rd_table: "length ct = 144 \<Longrightarrow> k + n \<le> 144 \<Longrightarrow> rd (upd m T ct) (T + k) n = take n (drop k ct)"
  by (auto simp: upd_def intro!: nth_equalityI)

lemma nth_table: "length ct = 144 \<Longrightarrow> k < 144 \<Longrightarrow> upd m T ct (T + k) = ct ! k"
  by (simp add: upd_def)

lemma table_fields:
  assumes "length fis = 20"
  shows "le_nat (take 8 (drop 0x80 (command_table fis buffer dbc))) = buffer mod 2 ^ 64"
    "le_nat (drop 0x8c (command_table fis buffer dbc)) mod 4194304 = dbc mod 4194304"
    "k + n \<le> 20 \<Longrightarrow> take n (drop k (command_table fis buffer dbc)) = take n (drop k fis)"
    "k < 20 \<Longrightarrow> command_table fis buffer dbc ! k = fis ! k"
proof -
  have "le_bytes 4 buffer @ le_bytes 4 (buffer div 2 ^ 32) = le_bytes 8 buffer"
    using le_bytes_append [of 4 buffer 4] by simp
  then show "le_nat (take 8 (drop 0x80 (command_table fis buffer dbc))) = buffer mod 2 ^ 64"
    using assms by (simp add: command_table_def le_nat_le_bytes)
  have "(dbc mod 4194304 + 2147483648) mod 4194304 = dbc mod 4194304"
    using mod_mult_self1 [of "dbc mod 4194304" 512 4194304] by simp
  then show "le_nat (drop 0x8c (command_table fis buffer dbc)) mod 4194304 = dbc mod 4194304"
    using assms by (simp add: command_table_def le_nat_le_bytes)
qed (use assms in \<open>auto simp: command_table_def nth_append\<close>)

lemma fis_fields:
  "fis_reg_h2d com lba device cnt control ! 0 = 0x27" "fis_reg_h2d com lba device cnt control ! 1 = 0x80"
  "fis_reg_h2d com lba device cnt control ! 2 = com"
  "le_nat (take 3 (drop 4 (fis_reg_h2d com lba device cnt control))) = lba mod 2 ^ 24"
  "le_nat (take 3 (drop 8 (fis_reg_h2d com lba device cnt control))) = lba div 2 ^ 24 mod 2 ^ 24"
  "le_nat (take 2 (drop 12 (fis_reg_h2d com lba device cnt control))) = cnt mod 2 ^ 16"
  by (simp_all add: fis_reg_h2d_def le_nat_le_bytes)
lemma header_flags:
  "bit (or 5 (push_bit 6 (of_bool writing)) :: byte) 5 = False" "bit (or 5 (push_bit 6 (of_bool writing)) :: byte) 6 = writing"
  by (cases writing; simp)+

lemma port_goodD:
  assumes "port_good p h"
  shows "commandTables p \<noteq> []" "port_type p \<noteq> SATAPI" "commandList p < 2 ^ 64" "commandTables p ! 0 < 2 ^ 64"
    "physicalBuffers p ! 1 < 2 ^ 64" "apart (commandList p) 32 (commandTables p ! 0) 144"
    "apart (commandList p) 32 (physicalBuffers p ! 1) 4096" "apart (commandTables p ! 0) 144 (physicalBuffers p ! 1) 4096"
    "list_base h = commandList p" "address_of (ram h) (commandList p + 8) = commandTables p ! 0"
    "le_nat (rd (ram h) (commandList p + 2) 2) \<noteq> 0" "regs h SACT = 0" "calm h"
  using assms by (simp_all add: port_good_def Let_def calm_def)

lemma decode_prepared:
  assumes p: "port_good p h" and cnt: "0 < cnt" "cnt \<le> 8" and lba: "lba < 2 ^ 48" and buffer: "buffer < 2 ^ 64"
  shows "decode (prepared p lba cnt buffer writing (ram h)) (commandList p) =
    Some (writing, if writing then 0x35 else 0x25, lba, cnt, buffer)"
proof -
  let ?L = "commandList p" and ?T = "commandTables p ! 0"
  let ?m = "prepared p lba cnt buffer writing (ram h)"
  let ?fis = "fis_reg_h2d (if writing then 0x35 else 0x25) lba 0x40 cnt 8"
  have ap: "?L + 32 \<le> ?T \<or> ?T + 144 \<le> ?L" using port_goodD(6) [OF p] by (simp add: apart_def)
  have L: "?m ?L = or 5 (push_bit 6 (of_bool writing))" "rd ?m (?L + 2) 2 = rd (ram h) (?L + 2) 2"
    "rd ?m (?L + 8) 8 = rd (ram h) (?L + 8) 8"
    using ap by (auto simp: prepared_def upd_def intro!: rd_cong)
  have T: "address_of ?m (?L + 8) = ?T" "le_nat (rd ?m (?L + 2) 2) \<noteq> 0"
    unfolding address_of_def L using port_goodD [OF p] by (simp_all add: address_of_def)
  have rdT: "rd ?m (?T + k) n = take n (drop k (command_table ?fis buffer (512 * cnt - 1)))" if "k + n \<le> 144" for k n
    using that unfolding prepared_def by (intro rd_table) simp_all
  have mT: "?m (?T + k) = ?fis ! k" if "k < 20" for k
    using that unfolding prepared_def by (subst nth_table) (simp_all add: table_fields)
  have f: "?m ?T = 0x27" "bit (?m (?T + 1)) 7" "?m (?T + 2) = (if writing then 0x35 else 0x25)"
    using mT [of 0] mT [of 1] mT [of 2] by (simp_all add: fis_fields [simplified])
  have g: "le_nat (rd ?m (?T + 4) 3) = lba mod 2 ^ 24" "le_nat (rd ?m (?T + 8) 3) = lba div 2 ^ 24"
    "le_nat (rd ?m (?T + 12) 2) = cnt" "address_of ?m (?T + 0x80) = buffer"
    "le_nat (rd ?m (?T + 0x8c) 4) mod 2 ^ 22 = 512 * cnt - 1"
    unfolding address_of_def using lba cnt buffer
    by (simp_all add: rdT table_fields fis_fields less_mult_imp_div_less)
  have c: "(if \<not> bit (?m ?L) 5 \<and> le_nat (rd ?m (?L + 2) 2) \<noteq> 0 \<and> ?m ?T = 0x27 \<and> bit (?m (?T + 1)) 7 \<and>
        cnt \<noteq> 0 \<and> cnt * 512 \<le> 512 * cnt - 1 + 1 then x else y) = x" for x y
    using f T(2) L(1) cnt by (simp add: header_flags)
  show ?thesis unfolding decode_def Let_def T(1) g f(3) c
    by (simp add: L(1) header_flags)
qed

text \<open>\<open>access\<close> up to the command: the first slot is free, and the command lies in memory.\<close>

lemma first_slot:
  assumes "and cap 0xf00 \<noteq> (0 :: 32 word)"
  shows "find_slot 0 0 (unat (drop_bit 8 (and cap 0xf00))) = Some 0"
proof -
  define a where "a = and cap (push_bit 8 0xf)"
  have a: "a = and cap 0xf00" by (simp add: a_def)
  have "a = push_bit 8 (drop_bit 8 a)" unfolding a_def
    by (rule bit_word_eqI) (auto simp: bit_and_iff bit_push_bit_iff bit_drop_bit_eq simp del: push_bit_numeral)
  then have "drop_bit 8 a \<noteq> 0" using assms unfolding a [symmetric] by (metis push_bit_of_0)
  then show ?thesis unfolding a [symmetric] by (cases "unat (drop_bit 8 a)") (simp_all add: unat_eq_0)
qed

lemma access_prepared:
  assumes p: "port_good p h" and cap: "and cap 0xf00 \<noteq> 0" and cnt: "0 < cnt" "cnt \<le> 8"
  obtains h1 where "calm h1" "agree h h1"
    and "access (ahci lag cap) p lba cnt buffer writing h =
      Some (issue (ahci lag cap) 0 (h1\<lparr>ram := prepared p lba cnt buffer writing (ram h)\<rparr>))"
proof
  note g = port_goodD [OF p]
  let ?h1 = "put lag IS 0 (put lag IE (- 1) h)"
  let ?h2 = "put lag TFD 0 (put lag SERR 0 ?h1)"
  have h1: "calm ?h1" "agree h ?h1" using g by (auto simp: put_def calm_def agree_def)
  then show h2: "calm ?h2" "agree h ?h2" by (auto simp: put_def calm_def agree_def)
  have slot: "getCommandSlot (ahci lag cap) ?h1 = (Some 0, ?h1)"
    using h1 g(12) first_slot [OF cap] by (simp add: getCommandSlot_def get_plain calm_def agree_def)
  have ram: "ram ?h2 = ram h" using h2 by (simp add: agree_def)
  have dbc: "u64 (int (512 * cnt) - 1) = 512 * cnt - 1"
    using cnt by (simp add: nat_diff_distrib nat_mult_distrib)
  have hdr: "ram_put (ahci lag cap) (commandTables p ! 0)
        (command_table (fis_reg_h2d (if writing then 0x35 else 0x25) lba 0x40 cnt 8) buffer (u64 (int (512 * cnt) - 1)))
        (put_header (ahci lag cap) p 0 (port_type p = SATAPI) writing ?h2) =
      ?h2\<lparr>ram := prepared p lba cnt buffer writing (ram h)\<rparr>"
    using g(2) ram dbc by (simp add: put_header_def prepared_def Let_def rd_def)
  have calm: "calm (?h2\<lparr>ram := m\<rparr>)" for m using h2(1) by (simp add: calm_def)
  show "access (ahci lag cap) p lba cnt buffer writing h =
      Some (issue (ahci lag cap) 0 (?h2\<lparr>ram := prepared p lba cnt buffer writing (ram h)\<rparr>))"
    using g(1) hdr unfolding access_def Let_def ahci_simps(2)
    by (simp only: slot prod.case option.case) (simp add: spin_idle [OF calm])
qed

text \<open>Everything that the driver relies on stays: the regions that it does not transfer to are its own.\<close>

lemma prepared_header:
  assumes "port_good p h"
  shows "address_of (prepared p lba cnt buffer writing (ram h)) (commandList p + 8) = commandTables p ! 0"
    "rd (prepared p lba cnt buffer writing (ram h)) (commandList p + 2) 2 = rd (ram h) (commandList p + 2) 2"
proof -
  have ap: "commandList p + 32 \<le> commandTables p ! 0 \<or> commandTables p ! 0 + 144 \<le> commandList p"
    using port_goodD(6) [OF assms] by (simp add: apart_def)
  have "rd (prepared p lba cnt buffer writing (ram h)) (commandList p + 8) 8 = rd (ram h) (commandList p + 8) 8"
    using ap by (auto simp: prepared_def upd_def intro!: rd_cong)
  then show "address_of (prepared p lba cnt buffer writing (ram h)) (commandList p + 8) = commandTables p ! 0"
    using port_goodD(10) [OF assms] by (simp add: address_of_def)
  show "rd (prepared p lba cnt buffer writing (ram h)) (commandList p + 2) 2 = rd (ram h) (commandList p + 2) 2"
    using ap by (auto simp: prepared_def upd_def intro!: rd_cong)
qed

lemma prepared_buffer:
  assumes "port_good p h" and "n \<le> 4096"
  shows "rd (prepared p lba cnt buffer writing (ram h)) (physicalBuffers p ! 1) n = rd (ram h) (physicalBuffers p ! 1) n"
  using port_goodD(7,8) [OF assms(1)] assms(2) by (auto simp: prepared_def upd_def apart_def intro!: rd_cong)

lemma port_good_after:
  assumes p: "port_good p h" and h': "calm h'" "agree h (h'\<lparr>ram := m, media := d\<rparr>)"
    and m: "ram h' = prepared p lba cnt buffer writing (ram h) \<or>
      ram h' = upd (prepared p lba cnt buffer writing (ram h)) (physicalBuffers p ! 1) bs \<and> length bs \<le> 4096"
  shows "port_good p h'"
proof -
  note g = port_goodD [OF p] and r = prepared_header [OF p, of lba cnt buffer writing]
  have ap: "commandList p + 32 \<le> physicalBuffers p ! 1 \<or> physicalBuffers p ! 1 + 4096 \<le> commandList p"
    using g(7) by (simp add: apart_def)
  have "rd (upd m' (physicalBuffers p ! 1) bs) (commandList p + k) n = rd m' (commandList p + k) n"
    if "k + n \<le> 32" "length bs \<le> 4096" for m' k n
    using ap that by (intro rd_upd_disjoint) auto
  from this [of 8 8] this [of 2 2]
  have "address_of (ram h') (commandList p + 8) = commandTables p ! 0"
    "rd (ram h') (commandList p + 2) 2 = rd (ram h) (commandList p + 2) 2"
    using m r by (auto simp: address_of_def)
  then show ?thesis using g h' by (simp add: port_good_def Let_def calm_def agree_def list_base_def)
qed

lemma carry_out_prepared:
  fixes writing :: bool
  assumes "port_good p h" and "0 < cnt" "cnt \<le> 8" and "lba < 2 ^ 48" and "agree h h1"
  defines "h2 \<equiv> h1\<lparr>ram := prepared p lba cnt (physicalBuffers p ! 1) writing (ram h), regs := (regs h1)(IS := 0)\<rparr>"
  shows "carry_out 0 h2 = (if sectors h < lba + cnt then task_fault h2
      else
        let h3 = h2\<lparr>regs := (regs h2)(IS := 1)\<rparr> in
        if writing then h3\<lparr>media := upd (media h) (lba * 512) (rd (ram h) (physicalBuffers p ! 1) (cnt * 512))\<rparr>
        else h3\<lparr>ram := upd (ram h2) (physicalBuffers p ! 1) (rd (media h) (lba * 512) (cnt * 512))\<rparr>)"
proof -
  have "list_base h2 = commandList p" using assms(5) port_goodD(9) [OF assms(1)]
    by (simp add: h2_def list_base_def agree_def)
  moreover have "ram h2 = prepared p lba cnt (physicalBuffers p ! 1) writing (ram h)" by (simp add: h2_def)
  moreover have "rd (ram h2) (physicalBuffers p ! 1) (cnt * 512) = rd (ram h) (physicalBuffers p ! 1) (cnt * 512)"
    using prepared_buffer [OF assms(1), of "cnt * 512"] assms(3) by (simp add: h2_def)
  moreover have "sectors h2 = sectors h" "media h2 = media h" "regs h2 IS = 0"
    using assms(5) by (simp_all add: h2_def agree_def)
  ultimately show ?thesis
    using decode_prepared [OF assms(1-4) port_goodD(5) [OF assms(1)], of writing]
    by (cases writing) (simp_all add: carry_out_def Let_def)
qed

text \<open>An access through the buffer: a transfer of whole sectors, or an error beyond the end of the disk.\<close>

lemma access_ahci:
  assumes p: "port_good p h" and cap: "and cap 0xf00 \<noteq> 0" and lag: "lag < SPIN_COUNT"
    and cnt: "0 < cnt" "cnt \<le> 8" and lba: "lba < 2 ^ 48"
  defines "B \<equiv> physicalBuffers p ! 1"
  shows "wp (access (ahci lag cap) p lba cnt B writing h) (\<lambda>r h'. port_good p h' \<and> sectors h' = sectors h \<and>
    (if sectors h < lba + cnt then r = DiskError \<and> media h' = media h
     else r = Success \<and>
       media h' = (if writing then upd (media h) (lba * 512) (rd (ram h) B (cnt * 512)) else media h) \<and>
       (\<not> writing \<longrightarrow> rd (ram h') B (cnt * 512) = rd (media h) (lba * 512) (cnt * 512))))"
proof -
  let ?m = "prepared p lba cnt B writing (ram h)"
  obtain h1 where h1: "calm h1" "agree h h1"
    and acc: "access (ahci lag cap) p lba cnt B writing h = Some (issue (ahci lag cap) 0 (h1\<lparr>ram := ?m\<rparr>))"
    by (rule access_prepared [OF p cap cnt])
  have calm: "calm (h1\<lparr>ram := ?m\<rparr>)" using h1(1) by (simp add: calm_def)
  let ?c = "carry_out 0 (h1\<lparr>ram := ?m, regs := (regs h1)(IS := 0)\<rparr>)"
  obtain h' where h': "issue (ahci lag cap) 0 (h1\<lparr>ram := ?m\<rparr>) = (if bit (regs ?c IS) 30 then DiskError else Success, h')"
    "calm h'" "ram h' = ram ?c" "media h' = media ?c" "agree (h1\<lparr>ram := ?m\<rparr>) (h'\<lparr>ram := ?m, media := media h1\<rparr>)"
    using issue_ahci [OF calm lag, of cap] by (auto simp del: agree_regs)
  note c = carry_out_prepared [OF p cnt lba h1(2), of writing, folded B_def]
  have ag: "agree h (h'\<lparr>ram := ram h, media := media h\<rparr>)" "sectors h' = sectors h"
    using h1(2) h'(5) by (simp_all add: agree_def)
  have "\<not> bit (1 :: 32 word) 30" "bit (push_bit 30 1 :: 32 word) 30" by simp_all
  moreover have "port_good p h'"
  proof (rule port_good_after [OF p h'(2) ag(1)])
    show "ram h' = ?m \<or> ram h' = upd ?m (physicalBuffers p ! 1) (rd (media h) (lba * 512) (cnt * 512)) \<and>
        length (rd (media h) (lba * 512) (cnt * 512)) \<le> 4096"
      using cnt h1(2) unfolding h'(3) c by (simp add: task_fault_def Let_def B_def)
  qed
  ultimately show ?thesis using ag(2) h1(2) h'(3,4) unfolding acc h'(1) c
    by (simp add: task_fault_def Let_def agree_def)
qed


section \<open>Reading\<close>

text \<open>The state that transfers keep: \<open>n\<close> sectors behind a port that answers in time.\<close>

definition port_ok :: "nat \<Rightarrow> 32 word \<Rightarrow> nat \<Rightarrow> ahci_port \<Rightarrow> controller \<Rightarrow> bool" where
  "port_ok lag cap n p h \<longleftrightarrow>
     port_good p h \<and> sectors h = n \<and> n \<le> 2 ^ 48 \<and> lag < SPIN_COUNT \<and> and cap 0xf00 \<noteq> 0"

lemma access_read:
  assumes "port_ok lag cap n p h" and "0 < k" "k \<le> 8" and "lba + k \<le> n"
  shows "wp (access (ahci lag cap) p lba k (physicalBuffers p ! 1) False h) (\<lambda>r h'. r = Success \<and>
    port_ok lag cap n p h' \<and> media h' = media h \<and>
    rd (ram h') (physicalBuffers p ! 1) (k * 512) = rd (media h) (lba * 512) (k * 512))"
proof (rule wp_mono [OF access_ahci])
  show "port_good p h" "and cap 0xf00 \<noteq> 0" "lag < SPIN_COUNT" "lba < 2 ^ 48"
    using assms by (simp_all add: port_ok_def)
qed (use assms in \<open>auto simp: port_ok_def split: if_splits\<close>)

lemma access_write:
  assumes "port_ok lag cap n p h" and "0 < k" "k \<le> 8" and "lba + k \<le> n"
  shows "wp (access (ahci lag cap) p lba k (physicalBuffers p ! 1) True h) (\<lambda>r h'. r = Success \<and>
    port_ok lag cap n p h' \<and> media h' = upd (media h) (lba * 512) (rd (ram h) (physicalBuffers p ! 1) (k * 512)))"
proof (rule wp_mono [OF access_ahci])
  show "port_good p h" "and cap 0xf00 \<noteq> 0" "lag < SPIN_COUNT" "lba < 2 ^ 48"
    using assms by (simp_all add: port_ok_def)
qed (use assms in \<open>auto simp: port_ok_def split: if_splits\<close>)

lemma read_chunks_ok:
  assumes "port_ok lag cap n p h" and "0 < k" "k \<le> 8" and "blocks = (cnt + 511) div 512" and "lba + blocks \<le> n"
  shows "wp (read_chunks (ahci lag cap) p k lba blocks cnt out h) (\<lambda>(failed, out', lba', blocks', cnt') h'.
    \<not> failed \<and> port_ok lag cap n p h' \<and> media h' = media h \<and> blocks' < k \<and> blocks' = (cnt' + 511) div 512 \<and>
    lba' + blocks' \<le> n \<and> cnt' \<le> cnt \<and> out' = out @ rd (media h) (lba * 512) (cnt - cnt') \<and>
    (cnt' \<noteq> 0 \<longrightarrow> lba' * 512 = lba * 512 + (cnt - cnt')))"
  using assms
proof (induction cnt arbitrary: blocks lba out h rule: less_induct)
  case (less cnt)
  show ?case
  proof (cases "k \<le> blocks \<and> cnt \<noteq> 0")
    case False
    then show ?thesis using less.prems by (subst read_chunks.simps) auto
  next
    case True
    define sz where "sz = (if cnt < 512 * k then cnt else 512 * k)"
    have lba: "lba + k \<le> n" "wrap64 (lba + k) = lba + k"
      using less.prems True by (simp_all add: port_ok_def)
    have sz: "sz \<le> k * 512" "sz \<noteq> 0" "sz \<le> cnt" using less.prems(2) True by (auto simp: sz_def)
    have b: "blocks - k = (cnt - sz + 511) div 512" "lba + k + (blocks - k) \<le> n" "cnt - sz < cnt"
      using less.prems(4,5) True sz by (auto simp: sz_def)
    have more: "rd (media h) (lba * 512) sz @ rd (media h) ((lba + k) * 512) (cnt - sz - cnt') =
        rd (media h) (lba * 512) (cnt - cnt')" "cnt' \<noteq> 0 \<Longrightarrow> (lba + k) * 512 + (cnt - sz - cnt') = lba * 512 + (cnt - cnt')"
      if "cnt' \<le> cnt - sz" for cnt'
    proof (atomize (full), cases "cnt < 512 * k")
      case False
      then have "cnt - cnt' = sz + (cnt - sz - cnt')" "(lba + k) * 512 = lba * 512 + sz"
        using that sz by (auto simp: sz_def algebra_simps)
      then show "rd (media h) (lba * 512) sz @ rd (media h) ((lba + k) * 512) (cnt - sz - cnt') =
          rd (media h) (lba * 512) (cnt - cnt') \<and>
          (cnt' \<noteq> 0 \<longrightarrow> (lba + k) * 512 + (cnt - sz - cnt') = lba * 512 + (cnt - cnt'))"
        by (metis rd_append add.assoc)
    qed (use that in \<open>simp add: sz_def\<close>)
    show ?thesis
    proof (subst read_chunks.simps, simp only: True simp_thms if_True Let_def flip: sz_def, rule wp_then [OF access_read])
      fix r h'
      assume a: "r = Success \<and> port_ok lag cap n p h' \<and> media h' = media h \<and>
        rd (ram h') (physicalBuffers p ! 1) (k * 512) = rd (media h) (lba * 512) (k * 512)"
      then have got: "rd (ram h') (physicalBuffers p ! 1) sz = rd (media h) (lba * 512) sz"
        using rd_prefix [OF sz(1)] by blast
      have ok: "port_ok lag cap n p h'" and m: "media h' = media h" and r: "r = Success" using a by auto
      note IH = less.IH [OF b(3) ok less.prems(2,3) b(1,2), of "out @ rd (media h) (lba * 512) sz"]
      show "wp (case (r, h') of (status, h) \<Rightarrow> if status \<noteq> Success then Some ((True, out, lba, blocks, cnt), h)
          else read_chunks (ahci lag cap) p k (wrap64 (lba + k)) (blocks - k) (cnt - sz)
            (out @ ram_get (ahci lag cap) (physicalBuffers p ! 1) sz h) h)
        (\<lambda>(failed, out', lba', blocks', cnt') h'.
          \<not> failed \<and> port_ok lag cap n p h' \<and> media h' = media h \<and> blocks' < k \<and> blocks' = (cnt' + 511) div 512 \<and>
          lba' + blocks' \<le> n \<and> cnt' \<le> cnt \<and> out' = out @ rd (media h) (lba * 512) (cnt - cnt') \<and>
          (cnt' \<noteq> 0 \<longrightarrow> lba' * 512 = lba * 512 + (cnt - cnt')))"
        unfolding prod.case r lba(2) ahci_simps got simp_thms if_False
        by (rule wp_mono [OF IH], clarify) (use more m in simp)
    qed (use less.prems lba in auto)
  qed
qed

text \<open>The invariant between the three loops of \<open>read\<close>.\<close>

definition so_far :: "nat \<Rightarrow> (nat \<Rightarrow> byte) \<Rightarrow> nat \<Rightarrow> nat \<Rightarrow> byte list \<times> nat \<times> nat \<times> nat \<Rightarrow> bool" where
  "so_far n m at len = (\<lambda>(out, lba, blocks, cnt).
     out = rd m at (len - cnt) \<and> cnt \<le> len \<and> blocks = (cnt + 511) div 512 \<and> lba + blocks \<le> n \<and>
     (cnt \<noteq> 0 \<longrightarrow> lba * 512 = at + (len - cnt)))"

lemma read_chunks_so_far:
  assumes ok: "port_ok lag cap n p h" and k: "0 < k" "k \<le> 8" and s: "so_far n (media h) at len (out, lba, blocks, cnt)"
  shows "wp (read_chunks (ahci lag cap) p k lba blocks cnt out h) (\<lambda>(failed, out', lba', blocks', cnt') h'.
    \<not> failed \<and> so_far n (media h) at len (out', lba', blocks', cnt') \<and> blocks' < k \<and>
    port_ok lag cap n p h' \<and> media h' = media h)"
proof -
  have b: "blocks = (cnt + 511) div 512" "lba + blocks \<le> n" using s by (simp_all add: so_far_def)
  have "rd (media h) at (len - cnt) @ rd (media h) (lba * 512) (cnt - cnt') = rd (media h) at (len - cnt') \<and>
      (cnt' \<noteq> 0 \<longrightarrow> lba * 512 + (cnt - cnt') = at + (len - cnt'))" if "cnt' \<le> cnt" for cnt'
  proof (cases "cnt = 0")
    case False
    then have "len - cnt' = (len - cnt) + (cnt - cnt')" "lba * 512 = at + (len - cnt)"
      using s that by (auto simp: so_far_def)
    then show ?thesis by (metis rd_append add.assoc)
  qed (use that in simp)
  then show ?thesis using s
    by (intro wp_mono [OF read_chunks_ok [OF ok k b]]) (auto simp: so_far_def)
qed

lemma port_read_ok:
  assumes ok: "port_ok lag cap n p h" and cnt: "cnt < 2 ^ 32" and lba: "lba + (cnt + 511) div 512 \<le> n"
  shows "wp (port_read (ahci lag cap) p lba cnt h) (\<lambda>r h'.
    r = (Success, rd (media h) (lba * 512) cnt) \<and> port_ok lag cap n p h' \<and> media h' = media h)"
proof -
  have c: "cnt mod 2 ^ 32 = cnt" "(cnt + 512 - 1) div 512 = (cnt + 511) div 512" using cnt by simp_all
  have s: "so_far n (media h) (lba * 512) cnt ([], lba, (cnt + 511) div 512, cnt)"
    using lba by (simp add: so_far_def)
  show ?thesis unfolding port_read_def Let_def c
    apply (rule wp_then [OF read_chunks_so_far [OF ok _ _ s]], simp, simp, clarsimp)
    apply (rule wp_mono [OF read_chunks_so_far], assumption, simp, simp, simp, clarsimp)
    apply (rule wp_mono [OF read_chunks_so_far], assumption, simp, simp, simp, clarsimp)
    apply (auto simp: so_far_def div_eq_0_iff)
    done
qed

lemma port_readBytes_loop_ok:
  assumes "port_ok lag cap n p h" and "off < 512" and "lba * 512 + off + cnt \<le> n * 512"
  shows "wp (port_readBytes_loop (ahci lag cap) p cnt off lba out h) (\<lambda>r h'.
    r = (Success, out @ rd (media h) (lba * 512 + off) cnt) \<and> port_ok lag cap n p h' \<and> media h' = media h)"
  using assms
proof (induction cnt arbitrary: lba off out h rule: less_induct)
  case (less cnt)
  show ?case
  proof (cases "cnt = 0")
    case True
    then show ?thesis using less.prems by (subst port_readBytes_loop.simps) simp
  next
    case False
    define c where "c = (if 512 - off < cnt then 512 - off else cnt)"
    have "lba * 512 < n * 512" using False less.prems(3) by linarith
    then have "(lba + 1) * 512 \<le> n * 512" by (intro mult_right_mono) simp_all
    then have c: "0 < c" "c \<le> cnt" "off + c \<le> 512" "cnt - c < cnt" "(lba + 1) * 512 + 0 + (cnt - c) \<le> n * 512"
      using False less.prems(2,3) by (auto simp: c_def)
    have lba: "lba + (512 + 511) div 512 \<le> n" "wrap64 (lba + 1) = lba + 1"
      using less.prems False by (auto simp: port_ok_def)
    have more: "rd (media h) (lba * 512 + off) c @ rd (media h) ((lba + 1) * 512 + 0) (cnt - c) =
        rd (media h) (lba * 512 + off) cnt"
    proof (cases "cnt = c")
      case False
      then have "(lba + 1) * 512 + 0 = lba * 512 + off + c" using c less.prems(2) by (auto simp: c_def split: if_splits)
      moreover have "cnt = c + (cnt - c)" using c by simp
      ultimately show ?thesis by (metis rd_append)
    qed simp
    have pos: "0 < cnt" using False by simp
    show ?thesis
    proof (subst port_readBytes_loop.simps, simp only: pos if_True Let_def flip: c_def, rule wp_then [OF port_read_ok [OF less.prems(1) _ lba(1)]])
      fix r h'
      assume "r = (Success, rd (media h) (lba * 512) 512) \<and> port_ok lag cap n p h' \<and> media h' = media h"
      then have r: "r = (Success, rd (media h) (lba * 512) 512)" and ok: "port_ok lag cap n p h'" and m: "media h' = media h"
        by auto
      have got: "take c (drop off (rd (media h) (lba * 512) 512)) = rd (media h) (lba * 512 + off) c"
        using c(3) by simp
      note IH = less.IH [OF c(4) ok _ c(5), of "out @ rd (media h) (lba * 512 + off) c"]
      show "wp (case (r, h') of (x, h) \<Rightarrow> (case x of (status, read_buffer) \<Rightarrow> \<lambda>h.
            if status \<noteq> Success then Some ((status, out), h)
            else port_readBytes_loop (ahci lag cap) p (cnt - c) 0 (wrap64 (lba + 1)) (out @ take c (drop off read_buffer)) h) h)
          (\<lambda>r h'. r = (Success, out @ rd (media h) (lba * 512 + off) cnt) \<and> port_ok lag cap n p h' \<and> media h' = media h)"
        unfolding r prod.case simp_thms if_False got lba(2)
        by (rule wp_mono [OF IH]) (use m more in auto)
    qed simp
  qed
qed

lemma port_readBytes_ok:
  assumes "port_ok lag cap n p h" and "off + cnt \<le> n * 512"
  shows "wp (port_readBytes (ahci lag cap) p cnt off h) (\<lambda>r h'.
    r = (Success, rd (media h) off cnt) \<and> port_ok lag cap n p h' \<and> media h' = media h)"
  using port_readBytes_loop_ok [OF assms(1), of "off mod 512" "off div 512" cnt "[]"] assms(2)
  by (simp add: port_readBytes_def div_mult_mod_eq)


section \<open>Writing\<close>

lemma port_ok_buffer:
  assumes "port_ok lag cap n p h" and "length bs \<le> 4096"
  shows "port_ok lag cap n p (h\<lparr>ram := upd (ram h) (physicalBuffers p ! 1) bs\<rparr>)"
proof -
  have p: "port_good p h" using assms(1) by (simp add: port_ok_def)
  have ap: "commandList p + 32 \<le> physicalBuffers p ! 1 \<or> physicalBuffers p ! 1 + 4096 \<le> commandList p"
    using port_goodD(7) [OF p] by (simp add: apart_def)
  have "rd (upd m (physicalBuffers p ! 1) bs) (commandList p + k) j = rd m (commandList p + k) j" if "k + j \<le> 32" for m k j
    using ap that assms(2) by (intro rd_upd_disjoint) auto
  from this [of 8 8] this [of 2 2] show ?thesis
    using assms(1) port_goodD [OF p] by (simp add: port_ok_def port_good_def list_base_def Let_def address_of_def calm_def)
qed

text \<open>One block of the loop of \<open>write\<close>.\<close>

lemma write_block:
  assumes "port_ok lag cap n p h" and "lba < n" and "length bs = 512"
  shows "wp (access (ahci lag cap) p lba 1 (physicalBuffers p ! 1) True (ram_put (ahci lag cap) (physicalBuffers p ! 1) bs h))
    (\<lambda>r h'. r = Success \<and> port_ok lag cap n p h' \<and> media h' = upd (media h) (lba * 512) bs)"
  unfolding ahci_simps
proof (rule wp_mono [OF access_write [OF port_ok_buffer [OF assms(1)]]])
  fix r h'
  assume "r = Success \<and> port_ok lag cap n p h' \<and>
    media h' = upd (media (h\<lparr>ram := upd (ram h) (physicalBuffers p ! 1) bs\<rparr>)) (lba * 512)
      (rd (ram (h\<lparr>ram := upd (ram h) (physicalBuffers p ! 1) bs\<rparr>)) (physicalBuffers p ! 1) (1 * 512))"
  then show "r = Success \<and> port_ok lag cap n p h' \<and> media h' = upd (media h) (lba * 512) bs"
    using assms(3) by simp
qed (use assms in simp_all)

lemma write_blocks_loop_ok:
  assumes "port_ok lag cap n p h" and "512 \<le> cnt" and "length buf = blocks * 512" and "lba + blocks \<le> n"
  shows "wp (write_blocks_loop (ahci lag cap) p lba blocks cnt buf h) (\<lambda>r h'.
    r = Success \<and> port_ok lag cap n p h' \<and> media h' = upd (media h) (lba * 512) buf)"
  using assms
proof (induction blocks arbitrary: lba buf h)
  case (Suc blocks)
  have l: "wrap64 (lba + 1) = lba + 1" "lba < n" using Suc.prems by (simp_all add: port_ok_def)
  have b: "\<not> length buf < 512" "length (take 512 buf) = 512" "length (drop 512 buf) = blocks * 512" "lba + 1 + blocks \<le> n"
    using Suc.prems by simp_all
  have c: "(if cnt < 512 then cnt else 512) = 512" "cnt \<noteq> 0" using Suc.prems by simp_all
  have u: "upd (upd (media h) (lba * 512) (take 512 buf)) ((lba + 1) * 512) (drop 512 buf) = upd (media h) (lba * 512) buf"
    using upd_append [of "media h" "lba * 512" "take 512 buf" "drop 512 buf"] b(2) by (simp add: add.commute)
  show ?case unfolding write_blocks_loop.simps Let_def c(1) l(1)
    by (simp only: c(2) b(1) if_False)
      (rule wp_then [OF write_block [OF Suc.prems(1) l(2) b(2)]],
        auto intro!: wp_mono [OF Suc.IH [OF _ Suc.prems(2) b(3,4), simplified]] simp: u [simplified])
qed simp

lemma port_write_ok:
  assumes "port_ok lag cap n p h" and "length buf = k * 512" "0 < k" "k * 512 < 2 ^ 32" and "lba + k \<le> n"
  shows "wp (port_write (ahci lag cap) p lba (k * 512) buf h) (\<lambda>r h'.
    r = Success \<and> port_ok lag cap n p h' \<and> media h' = upd (media h) (lba * 512) buf)"
proof -
  have "(k * 512 + 512 - 1) div 512 = k" by simp
  then show ?thesis using write_blocks_loop_ok [OF assms(1) _ assms(2,5), of "k * 512"] assms(3,4)
    by (simp add: port_write_def Let_def)
qed

lemma port_writeBytes_loop_ok:
  assumes "port_ok lag cap n p h" and "length W = 512" and "lba * 512 + length buf \<le> n * 512"
  shows "wp (port_writeBytes_loop (ahci lag cap) p W buf lba h) (\<lambda>r h'. r = Success \<and> port_ok lag cap n p h' \<and>
    media h' = upd (upd (media h) (lba * 512) (concat (replicate (length buf div 512) W)))
      ((lba + length buf div 512) * 512) (drop (length buf div 512 * 512) buf))"
  using assms
proof (induction "length buf" arbitrary: buf lba h rule: less_induct)
  case less
  have one: "lba + (512 + 511) div 512 \<le> n" "lba + 1 \<le> n" "wrap64 (lba + 1) = lba + 1" if "buf \<noteq> []"
  proof -
    have "lba * 512 < n * 512" using less.prems(3) that by (metis add_lessD1 le_neq_implies_less length_greater_0_conv less_add_same_cancel1 less_le_trans)
    then show "lba + (512 + 511) div 512 \<le> n" "lba + 1 \<le> n" "wrap64 (lba + 1) = lba + 1"
      using less.prems(1) by (simp_all add: port_ok_def)
  qed
  note w1 = port_write_ok [where k = 1, simplified]
  consider "buf = []" | "buf \<noteq> []" "length buf < 512" | "512 \<le> length buf" by force
  then show ?case
  proof cases
    case 1
    then show ?thesis using less.prems by (subst port_writeBytes_loop.simps) simp
  next
    case 2
    have "wp (port_write (ahci lag cap) p lba 512 (buf @ drop (length buf) (rd (media h) (lba * 512) 512)) h')
        (\<lambda>r h''. r = Success \<and> port_ok lag cap n p h'' \<and> media h'' = upd (media h) (lba * 512) buf)"
      if "port_ok lag cap n p h'" "media h' = media h" for h'
      using w1 [OF that(1), of "buf @ drop (length buf) (rd (media h) (lba * 512) 512)" lba] 2 one that(2)
        upd_keep [of "media h" "lba * 512" buf] by simp
    then show ?thesis using 2 one
      by (subst port_writeBytes_loop.simps)
        (auto intro!: wp_mono [OF port_read_ok [OF less.prems(1)]])
  next
    case 3
    have ne: "buf \<noteq> []" using 3 by auto
    have b: "length (drop 512 buf) < length buf" "(lba + 1) * 512 + length (drop 512 buf) \<le> n * 512"
      using 3 less.prems(3) by simp_all
    obtain k where k: "length buf div 512 = Suc k" "length (drop 512 buf) div 512 = k"
      using 3 by (metis le_div_geq length_drop zero_less_numeral)
    have u: "upd (upd (media h) (lba * 512) W) ((lba + 1) * 512) (concat (replicate k W)) =
        upd (media h) (lba * 512) (concat (replicate (Suc k) W))"
      using upd_append [of "media h" "lba * 512" W "concat (replicate k W)"] less.prems(2) by (simp add: add.commute)
    have "wp (port_writeBytes_loop (ahci lag cap) p W (drop 512 buf) (lba + 1) h') (\<lambda>r h''. r = Success \<and> port_ok lag cap n p h'' \<and>
        media h'' = upd (upd (media h) (lba * 512) (concat (replicate (Suc k) W))) ((lba + Suc k) * 512) (drop (Suc k * 512) buf))"
      if "port_ok lag cap n p h'" "media h' = upd (media h) (lba * 512) W" for h'
      using less.hyps [OF b(1) that(1) less.prems(2) b(2)] k u that(2) by (simp add: add.commute)
    then show ?thesis using 3 ne one k(1)
      by (subst port_writeBytes_loop.simps)
        (auto intro!: wp_mono [OF w1 [OF less.prems(1,2)]] simp del: replicate.simps)
  qed
qed

text \<open>
  What \<open>writeBytes\<close> leaves on the disk when it has to split a block: the first bytes, up to the end of
  their block, and the last bytes are the caller's; the whole blocks between them are copies of the
  first block, or zeros when the first byte is on a boundary.
\<close>

definition smeared :: "(nat \<Rightarrow> byte) \<Rightarrow> nat \<Rightarrow> byte list \<Rightarrow> nat \<Rightarrow> byte" where
  "smeared m off buf =
     (let lead = (if off mod 512 = 0 then 0 else min (512 - off mod 512) (length buf));
          m1 = upd m off (take lead buf);
          block = (if off mod 512 = 0 then replicate 512 0 else rd m1 (off div 512 * 512) 512);
          rest = drop lead buf;
          whole = length rest div 512
      in upd (upd m1 (off + lead) (concat (replicate whole block))) (off + lead + whole * 512) (drop (whole * 512) rest))"

lemma port_writeBytes_smears:
  assumes ok: "port_ok lag cap n p h" and ne: "buf \<noteq> []" and fits: "off + length buf \<le> n * 512"
    and split: "\<not> (off mod 512 = 0 \<and> length buf mod 512 = 0)"
  shows "wp (port_writeBytes (ahci lag cap) p off buf h) (\<lambda>r h'. r = Success \<and> port_ok lag cap n p h' \<and>
    media h' = smeared (media h) off buf)"
proof (cases "off mod 512 = 0")
  case True
  then have off: "off div 512 * 512 = off" using div_mult_mod_eq [of off 512] by simp
  then show ?thesis using split True fits
      port_writeBytes_loop_ok [OF ok, of "replicate 512 0" "off div 512" buf]
    by (auto simp: port_writeBytes_def Let_def smeared_def add_mult_distrib elim!: wp_mono)
next
  case False
  let ?o = "off mod 512" and ?lba = "off div 512" and ?m = "media h"
  define lead where "lead = (if 512 - ?o < length buf then 512 - ?o else length buf)"
  have lead: "lead \<le> length buf" "?o + lead \<le> 512" "lead = min (512 - ?o) (length buf)" by (auto simp: lead_def)
  have off: "?lba * 512 + ?o = off" by simp
  have "?lba * 512 < n * 512" using fits ne off by (metis add_lessD1 le_neq_implies_less length_greater_0_conv less_add_same_cancel1 less_le_trans)
  then have lba: "?lba + (512 + 511) div 512 \<le> n" "?lba + 1 \<le> n" "wrap64 (?lba + 1) = ?lba + 1"
    using ok by (simp_all add: port_ok_def)
  define W where "W = take ?o (rd ?m (?lba * 512) 512) @ take lead buf @ drop (?o + lead) (rd ?m (?lba * 512) 512)"
  have W: "length W = 512" using lead by (simp add: W_def)
  have "W = rd ?m (?lba * 512) ?o @ take lead buf @ rd ?m (?lba * 512 + ?o + length (take lead buf)) (512 - (?o + lead))"
    using lead by (simp add: W_def add.assoc)
  then have m1: "upd ?m (?lba * 512) W = upd ?m off (take lead buf)"
    using upd_keep_both [of ?m "?lba * 512" ?o "take lead buf" "512 - (?o + lead)"] off by simp
  then have blk: "rd (upd ?m off (take lead buf)) (?lba * 512) 512 = W"
    using rd_upd_same [OF W, of ?m "?lba * 512"] by simp
  have r: "(?lba + 1) * 512 = off + lead \<or> drop lead buf = []"
  proof (cases "512 - ?o < length buf")
    case True
    then have "lead = 512 - ?o" by (simp add: lead_def)
    moreover have "(q + 1) * 512 = q * 512 + r + (512 - r)" if "r < 512" for q r :: nat using that by simp
    from this [of ?o ?lba] have "(?lba + 1) * 512 = ?lba * 512 + ?o + (512 - ?o)" by simp
    ultimately have "(?lba + 1) * 512 = off + lead" unfolding off by simp
    then show ?thesis ..
  qed (simp add: lead_def)
  have fits': "(?lba + 1) * 512 + length (drop lead buf) \<le> n * 512"
  proof (cases "drop lead buf = []")
    case True
    have "(?lba + 1) * 512 \<le> n * 512" using lba(2) by (intro mult_right_mono) simp_all
    then show ?thesis using True by simp
  next
    case False
    then have "(?lba + 1) * 512 = off + lead" using r by blast
    then show ?thesis using fits lead(1) by simp
  qed
  let ?k = "length (drop lead buf) div 512"
  have sm: "smeared ?m off buf = upd (upd (upd ?m off (take lead buf)) (off + lead) (concat (replicate ?k W)))
      (off + lead + ?k * 512) (drop (?k * 512) (drop lead buf))"
    unfolding smeared_def Let_def lead(3) [symmetric] using blk False by simp
  have end_eq: "upd (upd (upd ?m (?lba * 512) W) ((?lba + 1) * 512) (concat (replicate ?k W)))
      ((?lba + 1 + ?k) * 512) (drop (?k * 512) (drop lead buf)) = smeared ?m off buf"
  proof (cases "drop lead buf = []")
    case True
    then show ?thesis unfolding sm m1 by simp
  next
    case False
    then have e: "(?lba + 1) * 512 = off + lead" "(?lba + 1 + ?k) * 512 = off + lead + ?k * 512"
      using r by (simp_all add: add_mult_distrib)
    show ?thesis unfolding sm m1 e ..
  qed
  have w: "wp (port_write (ahci lag cap) p ?lba 512 W h') (\<lambda>r h''. r = Success \<and> port_ok lag cap n p h'' \<and>
      media h'' = upd ?m (?lba * 512) W)" if "port_ok lag cap n p h'" "media h' = ?m" for h'
    using port_write_ok [OF that(1), of W 1 ?lba] W lba that(2) by simp
  have l: "wp (port_writeBytes_loop (ahci lag cap) p W (drop lead buf) (?lba + 1) h') (\<lambda>r h''. r = Success \<and>
      port_ok lag cap n p h'' \<and> media h'' = smeared ?m off buf)"
    if "port_ok lag cap n p h'" "media h' = upd ?m (?lba * 512) W" for h'
    using port_writeBytes_loop_ok [OF that(1) W fits'] that(2) end_eq by simp
  have c: "\<not> (length buf mod 512 = 0 \<and> ?o = 0)" "?o \<noteq> 0" using False by simp_all
  show ?thesis unfolding port_writeBytes_def Let_def lead_def [symmetric]
  proof (simp only: c if_False if_True simp_thms, rule wp_then [OF port_read_ok [OF ok _ lba(1)]])
    fix x h'
    assume "x = (Success, rd ?m (?lba * 512) 512) \<and> port_ok lag cap n p h' \<and> media h' = ?m"
    then have x: "x = (Success, rd ?m (?lba * 512) 512)" and h': "port_ok lag cap n p h'" "media h' = ?m" by auto
    show "wp (case (x, h') of (x, h) \<Rightarrow> (case x of (status, write_buffer) \<Rightarrow> \<lambda>h.
        if status \<noteq> Success then Some (status, h)
        else do {
          (status, h) \<leftarrow> port_write (ahci lag cap) p ?lba 512 (take ?o write_buffer @ take lead buf @ drop (?o + lead) write_buffer) h;
          if status \<noteq> Success then Some (status, h)
          else port_writeBytes_loop (ahci lag cap) p (take ?o write_buffer @ take lead buf @ drop (?o + lead) write_buffer)
            (drop lead buf) (wrap64 (?lba + 1)) h
        }) h) (\<lambda>r h'. r = Success \<and> port_ok lag cap n p h' \<and> media h' = smeared ?m off buf)"
      unfolding x prod.case simp_thms if_False W_def [symmetric] lba(3)
      by (rule wp_then [OF w [OF h']]) (auto intro!: l [unfolded Suc_eq_plus1 [symmetric]])
  qed simp
qed


section \<open>A slow controller\<close>

text \<open>\<open>spin\<close> is 0 or less after 1000 ticks, whether or not the command has been carried out by then.\<close>

lemma access_slow:
  assumes p: "port_good p h" and cap: "and cap 0xf00 \<noteq> 0" and lag: "SPIN_COUNT \<le> lag" and cnt: "0 < cnt" "cnt \<le> 8"
  shows "wp (access (ahci lag cap) p lba cnt buffer writing h) (\<lambda>r h'. r = Hung)"
proof -
  obtain h1 where h1: "calm h1"
    and acc: "access (ahci lag cap) p lba cnt buffer writing h =
      Some (issue (ahci lag cap) 0 (h1\<lparr>ram := prepared p lba cnt buffer writing (ram h)\<rparr>))"
    by (rule access_prepared [OF p cap cnt])
  let ?h = "h1\<lparr>ram := prepared p lba cnt buffer writing (ram h)\<rparr>"
  let ?i = "issued lag ?h"
  have calm: "calm ?h" using h1 by (simp add: calm_def)
  have IS: "\<not> bit (regs ?i IS) 30" using armed_simps(3) [OF calm] by (simp add: issued_def)
  have CI: "bit (regs ?i CI) 0" by (simp add: bit_1_iff)
  obtain spin h' where w: "complete_wait (ahci lag cap) 0 SPIN_COUNT ?i = (Some spin, h')" "spin \<le> 0"
  proof (cases "lag = SPIN_COUNT")
    case True
    have "regs (finish ?i) CI = 0" using finish_issued(1) [OF calm] by (simp add: calm_def)
    then show ?thesis using that complete_wait_ahci [of ?i SPIN_COUNT 0 lag cap] IS CI True by simp
  next
    case False
    then show ?thesis using that complete_wait_slow [OF _ CI IS, of SPIN_COUNT lag cap] lag by simp
  qed
  have "lag \<noteq> 0" using lag by simp
  then have "issue (ahci lag cap) 0 ?h = (Hung, h')"
    unfolding issue_armed reg_or_CI [OF calm] using w by simp
  then show ?thesis using acc by simp
qed


text \<open>\<open>identify\<close> gives up on every port that is ready: the structure of the caller is not filled.\<close>

lemma identify_gives_up:
  assumes p: "port_good p h" and cap: "and cap 0xf00 \<noteq> 0"
  shows "\<exists>h'. identify (ahci lag cap) p h = Some (None, h') \<and> calm h' \<and> media h' = media h"
proof -
  note g = port_goodD [OF p]
  let ?h1 = "put lag TFD 0 (put lag IS 0 (put lag IE (- 1) h))"
  have h1: "calm ?h1" "agree h ?h1" using g by (auto simp: put_def calm_def agree_def)
  have slot: "getCommandSlot (ahci lag cap) ?h1 = (Some 0, ?h1)"
    using h1 g(12) first_slot [OF cap] by (simp add: getCommandSlot_def get_plain calm_def agree_def)
  define h2 where "h2 = put_header (ahci lag cap) p 0 False False ?h1"
  have h2: "calm h2" "media h2 = media h" using h1 by (simp_all add: h2_def put_header_def Let_def calm_def agree_def)
  have "\<exists>type. identifyDevice (ahci lag cap) h2 = (type, h2)"
    by (auto simp: identifyDevice_def get_plain)
  then obtain type where type: "identifyDevice (ahci lag cap) h2 = (type, h2)" ..
  have calm: "calm (h2\<lparr>ram := m\<rparr>)" for m using h2(1) by (simp add: calm_def)
  have "\<exists>m. identify (ahci lag cap) p h = Some (None, h2\<lparr>ram := m\<rparr>)"
    using g(1) unfolding identify_def Let_def ahci_simps(2)
    by (auto simp: slot type spin_idle [OF calm] simp flip: h2_def)
  then show ?thesis using calm h2(2) by auto
qed


section \<open>Properties\<close>

text \<open>The transfers of bytes of a port as a device. There is no function to clear a range.\<close>

definition status_code :: "access_status \<Rightarrow> int" where
  "status_code st = (case st of Success \<Rightarrow> 0 | DiskError \<Rightarrow> 1 | BadSlot \<Rightarrow> 2 | Hung \<Rightarrow> 3)"

definition port_ops :: "'h hba \<Rightarrow> ahci_port \<Rightarrow> 'h storage" where
  "port_ops H p =
     \<lparr>sread = (\<lambda>n off h. do { ((st, out), h) \<leftarrow> port_readBytes H p n off h; Some ((status_code st, out), h) }),
      swrite = (\<lambda>bs off h. do { (st, h) \<leftarrow> port_writeBytes H p off bs h; Some (status_code st, h) }),
      sclear = (\<lambda>_ _ _. None)\<rparr>"

abbreviation (input) port_limit :: nat where "port_limit \<equiv> 2 ^ 32 - 512"

lemma port_writeBytes_whole:
  assumes "port_ok lag cap n p h" and "bs \<noteq> []" and "length bs \<le> port_limit" and "off + length bs \<le> n * 512"
    and "512 dvd off" and "512 dvd length bs"
  shows "wp (port_writeBytes (ahci lag cap) p off bs h) (\<lambda>r h'. r = Success \<and> port_ok lag cap n p h' \<and>
    media h' = upd (media h) off bs)"
proof -
  obtain a k where a: "off = a * 512" and k: "length bs = k * 512" using assms(5,6) by (metis dvdE mult.commute)
  have "0 < k" using assms(2) k by (cases k) auto
  moreover have "a + k \<le> n" using assms(4) a k by linarith
  ultimately show ?thesis using port_write_ok [OF assms(1) k, of a] assms(3) a k
    by (simp add: port_writeBytes_def Let_def)
qed

interpretation ahci_port: sector_device "port_ops (ahci lag cap) p" media "port_ok lag cap n p" "n * 512" port_limit 512
  for lag cap n p
proof
  fix d k off
  assume "port_ok lag cap n p d" "off + k \<le> n * 512"
  then show "wp (sread (port_ops (ahci lag cap) p) k off d)
      (\<lambda>r d'. r = (0, rd (media d) off k) \<and> port_ok lag cap n p d' \<and> media d' = media d)"
    by (auto simp: port_ops_def status_code_def intro!: wp_mono [OF port_readBytes_ok])
next
  fix d and bs :: "byte list" and off
  assume "port_ok lag cap n p d" "bs \<noteq> []" "length bs \<le> port_limit" "off + length bs \<le> n * 512"
    "512 dvd off" "512 dvd length bs"
  then show "wp (swrite (port_ops (ahci lag cap) p) bs off d)
      (\<lambda>st d'. st = 0 \<and> port_ok lag cap n p d' \<and> media d' = upd (media d) off bs)"
    by (auto simp: port_ops_def status_code_def intro!: wp_mono [OF port_writeBytes_whole])
qed

text \<open>A port with its structures in three pages, and its controller.\<close>

definition sample_port :: ahci_port where
  "sample_port = \<lparr>commandList = 0x1000, commandTables = [0x2000], physicalBuffers = [0, 0x3000], port_type = SATA\<rparr>"

definition sample_controller :: "nat \<Rightarrow> (nat \<Rightarrow> byte) \<Rightarrow> controller" where
  "sample_controller n m =
     \<lparr>regs = (\<lambda>_. 0)(CLB := 0x1000), ram = upd (upd (\<lambda>_. 0) 0x1002 [1, 0]) 0x1008 (le_bytes 8 0x2000),
      media = m, sectors = n, pending = 0\<rparr>"

lemma sample_port_ok:
  assumes "n \<le> 2 ^ 48" and "lag < SPIN_COUNT"
  shows "port_ok lag 0x100 n sample_port (sample_controller n m)"
proof -
  have "rd (upd (upd (\<lambda>_. 0) 0x1002 [1, 0]) 0x1008 (le_bytes 8 0x2000)) 0x1002 2 = ([1, 0] :: byte list)"
    by (simp add: rd_upd_disjoint)
  then show ?thesis using assms
    by (simp add: port_ok_def port_good_def sample_port_def sample_controller_def list_base_def Let_def apart_def
      address_of_def le_nat_le_bytes)
qed

lemma sample_media [simp]: "media (sample_controller n m) = m" "sectors (sample_controller n m) = n"
  by (simp_all add: sample_controller_def)

text \<open>C7. On a controller that follows the AHCI specification, with a port as its constructor leaves it (\<open>port_good\<close>: the
  addresses in its registers and in the header of the first slot, apart regions of memory, no command under way, not
  an ATAPI device), a number of slots in \<open>cap\<close> that the mask of the driver does not take for 0, at most \<open>2 ^ 48\<close> sectors, and fewer than 1000 ticks for a
  command, the port answers every sequence of nonempty requests inside the disk, each below 4 GiB less 512
  bytes, reads of any bytes and writes of whole blocks, as an array of bytes would: each command that the
  driver lays out in memory is the transfer that it is meant to be. Writes that split a block are not among them:
  \<open>ahci_write_smears\<close> says what they do.\<close>

theorem ahci_port_is_an_array:
  assumes "port_ok lag cap n p h" and "list_all (\<lambda>r. request_ok (n * 512) port_limit r \<and> aligned 512 r) rs"
  shows "wp (serve (port_ops (ahci lag cap) p) rs h) (\<lambda>out h'. out = array_serve rs (media h) \<and> port_ok lag cap n p h')"
  by (rule ahci_port.serve_aligned [OF assms])

theorem ahci_port_is_an_array_witness:
  "wp (serve (port_ops (ahci 5 0x100) sample_port) [Put 512 (replicate 512 7), Get 1022 3] (sample_controller 100 (\<lambda>_. 9)))
     (\<lambda>out h'. out = [(0, []), (0, [7, 7, 9])])"
proof -
  have "list_all (\<lambda>r. request_ok (100 * 512) port_limit r \<and> aligned 512 r) [Put 512 (replicate 512 7), Get 1022 3]"
    by (simp add: request_ok_def aligned_def del: replicate.simps)
  from ahci_port_is_an_array [OF sample_port_ok this, of 5 "\<lambda>_. 9"]
  show ?thesis by (auto simp: rd_def upt_rec upd_def simp del: replicate.simps elim!: wp_mono)
qed

text \<open>A write of bytes that has to split a block reports success, but of the whole blocks in it none gets the
  caller's bytes: they become copies of the first block of the transfer, or zeros when it starts on a
  boundary. The bytes before and after them arrive.\<close>

lemma ahci_write_smears:
  assumes "port_ok lag cap n p h" and "buf \<noteq> []" and "off + length buf \<le> n * 512"
    and "\<not> (off mod 512 = 0 \<and> length buf mod 512 = 0)"
  shows "wp (port_writeBytes (ahci lag cap) p off buf h) (\<lambda>r h'. r = Success \<and> port_ok lag cap n p h' \<and>
    media h' = smeared (media h) off buf)"
  by (rule port_writeBytes_smears [OF assms])

lemma replicate_one: "replicate (Suc 0) x = [x]"
  by simp

lemma ahci_write_smears_witness:
  "wp (port_writeBytes (ahci 5 0x100) sample_port 1024 (replicate 513 7) (sample_controller 100 (\<lambda>_. 9)))
     (\<lambda>r h'. r = Success \<and> media h' 1024 = 0 \<and> media h' 1535 = 0 \<and> media h' 1536 = 7 \<and> media h' 1537 = 9)"
proof (rule wp_mono [OF ahci_write_smears [OF sample_port_ok]])
  fix r h'
  assume "r = Success \<and> port_ok 5 0x100 100 sample_port h' \<and>
    media h' = smeared (media (sample_controller 100 (\<lambda>_. 9))) 1024 (replicate 513 7)"
  then show "r = Success \<and> media h' 1024 = 0 \<and> media h' 1535 = 0 \<and> media h' 1536 = 7 \<and> media h' 1537 = 9"
    by (simp add: smeared_def Let_def upd_def replicate_one del: replicate.simps)
qed simp_all

text \<open>An access beyond the end of the disk is reported as an error of the disk and changes nothing on it; an
  access that takes the controller 1000 ticks or more is reported as hung.\<close>

lemma ahci_access_errors:
  assumes "port_good p h" and "and cap 0xf00 \<noteq> 0" and "0 < cnt" "cnt \<le> 8" and "lba < 2 ^ 48"
  shows "(SPIN_COUNT \<le> lag \<longrightarrow>
      wp (access (ahci lag cap) p lba cnt (physicalBuffers p ! 1) writing h) (\<lambda>r h'. r = Hung)) \<and>
    (lag < SPIN_COUNT \<and> sectors h < lba + cnt \<longrightarrow>
      wp (access (ahci lag cap) p lba cnt (physicalBuffers p ! 1) writing h) (\<lambda>r h'. r = DiskError \<and> media h' = media h))"
  using access_slow [OF assms(1,2) _ assms(3,4)] access_ahci [OF assms(1,2) _ assms(3-5), of lag writing]
  by (auto elim!: wp_mono)

lemma ahci_access_errors_witness:
  "wp (access (ahci 1000 0x100) sample_port 0 8 0x3000 False (sample_controller 100 (\<lambda>_. 9))) (\<lambda>r h'. r = Hung) \<and>
   wp (access (ahci 0 0x100) sample_port 99 2 0x3000 True (sample_controller 100 (\<lambda>_. 9)))
     (\<lambda>r h'. r = DiskError \<and> media h' = (\<lambda>_. 9))"
proof -
  have p: "port_good sample_port (sample_controller 100 (\<lambda>_. 9))"
    using sample_port_ok [of 100 0 "\<lambda>_. 9"] by (simp add: port_ok_def)
  have B: "physicalBuffers sample_port ! 1 = 0x3000" by (simp add: sample_port_def)
  show ?thesis
    using ahci_access_errors [OF p, where cap = "0x100" and cnt = 8 and lba = 0 and lag = 1000 and writing = False]
      ahci_access_errors [OF p, where cap = "0x100" and cnt = 2 and lba = 99 and lag = 0 and writing = True]
    unfolding B by simp
qed

end
