(* ===== verification/Partition_Table.thy ===== *)
theory Partition_Table
  imports Prelude
begin

text \<open>
  The partition tables, \<open>include/hardware/MBR.h\<close>, \<open>src/hardware/MBR.cpp\<close>, \<open>include/hardware/GPT.h\<close>
  and \<open>src/hardware/GPT.cpp\<close>. The structures are read into memory as they lie on the disk, so a structure is a record with
  the function that takes it from its bytes: 512 for the MBR, 96 for the header of a GPT (92 and four
  at the end for the alignment), 128 for one of its entries.
\<close>

section \<open>Cylinders, heads and sectors\<close>

record chs =
  cylinders :: nat
  heads :: nat
  chs_sectors :: nat

definition toLBA :: "nat \<Rightarrow> nat \<Rightarrow> chs \<Rightarrow> nat" where
  "toLBA heads_per_cylinder sectors_per_track c =
     u32 ((int (cylinders c) * int heads_per_cylinder + int (heads c)) * int sectors_per_track + int (chs_sectors c) - 1)"

text \<open>The casts to \<open>uint8_t\<close>. The sector is taken modulo the number of heads.\<close>

definition fromLBA :: "nat \<Rightarrow> nat \<Rightarrow> nat \<Rightarrow> chs" where
  "fromLBA heads_per_cylinder sectors_per_track lba =
     \<lparr>cylinders = lba div (heads_per_cylinder * sectors_per_track) mod 256,
      heads = lba div sectors_per_track mod heads_per_cylinder mod 256,
      chs_sectors = (lba mod heads_per_cylinder + 1) mod 256\<rparr>"


section \<open>The master boot record\<close>

record mbr_entry =
  attributes :: nat
  startCHS :: chs
  mbr_type :: nat
  lastSectorCHS :: chs
  startLBA :: nat
  mbr_sectors :: nat

definition new_mbr_entry :: "nat \<Rightarrow> nat \<Rightarrow> nat \<Rightarrow> nat \<Rightarrow> mbr_entry" where
  "new_mbr_entry attributes' type' lba sectors' =
     \<lparr>attributes = attributes', startCHS = fromLBA 16 63 lba, mbr_type = type',
      lastSectorCHS = fromLBA 16 63 (u32 (int (lba + sectors'))), startLBA = lba, mbr_sectors = sectors'\<rparr>"

record mbr =
  bootstrap :: "byte list"
  diskID :: "byte list"
  mbr_reserved :: "byte list"
  entries4 :: "mbr_entry list"
  mbr_signature :: "byte list"

definition chs_bytes :: "byte list \<Rightarrow> chs" where
  "chs_bytes bs = \<lparr>cylinders = unat (bs ! 0), heads = unat (bs ! 1), chs_sectors = unat (bs ! 2)\<rparr>"

definition mbr_entry_bytes :: "byte list \<Rightarrow> mbr_entry" where
  "mbr_entry_bytes bs =
     \<lparr>attributes = unat (bs ! 0), startCHS = chs_bytes (drop 1 bs), mbr_type = unat (bs ! 4),
      lastSectorCHS = chs_bytes (drop 5 bs), startLBA = le_nat (take 4 (drop 8 bs)), mbr_sectors = le_nat (take 4 (drop 12 bs))\<rparr>"

text \<open>The constructor from a buffer: each \<open>memcpy\<close> starts where the one before it ended.\<close>

definition mbr_bytes :: "byte list \<Rightarrow> mbr" where
  "mbr_bytes buffer =
     \<lparr>bootstrap = take 440 buffer, diskID = take 4 (drop 440 buffer), mbr_reserved = take 2 (drop 444 buffer),
      entries4 = map (\<lambda>i. mbr_entry_bytes (take 16 (drop (446 + 16 * i) buffer))) [0..<4],
      mbr_signature = take 2 (drop 510 buffer)\<rparr>"

definition indicatesGPT :: "mbr \<Rightarrow> bool" where
  "indicatesGPT m \<longleftrightarrow> mbr_type (entries4 m ! 0) = 0xee \<and> mbr_type (entries4 m ! 1) = 0 \<and>
     mbr_type (entries4 m ! 2) = 0 \<and> mbr_type (entries4 m ! 3) = 0"


section \<open>The GUID partition table\<close>

record guid =
  timeLow :: nat
  timeMid :: nat
  timeHigh :: nat
  version :: nat
  clock :: "byte list"
  node :: "byte list"

text \<open>\<open>timeHigh\<close> and \<open>version\<close> are bit fields of 12 and 4 bits in one word.\<close>

definition guid_bytes :: "byte list \<Rightarrow> guid" where
  "guid_bytes bs =
     \<lparr>timeLow = le_nat (take 4 bs), timeMid = le_nat (take 2 (drop 4 bs)), timeHigh = le_nat (take 2 (drop 6 bs)) mod 2 ^ 12,
      version = le_nat (take 2 (drop 6 bs)) div 2 ^ 12, clock = take 2 (drop 8 bs), node = take 6 (drop 10 bs)\<rparr>"

definition guid_bool :: "guid \<Rightarrow> bool" where
  "guid_bool g =
     (if timeLow g = 0xffffffff \<and> timeMid g = 0xffff \<and> timeHigh g = 0xfff \<and> version g = 0xf \<and> clock g ! 0 = 0xff \<and>
        clock g ! 1 = 0xff \<and> node g ! 0 = 0xff \<and> node g ! 1 = 0xff \<and> node g ! 2 = 0xff \<and> node g ! 3 = 0xff \<and>
        node g ! 4 = 0xff \<and> node g ! 5 = 0xff then False
      else timeLow g \<noteq> 0 \<or> timeMid g \<noteq> 0 \<or> timeHigh g \<noteq> 0 \<or> version g \<noteq> 0 \<or> clock g ! 0 \<noteq> 0 \<or> clock g ! 1 \<noteq> 0 \<or>
        node g ! 0 \<noteq> 0 \<or> node g ! 1 \<noteq> 0 \<or> node g ! 2 \<noteq> 0 \<or> node g ! 3 \<noteq> 0 \<or> node g ! 4 \<noteq> 0 \<or> node g ! 5 \<noteq> 0)"

text \<open>The digits that \<open>printf\<close> writes for \<open>%x\<close>, without leading zeros.\<close>

fun hex :: "nat \<Rightarrow> string" where
  "hex n = (if n < 16 then [''0123456789abcdef'' ! n] else hex (n div 16) @ [''0123456789abcdef'' ! (n mod 16)])"

declare hex.simps [simp del]

definition guid_string :: "guid \<Rightarrow> string" where
  "guid_string g = take 36
     (hex (timeLow g) @ ''-'' @ hex (timeMid g) @ ''-'' @ hex (timeHigh g + 2 ^ 12 * version g) @ ''-'' @
      concat (map (\<lambda>b. hex (unat b)) (take 2 (clock g))) @ ''-'' @ concat (map (\<lambda>b. hex (unat b)) (take 6 (node g))))"

record gpt_header =
  gpt_signature :: nat
  revision :: nat
  headerSize :: nat
  crc32 :: nat
  currentLBA :: nat
  otherLBA :: nat
  gpt_firstLBA :: nat
  gpt_lastLBA :: nat
  gpt_guid :: guid
  gpt_startLBA :: nat
  partitionCount :: nat
  partitionEntrySize :: nat
  partitionsCRC32 :: nat

definition gpt_header_bytes :: "byte list \<Rightarrow> gpt_header" where
  "gpt_header_bytes bs =
     \<lparr>gpt_signature = le_nat (take 8 bs), revision = le_nat (take 4 (drop 8 bs)), headerSize = le_nat (take 4 (drop 12 bs)),
      crc32 = le_nat (take 4 (drop 16 bs)), currentLBA = le_nat (take 8 (drop 24 bs)), otherLBA = le_nat (take 8 (drop 32 bs)),
      gpt_firstLBA = le_nat (take 8 (drop 40 bs)), gpt_lastLBA = le_nat (take 8 (drop 48 bs)),
      gpt_guid = guid_bytes (take 16 (drop 56 bs)), gpt_startLBA = le_nat (take 8 (drop 72 bs)),
      partitionCount = le_nat (take 4 (drop 80 bs)), partitionEntrySize = le_nat (take 4 (drop 84 bs)),
      partitionsCRC32 = le_nat (take 4 (drop 88 bs))\<rparr>"

record gpt_entry =
  typeGUID :: guid
  partitionGUID :: guid
  firstLBA :: nat
  lastLBA :: nat
  entry_attributes :: nat
  entry_name :: "nat list"

definition gpt_entry_bytes :: "byte list \<Rightarrow> gpt_entry" where
  "gpt_entry_bytes bs =
     \<lparr>typeGUID = guid_bytes (take 16 bs), partitionGUID = guid_bytes (take 16 (drop 16 bs)),
      firstLBA = le_nat (take 8 (drop 32 bs)), lastLBA = le_nat (take 8 (drop 40 bs)),
      entry_attributes = le_nat (take 8 (drop 48 bs)),
      entry_name = map (\<lambda>i. le_nat (take 2 (drop (56 + 2 * i) bs))) [0..<36]\<rparr>"

text \<open>The conversion to a string cuts each unit of the name to a byte; the string ends at the first 0.\<close>

definition entry_string :: "gpt_entry \<Rightarrow> byte list" where
  "entry_string e = takeWhile (\<lambda>b. b \<noteq> 0) (map (\<lambda>u. word_of_nat (u mod 256)) (take 36 (entry_name e)))"

section \<open>What the structures mean\<close>

text \<open>
  An address goes through \<open>fromLBA\<close> and \<open>toLBA\<close> only when its remainders by the number of heads and by
  the number of sectors of a track happen to be equal: the sector is computed with the wrong one.
\<close>

lemma toLBA_fromLBA:
  assumes "lba < 256 * 1008"
  shows "toLBA 16 63 (fromLBA 16 63 lba) = lba - lba mod 63 + lba mod 16"
proof -
  have d: "lba div 1008 < 256" using assms by (simp add: less_mult_imp_div_less)
  have q: "lba div 1008 = lba div 63 div 16" by (simp add: div_mult2_eq [symmetric])
  have "lba div 63 div 16 * 16 + lba div 63 mod 16 = lba div 63" by simp
  moreover have "lba div 63 * 63 = lba - lba mod 63" by (simp add: minus_mod_eq_mult_div [symmetric] mult.commute)
  ultimately have e: "(lba div 1008 * 16 + lba div 63 mod 16) * 63 = lba - lba mod 63" unfolding q by simp
  have m: "lba div 63 mod 16 mod 256 = lba div 63 mod 16" "(lba mod 16 + 1) mod 256 = lba mod 16 + 1"
    by (simp_all add: less_trans [OF mod_less_divisor])
  have "lba - lba mod 63 + lba mod 16 < 2 ^ 32"
  proof -
    have "lba mod 16 < 16" "lba < 258048" using assms by simp_all
    then show ?thesis by simp
  qed
  moreover have "int (lba div 1008) * 16 + int (lba div 63 mod 16) = int (lba div 1008 * 16 + lba div 63 mod 16)"
    by (simp only: of_nat_add of_nat_mult of_nat_numeral)
  then have "(int (lba div 1008) * 16 + int (lba div 63 mod 16)) * 63 = int (lba - lba mod 63)"
    by (simp only: e [symmetric] of_nat_mult of_nat_numeral)
  then have "(int (lba div 1008) * 16 + int (lba div 63 mod 16)) * 63 + int (lba mod 16 + 1) - 1 =
      int (lba - lba mod 63 + lba mod 16)" by simp
  ultimately show ?thesis using d m
    by (simp only: toLBA_def fromLBA_def chs.simps) (simp add: u32_def flip: of_nat_add)
qed

lemma hex_digit [simp]: "n < 16 \<Longrightarrow> hex n = [''0123456789abcdef'' ! n]"
  by (simp add: hex.simps)

lemma byte_eq_255: "b = 0xff \<longleftrightarrow> unat b = 255" for b :: byte
  by (simp add: word_unat_eq_iff)

lemma guid_bool_bytes:
  assumes "length bs = 16"
  shows "guid_bool (guid_bytes bs) \<longleftrightarrow> bs \<noteq> replicate 16 0 \<and> bs \<noteq> replicate 16 0xff"
proof -
  have hi: "le_nat xs = 256 ^ length xs - 1 \<longleftrightarrow> xs = replicate (length xs) 0xff" for xs
  proof (induction xs)
    case (Cons b xs)
    obtain K where K: "256 ^ length xs = Suc K" by (metis gr0_implies_Suc zero_less_numeral zero_less_power)
    have "unat b + 256 * le_nat xs = 255 + 256 * K \<longleftrightarrow> unat b = 255 \<and> le_nat xs = K"
    proof -
      have "unat b < 256" "le_nat xs \<le> K" using unsigned_less [where w = b] le_nat_bound [of xs] K by simp_all
      then show ?thesis by linarith
    qed
    then have "le_nat (b # xs) = 256 ^ length (b # xs) - 1 \<longleftrightarrow> unat b = 255 \<and> le_nat xs = 256 ^ length xs - 1"
      using K by simp
    then show ?case using Cons.IH by (simp add: byte_eq_255)
  qed simp
  have lo: "le_nat xs = 0 \<longleftrightarrow> xs = replicate (length xs) 0" for xs
    by (induction xs) (auto simp: unat_eq_0)
  define a b c d e where "a = take 4 bs" "b = take 2 (drop 4 bs)" "c = take 2 (drop 6 bs)" "d = take 2 (drop 8 bs)" "e = take 6 (drop 10 bs)"
  note parts = a_b_c_d_e_def
  have len: "length a = 4" "length b = 2" "length c = 2" "length d = 2" "length e = 6" using assms by (simp_all add: parts)
  have "bs = a @ b @ c @ d @ e"
    using assms append_take_drop_id [of 4 bs] append_take_drop_id [of 2 "drop 4 bs"] append_take_drop_id [of 2 "drop 6 bs"]
      append_take_drop_id [of 2 "drop 8 bs"] by (simp add: parts)
  moreover have "replicate 16 x = replicate 4 x @ replicate 2 x @ replicate 2 x @ replicate 2 x @ replicate 6 x" for x :: byte
    by (simp flip: replicate_add)
  ultimately have rep: "bs = replicate 16 x \<longleftrightarrow> a = replicate 4 x \<and> b = replicate 2 x \<and> c = replicate 2 x \<and> d = replicate 2 x \<and> e = replicate 6 x" for x
    using len by simp
  have words: "le_nat a = 0xffffffff \<longleftrightarrow> a = replicate 4 0xff" "le_nat b = 0xffff \<longleftrightarrow> b = replicate 2 0xff"
    "le_nat c = 0xffff \<longleftrightarrow> c = replicate 2 0xff" "le_nat a = 0 \<longleftrightarrow> a = replicate 4 0" "le_nat b = 0 \<longleftrightarrow> b = replicate 2 0"
    "le_nat c = 0 \<longleftrightarrow> c = replicate 2 0"
    using hi [of a] hi [of b] hi [of c] lo [of a] lo [of b] lo [of c] len by simp_all
  have split: "le_nat c mod 4096 = 0xfff \<and> le_nat c div 4096 = 0xf \<longleftrightarrow> le_nat c = 0xffff"
    "le_nat c mod 4096 = 0 \<and> le_nat c div 4096 = 0 \<longleftrightarrow> le_nat c = 0"
  proof -
    show "le_nat c mod 4096 = 0xfff \<and> le_nat c div 4096 = 0xf \<longleftrightarrow> le_nat c = 0xffff"
      using div_mult_mod_eq [of "le_nat c" 4096] by (cases "le_nat c mod 4096 = 0xfff \<and> le_nat c div 4096 = 0xf") auto
    show "le_nat c mod 4096 = 0 \<and> le_nat c div 4096 = 0 \<longleftrightarrow> le_nat c = 0"
      using div_mult_mod_eq [of "le_nat c" 4096] by auto
  qed
  have nths: "d = replicate 2 x \<longleftrightarrow> d ! 0 = x \<and> d ! 1 = x"
    "e = replicate 6 x \<longleftrightarrow> e ! 0 = x \<and> e ! 1 = x \<and> e ! 2 = x \<and> e ! 3 = x \<and> e ! 4 = x \<and> e ! 5 = x" for x
    using len by (auto simp: numeral_eq_Suc length_Suc_conv)
  have g: "guid_bytes bs = \<lparr>timeLow = le_nat a, timeMid = le_nat b, timeHigh = le_nat c mod 4096, version = le_nat c div 4096,
      clock = d, node = e\<rparr>"
    by (simp add: guid_bytes_def parts)
  show ?thesis unfolding guid_bool_def g guid.simps rep words(3,6) [symmetric] words(1,2,4,5) [symmetric] split [symmetric] nths
    by auto
qed

text \<open>The text of a GUID leaves leading zeros out, so that it does not determine the GUID.\<close>

lemma guid_string_collides:
  fixes g :: guid
  shows "guid_string (g\<lparr>clock := [0x01, 0x23]\<rparr>) = guid_string (g\<lparr>clock := [0x12, 0x03]\<rparr>)"
  by (simp add: guid_string_def hex.simps [of "0x23"] hex.simps [of "0x12"])


section \<open>Looking a partition up\<close>

text \<open>
  \<open>selectPartition\<close> with a port selected. It reads through the functions of the port that is selected,
  whose status it does not look at: a read leaves what it does not reach as it was. The two structures
  on the stack that are not initialised hold \<open>junk\<close> before.
\<close>

record 's table_reader =
  read_first :: "'s \<Rightarrow> (byte list \<times> 's) option"
  read_at :: "nat \<Rightarrow> nat \<Rightarrow> 's \<Rightarrow> (byte list \<times> 's) option"

datatype selection = No_gpt | Bad_entry_size | Invalid_partition | Selected (sel_offset: nat) (sel_length: nat) (sel_name: "byte list")

definition overlay :: "byte list \<Rightarrow> byte list \<Rightarrow> byte list" where
  "overlay got buf = got @ drop (length got) buf"

definition new_mbr :: "byte list" where
  "new_mbr = replicate 510 0 @ [0x55, 0xaa]"

definition gpt_entry_place :: "gpt_header \<Rightarrow> nat \<Rightarrow> nat" where
  "gpt_entry_place gpt index = wrap64 (512 * gpt_startLBA gpt + partitionEntrySize gpt * index)"

definition chosen :: "gpt_entry \<Rightarrow> selection" where
  "chosen e = (if \<not> guid_bool (typeGUID e) then Invalid_partition
     else Selected (wrap64 (firstLBA e * 512)) (u64 ((int (lastLBA e) - int (firstLBA e) + 1) * 512)) (entry_string e))"

definition selectPartition :: "'s table_reader \<Rightarrow> nat \<Rightarrow> (nat \<Rightarrow> byte) \<Rightarrow> 's \<Rightarrow> (selection \<times> 's) option" where
  "selectPartition R index junk s = do {
     (got, s) \<leftarrow> read_first R s;
     if \<not> indicatesGPT (mbr_bytes (overlay got new_mbr)) then Some (No_gpt, s)
     else do {
       (got, s) \<leftarrow> read_at R 96 512 s;
       let gpt = gpt_header_bytes (overlay got (map junk [0..<96]));
       if partitionEntrySize gpt \<noteq> 128 then Some (Bad_entry_size, s)
       else do {
         (got, s) \<leftarrow> read_at R (partitionEntrySize gpt) (gpt_entry_place gpt index) s;
         Some (chosen (gpt_entry_bytes (overlay got (map junk [96..<96 + 128]))), s)
       }
     }
   }"

text \<open>What a disk with the bytes \<open>m\<close> says about its partition \<open>index\<close>.\<close>

definition has_gpt :: "(nat \<Rightarrow> byte) \<Rightarrow> bool" where
  "has_gpt m \<longleftrightarrow> indicatesGPT (mbr_bytes (rd m 0 512))"

definition gpt_of :: "(nat \<Rightarrow> byte) \<Rightarrow> gpt_header" where
  "gpt_of m = gpt_header_bytes (rd m 512 96)"

definition gpt_lookup :: "(nat \<Rightarrow> byte) \<Rightarrow> nat \<Rightarrow> selection" where
  "gpt_lookup m index =
     (if \<not> has_gpt m then No_gpt
      else if partitionEntrySize (gpt_of m) \<noteq> 128 then Bad_entry_size
      else chosen (gpt_entry_bytes (rd m (gpt_entry_place (gpt_of m) index) 128)))"

definition table_on_disk :: "(nat \<Rightarrow> byte) \<Rightarrow> nat \<Rightarrow> nat \<Rightarrow> bool" where
  "table_on_disk m index cap \<longleftrightarrow> 608 \<le> cap \<and>
     (has_gpt m \<and> partitionEntrySize (gpt_of m) = 128 \<longrightarrow> gpt_entry_place (gpt_of m) index + 128 \<le> cap)"

text \<open>Where the fields lie on the disk.\<close>

lemma has_gpt_iff:
  "has_gpt m \<longleftrightarrow> unat (m 450) = 0xee \<and> unat (m 466) = 0 \<and> unat (m 482) = 0 \<and> unat (m 498) = 0"
proof -
  have "mbr_type (entries4 (mbr_bytes (rd m 0 512)) ! i) = unat (m (450 + 16 * i))" if "i < 4" for i
    using that by (simp add: mbr_bytes_def mbr_entry_bytes_def add.commute)
  from this [of 0] this [of 1] this [of 2] this [of 3] show ?thesis
    unfolding has_gpt_def indicatesGPT_def by simp
qed

lemma gpt_fields:
  "partitionEntrySize (gpt_of m) = le_nat (rd m 596 4)" "gpt_startLBA (gpt_of m) = le_nat (rd m 584 8)"
  by (simp_all add: gpt_of_def gpt_header_bytes_def)

lemma entry_fields:
  "typeGUID (gpt_entry_bytes (rd m a 128)) = guid_bytes (rd m a 16)"
  "firstLBA (gpt_entry_bytes (rd m a 128)) = le_nat (rd m (a + 32) 8)"
  "lastLBA (gpt_entry_bytes (rd m a 128)) = le_nat (rd m (a + 40) 8)"
  "entry_name (gpt_entry_bytes (rd m a 128)) = map (\<lambda>i. le_nat (rd m (a + 56 + 2 * i) 2)) [0..<36]"
proof -
  show "entry_name (gpt_entry_bytes (rd m a 128)) = map (\<lambda>i. le_nat (rd m (a + 56 + 2 * i) 2)) [0..<36]"
    by (auto simp: gpt_entry_bytes_def min_def add.assoc)
qed (simp_all add: gpt_entry_bytes_def)

text \<open>What the port has to provide: its reads return the bytes of the disk and leave them alone.\<close>

locale disk_reader =
  fixes R :: "'s table_reader"
    and bytes :: "'s \<Rightarrow> nat \<Rightarrow> byte"
    and good :: "'s \<Rightarrow> bool"
    and cap :: nat
  assumes first_law: "good s \<Longrightarrow> 512 \<le> cap \<Longrightarrow>
      wp (read_first R s) (\<lambda>r s'. r = rd (bytes s) 0 512 \<and> good s' \<and> bytes s' = bytes s)"
    and at_law: "good s \<Longrightarrow> 0 < n \<Longrightarrow> n \<le> 128 \<Longrightarrow> off + n \<le> cap \<Longrightarrow>
      wp (read_at R n off s) (\<lambda>r s'. r = rd (bytes s) off n \<and> good s' \<and> bytes s' = bytes s)"
begin

lemma select_ok:
  assumes "good s" and "table_on_disk (bytes s) index cap"
  shows "wp (selectPartition R index junk s) (\<lambda>r s'. r = gpt_lookup (bytes s) index \<and> good s' \<and> bytes s' = bytes s)"
proof -
  have over: "overlay (rd (bytes s) off n) buf = rd (bytes s) off n @ drop n buf" for off n buf
    by (simp add: overlay_def)
  have mbr: "drop 512 new_mbr = []" by (simp add: new_mbr_def)
  have cap: "512 \<le> cap" "512 + 96 \<le> cap" using assms(2) by (simp_all add: table_on_disk_def)
  show ?thesis
  proof (cases "has_gpt (bytes s)")
    case False
    then show ?thesis unfolding selectPartition_def
      by (intro wp_then [OF first_law [OF assms(1) cap(1)]])
        (simp add: over mbr gpt_lookup_def has_gpt_def)
  next
    case True
    then have m: "indicatesGPT (mbr_bytes (rd (bytes s) 0 512))" by (simp add: has_gpt_def)
    have place: "gpt_entry_place (gpt_of (bytes s)) index + 128 \<le> cap" if "partitionEntrySize (gpt_of (bytes s)) = 128"
      using assms(2) True that by (simp add: table_on_disk_def)
    show ?thesis unfolding selectPartition_def
      by (rule wp_then [OF first_law [OF assms(1) cap(1)]], simp add: over mbr m,
          rule wp_mono [OF at_law [OF _ _ _ cap(2)]], simp, simp, simp)
        (auto simp: over gpt_lookup_def True Let_def simp flip: gpt_of_def
           intro!: wp_mono [OF at_law [OF _ _ _ place]])
  qed
qed

end

section \<open>Properties\<close>

text \<open>\<open>fromLBA\<close> and \<open>toLBA\<close> with 16 heads and 63 sectors are inverse to each other on an address that fits the
  fields just when its remainders by 63 and by 16 agree, since the sector is taken modulo the number of heads.\<close>

lemma chs_roundtrip_iff:
  assumes "lba < 256 * 1008"
  shows "toLBA 16 63 (fromLBA 16 63 lba) = lba \<longleftrightarrow> lba mod 63 = lba mod 16"
  unfolding toLBA_fromLBA [OF assms] using mod_less_eq_dividend [of lba 63] by linarith

lemma chs_roundtrip_iff_witness:
  "toLBA 16 63 (fromLBA 16 63 15) = 15 \<and> toLBA 16 63 (fromLBA 16 63 16) \<noteq> 16"
  using chs_roundtrip_iff [of 15] chs_roundtrip_iff [of 16] by simp

end
