(* ===== verification/Partition_Readers.thy ===== *)
theory Partition_Readers
  imports IDE AHCI_Port Partition_Table
begin

text \<open>
  The functions that \<open>selectPartition\<close> calls in the two modes of the shell, as readers of \<open>Partition_Table\<close>:
  \<open>IDE::readBytes\<close> on a drive, \<open>read\<close> and \<open>readBytes\<close> on an AHCI port.
\<close>

definition ide_reader :: "'p ports \<Rightarrow> nat \<Rightarrow> 'p ide table_reader" where
  "ide_reader P drive =
     \<lparr>read_first = (\<lambda>s. do { ((st, got), s) \<leftarrow> readBytes P drive 512 0 s; Some (got, s) }),
      read_at = (\<lambda>n off s. do { ((st, got), s) \<leftarrow> readBytes P drive n off s; Some (got, s) })\<rparr>"

definition ahci_reader :: "'h hba \<Rightarrow> ahci_port \<Rightarrow> 'h table_reader" where
  "ahci_reader H p =
     \<lparr>read_first = (\<lambda>h. do { ((st, got), h) \<leftarrow> port_read H p 0 512 h; Some (got, h) }),
      read_at = (\<lambda>n off h. do { ((st, got), h) \<leftarrow> port_readBytes H p n off h; Some (got, h) })\<rparr>"

end
