(* ===== verification/Partition_Select.thy ===== *)
theory Partition_Select
  imports IDE_Drive AHCI_Disk Partition_Readers
begin






section \<open>Properties\<close>



end
