(* ===== verification/Interrupts.thy ===== *)
theory Interrupts
  imports Ports
begin

unbundle bit_operations_syntax

text \<open>
  Interrupts: the descriptor table of \<open>src/arch/x86_64/Interrupts.cpp\<close>, the interrupt controllers of
  \<open>src/arch/x86_64/PIC.cpp\<close> and what \<open>src/arch/x86_64/CPU.cpp\<close> reads from \<open>cpuid\<close>. The addresses of the
  handlers and the answers of \<open>cpuid\<close> are arguments.
\<close>


section \<open>The descriptor table\<close>

record descriptor =
  offset_1 :: "16 word"
  selector :: "16 word"
  ist :: byte
  type_attr :: byte
  offset_2 :: "16 word"
  offset_3 :: "32 word"
  zero :: "32 word"

record idt_header =
  h_size :: "16 word"
  h_start :: "32 word"

text \<open>The part of the processor and of the memory that the code here changes.\<close>

record cpu =
  idt :: "descriptor list"
  idt_header :: idt_header
  idtr :: "(16 word \<times> 64 word) option"
  msr :: "32 word \<Rightarrow> 64 word"

definition IDT_SIZE :: nat where
  "IDT_SIZE = 256"

definition absent :: descriptor where
  "absent = \<lparr>offset_1 = 0, selector = 0, ist = 0, type_attr = 0, offset_2 = 0, offset_3 = 0, zero = 0\<rparr>"

definition gate :: "64 word \<Rightarrow> descriptor" where
  "gate fn = \<lparr>offset_1 = ucast (fn AND 0xffff), selector = 8, ist = 0, type_attr = 0x8e,
     offset_2 = ucast (drop_bit 16 fn AND 0xffff), offset_3 = ucast (drop_bit 32 fn AND 0xffffffff), zero = 0\<rparr>"

text \<open>\<open>IDT::add\<close>; a store outside the table is undefined.\<close>

definition add_gate :: "nat \<Rightarrow> 64 word \<Rightarrow> cpu \<Rightarrow> (unit \<times> cpu) option" where
  "add_gate i fn c = (if i < length (idt c) then Some ((), c\<lparr>idt := (idt c)[i := gate fn]\<rparr>) else None)"

primrec add_gates :: "(nat \<Rightarrow> 64 word) \<Rightarrow> nat list \<Rightarrow> cpu \<Rightarrow> (unit \<times> cpu) option" where
  "add_gates isr [] c = Some ((), c)"
| "add_gates isr (i # is) c = do {
     (_, c) \<leftarrow> add_gate i (isr i) c;
     add_gates isr is c
   }"

text \<open>\<open>wrmsr\<close> with one argument splits the value, the instruction puts the halves together again.\<close>

definition wrmsr_parts :: "32 word \<Rightarrow> 32 word \<Rightarrow> 32 word \<Rightarrow> cpu \<Rightarrow> cpu" where
  "wrmsr_parts reg low high c = c\<lparr>msr := (msr c)(reg := word_cat high low)\<rparr>"

definition wrmsr :: "32 word \<Rightarrow> 64 word \<Rightarrow> cpu \<Rightarrow> cpu" where
  "wrmsr reg addr = wrmsr_parts reg (ucast (addr AND 0xffffffff)) (ucast (drop_bit 32 addr))"

text \<open>
  \<open>IDT::init\<close>: \<open>isr i\<close> is the address of \<open>isr_i\<close>, \<open>base\<close> that of the table. In 64-bit mode \<open>lidt\<close> reads
  ten bytes and the header has six: \<open>beyond\<close> are the four bytes after it.
\<close>

definition isr_vectors :: "nat list" where
  "isr_vectors = [0, 8, 13, 14, 32, 33, 39, 43, 46, 47, 0x69]"

definition idt_init :: "32 word \<Rightarrow> 64 word \<Rightarrow> (nat \<Rightarrow> 64 word) \<Rightarrow> cpu \<Rightarrow> (unit \<times> cpu) option" where
  "idt_init beyond base isr c = do {
     let c = c\<lparr>idt_header := \<lparr>h_size = word_of_nat (IDT_SIZE * 16 - 1), h_start = ucast (base AND 0xffffffff)\<rparr>,
               idt := replicate IDT_SIZE absent\<rparr>;
     (_, c) \<leftarrow> add_gates isr isr_vectors c;
     let c = wrmsr 0xc0000082 (isr 0x69) c;
     Some ((), c\<lparr>idtr := Some (h_size (idt_header c), word_cat beyond (h_start (idt_header c)))\<rparr>)
   }"

text \<open>\<open>reserveUnusedInterrupt\<close>: \<open>dummy\<close> is the address of the handler that reports an interrupt.\<close>

primrec reserve_loop :: "64 word \<Rightarrow> nat list \<Rightarrow> cpu \<Rightarrow> (nat \<times> cpu) option" where
  "reserve_loop dummy [] c = Some (0xff, c)"
| "reserve_loop dummy (i # is) c =
     (if i < length (idt c) then
        if type_attr (idt c ! i) = 0 then do {
          (_, c) \<leftarrow> add_gate i dummy c;
          Some (i, c)
        }
        else reserve_loop dummy is c
      else None)"

definition reserveUnusedInterrupt :: "64 word \<Rightarrow> cpu \<Rightarrow> (nat \<times> cpu) option" where
  "reserveUnusedInterrupt dummy c = reserve_loop dummy [48..<255] c"


section \<open>The interrupt controllers\<close>

abbreviation (input) PIC1 :: nat where "PIC1 \<equiv> 0x20"
abbreviation (input) PIC2 :: nat where "PIC2 \<equiv> 0xa0"
abbreviation (input) PIC1_DATA :: nat where "PIC1_DATA \<equiv> 0x21"
abbreviation (input) PIC2_DATA :: nat where "PIC2_DATA \<equiv> 0xa1"

definition pic_remap :: "'p ports \<Rightarrow> byte \<Rightarrow> byte \<Rightarrow> 'p \<Rightarrow> 'p" where
  "pic_remap P offset1 offset2 p =
     (let (a1, p) = inb P PIC1_DATA p;
          (a2, p) = inb P PIC2_DATA p;
          p = outb P PIC1 0x11 p;
          p = outb P PIC2 0x11 p;
          p = outb P PIC1_DATA offset1 p;
          p = outb P PIC2_DATA offset2 p;
          p = outb P PIC1_DATA 4 p;
          p = outb P PIC2_DATA 2 p;
          p = outb P PIC1_DATA 1 p;
          p = outb P PIC2_DATA 1 p;
          p = outb P PIC1_DATA a1 p
      in outb P PIC2_DATA a2 p)"

definition pic_disable :: "'p ports \<Rightarrow> 'p \<Rightarrow> 'p" where
  "pic_disable P p = outb P PIC2_DATA 0xff (outb P PIC1_DATA 0xff p)"

definition setIRQ :: "'p ports \<Rightarrow> nat \<Rightarrow> 'p \<Rightarrow> 'p" where
  "setIRQ P irq_line p =
     (let (port, line) = (if irq_line < 8 then (PIC1_DATA, irq_line) else (PIC2_DATA, irq_line - 8));
          (v, p) = inb P port p
      in outb P port (v OR push_bit line 1) p)"

definition clearIRQ :: "'p ports \<Rightarrow> nat \<Rightarrow> 'p \<Rightarrow> 'p" where
  "clearIRQ P irq_line p =
     (let (port, line) = (if irq_line < 8 then (PIC1_DATA, irq_line) else (PIC2_DATA, irq_line - 8));
          (v, p) = inb P port p
      in outb P port (v AND NOT (push_bit line 1)) p)"

definition sendNonspecificEOI :: "'p ports \<Rightarrow> nat \<Rightarrow> 'p \<Rightarrow> 'p" where
  "sendNonspecificEOI P irq p = outb P (if irq < 8 then PIC1 else PIC2) 0x20 p"

definition sendSpecificEOI :: "'p ports \<Rightarrow> nat \<Rightarrow> 'p \<Rightarrow> 'p" where
  "sendSpecificEOI P irq p =
     (let p = (if 8 \<le> irq then outb P PIC1 (0x60 OR 2) p else p)
      in outb P (if irq < 8 then PIC1 else PIC2) (0x60 OR word_of_nat (irq mod 8)) p)"

definition sendEOI :: "'p ports \<Rightarrow> nat \<Rightarrow> 'p \<Rightarrow> 'p" where
  "sendEOI = sendSpecificEOI"


section \<open>Gates as the processor reads them\<close>

text \<open>The handler that an interrupt vector reaches: a gate whose present bit is set holds its address.\<close>

definition gate_target :: "descriptor \<Rightarrow> 64 word" where
  "gate_target d = word_cat (offset_3 d) (word_cat (offset_2 d) (offset_1 d) :: 32 word)"

definition delivers :: "cpu \<Rightarrow> nat \<Rightarrow> 64 word option" where
  "delivers c i =
     (if i < length (idt c) \<and> bit (type_attr (idt c ! i)) 7 then Some (gate_target (idt c ! i)) else None)"

lemma masks:
  "x AND 0xff = take_bit 8 x" "x AND 0xffff = take_bit 16 x" "x AND 0xffffffff = take_bit 32 x" for x :: "'a :: len word"
  by (simp_all add: take_bit_eq_mask mask_eq_exp_minus_1)

lemma gate_target_gate [simp]: "gate_target (gate fn) = fn"
  by (rule bit_word_eqI) (auto simp: gate_target_def gate_def masks bit_word_cat_iff bit_simps)

lemma gate_type [simp]: "type_attr (gate fn) = 0x8e"
  by (simp add: gate_def)

lemma absent_type [simp]: "type_attr absent = 0"
  by (simp add: absent_def)

lemma add_gates_ok:
  assumes "\<forall>i \<in> set is. i < length (idt c)"
  shows "wp (add_gates isr is c) (\<lambda>_ c'. length (idt c') = length (idt c) \<and> idt_header c' = idt_header c \<and>
    (\<forall>i < length (idt c). idt c' ! i = (if i \<in> set is then gate (isr i) else idt c ! i)))"
  using assms
proof (induction "is" arbitrary: c)
  case (Cons j "is")
  define c1 where "c1 = c\<lparr>idt := (idt c)[j := gate (isr j)]\<rparr>"
  have "wp (add_gates isr is c1) (\<lambda>_ c'. length (idt c') = length (idt c1) \<and> idt_header c' = idt_header c1 \<and>
    (\<forall>i < length (idt c1). idt c' ! i = (if i \<in> set is then gate (isr i) else idt c1 ! i)))"
    using Cons.prems by (intro Cons.IH) (simp add: c1_def)
  then show ?case using Cons.prems
    by (auto simp: add_gate_def c1_def nth_list_update elim!: wp_mono)
qed simp

lemma wrmsr_whole: "wrmsr reg v c = c\<lparr>msr := (msr c)(reg := v)\<rparr>"
proof -
  have "word_cat (ucast (drop_bit 32 v) :: 32 word) (ucast (v AND 0xffffffff) :: 32 word) = v"
    by (rule bit_word_eqI) (auto simp: masks bit_word_cat_iff bit_simps)
  then show ?thesis by (simp add: wrmsr_def wrmsr_parts_def)
qed

lemma reserve_loop_ok:
  assumes "\<forall>i \<in> set is. i < length (idt c)"
  shows "reserve_loop dummy is c =
    (case find (\<lambda>i. type_attr (idt c ! i) = 0) is of
       None \<Rightarrow> Some (0xff, c)
     | Some i \<Rightarrow> Some (i, c\<lparr>idt := (idt c)[i := gate dummy]\<rparr>))"
  using assms by (induction "is") (auto simp: add_gate_def)


section \<open>The two controllers as the data sheet describes them\<close>

text \<open>
  A controller takes its initialisation as a sequence: the command 0x10, with the mask cleared, then the
  first vector, the cascade and, when the command asked for it, the mode. Afterwards the data port is the
  mask, and the command port takes ends of interrupts: of a given line, or of the first one in service.
\<close>

record chip =
  imr :: byte
  in_service :: byte
  base_vector :: byte
  cascade :: byte
  chip_mode :: byte
  step_4 :: bool
  expects :: nat

definition chip_command :: "byte \<Rightarrow> chip \<Rightarrow> chip" where
  "chip_command v k =
     (if bit v 4 then k\<lparr>imr := 0, step_4 := bit v 0, expects := 2\<rparr>
      else if bit v 3 then k
      else if v AND 0xe0 = 0x60 then k\<lparr>in_service := unset_bit (unat (v AND 7)) (in_service k)\<rparr>
      else if v AND 0xe0 = 0x20 then
        (case find (bit (in_service k)) [0..<8] of None \<Rightarrow> k | Some n \<Rightarrow> k\<lparr>in_service := unset_bit n (in_service k)\<rparr>)
      else k)"

definition chip_data :: "byte \<Rightarrow> chip \<Rightarrow> chip" where
  "chip_data v k =
     (if expects k = 2 then k\<lparr>base_vector := v, expects := 3\<rparr>
      else if expects k = 3 then k\<lparr>cascade := v, expects := (if step_4 k then 4 else 0)\<rparr>
      else if expects k = 4 then k\<lparr>chip_mode := v, expects := 0\<rparr>
      else k\<lparr>imr := v\<rparr>)"

record pics =
  master :: chip
  slave :: chip

definition pics_outb :: "nat \<Rightarrow> byte \<Rightarrow> pics \<Rightarrow> pics" where
  "pics_outb port v k =
     (if port = 0x20 then k\<lparr>master := chip_command v (master k)\<rparr>
      else if port = 0x21 then k\<lparr>master := chip_data v (master k)\<rparr>
      else if port = 0xa0 then k\<lparr>slave := chip_command v (slave k)\<rparr>
      else if port = 0xa1 then k\<lparr>slave := chip_data v (slave k)\<rparr>
      else k)"

definition pics_inb :: "nat \<Rightarrow> pics \<Rightarrow> byte \<times> pics" where
  "pics_inb port k =
     (if port = 0x21 then imr (master k) else if port = 0xa1 then imr (slave k) else 0, k)"

definition pic_ports :: "pics ports" where
  "pic_ports = \<lparr>inb = pics_inb, outb = pics_outb, insw = (\<lambda>_ _ k. ([], k)), outsw = (\<lambda>_ _ k. k), insl = (\<lambda>_ _ k. ([], k))\<rparr>"

definition operational :: "pics \<Rightarrow> bool" where
  "operational k \<longleftrightarrow> expects (master k) = 0 \<and> expects (slave k) = 0"

definition line_masked :: "pics \<Rightarrow> nat \<Rightarrow> bool" where
  "line_masked k n = bit (imr (if n < 8 then master k else slave k)) (n mod 8)"

definition line_in_service :: "pics \<Rightarrow> nat \<Rightarrow> bool" where
  "line_in_service k n = bit (in_service (if n < 8 then master k else slave k)) (n mod 8)"

lemma pic_ports_simps [simp]: "inb pic_ports = pics_inb" "outb pic_ports = pics_outb"
  by (simp_all add: pic_ports_def)

lemma port_writes:
  "pics_outb 0x20 v k = k\<lparr>master := chip_command v (master k)\<rparr>"
  "pics_outb 0x21 v k = k\<lparr>master := chip_data v (master k)\<rparr>"
  "pics_outb 0xa0 v k = k\<lparr>slave := chip_command v (slave k)\<rparr>"
  "pics_outb 0xa1 v k = k\<lparr>slave := chip_data v (slave k)\<rparr>"
  by (simp_all add: pics_outb_def)

lemma start_command: "chip_command 0x11 k = k\<lparr>imr := 0, step_4 := True, expects := 2\<rparr>"
  by (simp add: chip_command_def)

lemma line_number: "n < 16 \<Longrightarrow> n mod 8 = (if n < 8 then n else n - 8)" for n :: nat
  by (simp add: mod_if)

lemma remap_ok:
  assumes "operational k"
  shows "pic_remap pic_ports o1 o2 k =
    k\<lparr>master := (master k)\<lparr>base_vector := o1, cascade := 4, chip_mode := 1, step_4 := True\<rparr>,
      slave := (slave k)\<lparr>base_vector := o2, cascade := 2, chip_mode := 1, step_4 := True\<rparr>\<rparr>"
proof -
  obtain m sl where k: "k = \<lparr>master = m, slave = sl\<rparr>" by (cases k)
  have e: "expects m = 0" "expects sl = 0" using assms by (simp_all add: k operational_def)
  have read: "pics_inb 0x21 k = (imr m, k)" "pics_inb 0xa1 k = (imr sl, k)" by (simp_all add: pics_inb_def k)
  have "pic_remap pic_ports o1 o2 k =
    \<lparr>master = chip_data (imr m) (chip_data 1 (chip_data 4 (chip_data o1 (chip_command 0x11 m)))),
     slave = chip_data (imr sl) (chip_data 1 (chip_data 2 (chip_data o2 (chip_command 0x11 sl))))\<rparr>"
    unfolding pic_remap_def Let_def pic_ports_simps read prod.case by (simp add: port_writes k)
  also have "\<dots> = k\<lparr>master := (master k)\<lparr>base_vector := o1, cascade := 4, chip_mode := 1, step_4 := True\<rparr>,
      slave := (slave k)\<lparr>base_vector := o2, cascade := 2, chip_mode := 1, step_4 := True\<rparr>\<rparr>"
    using e by (cases m; cases sl) (simp add: start_command chip_data_def k)
  finally show ?thesis .
qed

lemma bit_0xff: "bit (0xff :: int) n \<longleftrightarrow> n < 8"
proof -
  have "(0xff :: int) = mask 8" by (simp add: mask_eq_exp_minus_1)
  then show ?thesis by (simp only: bit_mask_iff) simp
qed

lemma disable_ok:
  assumes "operational k" and "n < 16"
  shows "line_masked (pic_disable pic_ports k) n"
  using assms line_number [OF assms(2)]
  by (auto simp: pic_disable_def port_writes chip_data_def operational_def line_masked_def bit_0xff)

lemma bit_one_shift: "bit (2 ^ l :: byte) n \<longleftrightarrow> n = l \<and> n < 8"
  by (auto simp: bit_simps)

lemma setIRQ_ok:
  assumes "operational k" and "irq < 16" and "n < 16"
  shows "line_masked (setIRQ pic_ports irq k) n \<longleftrightarrow> n = irq \<or> line_masked k n"
    and "operational (setIRQ pic_ports irq k)"
proof -
  note lines = line_number [OF assms(2)] line_number [OF assms(3)]
  show "line_masked (setIRQ pic_ports irq k) n \<longleftrightarrow> n = irq \<or> line_masked k n"
    using assms lines by (auto simp: setIRQ_def pics_inb_def pics_outb_def chip_data_def operational_def line_masked_def
      bit_or_iff bit_one_shift)
  show "operational (setIRQ pic_ports irq k)"
    using assms lines by (auto simp: setIRQ_def pics_inb_def pics_outb_def chip_data_def operational_def)
qed

lemma clearIRQ_ok:
  assumes "operational k" and "irq < 16" and "n < 16"
  shows "line_masked (clearIRQ pic_ports irq k) n \<longleftrightarrow> n \<noteq> irq \<and> line_masked k n"
    and "operational (clearIRQ pic_ports irq k)"
proof -
  note lines = line_number [OF assms(2)] line_number [OF assms(3)]
  show "line_masked (clearIRQ pic_ports irq k) n \<longleftrightarrow> n \<noteq> irq \<and> line_masked k n"
    using assms lines by (auto simp: clearIRQ_def pics_inb_def pics_outb_def chip_data_def operational_def line_masked_def
      bit_and_iff bit_not_iff bit_one_shift)
  show "operational (clearIRQ pic_ports irq k)"
    using assms lines by (auto simp: clearIRQ_def pics_inb_def pics_outb_def chip_data_def operational_def)
qed

lemma eoi_command:
  assumes "j < 8"
  shows "chip_command (0x60 OR word_of_nat j) k = k\<lparr>in_service := unset_bit j (in_service k)\<rparr>"
proof -
  have "j \<in> {0, 1, 2, 3, 4, 5, 6, 7}" using assms by auto
  then show ?thesis by (auto simp: chip_command_def)
qed

lemma sendEOI_ok:
  assumes "irq < 16" and "n < 16"
  shows "line_in_service (sendEOI pic_ports irq k) n \<longleftrightarrow>
    line_in_service k n \<and> n \<noteq> irq \<and> \<not> (8 \<le> irq \<and> n = 2)"
proof -
  have two: "chip_command 0x62 k = k\<lparr>in_service := unset_bit 2 (in_service k)\<rparr>" for k
    using eoi_command [of 2] by simp
  note line_number [OF assms(1)] line_number [OF assms(2)]
  then show ?thesis
    using assms eoi_command [of "irq mod 8"]
    by (auto simp: sendEOI_def sendSpecificEOI_def pics_outb_def line_in_service_def bit_unset_bit_iff two)
qed


section \<open>The processor\<close>

text \<open>
  \<open>getModel\<close>, \<open>checkAPIC\<close>, \<open>coreCount\<close> and \<open>arat\<close>; \<open>cpuid\<close> gives the registers eax, ebx, ecx and edx.
  The loops of \<open>getModel\<close> take the bytes of a register until what is left of it is 0. A name of more
  than 12 bytes cannot arise, the buffer has 13.
\<close>

type_synonym cpuid = "32 word \<Rightarrow> 32 word \<Rightarrow> 32 word \<times> 32 word \<times> 32 word \<times> 32 word"

function register_chars :: "32 word \<Rightarrow> byte list" where
  "register_chars w = (if w = 0 then [] else ucast (w AND 0xff) # register_chars (drop_bit 8 w))"
  by auto

termination
proof (relation "measure unat")
  fix w :: "32 word"
  assume "w \<noteq> 0"
  then show "(drop_bit 8 w, w) \<in> measure unat"
    by (simp add: unat_drop_bit_eq drop_bit_eq_div unat_div unat_gt_0 div_less_dividend)
qed simp

declare register_chars.simps [simp del]

definition getModel :: "cpuid \<Rightarrow> byte list" where
  "getModel cpuid = (case cpuid 0 0 of (eax, ebx, ecx, edx) \<Rightarrow>
     register_chars ebx @ register_chars edx @ register_chars ecx)"

definition checkAPIC :: "cpuid \<Rightarrow> bool" where
  "checkAPIC cpuid = (case cpuid 1 0 of (eax, ebx, ecx, edx) \<Rightarrow> edx AND push_bit 9 1 \<noteq> 0)"

definition GenuineIntel :: "byte list" where
  "GenuineIntel = [0x47, 0x65, 0x6e, 0x75, 0x69, 0x6e, 0x65, 0x49, 0x6e, 0x74, 0x65, 0x6c]"

definition coreCount :: "cpuid \<Rightarrow> nat" where
  "coreCount cpuid =
     (if takeWhile (\<lambda>b. b \<noteq> 0) (getModel cpuid) = GenuineIntel then
        (case cpuid 4 0 of (eax, ebx, ecx, edx) \<Rightarrow> unat (drop_bit 26 eax AND 0x3f) + 1)
      else (case cpuid 0x80000008 0 of (eax, ebx, ecx, edx) \<Rightarrow> unat (ecx AND 0xff) + 1))"

definition arat :: "cpuid \<Rightarrow> bool" where
  "arat cpuid = (case cpuid 6 0 of (eax, ebx, ecx, edx) \<Rightarrow> eax AND 4 \<noteq> 0)"

lemma unat_eq_iff_byte: "unat a = unat b \<Longrightarrow> a = b" for a b :: byte
  by (simp add: word_unat_eq_iff)

lemma register_chars_bytes:
  assumes "le_nat bs = unat w" and "0 \<notin> set bs"
  shows "register_chars w = bs"
  using assms
proof (induction bs arbitrary: w)
  case Nil
  then show ?case by (subst register_chars.simps) (simp add: unat_eq_0)
next
  case (Cons b bs)
  have w: "unat w = unat b + 256 * le_nat bs" and b: "b \<noteq> 0" using Cons.prems by auto
  have lt: "unat b < 256" using unsigned_less [where w = b] by simp
  have "w \<noteq> 0" using w b by (auto simp: unat_eq_0)
  moreover have "ucast (w AND 0xff) = b"
  proof (rule unat_eq_iff_byte)
    have "unat (ucast (w AND 0xff) :: byte) = unat w mod 256"
      by (simp add: masks unsigned_ucast_eq unsigned_take_bit_eq) (simp add: take_bit_eq_mod)
    then show "unat (ucast (w AND 0xff) :: byte) = unat b" using w lt by simp
  qed
  moreover have "le_nat bs = unat (drop_bit 8 w)" using w lt by (simp add: drop_bit_eq_div unat_div)
  ultimately show ?case using Cons by (subst register_chars.simps) simp
qed

text \<open>The vendor string of an Intel processor is recognised.\<close>

lemma getModel_intel:
  assumes "cpuid 0 0 = (eax, 0x756e6547, 0x6c65746e, 0x49656e69)"
  shows "getModel cpuid = GenuineIntel"
proof -
  have "register_chars 0x756e6547 = [0x47, 0x65, 0x6e, 0x75]" "register_chars 0x49656e69 = [0x69, 0x6e, 0x65, 0x49]"
    "register_chars 0x6c65746e = [0x6e, 0x74, 0x65, 0x6c]"
    by (rule register_chars_bytes; simp)+
  then show ?thesis using assms by (simp add: getModel_def GenuineIntel_def)
qed


section \<open>Properties\<close>

lemma idt_init_ok:
  "wp (idt_init beyond base isr c) (\<lambda>_ c'.
    (\<forall>i < 256. delivers c' i = (if i \<in> set isr_vectors then Some (isr i) else None)) \<and>
    idtr c' = Some (0xfff, word_cat beyond (ucast base :: 32 word)))"
proof -
  define c0 where "c0 = c\<lparr>idt_header := \<lparr>h_size = word_of_nat (IDT_SIZE * 16 - 1), h_start = ucast (base AND 0xffffffff)\<rparr>,
      idt := replicate IDT_SIZE absent\<rparr>"
  have "ucast (base AND 0xffffffff) = (ucast base :: 32 word)" by (rule bit_word_eqI) (auto simp: masks bit_simps)
  then have h: "idt_header c0 = \<lparr>h_size = 0xfff, h_start = ucast base\<rparr>" by (simp add: c0_def IDT_SIZE_def)
  have t: "idt c0 = replicate 256 absent" by (simp add: c0_def IDT_SIZE_def)
  have "\<forall>i \<in> set isr_vectors. i < length (idt c0)" by (simp add: t isr_vectors_def)
  from add_gates_ok [OF this, of isr] show ?thesis
    unfolding idt_init_def Let_def c0_def [symmetric]
    by (auto simp: t h delivers_def wrmsr_whole elim!: wp_mono)
qed

lemma reserve_ok:
  assumes "length (idt c) = 256"
  shows "wp (reserveUnusedInterrupt dummy c) (\<lambda>r c'.
    let unused = {i. 48 \<le> i \<and> i < 255 \<and> type_attr (idt c ! i) = 0} in
    if unused = {} then r = 255 \<and> c' = c
    else r \<in> unused \<and> (\<forall>i \<in> unused. r \<le> i) \<and> delivers c' r = Some dummy \<and> (\<forall>i. i \<noteq> r \<longrightarrow> delivers c' i = delivers c i))"
proof (cases "find (\<lambda>i. type_attr (idt c ! i) = 0) [48..<255]")
  case None
  then have "{i. 48 \<le> i \<and> i < 255 \<and> type_attr (idt c ! i) = 0} = {}"
    unfolding find_None_iff set_upt by auto
  moreover have "reserveUnusedInterrupt dummy c = Some (255, c)"
    using assms None by (simp add: reserveUnusedInterrupt_def reserve_loop_ok del: upt_rec_numeral)
  ultimately show ?thesis by (simp only: wp_Some Let_def fst_conv snd_conv) simp
next
  case (Some r)
  then obtain k where up: "k < length [48..<255]" "type_attr (idt c ! ([48..<255] ! k)) = 0" "r = [48..<255] ! k"
    "\<forall>j < k. type_attr (idt c ! ([48..<255] ! j)) \<noteq> 0"
    unfolding find_Some_iff by blast
  have nth: "[48..<255] ! j = 48 + j" if "j \<le> k" for j using that up(1) by (subst nth_upt) (simp_all del: upt_rec_numeral)
  have k: "k < 207" "r = 48 + k" "type_attr (idt c ! r) = 0" "\<forall>j < k. type_attr (idt c ! (48 + j)) \<noteq> 0"
    using up nth by (simp_all del: upt_rec_numeral)
  have least: "r \<le> i" if "48 \<le> i" "type_attr (idt c ! i) = 0" for i
    using k(4) [rule_format, of "i - 48"] that k(2) by (cases "i - 48 < k") auto
  have "wp (reserveUnusedInterrupt dummy c) (\<lambda>x c'. x = r \<and> c' = c\<lparr>idt := (idt c)[r := gate dummy]\<rparr>)"
    using assms Some by (simp add: reserveUnusedInterrupt_def reserve_loop_ok del: upt_rec_numeral)
  then show ?thesis
  proof (rule wp_mono)
    fix x c'
    assume x: "x = r \<and> c' = c\<lparr>idt := (idt c)[r := gate dummy]\<rparr>"
    then have "delivers c' r = Some dummy" "\<forall>i. i \<noteq> r \<longrightarrow> delivers c' i = delivers c i"
      using assms k(1,2) by (simp_all add: delivers_def)
    moreover have "r \<in> {i. 48 \<le> i \<and> i < 255 \<and> type_attr (idt c ! i) = 0}" using k by simp
    ultimately show "let unused = {i. 48 \<le> i \<and> i < 255 \<and> type_attr (idt c ! i) = 0} in
      if unused = {} then x = 255 \<and> c' = c
      else x \<in> unused \<and> (\<forall>i \<in> unused. x \<le> i) \<and> delivers c' x = Some dummy \<and>
        (\<forall>i. i \<noteq> x \<longrightarrow> delivers c' i = delivers c i)"
      using x least by auto
  qed
qed

text \<open>C19. For a table of 256 descriptors: after \<open>IDT::init\<close> exactly the vectors with a handler are delivered, each to its
  own, and the processor finds the table when the four bytes after the header are the upper half of its address.
  \<open>reserveUnusedInterrupt\<close> takes the least unused vector from 48 to 254 and touches no other, or reports 255
  when there is none.\<close>

theorem interrupt_gates:
  assumes "length (idt d) = 256"
  shows "wp (idt_init beyond base isr c) (\<lambda>_ c'.
      (\<forall>i < 256. delivers c' i = (if i \<in> set isr_vectors then Some (isr i) else None)) \<and>
      idtr c' = Some (0xfff, word_cat beyond (ucast base :: 32 word))) \<and>
    wp (reserveUnusedInterrupt dummy d) (\<lambda>r d'.
      let unused = {i. 48 \<le> i \<and> i < 255 \<and> type_attr (idt d ! i) = 0} in
      if unused = {} then r = 255 \<and> d' = d
      else r \<in> unused \<and> (\<forall>i \<in> unused. r \<le> i) \<and> delivers d' r = Some dummy \<and> (\<forall>i. i \<noteq> r \<longrightarrow> delivers d' i = delivers d i))"
  using idt_init_ok reserve_ok [OF assms] by blast

definition sample_cpu :: cpu where
  "sample_cpu = \<lparr>idt = replicate 256 absent, idt_header = \<lparr>h_size = 0, h_start = 0\<rparr>, idtr = None, msr = (\<lambda>_. 0)\<rparr>"

theorem interrupt_gates_witness:
  "wp (idt_init 0 0x1000 of_nat sample_cpu) (\<lambda>_ c. delivers c 33 = Some 33 \<and> delivers c 34 = None) \<and>
   wp (reserveUnusedInterrupt 7 sample_cpu) (\<lambda>r c. r = 48 \<and> delivers c 48 = Some 7)"
proof -
  have "length (idt sample_cpu) = 256" by (simp add: sample_cpu_def)
  note props = interrupt_gates [OF this, of 0 "0x1000" of_nat sample_cpu 7]
  have unused: "{i. 48 \<le> i \<and> i < 255 \<and> type_attr (idt sample_cpu ! i) = 0} = {48..<255}"
    by (auto simp: sample_cpu_def)
  have "wp (reserveUnusedInterrupt 7 sample_cpu) (\<lambda>r c. r = 48 \<and> delivers c 48 = Some 7)"
    using conjunct2 [OF props]
  proof (rule wp_mono)
    fix r c
    assume "let unused = {i. 48 \<le> i \<and> i < 255 \<and> type_attr (idt sample_cpu ! i) = 0} in
      if unused = {} then r = 255 \<and> c = sample_cpu
      else r \<in> unused \<and> (\<forall>i \<in> unused. r \<le> i) \<and> delivers c r = Some 7 \<and>
        (\<forall>i. i \<noteq> r \<longrightarrow> delivers c i = delivers sample_cpu i)"
    then have "48 \<le> r" "r \<le> 48" "delivers c r = Some 7" unfolding unused Let_def by auto
    then show "r = 48 \<and> delivers c 48 = Some 7" by simp
  qed
  moreover have "wp (idt_init 0 0x1000 of_nat sample_cpu) (\<lambda>_ c. delivers c 33 = Some 33 \<and> delivers c 34 = None)"
    using conjunct1 [OF props] by (rule wp_mono) (simp add: isr_vectors_def)
  ultimately show ?thesis by simp
qed

text \<open>The interrupt controllers, when both are past their initialisation, for the lines 0 to 15. \<open>remap\<close> sets the first
  vectors, the cascade and the mode and keeps the masks and what is in service; \<open>disable\<close> masks every line;
  \<open>setIRQ\<close> and \<open>clearIRQ\<close> change the mask of one of the sixteen lines; an end of interrupt takes just its line
  out of service, and for a line of the second controller also the cascade.\<close>

lemma pic_programming:
  assumes "operational k" and "irq < 16" and "n < 16"
  shows "pic_remap pic_ports o1 o2 k =
      k\<lparr>master := (master k)\<lparr>base_vector := o1, cascade := 4, chip_mode := 1, step_4 := True\<rparr>,
        slave := (slave k)\<lparr>base_vector := o2, cascade := 2, chip_mode := 1, step_4 := True\<rparr>\<rparr> \<and>
    line_masked (pic_disable pic_ports k) n \<and>
    (line_masked (setIRQ pic_ports irq k) n \<longleftrightarrow> n = irq \<or> line_masked k n) \<and>
    (line_masked (clearIRQ pic_ports irq k) n \<longleftrightarrow> n \<noteq> irq \<and> line_masked k n) \<and>
    (line_in_service (sendEOI pic_ports irq k) n \<longleftrightarrow> line_in_service k n \<and> n \<noteq> irq \<and> \<not> (8 \<le> irq \<and> n = 2))"
  using remap_ok [OF assms(1)] disable_ok [OF assms(1,3)] setIRQ_ok(1) [OF assms] clearIRQ_ok(1) [OF assms]
    sendEOI_ok [OF assms(2,3)] by blast

definition sample_pics :: pics where
  "sample_pics =
     (let k = \<lparr>imr = 0xff, in_service = 0xff, base_vector = 0, cascade = 0, chip_mode = 0, step_4 = False, expects = 0\<rparr>
      in \<lparr>master = k, slave = k\<rparr>)"

lemma pic_programming_witness:
  "\<not> line_masked (clearIRQ pic_ports 14 sample_pics) 14 \<and> \<not> line_in_service (sendEOI pic_ports 14 sample_pics) 14 \<and>
   line_masked (setIRQ pic_ports 3 sample_pics) 3"
proof -
  have "operational sample_pics" by (simp add: sample_pics_def operational_def Let_def)
  then show ?thesis
    using pic_programming [of sample_pics 14 14 0 0] pic_programming [of sample_pics 3 3 0 0] by simp
qed

end
