(* ===== verification/PCI.thy ===== *)
theory PCI
  imports Interrupts
begin

text \<open>
  The configuration space of PCI, \<open>src/hardware/PCI.cpp\<close>. It is reached through two ports, of the record
  \<open>wide_ports\<close>: an address is written to one and the data goes through the other. Numbers of buses,
  devices and functions and offsets are \<open>uint32_t\<close> as in the code. Messages are left out.
\<close>

record bdf =
  bus :: "32 word"
  device :: "32 word"
  function_number :: "32 word"


section \<open>Access\<close>

definition cfg_address :: "bdf \<Rightarrow> 32 word \<Rightarrow> 32 word" where
  "cfg_address b offset =
     0x80000000 OR push_bit 16 (bus b) OR push_bit 11 (device b) OR push_bit 8 (function_number b) OR (offset AND 0xfc)"

definition readByte :: "'p wide_ports \<Rightarrow> bdf \<Rightarrow> 32 word \<Rightarrow> 'p \<Rightarrow> byte \<times> 'p" where
  "readByte P b offset p = in_byte P (0xcfc + unat (offset AND 3)) (out_long P 0xcf8 (cfg_address b offset) p)"

definition readWord :: "'p wide_ports \<Rightarrow> bdf \<Rightarrow> 32 word \<Rightarrow> 'p \<Rightarrow> 16 word \<times> 'p" where
  "readWord P b offset p = in_word P (0xcfc + unat (offset AND 2)) (out_long P 0xcf8 (cfg_address b offset) p)"

definition readInt :: "'p wide_ports \<Rightarrow> bdf \<Rightarrow> 32 word \<Rightarrow> 'p \<Rightarrow> 32 word \<times> 'p" where
  "readInt P b offset p = in_long P 0xcfc (out_long P 0xcf8 (cfg_address b offset) p)"

definition writeByte :: "'p wide_ports \<Rightarrow> bdf \<Rightarrow> 32 word \<Rightarrow> byte \<Rightarrow> 'p \<Rightarrow> 'p" where
  "writeByte P b offset v p = out_byte P (0xcfc + unat (offset AND 3)) v (out_long P 0xcf8 (cfg_address b offset) p)"

definition writeWord :: "'p wide_ports \<Rightarrow> bdf \<Rightarrow> 32 word \<Rightarrow> 16 word \<Rightarrow> 'p \<Rightarrow> 'p" where
  "writeWord P b offset v p = out_word P (0xcfc + unat (offset AND 2)) v (out_long P 0xcf8 (cfg_address b offset) p)"

definition writeInt :: "'p wide_ports \<Rightarrow> bdf \<Rightarrow> 32 word \<Rightarrow> 32 word \<Rightarrow> 'p \<Rightarrow> 'p" where
  "writeInt P b offset v p = out_long P 0xcfc v (out_long P 0xcf8 (cfg_address b offset) p)"

abbreviation (input) VENDOR_ID :: "32 word" where "VENDOR_ID \<equiv> 0x00"
abbreviation (input) DEVICE_ID :: "32 word" where "DEVICE_ID \<equiv> 0x02"
abbreviation (input) COMMAND :: "32 word" where "COMMAND \<equiv> 0x04"
abbreviation (input) STATUS :: "32 word" where "STATUS \<equiv> 0x06"
abbreviation (input) CLASS_API :: "32 word" where "CLASS_API \<equiv> 0x09"
abbreviation (input) CLASS_SUB :: "32 word" where "CLASS_SUB \<equiv> 0x0a"
abbreviation (input) CLASS_BASE :: "32 word" where "CLASS_BASE \<equiv> 0x0b"
abbreviation (input) BAR0 :: "32 word" where "BAR0 \<equiv> 0x10"
abbreviation (input) CAPABILITIES_PTR :: "32 word" where "CAPABILITIES_PTR \<equiv> 0x34"
abbreviation (input) INTERRUPT_LINE :: "32 word" where "INTERRUPT_LINE \<equiv> 0x3c"
abbreviation (input) INTERRUPT_PIN :: "32 word" where "INTERRUPT_PIN \<equiv> 0x3d"

definition getVendorID :: "'p wide_ports \<Rightarrow> bdf \<Rightarrow> 'p \<Rightarrow> 16 word \<times> 'p" where
  "getVendorID P b = readWord P b VENDOR_ID"

definition getBaseClass :: "'p wide_ports \<Rightarrow> bdf \<Rightarrow> 'p \<Rightarrow> byte \<times> 'p" where
  "getBaseClass P b = readByte P b CLASS_BASE"

definition getSubclass :: "'p wide_ports \<Rightarrow> bdf \<Rightarrow> 'p \<Rightarrow> byte \<times> 'p" where
  "getSubclass P b = readByte P b CLASS_SUB"

definition getProgIF :: "'p wide_ports \<Rightarrow> bdf \<Rightarrow> 'p \<Rightarrow> byte \<times> 'p" where
  "getProgIF P b = readByte P b CLASS_API"


section \<open>Enumeration\<close>

text \<open>
  \<open>getDevices\<close>: the three nested loops. The innermost ends at the first function that does not answer;
  the subclass is read only when the class matches.
\<close>

primrec getDevices_functions ::
  "'p wide_ports \<Rightarrow> 32 word \<Rightarrow> 32 word \<Rightarrow> 32 word \<Rightarrow> 32 word \<Rightarrow> nat list \<Rightarrow> 'p \<Rightarrow> bdf list \<times> 'p" where
  "getDevices_functions P base_class subclass bs dev [] p = ([], p)"
| "getDevices_functions P base_class subclass bs dev (fn # fns) p =
     (let b = \<lparr>bus = bs, device = dev, function_number = word_of_nat fn\<rparr>;
          (vendor, p) = getVendorID P b p
      in if vendor = 0xffff then ([], p)
         else
           let (c, p) = getBaseClass P b p;
               (match, p) = (if ucast c = base_class then (let (sc, p) = getSubclass P b p in (ucast sc = subclass, p)) else (False, p));
               (out, p) = getDevices_functions P base_class subclass bs dev fns p
           in (if match then b # out else out, p))"

primrec getDevices_devices ::
  "'p wide_ports \<Rightarrow> 32 word \<Rightarrow> 32 word \<Rightarrow> 32 word \<Rightarrow> nat list \<Rightarrow> 'p \<Rightarrow> bdf list \<times> 'p" where
  "getDevices_devices P base_class subclass bs [] p = ([], p)"
| "getDevices_devices P base_class subclass bs (dev # devs) p =
     (let (out1, p) = getDevices_functions P base_class subclass bs (word_of_nat dev) [0..<8] p;
          (out2, p) = getDevices_devices P base_class subclass bs devs p
      in (out1 @ out2, p))"

primrec getDevices_buses :: "'p wide_ports \<Rightarrow> 32 word \<Rightarrow> 32 word \<Rightarrow> nat list \<Rightarrow> 'p \<Rightarrow> bdf list \<times> 'p" where
  "getDevices_buses P base_class subclass [] p = ([], p)"
| "getDevices_buses P base_class subclass (bs # bss) p =
     (let (out1, p) = getDevices_devices P base_class subclass (word_of_nat bs) [0..<32] p;
          (out2, p) = getDevices_buses P base_class subclass bss p
      in (out1 @ out2, p))"

definition getDevices :: "'p wide_ports \<Rightarrow> 32 word \<Rightarrow> 32 word \<Rightarrow> 'p \<Rightarrow> bdf list \<times> 'p" where
  "getDevices P base_class subclass p = getDevices_buses P base_class subclass [0..<256] p"


section \<open>Devices\<close>

text \<open>
  \<open>MSICapability\<close>: four registers; the first holds the identifier, the next capability and the control
  word, the third is the data or the upper half of the address. They are not initialised.
\<close>

record msi_capability =
  register0 :: "32 word"
  register1 :: "32 word"
  register2 :: "32 word"
  register3 :: "32 word"

definition msiControl :: "msi_capability \<Rightarrow> 16 word" where
  "msiControl m = ucast (drop_bit 16 (register0 m))"

definition set_msiControl :: "16 word \<Rightarrow> msi_capability \<Rightarrow> msi_capability" where
  "set_msiControl v m = m\<lparr>register0 := word_cat v (ucast (register0 m) :: 16 word)\<rparr>"

definition setData :: "32 word \<Rightarrow> msi_capability \<Rightarrow> msi_capability" where
  "setData v m = (if msiControl m AND 0x80 \<noteq> 0 then m\<lparr>register3 := v\<rparr> else m\<lparr>register2 := v\<rparr>)"

definition getData :: "msi_capability \<Rightarrow> 32 word" where
  "getData m = (if msiControl m AND 0x80 \<noteq> 0 then register3 m else register2 m)"

definition setAddress :: "32 word \<Rightarrow> msi_capability \<Rightarrow> msi_capability" where
  "setAddress c m =
     (let m = m\<lparr>register1 := 0xfee00000 OR push_bit 12 c\<rparr>
      in if msiControl m AND 0x80 \<noteq> 0 then m\<lparr>register2 := 0\<rparr> else m)"

record pci_device =
  dev_bdf :: bdf
  msiPointer :: byte
  msiCapable :: bool
  msiCapability :: msi_capability
  capabilities :: "byte list"

definition new_device :: "msi_capability \<Rightarrow> bdf \<Rightarrow> pci_device" where
  "new_device junk b = \<lparr>dev_bdf = b, msiPointer = 0, msiCapable = False, msiCapability = junk, capabilities = []\<rparr>"

text \<open>The body of the loop of \<open>init\<close> for a capability for message signalled interrupts.\<close>

definition read_msi :: "'p wide_ports \<Rightarrow> byte \<Rightarrow> pci_device \<Rightarrow> 'p \<Rightarrow> pci_device \<times> 'p" where
  "read_msi P ptr d p =
     (let (r0, p) = readInt P (dev_bdf d) (ucast ptr) p;
          (r1, p) = readInt P (dev_bdf d) (ucast ptr + 4) p;
          (r2, p) = readInt P (dev_bdf d) (ucast ptr + 8) p;
          m = (msiCapability d)\<lparr>register0 := r0, register1 := r1, register2 := r2\<rparr>;
          (m, p) = (if msiControl m AND 0x80 \<noteq> 0 then
              (let (r3, p) = readInt P (dev_bdf d) (ucast ptr + 12) p in (m\<lparr>register3 := r3\<rparr>, p))
            else (m, p))
      in (d\<lparr>msiPointer := ptr, msiCapable := True, msiCapability := m\<rparr>, p))"

partial_function (option) init_loop :: "'p wide_ports \<Rightarrow> byte \<Rightarrow> 16 word \<Rightarrow> pci_device \<Rightarrow> 'p \<Rightarrow> (pci_device \<times> 'p) option" where
  "init_loop W ptr cap d p =
     (let (d, p) = (if cap AND 0xff = 5 then read_msi W ptr d p else (d, p));
          ptr = ucast (drop_bit 8 cap);
          (cap, p) = readWord W (dev_bdf d) (ucast ptr) p;
          d = d\<lparr>capabilities := capabilities d @ [ucast (cap AND 0xff)]\<rparr>
      in if drop_bit 8 cap \<noteq> 0 then init_loop W ptr cap d p else Some (d, p))"

definition device_init :: "'p wide_ports \<Rightarrow> pci_device \<Rightarrow> 'p \<Rightarrow> (pci_device \<times> 'p) option" where
  "device_init P d p =
     (let (status, p) = readWord P (dev_bdf d) STATUS p
      in if status AND 0x10 \<noteq> 0 then
           let (w, p) = readWord P (dev_bdf d) CAPABILITIES_PTR p;
               ptr = ucast (w AND 0xfc);
               (v, p) = readInt P (dev_bdf d) (ucast (ptr :: byte)) p
           in init_loop P ptr (ucast v) d p
         else Some (d, p))"

definition initDevice :: "'p wide_ports \<Rightarrow> msi_capability \<Rightarrow> bdf \<Rightarrow> 'p \<Rightarrow> (pci_device \<times> 'p) option" where
  "initDevice P junk b p = device_init P (new_device junk b) p"

text \<open>
  The base address registers. \<open>getBAR\<close> reads the upper half of a 64-bit address at \<open>bar + 1\<close>, the contents
  of the register and not its number; the offset is converted to 32 bits.
\<close>

definition rawBAR :: "'p wide_ports \<Rightarrow> pci_device \<Rightarrow> byte \<Rightarrow> 'p \<Rightarrow> 32 word \<times> 'p" where
  "rawBAR P d index p = readInt P (dev_bdf d) (BAR0 + ucast index * 4) p"

definition getBAR :: "'p wide_ports \<Rightarrow> pci_device \<Rightarrow> byte \<Rightarrow> 'p \<Rightarrow> 64 word \<times> 'p" where
  "getBAR P d index p =
     (let (v, p) = readInt P (dev_bdf d) (BAR0 + ucast index * 4) p;
          bar = ucast v :: 64 word;
          (bar, p) = (if bar AND 1 = 0 \<and> bar AND 4 \<noteq> 0 \<and> index < 5 then
              (let (high, p) = readInt P (dev_bdf d) (ucast (0x10 + (bar + 1) * 4)) p
               in (bar OR push_bit 32 (ucast high), p))
            else (bar, p))
      in (bar AND (if bar AND 1 \<noteq> 0 then 0xfffffffffffffffc else 0xfffffffffffffff0), p))"

text \<open>\<open>getCommand\<close>, \<open>setCommand\<close>, the interrupt line and pin, and the four switches of the command word.\<close>

definition getCommand :: "'p wide_ports \<Rightarrow> pci_device \<Rightarrow> 'p \<Rightarrow> 16 word \<times> 'p" where
  "getCommand P d = readWord P (dev_bdf d) COMMAND"

definition setCommand :: "'p wide_ports \<Rightarrow> pci_device \<Rightarrow> 16 word \<Rightarrow> 'p \<Rightarrow> 'p" where
  "setCommand P d = writeWord P (dev_bdf d) COMMAND"

definition getInterruptLine :: "'p wide_ports \<Rightarrow> pci_device \<Rightarrow> 'p \<Rightarrow> byte \<times> 'p" where
  "getInterruptLine P d = readByte P (dev_bdf d) INTERRUPT_LINE"

definition getInterruptPin :: "'p wide_ports \<Rightarrow> pci_device \<Rightarrow> 'p \<Rightarrow> byte \<times> 'p" where
  "getInterruptPin P d = readByte P (dev_bdf d) INTERRUPT_PIN"

definition update_command :: "'p wide_ports \<Rightarrow> pci_device \<Rightarrow> (16 word \<Rightarrow> 16 word) \<Rightarrow> 'p \<Rightarrow> 'p" where
  "update_command P d f p = (let (v, p) = readWord P (dev_bdf d) COMMAND p in writeWord P (dev_bdf d) COMMAND (f v) p)"

definition setBusMastering :: "'p wide_ports \<Rightarrow> pci_device \<Rightarrow> bool \<Rightarrow> 'p \<Rightarrow> 'p" where
  "setBusMastering P d enable = update_command P d (if enable then (\<lambda>v. v OR 0x004) else (\<lambda>v. v AND NOT 0x004))"

definition setInterrupts :: "'p wide_ports \<Rightarrow> pci_device \<Rightarrow> bool \<Rightarrow> 'p \<Rightarrow> 'p" where
  "setInterrupts P d enable = update_command P d (if enable then (\<lambda>v. v AND NOT 0x400) else (\<lambda>v. v OR 0x400))"

definition setMemorySpace :: "'p wide_ports \<Rightarrow> pci_device \<Rightarrow> bool \<Rightarrow> 'p \<Rightarrow> 'p" where
  "setMemorySpace P d enable = update_command P d (if enable then (\<lambda>v. v OR 0x002) else (\<lambda>v. v AND NOT 0x002))"

definition setIOSpace :: "'p wide_ports \<Rightarrow> pci_device \<Rightarrow> bool \<Rightarrow> 'p \<Rightarrow> 'p" where
  "setIOSpace P d enable = update_command P d (if enable then (\<lambda>v. v OR 0x001) else (\<lambda>v. v AND NOT 0x001))"

text \<open>
  \<open>allocateVector\<close> on the device, the ports and the processor; \<open>dummy\<close> is the address of the handler of
  \<open>reserveUnusedInterrupt\<close>. The last \<open>writeInt\<close> has the offset of the control word and the control word as
  its value.
\<close>

definition enable_msi ::
  "'p wide_ports \<Rightarrow> nat \<Rightarrow> pci_device \<Rightarrow> 'p \<Rightarrow> pci_device \<times> 'p" where
  "enable_msi P interrupt d p =
     (let m = msiCapability d;
          m = set_msiControl ((msiControl m AND NOT (0x70 OR 0x100)) OR 0) m;
          m = set_msiControl (msiControl m OR 1) m;
          m = setData (word_of_nat (interrupt mod 256) OR 0) m;
          b = dev_bdf d;
          ptr = ucast (msiPointer d) :: 32 word;
          p = (if msiControl m AND 0x80 \<noteq> 0 then writeInt P b (ptr + 12) (register3 m) p else p);
          p = writeInt P b (ptr + 8) (register2 m) p;
          p = writeInt P b (ptr + 4) (register1 m) p;
          p = writeInt P b (ptr + 2) (ucast (msiControl m)) p
      in (d\<lparr>msiCapability := m\<rparr>, p))"

definition allocateVector ::
  "'p wide_ports \<Rightarrow> 64 word \<Rightarrow> byte \<Rightarrow> pci_device \<Rightarrow> 'p \<Rightarrow> cpu \<Rightarrow> (byte \<times> pci_device \<times> 'p \<times> cpu) option" where
  "allocateVector P dummy vector d p c =
     (let legacy = (if vector AND 1 \<noteq> 0 then
          (let (irq, p) = getInterruptLine P d p in (if irq = 0xff then 0xff else 32 OR irq, d, p, c))
        else (0xff, d, p, c))
      in if vector AND 4 \<noteq> 0 \<and> msiCapable d then do {
           (interrupt, c) \<leftarrow> reserveUnusedInterrupt dummy c;
           if interrupt = 0xff then Some (0xff, d, p, c)
           else (let (d, p) = enable_msi P interrupt d p in Some (word_of_nat interrupt, d, p, c))
         }
         else Some legacy)"

text \<open>
  \<open>readNativeHeader\<close>: the fields in the order in which they are read, as pairs of width and offset, and the
  values that come back.
\<close>

definition native_fields :: "(nat \<times> 32 word) list" where
  "native_fields =
     [(2, 0x00), (2, 0x02), (2, 0x04), (2, 0x06), (1, 0x08), (1, 0x09), (1, 0x0a), (1, 0x0b), (1, 0x0c), (1, 0x0d),
      (1, 0x0e), (1, 0x0f), (4, 0x10), (4, 0x14), (4, 0x18), (4, 0x1c), (4, 0x20), (4, 0x24), (4, 0x28), (2, 0x2c),
      (2, 0x2e), (4, 0x30), (1, 0x34), (1, 0x3c), (1, 0x3d), (1, 0x3e), (1, 0x3f)]"

primrec read_fields :: "'p wide_ports \<Rightarrow> bdf \<Rightarrow> (nat \<times> 32 word) list \<Rightarrow> 'p \<Rightarrow> nat list \<times> 'p" where
  "read_fields P b [] p = ([], p)"
| "read_fields P b (f # fs) p =
     (let (v, p) = (case f of (w, offset) \<Rightarrow>
             if w = 1 then (let (x, p) = readByte P b offset p in (unat x, p))
             else if w = 2 then (let (x, p) = readWord P b offset p in (unat x, p))
             else (let (x, p) = readInt P b offset p in (unat x, p)));
          (vs, p) = read_fields P b fs p
      in (v # vs, p))"

definition readNativeHeader :: "'p wide_ports \<Rightarrow> bdf \<Rightarrow> 'p \<Rightarrow> nat list \<times> 'p" where
  "readNativeHeader P b = read_fields P b native_fields"



section \<open>The scan of the bus\<close>

text \<open>
  The constructor of \<open>UHCI::Controller\<close> gives the address of the ports of the controller, and
  \<open>Kernel::perish\<close> for one that is mapped to memory or has another version.
\<close>

definition new_uhci :: "'p wide_ports \<Rightarrow> pci_device \<Rightarrow> 'p \<Rightarrow> ((pci_device \<times> 32 word) \<times> 'p) option" where
  "new_uhci P d p =
     (let (bar4, p) = rawBAR P d 4 p
      in if bar4 AND 1 \<noteq> 0 then
           (let (x60, p) = readByte P (dev_bdf d) 0x60 p
            in if x60 \<noteq> 0x10 then None else Some ((d, bar4 AND NOT 31), p))
         else None)"

text \<open>\<open>scan_bus\<close>: the controllers that were found; \<open>UHCI::controllers\<close> is a pointer that may be null.\<close>

record controllers =
  ahci_controllers :: "pci_device list"
  uhci_controllers :: "(pci_device \<times> 32 word) list option"

definition scan_function :: "'p wide_ports \<Rightarrow> msi_capability \<Rightarrow> bdf \<Rightarrow> controllers \<Rightarrow> 'p \<Rightarrow> (controllers \<times> 'p) option" where
  "scan_function P junk b k p =
     (let (vendor, p) = getVendorID P b p
      in if vendor = 0xffff \<or> vendor = 0 then Some (k, p)
         else
           let (baseclass, p) = getBaseClass P b p;
               (subclass, p) = getSubclass P b p;
               (progif, p) = getProgIF P b p
           in if baseclass = 1 \<and> subclass = 6 then do {
                (d, p) \<leftarrow> initDevice P junk b p;
                Some (k\<lparr>ahci_controllers := ahci_controllers k @ [d]\<rparr>, p)
              }
              else if baseclass = 12 \<and> subclass = 3 \<and> progif = 0 then
                (let (header, p) = readNativeHeader P b p
                 in case uhci_controllers k of
                      None \<Rightarrow> Some (k, p)
                    | Some us \<Rightarrow> do {
                        (d, p) \<leftarrow> initDevice P junk b p;
                        (u, p) \<leftarrow> new_uhci P d p;
                        Some (k\<lparr>uhci_controllers := Some (us @ [u])\<rparr>, p)
                      })
              else Some (k, p))"

primrec scan_list :: "'p wide_ports \<Rightarrow> msi_capability \<Rightarrow> bdf list \<Rightarrow> controllers \<Rightarrow> 'p \<Rightarrow> (controllers \<times> 'p) option" where
  "scan_list P junk [] k p = Some (k, p)"
| "scan_list P junk (b # bs) k p = do {
     (k, p) \<leftarrow> scan_function P junk b k p;
     scan_list P junk bs k p
   }"

definition scan_bus :: "'p wide_ports \<Rightarrow> msi_capability \<Rightarrow> controllers \<Rightarrow> 'p \<Rightarrow> (controllers \<times> 'p) option" where
  "scan_bus P junk =
     scan_list P junk [\<lparr>bus = word_of_nat bs, device = word_of_nat dev, function_number = word_of_nat fn\<rparr>.
       bs \<leftarrow> [0..<256], dev \<leftarrow> [0..<32], fn \<leftarrow> [0..<8]]"

end
