(* ===== verification/PCI_Bus.thy ===== *)
theory PCI_Bus
  imports PCI
begin

unbundle bit_operations_syntax

text \<open>
  The host bridge as the PCI specification describes its first configuration mechanism, behind the ports
  of \<open>PCI\<close>: the port 0xcf8 holds the address of a function and of four of its registers, the ports 0xcfc to
  0xcff are these registers. A function has 256 bytes; a store changes the bits that can be written.
  Where no function is, the bytes are 0xff.
\<close>

record bridge =
  latch :: "32 word"
  cfg :: "16 word \<Rightarrow> nat \<Rightarrow> byte"
  writable :: "16 word \<Rightarrow> nat \<Rightarrow> byte"

definition target :: "32 word \<Rightarrow> 16 word" where
  "target a = ucast (drop_bit 8 a)"

definition register_of :: "32 word \<Rightarrow> nat" where
  "register_of a = unat (a AND 0xfc)"

definition in_window :: "nat \<Rightarrow> nat \<Rightarrow> bridge \<Rightarrow> bool" where
  "in_window n port h \<longleftrightarrow> bit (latch h) 31 \<and> 0xcfc \<le> port \<and> port + n \<le> 0xd00"

definition masked :: "(nat \<Rightarrow> byte) \<Rightarrow> (nat \<Rightarrow> byte) \<Rightarrow> nat \<Rightarrow> byte list \<Rightarrow> nat \<Rightarrow> byte" where
  "masked w f off bs = (\<lambda>i. (f i AND NOT (w i)) OR (upd f off bs i AND w i))"

definition bridge_in :: "nat \<Rightarrow> nat \<Rightarrow> bridge \<Rightarrow> byte list" where
  "bridge_in n port h =
     (if in_window n port h then rd (cfg h (target (latch h))) (register_of (latch h) + (port - 0xcfc)) n
      else replicate n 0xff)"

definition bridge_out :: "nat \<Rightarrow> byte list \<Rightarrow> bridge \<Rightarrow> bridge" where
  "bridge_out port bs h =
     (if port = 0xcf8 \<and> length bs = 4 then h\<lparr>latch := word_of_nat (le_nat bs)\<rparr>
      else if in_window (length bs) port h then
        h\<lparr>cfg := (cfg h)(target (latch h) :=
            masked (writable h (target (latch h))) (cfg h (target (latch h))) (register_of (latch h) + (port - 0xcfc)) bs)\<rparr>
      else h)"

definition bus_ports :: "bridge wide_ports" where
  "bus_ports = \<lparr>
     in_byte = (\<lambda>port h. (hd (bridge_in 1 port h), h)),
     in_word = (\<lambda>port h. (word_of_nat (le_nat (bridge_in 2 port h)), h)),
     in_long = (\<lambda>port h. (word_of_nat (le_nat (bridge_in 4 port h)), h)),
     out_byte = (\<lambda>port v. bridge_out port [v]),
     out_word = (\<lambda>port v. bridge_out port (le_bytes 2 (unat v))),
     out_long = (\<lambda>port v. bridge_out port (le_bytes 4 (unat v)))\<rparr>"


section \<open>Addresses\<close>

definition valid_bdf :: "bdf \<Rightarrow> bool" where
  "valid_bdf b \<longleftrightarrow> unat (bus b) < 256 \<and> unat (device b) < 32 \<and> unat (function_number b) < 8"

definition bdf_id :: "bdf \<Rightarrow> 16 word" where
  "bdf_id b = push_bit 8 (ucast (bus b)) OR push_bit 3 (ucast (device b)) OR ucast (function_number b)"

lemma small_word_bits:
  fixes w :: "'a :: len word"
  assumes "unat w < 2 ^ k" and "bit w n"
  shows "n < k"
proof (rule ccontr)
  assume "\<not> n < k"
  then have "2 ^ k \<le> (2 :: nat) ^ n" by (simp add: power_increasing)
  moreover have "bit (unat w) n" using assms(2) by (simp add: bit_unsigned_iff)
  then have "2 ^ n \<le> unat w" by (metis bit_nat_iff bit_iff_odd div_less even_zero leI)
  ultimately show False using assms(1) by linarith
qed

lemma valid_bits:
  assumes "valid_bdf b"
  shows "bit (bus b) n \<Longrightarrow> n < 8" and "bit (device b) n \<Longrightarrow> n < 5" and "bit (function_number b) n \<Longrightarrow> n < 3"
  using assms small_word_bits [of "bus b" 8] small_word_bits [of "device b" 5] small_word_bits [of "function_number b" 3]
  by (auto simp: valid_bdf_def)

lemma bit_0xfc: "bit (0xfc :: 32 word) n \<longleftrightarrow> 2 \<le> n \<and> n < 8"
proof -
  have "(0xfc :: 32 word) = push_bit 2 (mask 6)" by (simp add: mask_eq_exp_minus_1 push_bit_eq_mult)
  then show ?thesis by (simp only: bit_push_bit_iff bit_mask_iff) auto
qed

lemma bit_enable: "bit (0x80000000 :: 32 word) n \<longleftrightarrow> n = 31"
proof -
  have "(0x80000000 :: 32 word) = 2 ^ 31" by simp
  then show ?thesis by (simp only: bit_exp_iff) auto
qed

lemma bit_address:
  assumes "valid_bdf b" and "n < 32"
  shows "bit (cfg_address b off) n \<longleftrightarrow>
    n = 31 \<or> (16 \<le> n \<and> n < 24 \<and> bit (bus b) (n - 16)) \<or> (11 \<le> n \<and> n < 16 \<and> bit (device b) (n - 11)) \<or>
    (8 \<le> n \<and> n < 11 \<and> bit (function_number b) (n - 8)) \<or> (2 \<le> n \<and> n < 8 \<and> bit off n)"
proof -
  have "n - 16 < 8" if "bit (bus b) (n - 16)" using valid_bits(1) [OF assms(1) that] .
  moreover have "n - 11 < 5" if "bit (device b) (n - 11)" using valid_bits(2) [OF assms(1) that] .
  moreover have "n - 8 < 3" if "bit (function_number b) (n - 8)" using valid_bits(3) [OF assms(1) that] .
  ultimately show ?thesis
    using assms(2)
    unfolding cfg_address_def bit_or_iff bit_and_iff bit_push_bit_iff bit_0xfc bit_enable by auto
qed

lemma bit_bdf_id:
  assumes "valid_bdf b"
  shows "bit (bdf_id b) n \<longleftrightarrow>
    (8 \<le> n \<and> n < 16 \<and> bit (bus b) (n - 8)) \<or> (3 \<le> n \<and> n < 8 \<and> bit (device b) (n - 3)) \<or>
    (n < 3 \<and> bit (function_number b) n)"
  using valid_bits(1) [OF assms, of "n - 8"] valid_bits(2) [OF assms, of "n - 3"] valid_bits(3) [OF assms, of n]
  by (auto simp: bdf_id_def bit_or_iff bit_push_bit_iff bit_ucast_iff)

lemma target_address:
  assumes "valid_bdf b"
  shows "target (cfg_address b off) = bdf_id b"
proof (rule bit_word_eqI)
  fix n assume n: "n < LENGTH(16)"
  then have "bit (target (cfg_address b off)) n \<longleftrightarrow> bit (cfg_address b off) (n + 8)"
    by (simp add: target_def bit_ucast_iff bit_drop_bit_eq add.commute)
  then show "bit (target (cfg_address b off)) n = bit (bdf_id b) n"
    using n unfolding bit_bdf_id [OF assms] by (subst (asm) bit_address [OF assms]) auto
qed

lemma bdf_id_inj:
  assumes "valid_bdf b" and "valid_bdf b'" and "bdf_id b = bdf_id b'"
  shows "b = b'"
proof -
  have same: "bit (bdf_id b) n = bit (bdf_id b') n" for n using assms(3) by simp
  have "bit (bus b) n = bit (bus b') n" for n
    using same [of "n + 8"] valid_bits(1) [OF assms(1), of n] valid_bits(1) [OF assms(2), of n]
    unfolding bit_bdf_id [OF assms(1)] bit_bdf_id [OF assms(2)] by auto
  moreover have "bit (device b) n = bit (device b') n" for n
    using same [of "n + 3"] valid_bits(2) [OF assms(1), of n] valid_bits(2) [OF assms(2), of n]
    unfolding bit_bdf_id [OF assms(1)] bit_bdf_id [OF assms(2)] by auto
  moreover have "bit (function_number b) n = bit (function_number b') n" for n
    using same [of n] valid_bits(3) [OF assms(1), of n] valid_bits(3) [OF assms(2), of n]
    unfolding bit_bdf_id [OF assms(1)] bit_bdf_id [OF assms(2)] by auto
  ultimately have "bus b = bus b'" "device b = device b'" "function_number b = function_number b'"
    by (auto intro: bit_word_eqI)
  then show ?thesis by (cases b; cases b') simp
qed

lemma bit_of_nat_word_iff: "bit (word_of_nat m :: 'a :: len word) n \<longleftrightarrow> n < LENGTH('a) \<and> bit m n"
proof -
  have "bit (word_of_nat m :: 'a word) n \<longleftrightarrow> n < LENGTH('a) \<and> bit (unat (word_of_nat m :: 'a word)) n"
    by (auto simp: bit_unsigned_iff dest: bit_imp_le_length)
  then show ?thesis by (auto simp: unsigned_of_nat bit_take_bit_iff)
qed

lemma register_address:
  assumes "valid_bdf b" and "off < 256"
  shows "register_of (cfg_address b (word_of_nat off)) = off - off mod 4"
proof -
  define q where "q = off div 4"
  have small: "\<not> bit q m" if "6 \<le> m" for m
  proof -
    have "q < 2 ^ 6" using assms(2) by (simp add: q_def)
    also have "\<dots> \<le> 2 ^ m" using that by (intro power_increasing) simp_all
    finally show ?thesis by (simp add: bit_iff_odd)
  qed
  have q: "q = drop_bit 2 off" by (simp add: q_def drop_bit_eq_div)
  have low: "bit q m \<longleftrightarrow> bit off (2 + m)" for m unfolding q bit_drop_bit_eq comp_def ..
  have "cfg_address b (word_of_nat off) AND 0xfc = push_bit 2 (word_of_nat q)"
  proof (rule bit_word_eqI)
    fix n assume n: "n < LENGTH(32)"
    show "bit (cfg_address b (word_of_nat off) AND 0xfc) n = bit (push_bit 2 (word_of_nat q) :: 32 word) n"
    proof (cases "2 \<le> n")
      case True
      then obtain m where m: "n = 2 + m" by (rule le_Suc_ex [elim_format]) blast
      have at: "bit (word_of_nat off :: 32 word) (2 + m) \<longleftrightarrow> bit q m" "bit (word_of_nat q :: 32 word) (2 + m - 2) \<longleftrightarrow> bit q m"
        unfolding bit_of_nat_word_iff low using n m by (auto simp: low)
      have lim: "2 + m < 32" using n m by simp
      have "m < 6" if "bit q m" using small that not_le_imp_less by blast
      moreover have "bit (cfg_address b (word_of_nat off)) (2 + m) \<longleftrightarrow> bit q m" if "m < 6"
        unfolding bit_address [OF assms(1) lim] at using that by simp
      ultimately show ?thesis
        using lim unfolding bit_and_iff bit_0xfc bit_push_bit_iff at m by auto
    next
      case False
      then show ?thesis unfolding bit_and_iff bit_0xfc bit_push_bit_iff by simp
    qed
  qed
  moreover have "unat (push_bit 2 (word_of_nat q) :: 32 word) = 4 * q"
  proof -
    have "push_bit 2 (word_of_nat q) = (word_of_nat (4 * q) :: 32 word)" by (simp add: push_bit_eq_mult mult.commute)
    moreover have "4 * q < 256" using assms(2) by (simp add: q_def)
    ultimately show ?thesis by (simp only: unat_of_nat) simp
  qed
  ultimately show ?thesis by (simp add: register_of_def q_def minus_mod_eq_mult_div)
qed

lemma address_enabled:
  assumes "valid_bdf b"
  shows "bit (cfg_address b off) 31"
  using bit_address [OF assms, of 31 off] by simp


section \<open>Access through the bridge\<close>

definition select_reg :: "bdf \<Rightarrow> nat \<Rightarrow> bridge \<Rightarrow> bridge" where
  "select_reg b off h = h\<lparr>latch := cfg_address b (word_of_nat off)\<rparr>"

lemma select_reg_simps [simp]:
  "cfg (select_reg b off h) = cfg h" "writable (select_reg b off h) = writable h"
  "latch (select_reg b off h) = cfg_address b (word_of_nat off)"
  by (simp_all add: select_reg_def)

lemma write_address: "out_long bus_ports 0xcf8 (cfg_address b (word_of_nat off)) h = select_reg b off h"
proof -
  have "unat v mod 256 ^ 4 = unat v" for v :: "32 word"
  proof -
    have "unat v < 256 ^ 4" using unsigned_less [where w = v] by simp
    then show ?thesis by (rule mod_less)
  qed
  then show ?thesis by (simp add: bus_ports_def bridge_out_def select_reg_def le_nat_le_bytes)
qed

lemma unat_low: "off < 256 \<Longrightarrow> unat (word_of_nat off AND 3 :: 32 word) = off mod 4"
proof -
  assume "off < 256"
  moreover have "word_of_nat off AND 3 = (take_bit 2 (word_of_nat off) :: 32 word)"
    by (simp add: take_bit_eq_mask mask_eq_exp_minus_1)
  ultimately show ?thesis by (simp only: unsigned_take_bit_eq unat_of_nat) (simp add: take_bit_eq_mod)
qed

lemma unat_even:
  assumes "off < 256" and "even off"
  shows "unat (word_of_nat off AND 2 :: 32 word) = off mod 4"
proof -
  have "word_of_nat off AND 2 = (word_of_nat off AND 3 :: 32 word)"
  proof (rule bit_word_eqI)
    fix n assume "n < LENGTH(32)"
    have "bit (2 :: 32 word) n \<longleftrightarrow> n = 1" "bit (3 :: 32 word) n \<longleftrightarrow> n < 2"
      using bit_exp_iff [of 1 n, where 'a = "32 word"] bit_mask_iff [of 2 n, where 'a = "32 word"]
      by (auto simp: mask_eq_exp_minus_1)
    moreover have "\<not> bit (word_of_nat off :: 32 word) 0" using assms(2) by (simp add: bit_of_nat_word_iff bit_0)
    ultimately show "bit (word_of_nat off AND 2 :: 32 word) n = bit (word_of_nat off AND 3 :: 32 word) n"
      unfolding bit_and_iff by (cases n) (auto simp: less_2_cases_iff)
  qed
  then show ?thesis using unat_low [OF assms(1)] by simp
qed

lemma selected:
  assumes "valid_bdf b" and "off < 256" and "off mod 4 + n \<le> 4"
  shows "bridge_in n (0xcfc + off mod 4) (select_reg b off h) = rd (cfg h (bdf_id b)) off n"
    and "length bs = n \<Longrightarrow> bridge_out (0xcfc + off mod 4) bs (select_reg b off h) =
      (select_reg b off h)\<lparr>cfg := (cfg h)(bdf_id b := masked (writable h (bdf_id b)) (cfg h (bdf_id b)) off bs)\<rparr>"
proof -
  have "in_window n (0xcfc + off mod 4) (select_reg b off h)"
    using assms by (simp add: in_window_def address_enabled)
  moreover have "off - off mod 4 + off mod 4 = off" by simp
  ultimately show "bridge_in n (0xcfc + off mod 4) (select_reg b off h) = rd (cfg h (bdf_id b)) off n"
    and "length bs = n \<Longrightarrow> bridge_out (0xcfc + off mod 4) bs (select_reg b off h) =
      (select_reg b off h)\<lparr>cfg := (cfg h)(bdf_id b := masked (writable h (bdf_id b)) (cfg h (bdf_id b)) off bs)\<rparr>"
    using assms by (simp_all add: bridge_in_def bridge_out_def target_address register_address)
qed

definition byte_at :: "bridge \<Rightarrow> bdf \<Rightarrow> nat \<Rightarrow> byte" where
  "byte_at h b off = cfg h (bdf_id b) off"

definition word_at :: "bridge \<Rightarrow> bdf \<Rightarrow> nat \<Rightarrow> 16 word" where
  "word_at h b off = word_of_nat (le_nat (rd (cfg h (bdf_id b)) off 2))"

definition long_at :: "bridge \<Rightarrow> bdf \<Rightarrow> nat \<Rightarrow> 32 word" where
  "long_at h b off = word_of_nat (le_nat (rd (cfg h (bdf_id b)) off 4))"

definition store :: "bdf \<Rightarrow> nat \<Rightarrow> byte list \<Rightarrow> bridge \<Rightarrow> bridge" where
  "store b off bs h =
     (select_reg b off h)\<lparr>cfg := (cfg h)(bdf_id b := masked (writable h (bdf_id b)) (cfg h (bdf_id b)) off bs)\<rparr>"

lemma readByte_ok:
  assumes "valid_bdf b" and "off < 256"
  shows "readByte bus_ports b (word_of_nat off) h = (byte_at h b off, select_reg b off h)"
proof -
  have "off mod 4 + 1 \<le> 4" using mod_less_divisor [of 4 off] by linarith
  from selected(1) [OF assms this, of h] show ?thesis
    unfolding readByte_def write_address unat_low [OF assms(2)]
    by (simp add: bus_ports_def byte_at_def rd_def)
qed

lemma readWord_ok:
  assumes "valid_bdf b" and "off < 256" and "even off"
  shows "readWord bus_ports b (word_of_nat off) h = (word_at h b off, select_reg b off h)"
proof -
  have "off mod 4 + 2 \<le> 4" using assms(3) by presburger
  from selected(1) [OF assms(1,2) this, of h] show ?thesis
    unfolding readWord_def write_address unat_even [OF assms(2,3)]
    by (simp add: bus_ports_def word_at_def)
qed

lemma readInt_ok:
  assumes "valid_bdf b" and "off < 256" and "4 dvd off"
  shows "readInt bus_ports b (word_of_nat off) h = (long_at h b off, select_reg b off h)"
  using selected(1) [OF assms(1,2), of 4 h] assms(3)
  unfolding readInt_def write_address by (simp add: bus_ports_def long_at_def)

lemma writeByte_ok:
  assumes "valid_bdf b" and "off < 256"
  shows "writeByte bus_ports b (word_of_nat off) v h = store b off [v] h"
proof -
  have "off mod 4 + 1 \<le> 4" using mod_less_divisor [of 4 off] by linarith
  from selected(2) [OF assms this, of "[v]" h] show ?thesis
    unfolding writeByte_def write_address unat_low [OF assms(2)] by (simp add: bus_ports_def store_def)
qed

lemma writeWord_ok:
  assumes "valid_bdf b" and "off < 256" and "even off"
  shows "writeWord bus_ports b (word_of_nat off) v h = store b off (le_bytes 2 (unat v)) h"
proof -
  have "off mod 4 + 2 \<le> 4" using assms(3) by presburger
  from selected(2) [OF assms(1,2) this, of "le_bytes 2 (unat v)" h] show ?thesis
    unfolding writeWord_def write_address unat_even [OF assms(2,3)] by (simp add: bus_ports_def store_def)
qed

text \<open>\<open>writeInt\<close> drops the two low bits of the offset.\<close>

lemma writeInt_ok:
  assumes "valid_bdf b" and "off < 256" and "4 dvd off"
  shows "writeInt bus_ports b (word_of_nat off) v h = store b off (le_bytes 4 (unat v)) h"
  using selected(2) [OF assms(1,2), of 4 "le_bytes 4 (unat v)" h] assms(3)
  unfolding writeInt_def write_address by (simp add: bus_ports_def store_def)


text \<open>A store reaches one function only, keeps the bits that cannot be written, and reads back where all can.\<close>

lemma store_other:
  assumes "valid_bdf b" and "valid_bdf b'" and "b' \<noteq> b"
  shows "byte_at (store b off bs h) b' i = byte_at h b' i"
  using assms bdf_id_inj [OF assms(1,2)] by (auto simp: store_def byte_at_def)

lemma and_or_not: "(x AND NOT w) OR (x AND w) = x" for x w :: byte
  by (rule bit_word_eqI) (auto simp: bit_or_iff bit_and_iff bit_not_iff)

lemma byte_at_store:
  "byte_at (store b off bs h) b i =
     (if off \<le> i \<and> i < off + length bs
      then (byte_at h b i AND NOT (writable h (bdf_id b) i)) OR (bs ! (i - off) AND writable h (bdf_id b) i)
      else byte_at h b i)"
  by (auto simp: store_def byte_at_def masked_def and_or_not)

definition same_bus :: "bridge \<Rightarrow> bridge \<Rightarrow> bool" where
  "same_bus h h' \<longleftrightarrow> cfg h' = cfg h \<and> writable h' = writable h"

lemma same_bus_refl [simp]: "same_bus h h"
  by (simp add: same_bus_def)

lemma same_bus_trans [trans]: "same_bus h h' \<Longrightarrow> same_bus h' h'' \<Longrightarrow> same_bus h h''"
  by (simp add: same_bus_def)

lemma same_bus_select [simp]: "same_bus h (select_reg b off h)" "same_bus h (select_reg b off h') \<longleftrightarrow> same_bus h h'"
  by (simp_all add: same_bus_def)

lemma same_bus_reads:
  assumes "same_bus h h'"
  shows "byte_at h' b off = byte_at h b off" "word_at h' b off = word_at h b off" "long_at h' b off = long_at h b off"
  using assms by (simp_all add: same_bus_def byte_at_def word_at_def long_at_def)

lemma select_reads [simp]:
  "byte_at (select_reg b' o' h) b off = byte_at h b off" "word_at (select_reg b' o' h) b off = word_at h b off"
  "long_at (select_reg b' o' h) b off = long_at h b off"
  by (simp_all add: byte_at_def word_at_def long_at_def)


section \<open>Enumeration\<close>

definition present :: "bridge \<Rightarrow> bdf \<Rightarrow> bool" where
  "present h b \<longleftrightarrow> word_at h b 0 \<noteq> 0xffff"

definition of_class :: "bridge \<Rightarrow> 32 word \<Rightarrow> 32 word \<Rightarrow> bdf \<Rightarrow> bool" where
  "of_class h base_class subclass b \<longleftrightarrow> ucast (byte_at h b 0x0b) = base_class \<and> ucast (byte_at h b 0x0a) = subclass"

definition bdf_of :: "nat \<Rightarrow> nat \<Rightarrow> nat \<Rightarrow> bdf" where
  "bdf_of bs dev fn = \<lparr>bus = word_of_nat bs, device = word_of_nat dev, function_number = word_of_nat fn\<rparr>"

lemma valid_bdf_of: "bs < 256 \<Longrightarrow> dev < 32 \<Longrightarrow> fn < 8 \<Longrightarrow> valid_bdf (bdf_of bs dev fn)"
  by (simp add: valid_bdf_def bdf_of_def unat_of_nat)

lemma header_reads:
  assumes "valid_bdf b"
  shows "getVendorID bus_ports b h = (word_at h b 0, select_reg b 0 h)"
    and "getBaseClass bus_ports b h = (byte_at h b 0x0b, select_reg b 0x0b h)"
    and "getSubclass bus_ports b h = (byte_at h b 0x0a, select_reg b 0x0a h)"
  using readWord_ok [OF assms, of 0 h] readByte_ok [OF assms, of "0x0b" h] readByte_ok [OF assms, of "0x0a" h]
  by (simp_all add: getVendorID_def getBaseClass_def getSubclass_def)

lemma functions_ok:
  assumes "bs < 256" and "dev < 32" and "\<forall>fn \<in> set fns. fn < 8"
  shows "\<exists>h'. getDevices_functions bus_ports bc sc (word_of_nat bs) (word_of_nat dev) fns h =
    (filter (of_class h bc sc) (takeWhile (present h) (map (bdf_of bs dev) fns)), h') \<and> same_bus h h'"
  using assms(3)
proof (induction fns arbitrary: h)
  case (Cons fn fns)
  define b where "b = bdf_of bs dev fn"
  have b: "\<lparr>bus = word_of_nat bs, device = word_of_nat dev, function_number = word_of_nat fn\<rparr> = b"
    by (simp add: b_def bdf_of_def)
  have v: "valid_bdf b" using Cons.prems assms(1,2) by (simp add: b_def valid_bdf_of)
  note reads = header_reads [OF v]
  define h1 where "h1 = (if ucast (byte_at h b 0x0b) = bc then select_reg b 0x0a (select_reg b 0x0b (select_reg b 0 h))
      else select_reg b 0x0b (select_reg b 0 h))"
  have s: "same_bus h h1" by (simp add: h1_def)
  obtain h' where rest: "getDevices_functions bus_ports bc sc (word_of_nat bs) (word_of_nat dev) fns h1 =
      (filter (of_class h1 bc sc) (takeWhile (present h1) (map (bdf_of bs dev) fns)), h')" "same_bus h1 h'"
    using Cons.IH [of h1] Cons.prems by auto
  have "of_class h1 bc sc = of_class h bc sc" "present h1 = present h"
    using same_bus_reads [OF s] by (auto simp: fun_eq_iff of_class_def present_def)
  then show ?case
    using rest same_bus_trans [OF s rest(2)]
    by (auto simp: b reads Let_def present_def [of h b] of_class_def [of h _ _ b] h1_def simp flip: b_def)
qed simp

lemma devices_ok:
  assumes "bs < 256" and "\<forall>dev \<in> set devs. dev < 32"
  shows "\<exists>h'. getDevices_devices bus_ports bc sc (word_of_nat bs) devs h =
    (concat (map (\<lambda>dev. filter (of_class h bc sc) (takeWhile (present h) (map (bdf_of bs dev) [0..<8]))) devs), h') \<and>
    same_bus h h'"
  using assms(2)
proof (induction devs arbitrary: h)
  case (Cons dev devs)
  obtain h1 where one: "getDevices_functions bus_ports bc sc (word_of_nat bs) (word_of_nat dev) [0..<8] h =
    (filter (of_class h bc sc) (takeWhile (present h) (map (bdf_of bs dev) [0..<8])), h1)" and s: "same_bus h h1"
    using functions_ok [OF assms(1), of dev "[0..<8]" bc sc h] Cons.prems by auto
  have "of_class h1 bc sc = of_class h bc sc" "present h1 = present h"
    using same_bus_reads [OF s] by (auto simp: fun_eq_iff of_class_def present_def)
  then show ?case using Cons.IH [of h1] Cons.prems one same_bus_trans [OF s] by (auto simp: Let_def simp del: upt_rec_numeral)
qed simp

lemma buses_ok:
  assumes "\<forall>bs \<in> set bss. bs < 256"
  shows "\<exists>h'. getDevices_buses bus_ports bc sc bss h =
    (concat (map (\<lambda>bs. concat (map (\<lambda>dev. filter (of_class h bc sc) (takeWhile (present h) (map (bdf_of bs dev) [0..<8])))
       [0..<32])) bss), h') \<and> same_bus h h'"
  using assms
proof (induction bss arbitrary: h)
  case (Cons bs bss)
  obtain h1 where one: "getDevices_devices bus_ports bc sc (word_of_nat bs) [0..<32] h =
    (concat (map (\<lambda>dev. filter (of_class h bc sc) (takeWhile (present h) (map (bdf_of bs dev) [0..<8]))) [0..<32]), h1)"
    and s: "same_bus h h1"
    using devices_ok [of bs "[0..<32]" bc sc h] Cons.prems by auto
  have "of_class h1 bc sc = of_class h bc sc" "present h1 = present h"
    using same_bus_reads [OF s] by (auto simp: fun_eq_iff of_class_def present_def)
  then show ?case using Cons.IH [of h1] Cons.prems one same_bus_trans [OF s] by (auto simp: Let_def simp del: upt_rec_numeral)
qed simp


section \<open>Capabilities\<close>

text \<open>
  The list of capabilities: the low byte of the word at an offset is the identifier and the high byte the
  next offset. \<open>init\<close> looks at the first node whatever comes next; so the first step may lead to offset
  0, from where it goes on with the vendor identifier.
\<close>

definition next_cap :: "bridge \<Rightarrow> bdf \<Rightarrow> nat \<Rightarrow> nat" where
  "next_cap h b o1 = unat (drop_bit 8 (word_at h b o1))"

definition cap_id :: "bridge \<Rightarrow> bdf \<Rightarrow> nat \<Rightarrow> byte" where
  "cap_id h b o1 = ucast (word_at h b o1 AND 0xff)"

primrec tail_walk :: "bridge \<Rightarrow> bdf \<Rightarrow> nat \<Rightarrow> nat list \<Rightarrow> bool" where
  "tail_walk h b o1 [] \<longleftrightarrow> next_cap h b o1 = 0"
| "tail_walk h b o1 (o2 # os) \<longleftrightarrow> next_cap h b o1 = o2 \<and> o2 \<noteq> 0 \<and> tail_walk h b o2 os"

definition cap_walk :: "bridge \<Rightarrow> bdf \<Rightarrow> nat \<Rightarrow> nat \<Rightarrow> nat list \<Rightarrow> bool" where
  "cap_walk h b o1 o2 os \<longleftrightarrow> next_cap h b o1 = o2 \<and> tail_walk h b o2 os"

definition cap_place :: "bridge \<Rightarrow> bdf \<Rightarrow> nat \<Rightarrow> bool" where
  "cap_place h b o1 \<longleftrightarrow> even o1 \<and> o1 < 256 \<and> (cap_id h b o1 = 5 \<longrightarrow> 4 dvd o1 \<and> o1 + 16 \<le> 256)"

definition msi_read :: "bridge \<Rightarrow> bdf \<Rightarrow> nat \<Rightarrow> msi_capability \<Rightarrow> msi_capability" where
  "msi_read h b o1 m =
     (let m = m\<lparr>register0 := long_at h b o1, register1 := long_at h b (o1 + 4), register2 := long_at h b (o1 + 8)\<rparr>
      in if msiControl m AND 0x80 \<noteq> 0 then m\<lparr>register3 := long_at h b (o1 + 12)\<rparr> else m)"

definition visit :: "bridge \<Rightarrow> nat \<Rightarrow> pci_device \<Rightarrow> pci_device" where
  "visit h o1 d =
     (if cap_id h (dev_bdf d) o1 = 5 then
        d\<lparr>msiPointer := word_of_nat o1, msiCapable := True, msiCapability := msi_read h (dev_bdf d) o1 (msiCapability d)\<rparr>
      else d)"

lemma visit_simps [simp]: "dev_bdf (visit h o1 d) = dev_bdf d" "capabilities (visit h o1 d) = capabilities d"
  by (simp_all add: visit_def)

lemma same_bus_visit: "same_bus h h' \<Longrightarrow> visit h' = visit h"
  by (intro ext) (simp add: visit_def cap_id_def msi_read_def same_bus_reads Let_def)

lemma byte_offset: "o1 < 256 \<Longrightarrow> ucast (word_of_nat o1 :: byte) = (word_of_nat o1 :: 32 word)"
  by (simp add: word_unat_eq_iff unsigned_ucast_eq unat_of_nat take_bit_nat_eq_self)

lemma read_msi_ok:
  assumes "valid_bdf (dev_bdf d)" and "4 dvd o1" and "o1 + 16 \<le> 256" and "cap_id h (dev_bdf d) o1 = 5"
  shows "\<exists>h'. read_msi bus_ports (word_of_nat o1) d h = (visit h o1 d, h') \<and> same_bus h h'"
proof -
  have o1: "ucast (word_of_nat o1 :: byte) = (word_of_nat o1 :: 32 word)" using assms(3) by (intro byte_offset) simp
  have shift: "(word_of_nat o1 :: 32 word) + 4 = word_of_nat (o1 + 4)" "(word_of_nat o1 :: 32 word) + 8 = word_of_nat (o1 + 8)"
    "(word_of_nat o1 :: 32 word) + 12 = word_of_nat (o1 + 12)" by simp_all
  have reads: "readInt bus_ports (dev_bdf d) (word_of_nat o1) h = (long_at h (dev_bdf d) o1, select_reg (dev_bdf d) o1 h)"
    "readInt bus_ports (dev_bdf d) (word_of_nat (o1 + 4)) h = (long_at h (dev_bdf d) (o1 + 4), select_reg (dev_bdf d) (o1 + 4) h)"
    "readInt bus_ports (dev_bdf d) (word_of_nat (o1 + 8)) h = (long_at h (dev_bdf d) (o1 + 8), select_reg (dev_bdf d) (o1 + 8) h)"
    "readInt bus_ports (dev_bdf d) (word_of_nat (o1 + 12)) h = (long_at h (dev_bdf d) (o1 + 12), select_reg (dev_bdf d) (o1 + 12) h)" for h
    using assms by (auto intro!: readInt_ok simp del: of_nat_add)
  show ?thesis
    unfolding read_msi_def o1 shift
    by (simp add: Let_def visit_def msi_read_def assms(4) reads del: of_nat_add)
qed

lemma ucast_5: "ucast (5 :: byte) = (5 :: 16 word)" "ucast (5 :: 16 word) = (5 :: byte)"
  by simp_all

lemma cap_reads:
  "drop_bit 8 (word_at h b o1) \<noteq> 0 \<longleftrightarrow> next_cap h b o1 \<noteq> 0"
  "ucast (drop_bit 8 (word_at h b o1)) = (word_of_nat (next_cap h b o1) :: byte)"
  "word_at h b o1 AND 0xff = 5 \<longleftrightarrow> cap_id h b o1 = 5"
proof -
  show "drop_bit 8 (word_at h b o1) \<noteq> 0 \<longleftrightarrow> next_cap h b o1 \<noteq> 0"
    by (simp add: next_cap_def unat_eq_0)
  show "ucast (drop_bit 8 (word_at h b o1)) = (word_of_nat (next_cap h b o1) :: byte)"
    by (simp add: next_cap_def word_unat_eq_iff unsigned_ucast_eq unat_of_nat)
  have "ucast (ucast (word_at h b o1 AND 0xff) :: byte) = word_at h b o1 AND 0xff"
    by (rule bit_word_eqI) (auto simp: masks bit_ucast_iff bit_take_bit_iff)
  then show "word_at h b o1 AND 0xff = 5 \<longleftrightarrow> cap_id h b o1 = 5"
    unfolding cap_id_def by (metis (mono_tags) unsigned_numeral ucast_5)
qed


lemma same_bus_caps:
  assumes "same_bus h h'"
  shows "next_cap h' = next_cap h" "cap_id h' = cap_id h" "cap_place h' = cap_place h" "tail_walk h' = tail_walk h"
    "cap_walk h' = cap_walk h"
proof -
  show n: "next_cap h' = next_cap h" and c: "cap_id h' = cap_id h"
    using same_bus_reads [OF assms] by (auto simp: fun_eq_iff next_cap_def cap_id_def)
  show "cap_place h' = cap_place h" by (auto simp: fun_eq_iff cap_place_def c)
  have "tail_walk h' b o1 os = tail_walk h b o1 os" for b o1 os by (induction os arbitrary: o1) (simp_all add: n)
  then show t: "tail_walk h' = tail_walk h" by (auto simp: fun_eq_iff)
  show "cap_walk h' = cap_walk h" by (auto simp: fun_eq_iff cap_walk_def n t)
qed

lemma init_loop_body:
  assumes "valid_bdf (dev_bdf d)" and "next_cap h (dev_bdf d) o1 = o2" and "cap_place h (dev_bdf d) o1" and "cap_place h (dev_bdf d) o2"
  shows "\<exists>h'. same_bus h h' \<and>
    (let (e, p) = (if word_at h (dev_bdf d) o1 AND 0xff = 5 then read_msi bus_ports (word_of_nat o1) d h else (d, h));
         ptr = ucast (drop_bit 8 (word_at h (dev_bdf d) o1)) :: byte;
         (cap, p) = readWord bus_ports (dev_bdf e) (ucast ptr) p;
         e = e\<lparr>capabilities := capabilities e @ [ucast (cap AND 0xff)]\<rparr>
     in if drop_bit 8 cap \<noteq> 0 then f bus_ports ptr cap e p else Some (e, p)) =
    (let d' = (visit h o1 d)\<lparr>capabilities := capabilities d @ [cap_id h (dev_bdf d) o2]\<rparr>
     in if next_cap h (dev_bdf d) o2 \<noteq> 0 then f bus_ports (word_of_nat o2) (word_at h' (dev_bdf d) o2) d' h' else Some (d', h'))"
proof -
  obtain h1 where h1: "(if word_at h (dev_bdf d) o1 AND 0xff = 5 then read_msi bus_ports (word_of_nat o1) d h else (d, h)) =
      (visit h o1 d, h1)" and s: "same_bus h h1"
  proof (cases "cap_id h (dev_bdf d) o1 = 5")
    case True
    then have "4 dvd o1" "o1 + 16 \<le> 256" using assms(3) by (simp_all add: cap_place_def)
    from read_msi_ok [OF assms(1) this True] show ?thesis using that True cap_reads(3) by auto
  next
    case False
    then show ?thesis using that [of h] cap_reads(3) [of h "dev_bdf d" o1] by (simp add: visit_def)
  qed
  have o2: "o2 < 256" "even o2" using assms(4) by (simp_all add: cap_place_def)
  have w: "ucast (word_of_nat o2 :: byte) = (word_of_nat o2 :: 32 word)" by (rule byte_offset [OF o2(1)])
  have r: "readWord bus_ports (dev_bdf d) (word_of_nat o2) h1 = (word_at h1 (dev_bdf d) o2, select_reg (dev_bdf d) o2 h1)"
    by (rule readWord_ok [OF assms(1) o2])
  have "(let (e, p) = (if word_at h (dev_bdf d) o1 AND 0xff = 5 then read_msi bus_ports (word_of_nat o1) d h else (d, h));
         ptr = ucast (drop_bit 8 (word_at h (dev_bdf d) o1)) :: byte;
         (cap, p) = readWord bus_ports (dev_bdf e) (ucast ptr) p;
         e = e\<lparr>capabilities := capabilities e @ [ucast (cap AND 0xff)]\<rparr>
     in if drop_bit 8 cap \<noteq> 0 then f bus_ports ptr cap e p else Some (e, p)) =
    (let d' = (visit h o1 d)\<lparr>capabilities := capabilities d @ [cap_id h (dev_bdf d) o2]\<rparr>
     in if next_cap h (dev_bdf d) o2 \<noteq> 0
        then f bus_ports (word_of_nat o2) (word_at h (dev_bdf d) o2) d' (select_reg (dev_bdf d) o2 h1)
        else Some (d', select_reg (dev_bdf d) o2 h1))"
    unfolding Let_def h1 prod.case
    unfolding cap_reads assms(2) visit_simps w r prod.case same_bus_reads [OF s]
    by (simp only: cap_id_def)
  then show ?thesis using s by (intro exI [of _ "select_reg (dev_bdf d) o2 h1"]) (simp add: same_bus_reads [OF s] Let_def)
qed

lemma init_loop_step:
  assumes "valid_bdf (dev_bdf d)" and "next_cap h (dev_bdf d) o1 = o2" and "cap_place h (dev_bdf d) o1" and "cap_place h (dev_bdf d) o2"
  shows "\<exists>h'. same_bus h h' \<and> init_loop bus_ports (word_of_nat o1) (word_at h (dev_bdf d) o1) d h =
    (let d' = (visit h o1 d)\<lparr>capabilities := capabilities d @ [cap_id h (dev_bdf d) o2]\<rparr>
     in if next_cap h (dev_bdf d) o2 \<noteq> 0 then init_loop bus_ports (word_of_nat o2) (word_at h' (dev_bdf d) o2) d' h' else Some (d', h'))"
  unfolding init_loop.simps [of _ "word_of_nat o1"]
  using init_loop_body [OF assms, of init_loop] by (simp only: Let_def)

text \<open>The loop visits all nodes but the last, and collects the identifiers of all but the first.\<close>

lemma init_loop_ok:
  assumes "valid_bdf (dev_bdf d)" and "cap_walk h (dev_bdf d) o1 o2 os"
    and "\<forall>o' \<in> set (o1 # o2 # os). cap_place h (dev_bdf d) o'"
  shows "wp (init_loop bus_ports (word_of_nat o1) (word_at h (dev_bdf d) o1) d h) (\<lambda>d' h'. same_bus h h' \<and>
    d' = (fold (visit h) (butlast (o1 # o2 # os)) d)\<lparr>capabilities := capabilities d @ map (cap_id h (dev_bdf d)) (o2 # os)\<rparr>)"
  using assms
proof (induction os arbitrary: o1 o2 d h)
  case Nil
  then have "next_cap h (dev_bdf d) o1 = o2" "next_cap h (dev_bdf d) o2 = 0" by (simp_all add: cap_walk_def)
  with init_loop_step [of d h o1 o2] Nil.prems show ?case by (auto simp: Let_def)
next
  case (Cons o3 os)
  define d1 where "d1 = (visit h o1 d)\<lparr>capabilities := capabilities d @ [cap_id h (dev_bdf d) o2]\<rparr>"
  have n: "next_cap h (dev_bdf d) o1 = o2" "next_cap h (dev_bdf d) o2 = o3" "o3 \<noteq> 0" "tail_walk h (dev_bdf d) o3 os"
    using Cons.prems(2) by (simp_all add: cap_walk_def)
  obtain h1 where s: "same_bus h h1" and step: "init_loop bus_ports (word_of_nat o1) (word_at h (dev_bdf d) o1) d h =
      init_loop bus_ports (word_of_nat o2) (word_at h1 (dev_bdf d) o2) d1 h1"
    using init_loop_step [OF Cons.prems(1) n(1)] Cons.prems(3) n by (auto simp: Let_def d1_def)
  have b: "dev_bdf d1 = dev_bdf d" by (simp add: d1_def)
  have "wp (init_loop bus_ports (word_of_nat o2) (word_at h1 (dev_bdf d1) o2) d1 h1) (\<lambda>d' h'. same_bus h1 h' \<and>
    d' = (fold (visit h1) (butlast (o2 # o3 # os)) d1)\<lparr>capabilities := capabilities d1 @ map (cap_id h1 (dev_bdf d1)) (o3 # os)\<rparr>)"
    using Cons.prems n by (intro Cons.IH) (simp_all add: b same_bus_caps [OF s] cap_walk_def)
  moreover have moved: "(fold (visit h) xs d1)\<lparr>capabilities := c\<rparr> = (fold (visit h) xs (visit h o1 d))\<lparr>capabilities := c\<rparr>" for xs c
  proof -
    have v: "(visit h o' e)\<lparr>capabilities := c\<rparr> = visit h o' (e\<lparr>capabilities := c\<rparr>)" for e o' c by (simp add: visit_def)
    have "(fold (visit h) xs e)\<lparr>capabilities := c\<rparr> = fold (visit h) xs (e\<lparr>capabilities := c\<rparr>)" for e
      by (induction xs arbitrary: e) (simp_all add: v)
    then show ?thesis by (simp add: d1_def)
  qed
  moreover have "capabilities d1 @ map (cap_id h (dev_bdf d)) (o3 # os) = capabilities d @ map (cap_id h (dev_bdf d)) (o2 # o3 # os)"
    "fold (visit h) (butlast (o1 # o2 # o3 # os)) d = fold (visit h) (butlast (o2 # o3 # os)) (visit h o1 d)"
    by (simp_all add: d1_def)
  ultimately show ?case
    unfolding step same_bus_visit [OF s] same_bus_caps [OF s] b
    by (elim wp_mono) (simp only: moved, meson same_bus_trans [OF s])
qed


lemma device_init_start:
  assumes "valid_bdf (dev_bdf d)" and "word_at h (dev_bdf d) 6 AND 0x10 \<noteq> 0"
    and "unat (ucast (word_at h (dev_bdf d) 0x34 AND 0xfc) :: byte) = o1" and "o1 < 256" and "4 dvd o1"
  shows "\<exists>h2. same_bus h h2 \<and> device_init bus_ports d h = init_loop bus_ports (word_of_nat o1) (word_at h2 (dev_bdf d) o1) d h2"
proof -
  define b where "b = dev_bdf d"
  define h2 where "h2 = select_reg b o1 (select_reg b 0x34 (select_reg b 6 h))"
  have v: "valid_bdf b" using assms(1) by (simp add: b_def)
  note lt = assms(4)
  have ptr: "ucast (word_at h b 0x34 AND 0xfc) = (word_of_nat o1 :: byte)"
    unfolding assms(3) [symmetric] b_def by simp
  have r: "readWord bus_ports b 6 h = (word_at h b 6, select_reg b 6 h)"
    "readWord bus_ports b 0x34 (select_reg b 6 h) = (word_at h b 0x34, select_reg b 0x34 (select_reg b 6 h))"
    using readWord_ok [OF v, of 6 h] readWord_ok [OF v, of "0x34" "select_reg b 6 h"] by simp_all
  have i: "readInt bus_ports b (word_of_nat o1) (select_reg b 0x34 (select_reg b 6 h)) = (long_at h b o1, h2)"
    using readInt_ok [OF v lt assms(5), of "select_reg b 0x34 (select_reg b 6 h)"] by (simp add: h2_def)
  have low: "ucast (long_at h b o1) = word_at h b o1"
  proof -
    have "rd (cfg h (bdf_id b)) o1 4 = rd (cfg h (bdf_id b)) o1 2 @ rd (cfg h (bdf_id b)) (o1 + 2) 2"
      using rd_append [of _ o1 2 2] by simp
    then have "le_nat (rd (cfg h (bdf_id b)) o1 4) mod 2 ^ 16 = le_nat (rd (cfg h (bdf_id b)) o1 2)"
      using le_nat_bound [of "rd (cfg h (bdf_id b)) o1 2"] by (simp add: le_nat_append)
    moreover have "le_nat (rd (cfg h (bdf_id b)) o1 4) < 2 ^ 32" using le_nat_bound [of "rd (cfg h (bdf_id b)) o1 4"] by simp
    ultimately show ?thesis
      by (simp add: long_at_def word_at_def word_unat_eq_iff unsigned_ucast_eq unat_of_nat take_bit_eq_mod)
  qed
  have s: "same_bus h h2" by (simp add: h2_def)
  have "device_init bus_ports d h = init_loop bus_ports (word_of_nat o1) (word_at h2 (dev_bdf d) o1) d h2"
    using assms(2) unfolding device_init_def Let_def b_def [symmetric] r prod.case ptr byte_offset [OF lt] i low
      same_bus_reads [OF s] by (simp only: if_True not_False_eq_True)
  with s show ?thesis by blast
qed

lemma device_init_ok:
  assumes "valid_bdf (dev_bdf d)" and "word_at h (dev_bdf d) 6 AND 0x10 \<noteq> 0"
    and "unat (ucast (word_at h (dev_bdf d) 0x34 AND 0xfc) :: byte) = o1"
    and "cap_walk h (dev_bdf d) o1 o2 os" and "\<forall>o' \<in> set (o1 # o2 # os). cap_place h (dev_bdf d) o'"
    and "4 dvd o1"
  shows "wp (device_init bus_ports d h) (\<lambda>d' h'. same_bus h h' \<and>
    d' = (fold (visit h) (butlast (o1 # o2 # os)) d)\<lparr>capabilities := capabilities d @ map (cap_id h (dev_bdf d)) (o2 # os)\<rparr>)"
proof -
  have "o1 < 256" using assms(5) by (simp add: cap_place_def)
  then obtain h2 where s: "same_bus h h2"
    and eq: "device_init bus_ports d h = init_loop bus_ports (word_of_nat o1) (word_at h2 (dev_bdf d) o1) d h2"
    using device_init_start [OF assms(1-3) _ assms(6)] by blast
  have "wp (init_loop bus_ports (word_of_nat o1) (word_at h2 (dev_bdf d) o1) d h2) (\<lambda>d' h'. same_bus h2 h' \<and>
    d' = (fold (visit h2) (butlast (o1 # o2 # os)) d)\<lparr>capabilities := capabilities d @ map (cap_id h2 (dev_bdf d)) (o2 # os)\<rparr>)"
    using assms by (intro init_loop_ok) (simp_all add: same_bus_caps [OF s])
  then show ?thesis
    unfolding same_bus_visit [OF s] same_bus_caps [OF s] eq by (elim wp_mono) (meson same_bus_trans [OF s])
qed


text \<open>In a list that never ends the loop never does.\<close>

lemma init_loop_spins:
  assumes "valid_bdf b" and "\<forall>o1 \<in> C. cap_place h b o1 \<and> next_cap h b o1 \<in> C \<and> next_cap h b o1 \<noteq> 0"
    and "o1 \<in> C" and "dev_bdf d = b" and "same_bus h h1"
  shows "init_loop bus_ports (word_of_nat o1) (word_at h1 b o1) d h1 = None"
proof (rule ccontr)
  assume "init_loop bus_ports (word_of_nat o1) (word_at h1 b o1) d h1 \<noteq> None"
  then obtain y where "init_loop bus_ports (word_of_nat o1) (word_at h1 b o1) d h1 = Some y" by auto
  moreover have "init_loop P ptr cap d' p = Some y \<Longrightarrow>
    (\<exists>o1 \<in> C. P = bus_ports \<and> ptr = word_of_nat o1 \<and> cap = word_at p b o1 \<and> dev_bdf d' = b \<and> same_bus h p) \<longrightarrow> False" for P ptr cap d' p y
  proof (erule init_loop.raw_induct [rotated, where P = "\<lambda>P ptr cap d' p y.
      (\<exists>o1 \<in> C. P = bus_ports \<and> ptr = word_of_nat o1 \<and> cap = word_at p b o1 \<and> dev_bdf d' = b \<and> same_bus h p) \<longrightarrow> False"])
    fix f :: "bridge wide_ports \<Rightarrow> byte \<Rightarrow> 16 word \<Rightarrow> pci_device \<Rightarrow> bridge \<Rightarrow> (pci_device \<times> bridge) option"
      and P :: "bridge wide_ports" and ptr :: byte and cap :: "16 word" and d' p y
    assume IH: "\<And>P ptr cap d' p y. f P ptr cap d' p = Some y \<Longrightarrow>
        (\<exists>o1 \<in> C. P = bus_ports \<and> ptr = word_of_nat o1 \<and> cap = word_at p b o1 \<and> dev_bdf d' = b \<and> same_bus h p) \<longrightarrow> False"
      and body: "(let (d, p) = (if cap AND 0xff = 5 then read_msi P ptr d' p else (d', p));
          ptr = ucast (drop_bit 8 cap);
          (cap, p) = readWord P (dev_bdf d) (ucast ptr) p;
          d = d\<lparr>capabilities := capabilities d @ [ucast (cap AND 0xff)]\<rparr>
      in if drop_bit 8 cap \<noteq> 0 then f P ptr cap d p else Some (d, p)) = Some y"
    show "(\<exists>o1 \<in> C. P = bus_ports \<and> ptr = word_of_nat o1 \<and> cap = word_at p b o1 \<and> dev_bdf d' = b \<and> same_bus h p) \<longrightarrow> False"
    proof (intro impI, elim bexE conjE)
      fix o1 assume o1: "o1 \<in> C" and at: "P = bus_ports" "ptr = word_of_nat o1" "cap = word_at p b o1" "dev_bdf d' = b"
        and s: "same_bus h p"
      define o2 where "o2 = next_cap p b o1"
      note caps = same_bus_caps [OF s]
      have o2: "o2 \<in> C" "next_cap p b o2 \<noteq> 0" "cap_place p b o1" "cap_place p b o2"
        using assms(2) o1 by (auto simp: o2_def caps)
      obtain h' where h': "same_bus p h'" and go: "f bus_ports (word_of_nat o2) (word_at h' b o2)
          ((visit p o1 d')\<lparr>capabilities := capabilities d' @ [cap_id p b o2]\<rparr>) h' = Some y"
        using init_loop_body [of d' p o1 o2 f] at assms(1) o2 body by (auto simp: Let_def o2_def)
      from IH [OF go] o2(1) at same_bus_trans [OF s h'] show False by auto
    qed
  qed
  ultimately show False using assms by auto
qed


section \<open>Base addresses, the command word and interrupts\<close>

text \<open>Only the bits 2 to 7 of an offset matter for four bytes.\<close>

lemma cfg_address_low:
  assumes "m div 4 mod 64 = m' div 4 mod 64"
  shows "cfg_address b (word_of_nat m) = cfg_address b (word_of_nat m')"
proof -
  have low: "bit m (2 + j) \<longleftrightarrow> bit (m div 4 mod 64) j" if "j < 6" for m j :: nat
  proof -
    have "bit (m div 4 mod 64) j \<longleftrightarrow> bit (take_bit 6 (drop_bit 2 m)) j" by (simp add: take_bit_eq_mod drop_bit_eq_div)
    then show ?thesis using that by (simp add: bit_take_bit_iff bit_drop_bit_eq)
  qed
  have "word_of_nat m AND 0xfc = (word_of_nat m' AND 0xfc :: 32 word)"
  proof (rule bit_word_eqI)
    fix n assume n: "n < LENGTH(32)"
    show "bit (word_of_nat m AND 0xfc :: 32 word) n = bit (word_of_nat m' AND 0xfc :: 32 word) n"
    proof (cases "2 \<le> n \<and> n < 8")
      case True
      then obtain j where j: "n = 2 + j" "j < 6" using that [of "n - 2"] by auto
      then show ?thesis using low [OF j(2)] assms n unfolding bit_and_iff bit_of_nat_word_iff by simp
    qed (simp only: bit_and_iff bit_0xfc simp_thms)
  qed
  then show ?thesis by (simp only: cfg_address_def)
qed



lemma ucast_nat: "ucast w = (word_of_nat (unat w) :: 'b :: len word)" for w :: "'a :: len word"
  by simp

lemma index_offset:
  "BAR0 + ucast (index :: byte) * 4 = word_of_nat (0x10 + unat index * 4)"
  unfolding ucast_nat [of index] by simp

lemma ucast_word_of_nat_64: "ucast (word_of_nat m :: 64 word) = (word_of_nat m :: 32 word)"
  by (rule bit_word_eqI) (simp add: bit_ucast_iff bit_of_nat_word_iff)

lemma low_bits: "v AND 1 = 0 \<longleftrightarrow> \<not> bit v 0" "v AND 4 = 0 \<longleftrightarrow> \<not> bit v 2" for v :: "'a :: len word"
  using and_exp_eq_0_iff_not_bit [of v 0] and_exp_eq_0_iff_not_bit [of v 2] by simp_all

lemma bar_register:
  assumes "valid_bdf (dev_bdf d)" and "index \<le> 5"
  shows "readInt bus_ports (dev_bdf d) (BAR0 + ucast (index :: byte) * 4) h =
    (long_at h (dev_bdf d) (0x10 + unat index * 4), select_reg (dev_bdf d) (0x10 + unat index * 4) h)"
proof -
  have "unat index \<le> 5" using assms(2) by (simp add: word_le_nat_alt)
  then show ?thesis unfolding index_offset by (intro readInt_ok [OF assms(1)]) auto
qed

lemma getBAR_32:
  assumes "valid_bdf (dev_bdf d)" and "index \<le> 5"
    and "long_at h (dev_bdf d) (0x10 + unat index * 4) = v" and "bit v 0 \<or> \<not> bit v 2"
  shows "fst (getBAR bus_ports d index h) = ucast v AND (if bit v 0 then 0xfffffffffffffffc else 0xfffffffffffffff0)"
    and "fst (rawBAR bus_ports d index h) = v"
proof -
  have "bit (ucast v :: 64 word) 0 \<longleftrightarrow> bit v 0" "bit (ucast v :: 64 word) 2 \<longleftrightarrow> bit v 2"
    by (simp_all add: bit_ucast_iff)
  then show "fst (getBAR bus_ports d index h) = ucast v AND (if bit v 0 then 0xfffffffffffffffc else 0xfffffffffffffff0)"
    using assms(4) unfolding getBAR_def bar_register [OF assms(1,2)] assms(3) Let_def low_bits by auto
  show "fst (rawBAR bus_ports d index h) = v"
    unfolding rawBAR_def bar_register [OF assms(1,2)] assms(3) by simp
qed

lemma getBAR_64:
  assumes "valid_bdf (dev_bdf d)" and "index < 5"
    and "long_at h (dev_bdf d) (0x10 + unat index * 4) = v" and "\<not> bit v 0" and "bit v 2"
    and "unat v mod 4096 = k" and "k = 4 \<or> k = 0xc"
  shows "fst (getBAR bus_ports d index h) =
    (ucast v OR push_bit 32 (ucast (long_at h (dev_bdf d) (if k = 4 then 0x24 else 0x44)))) AND 0xfffffffffffffff0"
proof -
  define n where "n = unat v"
  define b where "b = dev_bdf d"
  define o' where "o' = (if k = 4 then 0x24 else 0x44 :: nat)"
  have five: "index \<le> 5" using assms(2) by simp
  have bits: "bit (ucast v :: 64 word) 0 \<longleftrightarrow> bit v 0" "bit (ucast v :: 64 word) 2 \<longleftrightarrow> bit v 2"
    by (simp_all add: bit_ucast_iff)
  have off: "ucast (0x10 + ((ucast v :: 64 word) + 1) * 4) = (word_of_nat (0x14 + n * 4) :: 32 word)"
  proof -
    have "0x10 + ((ucast v :: 64 word) + 1) * 4 = word_of_nat (0x14 + n * 4)"
      unfolding ucast_nat [of v] n_def by (simp add: algebra_simps)
    then show ?thesis by (simp only: ucast_word_of_nat_64)
  qed
  obtain q where "n = 4096 * q + k"
    using assms(6) mult_div_mod_eq [of 4096 "unat v"] unfolding n_def by metis
  then have "0x14 + n * 4 = 4 * (5 + k + 64 * (64 * q))" by simp
  then have "(0x14 + n * 4) div 4 mod 64 = (5 + k + 64 * (64 * q)) mod 64" by (simp only: nonzero_mult_div_cancel_left)
  then have "(0x14 + n * 4) div 4 mod 64 = (5 + k) mod 64" by (simp only: mod_mult_self2)
  moreover have "(5 + k) mod 64 = o' div 4 mod 64" using assms(7) by (auto simp: o'_def)
  ultimately have "cfg_address b (word_of_nat (0x14 + n * 4)) = cfg_address b (word_of_nat o')"
    by (intro cfg_address_low) (simp only:)
  then have "readInt bus_ports b (word_of_nat (0x14 + n * 4)) h' = readInt bus_ports b (word_of_nat o') h'" for h'
    by (simp only: readInt_def)
  also have "readInt bus_ports b (word_of_nat o') h' = (long_at h' b o', select_reg b o' h')" for h'
    using assms(1) by (intro readInt_ok) (auto simp: b_def o'_def)
  finally have r: "readInt bus_ports b (word_of_nat (0x14 + n * 4)) h' = (long_at h' b o', select_reg b o' h')" for h' .
  have high: "\<not> bit ((ucast v :: 64 word) OR push_bit 32 x) 0" for x
    using assms(4) bits(1) by (simp only: bit_or_iff bit_push_bit_iff) simp
  show ?thesis
    unfolding getBAR_def bar_register [OF assms(1) five] assms(3) Let_def low_bits prod.case off
    unfolding b_def [symmetric] r prod.case o'_def [symmetric]
    using assms(2,4,5) high by (simp add: bits)
qed

text \<open>The switches change one bit of the command word, if it can be written.\<close>

lemma writable_store [simp]: "writable (store b off bs h) = writable h"
  by (simp add: store_def)

lemma update_command_ok:
  assumes "valid_bdf (dev_bdf d)"
  shows "update_command bus_ports d f h = store (dev_bdf d) 4 (le_bytes 2 (unat (f (word_at h (dev_bdf d) 4)))) (select_reg (dev_bdf d) 4 h)"
  using readWord_ok [OF assms, of 4 h] writeWord_ok [OF assms, of 4 "f (word_at h (dev_bdf d) 4)" "select_reg (dev_bdf d) 4 h"]
  by (simp add: update_command_def)

text \<open>Message signalled interrupts: the last store has the control word in its low half and 0 in the high half.\<close>

lemma enable_msi_ok:
  assumes "valid_bdf (dev_bdf d)" and "4 dvd unat (msiPointer d)" and "unat (msiPointer d) + 16 \<le> 256"
  shows "\<exists>d' h'. enable_msi bus_ports v d h = (d', h') \<and>
    byte_at h' (dev_bdf d) (unat (msiPointer d) + 2) =
      byte_at h (dev_bdf d) (unat (msiPointer d) + 2) AND NOT (writable h (bdf_id (dev_bdf d)) (unat (msiPointer d) + 2))"
proof -
  define q where "q = unat (msiPointer d)"
  define b where "b = dev_bdf d"
  have q: "4 dvd q" "q + 16 \<le> 256" "valid_bdf b" using assms by (simp_all add: q_def b_def)
  have ptr: "ucast (msiPointer d) = (word_of_nat q :: 32 word)" by (simp add: q_def)
  have w: "writeInt bus_ports b (word_of_nat q + 4) x h = store b (q + 4) (le_bytes 4 (unat x)) h"
    "writeInt bus_ports b (word_of_nat q + 8) x h = store b (q + 8) (le_bytes 4 (unat x)) h"
    "writeInt bus_ports b (word_of_nat q + 12) x h = store b (q + 12) (le_bytes 4 (unat x)) h" for x h
    using writeInt_ok [OF q(3), of "q + 4" x h] writeInt_ok [OF q(3), of "q + 8" x h] writeInt_ok [OF q(3), of "q + 12" x h] q
    by (simp_all add: add.commute)
  have last: "writeInt bus_ports b (word_of_nat q + 2) x h = store b q (le_bytes 4 (unat x)) h" for x h
  proof -
    obtain r where r: "q = 4 * r" using q(1) by blast
    have "(q + 2) div 4 = q div 4" by (simp add: r)
    then have "cfg_address b (word_of_nat (q + 2)) = cfg_address b (word_of_nat q)" by (intro cfg_address_low) simp
    then have "writeInt bus_ports b (word_of_nat (q + 2)) x h = writeInt bus_ports b (word_of_nat q) x h"
      by (simp only: writeInt_def)
    also have "\<dots> = store b q (le_bytes 4 (unat x)) h" using q by (intro writeInt_ok) simp_all
    finally show ?thesis by (simp only: of_nat_add of_nat_numeral)
  qed
  have zero: "le_bytes 4 (unat (ucast x :: 32 word)) ! 2 = 0" for x :: "16 word"
  proof -
    have "unat x < 65536" using unsigned_less [where w = x] by simp
    then have "unat (ucast x :: 32 word) < 65536" by (simp add: unsigned_ucast_eq take_bit_nat_eq_self)
    then show ?thesis by (simp add: nth_le_bytes)
  qed
  show ?thesis
    unfolding enable_msi_def ptr Let_def b_def [symmetric] w last
    by (auto simp: byte_at_store zero simp flip: b_def q_def)
qed



section \<open>Properties\<close>

text \<open>C18. For a bus below 256, a device below 32, a function below 8 and an offset below 256, the access functions reach the
  bytes of the function that is named: through the two ports of the host bridge a byte, a word at an even offset and a
  long word at a multiple of four come back as they are, and a store changes the bits of just these bytes that
  can be written, of no other function and no other byte.\<close>

theorem config_space_access:
  assumes "valid_bdf b" and "off < 256"
  shows "readByte bus_ports b (word_of_nat off) h = (byte_at h b off, select_reg b off h) \<and>
    (even off \<longrightarrow> readWord bus_ports b (word_of_nat off) h = (word_at h b off, select_reg b off h) \<and>
      writeWord bus_ports b (word_of_nat off) w h = store b off (le_bytes 2 (unat w)) h) \<and>
    (4 dvd off \<longrightarrow> readInt bus_ports b (word_of_nat off) h = (long_at h b off, select_reg b off h) \<and>
      writeInt bus_ports b (word_of_nat off) l h = store b off (le_bytes 4 (unat l)) h) \<and>
    writeByte bus_ports b (word_of_nat off) v h = store b off [v] h \<and>
    (\<forall>b' i. valid_bdf b' \<longrightarrow> byte_at (store b off bs h) b' i =
      (if b' = b \<and> off \<le> i \<and> i < off + length bs
       then (byte_at h b i AND NOT (writable h (bdf_id b) i)) OR (bs ! (i - off) AND writable h (bdf_id b) i)
       else byte_at h b' i))"
  using readByte_ok [OF assms] writeByte_ok [OF assms] readWord_ok [OF assms] writeWord_ok [OF assms]
    readInt_ok [OF assms] writeInt_ok [OF assms] store_other [OF assms(1)] byte_at_store
  by (intro conjI impI allI) (simp_all, metis)

text \<open>A bus with two functions: one with a list of three capabilities of which the second is for message
  signalled interrupts, and one with a list whose last node leads to itself.\<close>

definition sample_bdf :: bdf where
  "sample_bdf = bdf_of 0 3 0"

definition sample_junk :: msi_capability where
  "sample_junk = \<lparr>register0 = 0, register1 = 0, register2 = 0, register3 = 0\<rparr>"

definition looping_bdf :: bdf where
  "looping_bdf = bdf_of 0 4 0"

definition sample_space :: "nat \<Rightarrow> byte" where
  "sample_space = upd (upd (upd (upd (upd (upd (\<lambda>_. 0) 0 [0x86, 0x80]) 6 [0x10]) 0x0a [6, 1]) 0x34 [0x40]) 0x40 [1, 0x50]) 0x50 [5, 0x60]"

definition looping_space :: "nat \<Rightarrow> byte" where
  "looping_space = upd (upd (upd (upd (\<lambda>_. 0) 0 [0x86, 0x80]) 6 [0x10]) 0x34 [0x40]) 0x40 [1, 0x40]"

definition sample_bus :: bridge where
  "sample_bus = \<lparr>latch = 0,
     cfg = (\<lambda>k. if k = bdf_id sample_bdf then sample_space else if k = bdf_id looping_bdf then looping_space else (\<lambda>_. 0xff)),
     writable = (\<lambda>_ _. 0xff)\<rparr>"

lemma sample_valid: "valid_bdf sample_bdf" "valid_bdf looping_bdf" "sample_bdf \<noteq> looping_bdf"
  by (simp_all add: sample_bdf_def looping_bdf_def valid_bdf_of, simp add: bdf_of_def)

lemma sample_ids: "bdf_id sample_bdf \<noteq> bdf_id looping_bdf"
  using bdf_id_inj [OF sample_valid(1,2)] sample_valid(3) by auto

lemma word_at_sample:
  "word_at sample_bus sample_bdf o1 = word_of_nat (unat (sample_space o1) + 256 * unat (sample_space (o1 + 1)))"
  "word_at sample_bus looping_bdf o1 = word_of_nat (unat (looping_space o1) + 256 * unat (looping_space (o1 + 1)))"
  using sample_ids by (simp_all add: word_at_def sample_bus_def rd_def upt_rec numeral_2_eq_2)

theorem config_space_access_witness:
  "readWord bus_ports sample_bdf 0x40 sample_bus = (0x5001, select_reg sample_bdf 0x40 sample_bus)"
proof -
  have "word_at sample_bus sample_bdf 0x40 = 0x5001"
    by (simp add: word_at_sample sample_space_def upd_def)
  then show ?thesis using config_space_access [OF sample_valid(1), of "0x40" sample_bus] by simp
qed


text \<open>\<open>getDevices\<close> lists, in the order of their numbers, the functions of the class: of every device those
  before its first function that does not answer. It changes nothing on the bus.\<close>

lemma get_devices_lists:
  "\<exists>h'. getDevices bus_ports base_class subclass h =
     (concat (map (\<lambda>bs. concat (map (\<lambda>dev.
        filter (of_class h base_class subclass) (takeWhile (present h) (map (bdf_of bs dev) [0..<8]))) [0..<32])) [0..<256]), h') \<and>
     same_bus h h'"
  unfolding getDevices_def by (rule buses_ok) simp

lemma fold_visit:
  "dev_bdf (fold (visit h) xs d) = dev_bdf d \<and>
   (msiCapable (fold (visit h) xs d) \<longleftrightarrow> msiCapable d \<or> (\<exists>o' \<in> set xs. cap_id h (dev_bdf d) o' = 5))"
  by (induction xs arbitrary: d) (auto simp: visit_def)

text \<open>\<open>initDevice\<close> walks the list of capabilities: it records the identifiers of all but the first and finds
  message signalled interrupts unless they are the last; a list of one capability goes on with the vendor
  identifier at offset 0. On a list that runs into itself it never comes back.\<close>

lemma device_init_walks:
  assumes "valid_bdf b" and "word_at h b 6 AND 0x10 \<noteq> 0" and "unat (ucast (word_at h b 0x34 AND 0xfc) :: byte) = o1" and "4 dvd o1"
  shows "(cap_walk h b o1 o2 os \<and> (\<forall>o' \<in> set (o1 # o2 # os). cap_place h b o') \<longrightarrow>
      wp (initDevice bus_ports junk b h) (\<lambda>d h'. same_bus h h' \<and> dev_bdf d = b \<and>
        capabilities d = map (cap_id h b) (o2 # os) \<and>
        (msiCapable d \<longleftrightarrow> (\<exists>o' \<in> set (butlast (o1 # o2 # os)). cap_id h b o' = 5)))) \<and>
    (o1 \<in> C \<and> (\<forall>o' \<in> C. cap_place h b o' \<and> next_cap h b o' \<in> C \<and> next_cap h b o' \<noteq> 0) \<longrightarrow>
      initDevice bus_ports junk b h = None)"
proof -
  define d where "d = new_device junk b"
  have d: "dev_bdf d = b" "capabilities d = []" "\<not> msiCapable d" by (simp_all add: d_def new_device_def)
  have walks: "wp (device_init bus_ports d h) (\<lambda>d h'. same_bus h h' \<and> dev_bdf d = b \<and> capabilities d = map (cap_id h b) (o2 # os) \<and>
      (msiCapable d \<longleftrightarrow> (\<exists>o' \<in> set (butlast (o1 # o2 # os)). cap_id h b o' = 5)))"
    if "cap_walk h b o1 o2 os" "\<forall>o' \<in> set (o1 # o2 # os). cap_place h b o'"
    using device_init_ok [of d h o1 o2 os] assms that fold_visit [of h _ d] by (auto simp: d simp del: butlast.simps elim!: wp_mono)
  have spins: "device_init bus_ports d h = None"
    if C: "o1 \<in> C" "\<forall>o' \<in> C. cap_place h b o' \<and> next_cap h b o' \<in> C \<and> next_cap h b o' \<noteq> 0"
  proof -
    have "o1 < 256" using C by (simp add: cap_place_def)
    then obtain h2 where "same_bus h h2" "device_init bus_ports d h = init_loop bus_ports (word_of_nat o1) (word_at h2 b o1) d h2"
      using device_init_start [of d h o1] assms by (auto simp: d)
    then show ?thesis using init_loop_spins [OF assms(1) C(2,1) d(1)] by simp
  qed
  show ?thesis unfolding initDevice_def d_def [symmetric] using walks spins by blast
qed

lemma device_init_walks_witness:
  "wp (initDevice bus_ports sample_junk sample_bdf sample_bus) (\<lambda>d h'. capabilities d = [5, 0] \<and> msiCapable d) \<and>
   initDevice bus_ports sample_junk looping_bdf sample_bus = None"
proof
  have w: "word_at sample_bus sample_bdf 6 = 0x10" "word_at sample_bus sample_bdf 0x34 = 0x40"
    "word_at sample_bus sample_bdf 0x40 = 0x5001" "word_at sample_bus sample_bdf 0x50 = 0x6005" "word_at sample_bus sample_bdf 0x60 = 0"
    by (simp_all add: word_at_sample sample_space_def upd_def)
  have n: "next_cap sample_bus sample_bdf 0x40 = 0x50" "next_cap sample_bus sample_bdf 0x50 = 0x60" "next_cap sample_bus sample_bdf 0x60 = 0"
    "cap_id sample_bus sample_bdf 0x40 = 1" "cap_id sample_bus sample_bdf 0x50 = 5" "cap_id sample_bus sample_bdf 0x60 = 0"
    by (simp_all add: next_cap_def cap_id_def w)
  have "cap_walk sample_bus sample_bdf 0x40 0x50 [0x60]" by (simp add: cap_walk_def n)
  then show "wp (initDevice bus_ports sample_junk sample_bdf sample_bus) (\<lambda>d h'. capabilities d = [5, 0] \<and> msiCapable d)"
    using device_init_walks [OF sample_valid(1), of sample_bus "0x40" "0x50" "[0x60]" sample_junk "{}"]
    by (auto simp: w n cap_place_def elim!: wp_mono)
  have v: "word_at sample_bus looping_bdf 6 = 0x10" "word_at sample_bus looping_bdf 0x34 = 0x40" "word_at sample_bus looping_bdf 0x40 = 0x4001"
    by (simp_all add: word_at_sample looping_space_def upd_def)
  have m: "next_cap sample_bus looping_bdf 0x40 = 0x40" "cap_id sample_bus looping_bdf 0x40 = 1"
    by (simp_all add: next_cap_def cap_id_def v)
  show "initDevice bus_ports sample_junk looping_bdf sample_bus = None"
    using device_init_walks [OF sample_valid(2), of sample_bus "0x40" 0 "[]" sample_junk "{0x40}"]
    by (simp add: v m cap_place_def)
qed


text \<open>\<open>getBAR\<close> gives the address of a port or of a 32-bit memory register. For a 64-bit register of a page-aligned
  region it takes the upper half not from the register after it but from the one at 0x24, or at 0x44 when the
  region is prefetchable.\<close>

lemma bar_addresses:
  assumes "valid_bdf (dev_bdf d)" and "index < 5" and "long_at h (dev_bdf d) (0x10 + unat index * 4) = v"
  shows "(bit v 0 \<longrightarrow> fst (getBAR bus_ports d index h) = ucast v AND 0xfffffffffffffffc) \<and>
    (\<not> bit v 0 \<and> \<not> bit v 2 \<longrightarrow> fst (getBAR bus_ports d index h) = ucast v AND 0xfffffffffffffff0) \<and>
    (\<not> bit v 0 \<and> bit v 2 \<and> (unat v mod 4096 = 4 \<or> unat v mod 4096 = 0xc) \<longrightarrow>
      fst (getBAR bus_ports d index h) =
        (ucast v OR push_bit 32 (ucast (long_at h (dev_bdf d) (if unat v mod 4096 = 4 then 0x24 else 0x44)))) AND 0xfffffffffffffff0)"
proof -
  have "index \<le> 5" using assms(2) by simp
  then show ?thesis using getBAR_32(1) [OF assms(1) _ assms(3)] getBAR_64 [OF assms _ _ refl] by auto
qed

text \<open>A function whose first register is a 64-bit one: the upper half, 1, is in the second and is not found.\<close>

definition bar_bus :: bridge where
  "bar_bus = \<lparr>latch = 0, cfg = (\<lambda>_. upd (\<lambda>_. 0) 0x10 (le_bytes 4 0x10004 @ le_bytes 4 1)), writable = (\<lambda>_ _. 0xff)\<rparr>"

lemma bar_addresses_witness:
  "fst (getBAR bus_ports (new_device sample_junk sample_bdf) 0 bar_bus) = 0x10000"
proof -
  have b: "dev_bdf (new_device sample_junk sample_bdf) = sample_bdf" by (simp add: new_device_def)
  have v: "long_at bar_bus sample_bdf 0x10 = 0x10004" "long_at bar_bus sample_bdf 0x24 = 0"
    by (simp_all add: long_at_def bar_bus_def upd_append rd_upd_disjoint le_nat_le_bytes)
      (simp add: rd_def upd_def upt_rec)
  then show ?thesis
    using bar_addresses [of "new_device sample_junk sample_bdf" 0 bar_bus "0x10004"] sample_valid(1) by (simp add: b)
qed

text \<open>A vector for message signalled interrupts is the least unused one and has a gate afterwards, but the control
  word that would enable the interrupt is never set: the store that is meant for it puts the control word into
  the identifier and 0 into the control word.\<close>

lemma msi_stays_disabled:
  assumes "valid_bdf (dev_bdf d)" and "msiCapable d" and "4 dvd unat (msiPointer d)" and "unat (msiPointer d) + 16 \<le> 256"
    and "vector AND 4 \<noteq> 0" and "length (idt c) = 256" and "48 \<le> i" and "i < 255" and "type_attr (idt c ! i) = 0"
    and "bit (writable h (bdf_id (dev_bdf d)) (unat (msiPointer d) + 2)) 0"
  shows "\<exists>v d' h' c'. allocateVector bus_ports dummy vector d h c = Some (v, d', h', c') \<and>
    48 \<le> unat v \<and> unat v \<le> i \<and> type_attr (idt c ! unat v) = 0 \<and> delivers c' (unat v) = Some dummy \<and>
    \<not> bit (byte_at h' (dev_bdf d) (unat (msiPointer d) + 2)) 0"
proof -
  let ?U = "{i. 48 \<le> i \<and> i < 255 \<and> type_attr (idt c ! i) = 0}"
  have "?U \<noteq> {}" using assms(7-9) by blast
  then have "wp (reserveUnusedInterrupt dummy c) (\<lambda>r c'. r \<in> ?U \<and> (\<forall>j \<in> ?U. r \<le> j) \<and> delivers c' r = Some dummy)"
    using reserve_ok [OF assms(6), of dummy] unfolding Let_def by (elim wp_mono) (simp only: if_False, blast)
  then obtain r c' where
    r: "reserveUnusedInterrupt dummy c = Some (r, c')" "r \<in> ?U" "\<forall>j \<in> ?U. r \<le> j" "delivers c' r = Some dummy"
    unfolding wp_ex by blast
  obtain d' h' where e: "enable_msi bus_ports r d h = (d', h')"
    and z: "byte_at h' (dev_bdf d) (unat (msiPointer d) + 2) =
      byte_at h (dev_bdf d) (unat (msiPointer d) + 2) AND NOT (writable h (bdf_id (dev_bdf d)) (unat (msiPointer d) + 2))"
    using enable_msi_ok [OF assms(1,3,4)] by blast
  have "unat (word_of_nat r :: byte) = r" using r(2) by (simp add: unat_of_nat)
  moreover have "r \<le> i" using r(3) assms(7-9) by blast
  moreover have "\<not> bit (byte_at h' (dev_bdf d) (unat (msiPointer d) + 2)) 0"
    unfolding z bit_and_iff bit_not_iff using assms(10) by simp
  ultimately show ?thesis
    using r assms(2,5) by (intro exI [of _ "word_of_nat r"] exI [of _ d'] exI [of _ h'] exI [of _ c'])
      (simp add: allocateVector_def e)
qed

lemma msi_stays_disabled_witness:
  "\<exists>v d' h' c'. allocateVector bus_ports 7 7 ((new_device sample_junk sample_bdf)\<lparr>msiPointer := 0x50, msiCapable := True\<rparr>) sample_bus sample_cpu =
     Some (v, d', h', c') \<and> \<not> bit (byte_at h' sample_bdf 0x52) 0"
proof -
  let ?d = "(new_device sample_junk sample_bdf)\<lparr>msiPointer := 0x50, msiCapable := True\<rparr>"
  have "dev_bdf ?d = sample_bdf" "msiCapable ?d" "unat (msiPointer ?d) = 0x50" by (simp_all add: new_device_def)
  moreover have "length (idt sample_cpu) = 256" "type_attr (idt sample_cpu ! 48) = 0" by (simp_all add: sample_cpu_def)
  moreover have "bit (writable sample_bus (bdf_id sample_bdf) 0x52) 0" by (simp add: sample_bus_def)
  ultimately show ?thesis
    using msi_stays_disabled [of ?d 7 sample_cpu 48 sample_bus 7] sample_valid(1) by simp blast
qed

end
