(* ===== verification/Processes.thy ===== *)
theory Processes
  imports Page_Meta
begin

text \<open>
  Processes, \<open>src/Kernel.cpp\<close> and \<open>src/Process.cpp\<close>: the choice of process identifiers, the creation of a
  process with its page table, the frames it is given, and the layout of the physical memory.

  A \<open>std::map\<close> that is iterated is its list of pairs in the order of the keys; an iterator is the rest of
  the list from its position on. The locks are left out: there is one thread, with the number 0, and it
  takes every lock at once (\<open>Mutexes\<close>).
\<close>

record process =
  p_pid :: nat
  pageTable :: "nat option"

type_synonym process_map = "(nat \<times> process) list"

record kernel =
  processes :: process_map
  lastPID :: nat
  pageFrameProcesses :: "nat \<Rightarrow> nat option"
  the_pager :: pager

definition MaxPID :: nat where
  "MaxPID = (2 ^ 32 - 1) div 2"


section \<open>The map\<close>

definition map_find :: "nat \<Rightarrow> process_map \<Rightarrow> process_map" where
  "map_find k m = dropWhile (\<lambda>e. fst e \<noteq> k) m"

definition map_contains :: "nat \<Rightarrow> process_map \<Rightarrow> bool" where
  "map_contains k m \<longleftrightarrow> k \<in> fst ` set m"

text \<open>\<open>operator[]\<close> on a key that is not there: a process whose fields are zero is inserted.\<close>

definition map_put :: "nat \<Rightarrow> process \<Rightarrow> process_map \<Rightarrow> process_map" where
  "map_put k v m = takeWhile (\<lambda>e. fst e < k) m @ (k, v) # dropWhile (\<lambda>e. fst e \<le> k) m"

definition no_process :: process where
  "no_process = \<lparr>p_pid = 0, pageTable = None\<rparr>"

definition map_ensure :: "nat \<Rightarrow> process_map \<Rightarrow> process_map" where
  "map_ensure k m = (if map_contains k m then m else map_put k no_process m)"


section \<open>Process identifiers\<close>

partial_function (option) nextPID_loop :: "process_map \<Rightarrow> nat \<Rightarrow> process_map \<Rightarrow> nat option" where
  "nextPID_loop procs candidate iter =
     (if iter = [] then Some candidate
      else
        let iter = tl iter in
        if iter = [] then Some (u32 (int candidate + 1))
        else
          let nxt = fst (hd iter); candidate = u32 (int candidate + 1) in
          if candidate < nxt then Some candidate
          else nextPID_loop procs candidate (map_find candidate procs))"

definition nextPID :: "kernel \<Rightarrow> (nat \<times> kernel) option" where
  "nextPID k = do {
     let k = (if MaxPID \<le> lastPID k then k\<lparr>lastPID := 1\<rparr> else k);
     if MaxPID - 5 \<le> length (processes k) then None
     else do {
       let candidate = u32 (int (lastPID k) + 1);
       pid \<leftarrow> nextPID_loop (processes k) candidate (map_find candidate (processes k));
       Some (pid, k\<lparr>lastPID := pid\<rparr>)
     }
   }"


section \<open>Processes\<close>

text \<open>\<open>Process::init\<close> and \<open>Process::allocatePage\<close>; \<open>key\<close> is where the process is in the map.\<close>

definition process_init :: "nat \<Rightarrow> kernel \<Rightarrow> (unit \<times> kernel) option" where
  "process_init key k = do {
     (pml4, m) \<leftarrow> allocateFreePhysicalAddress 1 (the_pager k);
     let m = zero_page pml4 m;
     Some ((), k\<lparr>the_pager := m,
       processes := map (\<lambda>e. if fst e = key then (key, (snd e)\<lparr>pageTable := Some pml4\<rparr>) else e) (processes k)\<rparr>)
   }"

definition allocatePage :: "process \<Rightarrow> nat \<Rightarrow> kernel \<Rightarrow> (unit \<times> kernel) option" where
  "allocatePage p virtual_address k = do {
     (pfn, m) \<leftarrow> allocateFreePhysicalFrame 1 (the_pager k);
     Some ((), k\<lparr>the_pager := m, pageFrameProcesses := (pageFrameProcesses k)(pfn \<mapsto> p_pid p)\<rparr>)
   }"

text \<open>\<open>makeProcess\<close> returns a reference to the new process: here its key.\<close>

definition makeProcess :: "kernel \<Rightarrow> (nat \<times> kernel) option" where
  "makeProcess k = do {
     (pid, k) \<leftarrow> nextPID k;
     if map_contains pid (processes k) then None
     else do {
       let k = k\<lparr>processes := map_ensure pid (processes k)\<rparr>;
       (_, k) \<leftarrow> process_init pid k;
       Some (pid, k)
     }
   }"


section \<open>The layout of the memory\<close>

record memory_layout =
  pageDescriptors :: nat
  pageDescriptorsLength :: nat
  pagesStart :: nat
  pagesLength :: nat

definition arrangeMemory :: "nat \<Rightarrow> nat \<Rightarrow> memory_layout" where
  "arrangeMemory memory_low memory_high =
     (let len = downalign (wrap64 (u64 (int memory_high - int memory_low) * 4096) div 4097) 4096;
          start = downalign (u64 (int memory_high - int len)) 4096
      in \<lparr>pageDescriptors = memory_low, pageDescriptorsLength = u64 (int start - int memory_low),
          pagesStart = start, pagesLength = len\<rparr>)"

text \<open>
  \<open>backtrace\<close>: the return addresses that are printed, in a memory of words of 8 bytes. The loop stops at a
  null frame, at an address that repeats, and after 65 lines.
\<close>

function backtrace_loop :: "(nat \<Rightarrow> nat) \<Rightarrow> nat \<Rightarrow> nat \<Rightarrow> nat \<Rightarrow> nat list" where
  "backtrace_loop mem i old rbp =
     (if rbp = 0 then []
      else let ret = mem (wrap64 (rbp + 8)) in
        if old = ret then []
        else if 64 \<le> i then [ret]
        else ret # backtrace_loop mem (i + 1) ret (mem rbp))"
  by auto

termination
  by (relation "measure (\<lambda>(mem, i, old, rbp). 64 - i)") auto

declare backtrace_loop.simps [simp del]

definition backtrace :: "(nat \<Rightarrow> nat) \<Rightarrow> nat \<Rightarrow> nat list" where
  "backtrace mem rbp = backtrace_loop mem 0 0 rbp"


section \<open>Facts\<close>

definition sorted_map :: "process_map \<Rightarrow> bool" where
  "sorted_map m \<longleftrightarrow> sorted_wrt (<) (map fst m)"

definition pids :: "process_map \<Rightarrow> nat set" where
  "pids m = fst ` set m"

lemma map_find_Nil: "map_find k m = [] \<longleftrightarrow> k \<notin> pids m"
  by (auto simp: map_find_def pids_def)

lemma map_find_Cons:
  assumes "map_find k m = e # rest"
  shows "fst e = k" and "\<exists>before. m = before @ e # rest \<and> k \<notin> pids before"
proof -
  show "fst e = k" using assms hd_dropWhile [of "\<lambda>e. fst e \<noteq> k" m] by (auto simp: map_find_def)
  have "m = takeWhile (\<lambda>e. fst e \<noteq> k) m @ e # rest" using assms takeWhile_dropWhile_id [of "\<lambda>e. fst e \<noteq> k" m] by (simp add: map_find_def)
  moreover have "k \<notin> pids (takeWhile (\<lambda>e. fst e \<noteq> k) m)" using set_takeWhileD by (fastforce simp: pids_def)
  ultimately show "\<exists>before. m = before @ e # rest \<and> k \<notin> pids before" by blast
qed

lemma map_find_next:
  assumes "sorted_map m" and "map_find c m = e # e' # rest"
  shows "c < fst e'" and "map_find (fst e') m = e' # rest" and "\<And>x. c < x \<Longrightarrow> x < fst e' \<Longrightarrow> x \<notin> pids m"
proof -
  obtain before where m: "m = before @ e # e' # rest" and c: "fst e = c" using map_find_Cons [OF assms(2)] by auto
  have s: "\<forall>x \<in> set before. fst x < c" "c < fst e'" "\<forall>x \<in> set rest. fst e' < fst x"
    using assms(1) c by (auto simp: m sorted_map_def sorted_wrt_append)
  show "c < fst e'" by (rule s(2))
  have "\<forall>x \<in> set (before @ [e]). fst x \<noteq> fst e'" using s(1,2) c by fastforce
  then show "map_find (fst e') m = e' # rest"
    using dropWhile_append2 [of "before @ [e]" "\<lambda>x. fst x \<noteq> fst e'" "e' # rest"] by (simp add: map_find_def m)
  show "x \<notin> pids m" if "c < x" "x < fst e'" for x using s c that by (auto simp: m pids_def)
qed

lemma map_find_last:
  assumes "sorted_map m" and "map_find c m = [e]"
  shows "\<And>x. c < x \<Longrightarrow> x \<notin> pids m"
proof -
  fix x assume "c < x"
  obtain before where m: "m = before @ [e]" and c: "fst e = c" using map_find_Cons [OF assms(2)] by auto
  then have "\<forall>y \<in> set before. fst y < c" using assms(1) by (auto simp: sorted_map_def sorted_wrt_append)
  then show "x \<notin> pids m" using \<open>c < x\<close> c by (auto simp: m pids_def)
qed

text \<open>The loop finds the least number from the candidate on that is not in use.\<close>

lemma nextPID_loop_ok:
  assumes "sorted_map m" and "map_find c m = iter" and "c + length iter < 2 ^ 32"
  shows "\<exists>r. nextPID_loop m c iter = Some r \<and> c \<le> r \<and> r \<notin> pids m \<and> (\<forall>x. c \<le> x \<longrightarrow> x < r \<longrightarrow> x \<in> pids m) \<and> r \<le> c + length iter"
  using assms(2,3)
proof (induction iter arbitrary: c rule: length_induct)
  case (1 iter)
  show ?case
  proof (cases iter)
    case Nil
    then show ?thesis using 1 map_find_Nil [of c m] by (subst nextPID_loop.simps) auto
  next
    case (Cons e rest)
    then have c: "c \<in> pids m" using 1 map_find_Nil [of c m] by auto
    have small: "u32 (int c + 1) = c + 1" using 1(3) Cons by (simp add: u32_def nat_add_distrib)
    show ?thesis
    proof (cases rest)
      case Nil
      then have "c + 1 \<notin> pids m" using map_find_last [OF assms(1)] 1(2) Cons by auto
      then show ?thesis using c Cons Nil by (subst nextPID_loop.simps) (auto simp: small Let_def less_Suc_eq)
    next
      case R: (Cons e' rest')
      note nxt = map_find_next [OF assms(1), of c e e' rest']
      have f: "map_find c m = e # e' # rest'" using 1(2) Cons R by simp
      show ?thesis
      proof (cases "c + 1 < fst e'")
        case True
        then have "c + 1 \<notin> pids m" using nxt(3) [OF f, of "c + 1"] by simp
        then show ?thesis using c Cons R True by (subst nextPID_loop.simps) (auto simp: small Let_def less_Suc_eq)
      next
        case False
        then have e': "fst e' = c + 1" using nxt(1) [OF f] by simp
        then have g: "map_find (c + 1) m = e' # rest'" using nxt(2) [OF f] by simp
        obtain r where r: "nextPID_loop m (c + 1) (e' # rest') = Some r" "c + 1 \<le> r" "r \<notin> pids m"
          "\<forall>x. c + 1 \<le> x \<longrightarrow> x < r \<longrightarrow> x \<in> pids m" "r \<le> c + 1 + length (e' # rest')"
          using 1(1) [rule_format, of "e' # rest'", OF _ g] 1(3) Cons R by auto
        have "nextPID_loop m c iter = Some r"
          using r(1) e' g Cons R by (subst nextPID_loop.simps) (simp add: small Let_def)
        moreover have "\<forall>x. c \<le> x \<longrightarrow> x < r \<longrightarrow> x \<in> pids m" using r(4) c by (metis Suc_eq_plus1 Suc_leI le_neq_implies_less)
        ultimately show ?thesis using r Cons R by auto
      qed
    qed
  qed
qed

lemma nextPID_ok:
  assumes "sorted_map (processes k)" and "length (processes k) < MaxPID - 5"
  shows "wp (nextPID k) (\<lambda>pid k'.
    let first = (if MaxPID \<le> lastPID k then 2 else lastPID k + 1) in
    k' = k\<lparr>lastPID := pid\<rparr> \<and> first \<le> pid \<and> pid \<notin> pids (processes k) \<and>
    (\<forall>x. first \<le> x \<longrightarrow> x < pid \<longrightarrow> x \<in> pids (processes k)) \<and> pid \<le> first + length (processes k))"
proof -
  define c where "c = (if MaxPID \<le> lastPID k then 2 else lastPID k + 1)"
  have M: "MaxPID = 2147483647" by (simp add: MaxPID_def)
  have len: "length (map_find c (processes k)) \<le> length (processes k)" by (simp add: map_find_def length_dropWhile_le)
  have "c \<le> MaxPID" by (simp add: c_def M)
  then have "c + length (map_find c (processes k)) < 2 ^ 32" using assms(2) len by (simp add: M)
  from nextPID_loop_ok [OF assms(1) refl this] obtain r where
    r: "nextPID_loop (processes k) c (map_find c (processes k)) = Some r" "c \<le> r" "r \<notin> pids (processes k)"
      "\<forall>x. c \<le> x \<longrightarrow> x < r \<longrightarrow> x \<in> pids (processes k)" "r \<le> c + length (map_find c (processes k))" by blast
  define k0 where "k0 = (if MaxPID \<le> lastPID k then k\<lparr>lastPID := 1\<rparr> else k)"
  have k0: "processes k0 = processes k" "u32 (int (lastPID k0) + 1) = c" "k0\<lparr>lastPID := r\<rparr> = k\<lparr>lastPID := r\<rparr>"
    by (auto simp: k0_def c_def M u32_def nat_add_distrib)
  have "nextPID k = Some (r, k\<lparr>lastPID := r\<rparr>)"
    using assms(2) r(1) unfolding nextPID_def Let_def k0_def [symmetric] k0(1,2) by (simp add: k0(3))
  then show ?thesis using r len by (simp add: Let_def flip: c_def)
qed


lemma map_put_set:
  assumes "sorted_map m" and "k \<notin> pids m"
  shows "set (map_put k v m) = insert (k, v) (set m)" and "sorted_map (map_put k v m)"
proof -
  have "takeWhile (\<lambda>e. fst e < k) m @ dropWhile (\<lambda>e. fst e \<le> k) m = m"
  proof -
    have "dropWhile (\<lambda>e. fst e \<le> k) m = dropWhile (\<lambda>e. fst e < k) m"
      using assms(2) by (intro dropWhile_cong) (auto simp: pids_def le_less)
    then show ?thesis by simp
  qed
  then have "set m = set (takeWhile (\<lambda>e. fst e < k) m) \<union> set (dropWhile (\<lambda>e. fst e \<le> k) m)" by (metis set_append)
  then show "set (map_put k v m) = insert (k, v) (set m)" by (auto simp: map_put_def)
  have lo: "\<forall>e \<in> set (takeWhile (\<lambda>e. fst e < k) m). fst e < k" by (auto dest: set_takeWhileD)
  have hi: "\<forall>e \<in> set (dropWhile (\<lambda>e. fst e \<le> k) m). k < fst e"
  proof -
    have "sorted (map fst m)" using assms(1) by (simp add: sorted_map_def strict_sorted_iff)
    then show ?thesis by (induction m) (auto simp: not_le)
  qed
  have "sorted_wrt (<) (map fst (takeWhile (\<lambda>e. fst e < k) m))" "sorted_wrt (<) (map fst (dropWhile (\<lambda>e. fst e \<le> k) m))"
    using assms(1) by (simp_all add: sorted_map_def sorted_wrt_map sorted_wrt_takeWhile sorted_wrt_dropWhile)
  then show "sorted_map (map_put k v m)"
    using lo hi by (fastforce simp: map_put_def sorted_map_def sorted_wrt_append)
qed

lemma new_process:
  assumes "sorted_map m" and "k \<notin> pids m"
  shows "map (\<lambda>e. if fst e = k then (k, (snd e)\<lparr>pageTable := t\<rparr>) else e) (map_ensure k m) = map_put k \<lparr>p_pid = 0, pageTable = t\<rparr> m"
proof -
  have other: "map (\<lambda>e. if fst e = k then (k, (snd e)\<lparr>pageTable := t\<rparr>) else e) xs = xs" if "set xs \<subseteq> set m" for xs
    using that assms(2) by (intro map_idI) (auto simp: pids_def)
  have "set (takeWhile (\<lambda>e. fst e < k) m) \<subseteq> set m" "set (dropWhile (\<lambda>e. fst e \<le> k) m) \<subseteq> set m"
    by (auto dest: set_takeWhileD set_dropWhileD)
  then show ?thesis using assms(2) by (simp add: map_ensure_def map_contains_def map_put_def no_process_def other pids_def)
qed



section \<open>Properties\<close>

lemma zero_page_simps [simp]: "spare (zero_page a m) = spare m" "pager_ok (zero_page a m) = pager_ok m"
  by (simp_all add: zero_page_def spare_def frames_def pager_ok_def)

lemma allocatePage_registers:
  assumes "pager_ok (the_pager k)"
  shows "wp (allocatePage p va k) (\<lambda>_ k'. \<exists>pfn. pageFrameProcesses k' = (pageFrameProcesses k)(pfn \<mapsto> p_pid p))"
  using allocate_frame [OF assms] by (auto simp: allocatePage_def allocateFreePhysicalFrame_def)

lemma makeProcess_ok:
  assumes "sorted_map (processes k)" and "length (processes k) < MaxPID - 5" and "pager_ok (the_pager k)"
  shows "wp (makeProcess k) (\<lambda>pid k'.
    let first = (if MaxPID \<le> lastPID k then 2 else lastPID k + 1) in
    first \<le> pid \<and> pid \<notin> pids (processes k) \<and> (\<forall>x. first \<le> x \<longrightarrow> x < pid \<longrightarrow> x \<in> pids (processes k)) \<and>
    lastPID k' = pid \<and> sorted_map (processes k') \<and> pager_ok (the_pager k') \<and>
    (\<exists>a. set (processes k') = insert (pid, \<lparr>p_pid = 0, pageTable = Some a\<rparr>) (set (processes k)) \<and>
      (\<forall>x. a \<le> x \<longrightarrow> x < a + 4096 \<longrightarrow> ptmem (the_pager k') x = 0) \<and>
      (if spare (the_pager k) = {} then a = 0
       else \<exists>f \<in> spare (the_pager k). a = frame_addr (the_pager k) f \<and> spare (the_pager k') = spare (the_pager k) - {f})))"
proof -
  obtain pid where n: "nextPID k = Some (pid, k\<lparr>lastPID := pid\<rparr>)"
    and pid: "let first = (if MaxPID \<le> lastPID k then 2 else lastPID k + 1) in
      first \<le> pid \<and> pid \<notin> pids (processes k) \<and> (\<forall>x. first \<le> x \<longrightarrow> x < pid \<longrightarrow> x \<in> pids (processes k))"
    using nextPID_ok [OF assms(1,2)] unfolding wp_ex Let_def by blast
  have fresh: "pid \<notin> pids (processes k)" using pid by (simp add: Let_def)
  obtain a m where a: "allocateFreePhysicalAddress 1 (the_pager k) = Some (a, m)" "pager_ok m"
    "if spare (the_pager k) = {} then a = 0
     else \<exists>f \<in> spare (the_pager k). a = frame_addr (the_pager k) f \<and> spare m = spare (the_pager k) - {f}"
  proof (cases "spare (the_pager k) = {}")
    case True
    then show ?thesis using that [of 0 "the_pager k"] allocate_frame [OF assms(3)] assms(3) by auto
  next
    case False
    then obtain f bm where f: "f \<in> spare (the_pager k)" "pager_ok (the_pager k\<lparr>bitmap := bm\<rparr>)"
      "allocateFreePhysicalAddress 1 (the_pager k) = Some (frame_addr (the_pager k) f, the_pager k\<lparr>bitmap := bm\<rparr>)"
      "spare (the_pager k\<lparr>bitmap := bm\<rparr>) = spare (the_pager k) - {f}"
      using allocate_frame [OF assms(3)] by auto
    then show ?thesis using that [OF f(3,2)] False by auto
  qed
  have zero: "ptmem (zero_page a m) x = 0" if "a \<le> x" "x < a + 4096" for x using that by (simp add: zero_page_def)
  define k1 where "k1 = k\<lparr>lastPID := pid, the_pager := zero_page a m,
      processes := map_put pid \<lparr>p_pid = 0, pageTable = Some a\<rparr> (processes k)\<rparr>"
  have k1: "processes k1 = map_put pid \<lparr>p_pid = 0, pageTable = Some a\<rparr> (processes k)" "the_pager k1 = zero_page a m" "lastPID k1 = pid"
    by (simp_all add: k1_def)
  have eq: "makeProcess k = Some (pid, k1)"
    using fresh new_process [OF assms(1) fresh, of "Some a"]
    by (simp add: makeProcess_def n process_init_def a(1) map_contains_def pids_def k1_def del: One_nat_def)
  have table: "\<exists>b. set (map_put pid \<lparr>p_pid = 0, pageTable = Some a\<rparr> (processes k)) =
        insert (pid, \<lparr>p_pid = 0, pageTable = Some b\<rparr>) (set (processes k)) \<and>
      (\<forall>x. b \<le> x \<longrightarrow> x < b + 4096 \<longrightarrow> ptmem (zero_page a m) x = 0) \<and>
      (if spare (the_pager k) = {} then b = 0
       else \<exists>f \<in> spare (the_pager k). b = frame_addr (the_pager k) f \<and> spare m = spare (the_pager k) - {f})"
    using map_put_set(1) [OF assms(1) fresh] zero a(3) by (intro exI [of _ a]) simp
  show ?thesis
    using pid table a(2) map_put_set(2) [OF assms(1) fresh]
    unfolding Let_def eq wp_Some fst_conv snd_conv k1 zero_page_simps by blast
qed

text \<open>C20. When the map of processes is sorted by identifier, as a \<open>std::map\<close> is, with fewer than \<open>MaxPID - 5\<close>
  processes, and the pager is set up (\<open>pager_ok\<close>: its bitmap covers its frames, which start at a page above 0 and
  are mapped), \<open>makeProcess\<close> comes back with the least identifier after the last one, or from 2 on, that is not in
  use, and adds one process under it with a cleared page table in a frame of its own; but the process keeps 0
  as its identifier, so the frames it is given are entered under 0, and when no frame is left its table is at 0.\<close>

theorem process_creation:
  assumes "sorted_map (processes k)" and "length (processes k) < MaxPID - 5" and "pager_ok (the_pager k)"
  shows "wp (makeProcess k) (\<lambda>pid k'.
    let first = (if MaxPID \<le> lastPID k then 2 else lastPID k + 1) in
    first \<le> pid \<and> pid \<notin> pids (processes k) \<and> (\<forall>x. first \<le> x \<longrightarrow> x < pid \<longrightarrow> x \<in> pids (processes k)) \<and>
    lastPID k' = pid \<and> sorted_map (processes k') \<and>
    (\<exists>a. let p = \<lparr>p_pid = 0, pageTable = Some a\<rparr> in
      set (processes k') = insert (pid, p) (set (processes k)) \<and>
      (\<forall>x. a \<le> x \<longrightarrow> x < a + 4096 \<longrightarrow> ptmem (the_pager k') x = 0) \<and>
      (if spare (the_pager k) = {} then a = 0
       else \<exists>f \<in> spare (the_pager k). a = frame_addr (the_pager k) f \<and> spare (the_pager k') = spare (the_pager k) - {f}) \<and>
      wp (allocatePage p va k') (\<lambda>_ k''. \<exists>pfn. pageFrameProcesses k'' = (pageFrameProcesses k')(pfn \<mapsto> 0))))"
proof (rule wp_mono [OF makeProcess_ok [OF assms]])
  fix pid k'
  have "pager_ok (the_pager k') \<Longrightarrow> wp (allocatePage \<lparr>p_pid = 0, pageTable = Some a\<rparr> va k')
      (\<lambda>_ k''. \<exists>pfn. pageFrameProcesses k'' = (pageFrameProcesses k')(pfn \<mapsto> 0))" for a
    using allocatePage_registers [of k' "\<lparr>p_pid = 0, pageTable = Some a\<rparr>" va] by simp
  moreover assume "let first = (if MaxPID \<le> lastPID k then 2 else lastPID k + 1) in
    first \<le> pid \<and> pid \<notin> pids (processes k) \<and> (\<forall>x. first \<le> x \<longrightarrow> x < pid \<longrightarrow> x \<in> pids (processes k)) \<and>
    lastPID k' = pid \<and> sorted_map (processes k') \<and> pager_ok (the_pager k') \<and>
    (\<exists>a. set (processes k') = insert (pid, \<lparr>p_pid = 0, pageTable = Some a\<rparr>) (set (processes k)) \<and>
      (\<forall>x. a \<le> x \<longrightarrow> x < a + 4096 \<longrightarrow> ptmem (the_pager k') x = 0) \<and>
      (if spare (the_pager k) = {} then a = 0
       else \<exists>f \<in> spare (the_pager k). a = frame_addr (the_pager k) f \<and> spare (the_pager k') = spare (the_pager k) - {f}))"
  ultimately show "let first = (if MaxPID \<le> lastPID k then 2 else lastPID k + 1) in
    first \<le> pid \<and> pid \<notin> pids (processes k) \<and> (\<forall>x. first \<le> x \<longrightarrow> x < pid \<longrightarrow> x \<in> pids (processes k)) \<and>
    lastPID k' = pid \<and> sorted_map (processes k') \<and>
    (\<exists>a. let p = \<lparr>p_pid = 0, pageTable = Some a\<rparr> in
      set (processes k') = insert (pid, p) (set (processes k)) \<and>
      (\<forall>x. a \<le> x \<longrightarrow> x < a + 4096 \<longrightarrow> ptmem (the_pager k') x = 0) \<and>
      (if spare (the_pager k) = {} then a = 0
       else \<exists>f \<in> spare (the_pager k). a = frame_addr (the_pager k) f \<and> spare (the_pager k') = spare (the_pager k) - {f}) \<and>
      wp (allocatePage p va k') (\<lambda>_ k''. \<exists>pfn. pageFrameProcesses k'' = (pageFrameProcesses k')(pfn \<mapsto> 0)))"
    unfolding Let_def by blast
qed

definition sample_kernel :: kernel where
  "sample_kernel = \<lparr>processes = [(2, no_process), (3, no_process)], lastPID = 1, pageFrameProcesses = (\<lambda>_. None), the_pager = sample_pager\<rparr>"

theorem process_creation_witness:
  "wp (makeProcess sample_kernel) (\<lambda>pid k'. pid = 4 \<and> (\<exists>a. (4, \<lparr>p_pid = 0, pageTable = Some a\<rparr>) \<in> set (processes k')))"
proof -
  have s: "sorted_map (processes sample_kernel)" "length (processes sample_kernel) < MaxPID - 5" "pager_ok (the_pager sample_kernel)"
    "pids (processes sample_kernel) = {2, 3}" "lastPID sample_kernel = 1" "\<not> MaxPID \<le> 1"
    by (auto simp: sample_kernel_def sorted_map_def MaxPID_def sample_pager_ok pids_def)
  show ?thesis
  proof (rule wp_mono [OF process_creation [OF s(1-3), of 0]], unfold s(4-) Let_def, elim conjE exE, intro conjI)
    fix pid k' a
    assume "(if MaxPID \<le> 1 then 2 else 1 + 1) \<le> pid" "pid \<notin> {2, 3}"
      and less: "\<forall>x. (if MaxPID \<le> 1 then 2 else 1 + 1) \<le> x \<longrightarrow> x < pid \<longrightarrow> x \<in> {2, 3 :: nat}"
      and ps: "set (processes k') = insert (pid, \<lparr>p_pid = 0, pageTable = Some a\<rparr>) (set (processes sample_kernel))"
    then have "4 \<le> pid" using s(6) by auto
    moreover have "\<not> 4 < pid" using less [rule_format, of 4] s(6) by auto
    ultimately show "pid = 4" by simp
    then show "\<exists>a. (4, \<lparr>p_pid = 0, pageTable = Some a\<rparr>) \<in> set (processes k')" using ps by auto
  qed
qed


text \<open>When the memory ends on a page boundary, \<open>arrangeMemory\<close> splits it into the descriptors and whole pages
  after them up to its end, with a byte of descriptors for every page.\<close>

lemma memory_arranged:
  assumes "memory_low \<le> memory_high" and "memory_high < 2 ^ 52" and "4096 dvd memory_high"
  shows "let l = arrangeMemory memory_low memory_high in
    pageDescriptors l = memory_low \<and> memory_low + pageDescriptorsLength l = pagesStart l \<and>
    pagesStart l + pagesLength l = memory_high \<and> 4096 dvd pagesStart l \<and> 4096 dvd pagesLength l \<and>
    pagesLength l div 4096 \<le> pageDescriptorsLength l"
proof -
  define n where "n = memory_high - memory_low"
  define p where "p = downalign (n * 4096 div 4097) 4096"
  have n: "u64 (int memory_high - int memory_low) = n" "wrap64 (n * 4096) = n * 4096"
  proof -
    have "int memory_high - int memory_low = int n" using assms(1) by (simp add: n_def of_nat_diff)
    moreover have "n < 2 ^ 52" using assms(2) by (simp add: n_def)
    ultimately show "u64 (int memory_high - int memory_low) = n" "wrap64 (n * 4096) = n * 4096" by simp_all
  qed
  have p4: "4096 dvd p" by (simp add: p_def downalign_dvd)
  have "p \<le> n * 4096 div 4097" by (simp add: p_def downalign_def)
  then have le: "p * 4097 \<le> n * 4096" by (simp add: less_eq_div_iff_mult_less_eq)
  have fit: "p + p div 4096 \<le> n"
  proof -
    obtain r where "p = 4096 * r" using p4 by (rule dvdE)
    with le show ?thesis by simp
  qed
  have "n \<le> memory_high" by (simp add: n_def)
  then have ph: "p \<le> memory_high" using fit by linarith
  have start: "downalign (u64 (int memory_high - int p)) 4096 = memory_high - p"
  proof -
    have "int memory_high - int p = int (memory_high - p)" using ph by (simp add: of_nat_diff)
    moreover have "memory_high - p < 2 ^ 64" using assms(2) by simp
    ultimately have "u64 (int memory_high - int p) = memory_high - p" by (simp only: u64_of_nat)
    moreover have "4096 dvd memory_high - p" using assms(3) p4 by (rule dvd_diff_nat)
    ultimately show ?thesis by (simp add: downalign_def)
  qed
  have low: "memory_low \<le> memory_high - p" using fit assms(1) by (simp add: n_def)
  have "int (memory_high - p) - int memory_low = int (memory_high - p - memory_low)" using low by (simp only: of_nat_diff)
  moreover have "memory_high - p - memory_low < 2 ^ 64" using assms(2) by simp
  ultimately have "u64 (int (memory_high - p) - int memory_low) = memory_high - p - memory_low" by (simp only: u64_of_nat)
  then show ?thesis
    unfolding arrangeMemory_def n p_def [symmetric] Let_def start
    using low ph fit p4 dvd_diff_nat [OF assms(3) p4] by (simp add: n_def)
qed

lemma memory_arranged_witness:
  "pagesLength (arrangeMemory 0x200000 0x40000000) div 4096 \<le> pageDescriptorsLength (arrangeMemory 0x200000 0x40000000)"
  using memory_arranged [of "0x200000" "0x40000000"] by (simp add: Let_def)

text \<open>Otherwise the descriptors can be too short.\<close>

lemma memory_arranged_short:
  "pagesLength (arrangeMemory 4096 8193) div 4096 = 1 \<and> pageDescriptorsLength (arrangeMemory 4096 8193) = 0"
  by (simp add: arrangeMemory_def downalign_def)

text \<open>A backtrace has at most 65 lines, whatever the stack holds.\<close>

lemma backtrace_loop_bound: "length (backtrace_loop mem i old rbp) \<le> 65 - i" if "i \<le> 64"
  using that
proof (induction mem i old rbp rule: backtrace_loop.induct)
  case (1 mem i old rbp)
  show ?case
  proof (cases "i = 64")
    case True
    then show ?thesis by (subst backtrace_loop.simps) (simp add: Let_def)
  next
    case False
    then have "i + 1 \<le> 64" using 1(2) by simp
    with 1(1) [OF _ refl] show ?thesis by (subst backtrace_loop.simps) (auto simp: Let_def)
  qed
qed

lemma backtrace_bound: "length (backtrace mem rbp) \<le> 65"
  using backtrace_loop_bound [of 0 mem 0 rbp] by (simp add: backtrace_def)

end
