(* ===== verification/SHA1.thy ===== *)
theory SHA1
  imports Prelude
begin

text \<open>
  The hash of \<open>src/SHA1.cpp\<close> that the command \<open>sha1\<close> of the shell computes, as the macros at the head of the
  file set it up: little-endian, with wiping.

  \<open>Transform\<close> is the unrolled compression function: 80 steps on five variables whose roles move round from step
  to step, and a schedule of 16 words that is overwritten in place. The lists \<open>rows0\<close> to \<open>rows4\<close> are its calls
  of the macros, in their order. \<open>Update\<close> collects bytes until a block of 64 is full. The integers
  are \<open>32 word\<close>; the loop over blocks in \<open>Update\<close> can run on for ever when its index wraps, and is a
  partial function. The workspace \<open>m_block\<close> is its 16 words, since every access but the \<open>memcpy\<close> is by words;
  \<open>le32\<close> is the word that the machine reads from four bytes.

  \<open>sha1_spec\<close> is the hash as FIPS 180-4 defines it. The lemmas show that every sequence of
  calls of \<open>Update\<close> followed by \<open>Final\<close> leaves in \<open>m_digest\<close> the hash of all bytes given.
\<close>

unbundle bit_operations_syntax

section \<open>The class CSHA1\<close>

definition le32 :: "byte list \<Rightarrow> 32 word" where
  "le32 bs = ucast (bs ! 0) OR push_bit 8 (ucast (bs ! 1)) OR push_bit 16 (ucast (bs ! 2)) OR push_bit 24 (ucast (bs ! 3))"

definition ROL32 :: "32 word \<Rightarrow> nat \<Rightarrow> 32 word" where
  "ROL32 v n = push_bit n v OR drop_bit (32 - n) v"

text \<open>\<open>SHABLK0\<close> and \<open>SHABLK\<close>: the value and the block after the assignment.\<close>

definition SHABLK0 :: "nat \<Rightarrow> 32 word list \<Rightarrow> 32 word \<times> 32 word list" where
  "SHABLK0 i l = (let x = (ROL32 (l ! i) 24 AND 0xFF00FF00) OR (ROL32 (l ! i) 8 AND 0x00FF00FF) in (x, l[i := x]))"

definition SHABLK :: "nat \<Rightarrow> 32 word list \<Rightarrow> 32 word \<times> 32 word list" where
  "SHABLK i l =
     (let x = ROL32 (l ! ((i + 13) mod 16) XOR l ! ((i + 8) mod 16) XOR l ! ((i + 2) mod 16) XOR l ! (i mod 16)) 1
      in (x, l[i mod 16 := x]))"

text \<open>The variables \<open>a\<close> to \<open>e\<close> of \<open>Transform\<close>, and the five macros for a step.\<close>

datatype reg = RA | RB | RC | RD | RE

type_synonym step_state = "(reg \<Rightarrow> 32 word) \<times> 32 word list"

definition S_R0 :: "reg \<times> reg \<times> reg \<times> reg \<times> reg \<times> nat \<Rightarrow> step_state \<Rightarrow> step_state" where
  "S_R0 = (\<lambda>(v, w, x, y, z, i) (r, l).
     let (k, l) = SHABLK0 i l;
         r = r(z := r z + (((r w AND (r x XOR r y)) XOR r y) + k + 0x5A827999 + ROL32 (r v) 5));
         r = r(w := ROL32 (r w) 30)
     in (r, l))"

definition S_R1 :: "reg \<times> reg \<times> reg \<times> reg \<times> reg \<times> nat \<Rightarrow> step_state \<Rightarrow> step_state" where
  "S_R1 = (\<lambda>(v, w, x, y, z, i) (r, l).
     let (k, l) = SHABLK i l;
         r = r(z := r z + (((r w AND (r x XOR r y)) XOR r y) + k + 0x5A827999 + ROL32 (r v) 5));
         r = r(w := ROL32 (r w) 30)
     in (r, l))"

definition S_R2 :: "reg \<times> reg \<times> reg \<times> reg \<times> reg \<times> nat \<Rightarrow> step_state \<Rightarrow> step_state" where
  "S_R2 = (\<lambda>(v, w, x, y, z, i) (r, l).
     let (k, l) = SHABLK i l;
         r = r(z := r z + ((r w XOR r x XOR r y) + k + 0x6ED9EBA1 + ROL32 (r v) 5));
         r = r(w := ROL32 (r w) 30)
     in (r, l))"

definition S_R3 :: "reg \<times> reg \<times> reg \<times> reg \<times> reg \<times> nat \<Rightarrow> step_state \<Rightarrow> step_state" where
  "S_R3 = (\<lambda>(v, w, x, y, z, i) (r, l).
     let (k, l) = SHABLK i l;
         r = r(z := r z + ((((r w OR r x) AND r y) OR (r w AND r x)) + k + 0x8F1BBCDC + ROL32 (r v) 5));
         r = r(w := ROL32 (r w) 30)
     in (r, l))"

definition S_R4 :: "reg \<times> reg \<times> reg \<times> reg \<times> reg \<times> nat \<Rightarrow> step_state \<Rightarrow> step_state" where
  "S_R4 = (\<lambda>(v, w, x, y, z, i) (r, l).
     let (k, l) = SHABLK i l;
         r = r(z := r z + ((r w XOR r x XOR r y) + k + 0xCA62C1D6 + ROL32 (r v) 5));
         r = r(w := ROL32 (r w) 30)
     in (r, l))"

definition rows0 :: "(reg \<times> reg \<times> reg \<times> reg \<times> reg \<times> nat) list" where
  "rows0 = [
    (RA, RB, RC, RD, RE, 0), (RE, RA, RB, RC, RD, 1), (RD, RE, RA, RB, RC, 2), (RC, RD, RE, RA, RB, 3),
    (RB, RC, RD, RE, RA, 4), (RA, RB, RC, RD, RE, 5), (RE, RA, RB, RC, RD, 6), (RD, RE, RA, RB, RC, 7),
    (RC, RD, RE, RA, RB, 8), (RB, RC, RD, RE, RA, 9), (RA, RB, RC, RD, RE, 10), (RE, RA, RB, RC, RD, 11),
    (RD, RE, RA, RB, RC, 12), (RC, RD, RE, RA, RB, 13), (RB, RC, RD, RE, RA, 14), (RA, RB, RC, RD, RE, 15)]"

definition rows1 :: "(reg \<times> reg \<times> reg \<times> reg \<times> reg \<times> nat) list" where
  "rows1 = [
    (RE, RA, RB, RC, RD, 16), (RD, RE, RA, RB, RC, 17), (RC, RD, RE, RA, RB, 18), (RB, RC, RD, RE, RA, 19)]"

definition rows2 :: "(reg \<times> reg \<times> reg \<times> reg \<times> reg \<times> nat) list" where
  "rows2 = [
    (RA, RB, RC, RD, RE, 20), (RE, RA, RB, RC, RD, 21), (RD, RE, RA, RB, RC, 22), (RC, RD, RE, RA, RB, 23),
    (RB, RC, RD, RE, RA, 24), (RA, RB, RC, RD, RE, 25), (RE, RA, RB, RC, RD, 26), (RD, RE, RA, RB, RC, 27),
    (RC, RD, RE, RA, RB, 28), (RB, RC, RD, RE, RA, 29), (RA, RB, RC, RD, RE, 30), (RE, RA, RB, RC, RD, 31),
    (RD, RE, RA, RB, RC, 32), (RC, RD, RE, RA, RB, 33), (RB, RC, RD, RE, RA, 34), (RA, RB, RC, RD, RE, 35),
    (RE, RA, RB, RC, RD, 36), (RD, RE, RA, RB, RC, 37), (RC, RD, RE, RA, RB, 38), (RB, RC, RD, RE, RA, 39)]"

definition rows3 :: "(reg \<times> reg \<times> reg \<times> reg \<times> reg \<times> nat) list" where
  "rows3 = [
    (RA, RB, RC, RD, RE, 40), (RE, RA, RB, RC, RD, 41), (RD, RE, RA, RB, RC, 42), (RC, RD, RE, RA, RB, 43),
    (RB, RC, RD, RE, RA, 44), (RA, RB, RC, RD, RE, 45), (RE, RA, RB, RC, RD, 46), (RD, RE, RA, RB, RC, 47),
    (RC, RD, RE, RA, RB, 48), (RB, RC, RD, RE, RA, 49), (RA, RB, RC, RD, RE, 50), (RE, RA, RB, RC, RD, 51),
    (RD, RE, RA, RB, RC, 52), (RC, RD, RE, RA, RB, 53), (RB, RC, RD, RE, RA, 54), (RA, RB, RC, RD, RE, 55),
    (RE, RA, RB, RC, RD, 56), (RD, RE, RA, RB, RC, 57), (RC, RD, RE, RA, RB, 58), (RB, RC, RD, RE, RA, 59)]"

definition rows4 :: "(reg \<times> reg \<times> reg \<times> reg \<times> reg \<times> nat) list" where
  "rows4 = [
    (RA, RB, RC, RD, RE, 60), (RE, RA, RB, RC, RD, 61), (RD, RE, RA, RB, RC, 62), (RC, RD, RE, RA, RB, 63),
    (RB, RC, RD, RE, RA, 64), (RA, RB, RC, RD, RE, 65), (RE, RA, RB, RC, RD, 66), (RD, RE, RA, RB, RC, 67),
    (RC, RD, RE, RA, RB, 68), (RB, RC, RD, RE, RA, 69), (RA, RB, RC, RD, RE, 70), (RE, RA, RB, RC, RD, 71),
    (RD, RE, RA, RB, RC, 72), (RC, RD, RE, RA, RB, 73), (RB, RC, RD, RE, RA, 74), (RA, RB, RC, RD, RE, 75),
    (RE, RA, RB, RC, RD, 76), (RD, RE, RA, RB, RC, 77), (RC, RD, RE, RA, RB, 78), (RB, RC, RD, RE, RA, 79)]"

record csha1 =
  m_state :: "32 word list"
  m_count :: "32 word \<times> 32 word"
  m_buffer :: "byte list"
  m_digest :: "byte list"
  m_block :: "32 word list"

definition load_block :: "byte list \<Rightarrow> 32 word list" where
  "load_block bs = map (\<lambda>i. le32 (take 4 (drop (4 * i) bs))) [0..<16]"

definition registers :: "32 word list \<Rightarrow> reg \<Rightarrow> 32 word" where
  "registers st r = (case r of RA \<Rightarrow> st ! 0 | RB \<Rightarrow> st ! 1 | RC \<Rightarrow> st ! 2 | RD \<Rightarrow> st ! 3 | RE \<Rightarrow> st ! 4)"

definition Transform :: "byte list \<Rightarrow> csha1 \<Rightarrow> csha1" where
  "Transform pBuffer s =
     (let st = m_state s;
          p = (registers st, load_block pBuffer);
          p = fold S_R0 rows0 p;
          p = fold S_R1 rows1 p;
          p = fold S_R2 rows2 p;
          p = fold S_R3 rows3 p;
          (r, l) = fold S_R4 rows4 p
      in s\<lparr>m_state := [st ! 0 + r RA, st ! 1 + r RB, st ! 2 + r RC, st ! 3 + r RD, st ! 4 + r RE], m_block := l\<rparr>)"

definition Reset :: "csha1 \<Rightarrow> csha1" where
  "Reset s = s\<lparr>m_state := [0x67452301, 0xEFCDAB89, 0x98BADCFE, 0x10325476, 0xC3D2E1F0], m_count := (0, 0)\<rparr>"

text \<open>\<open>Update\<close>: \<open>update_loop\<close> is the \<open>for\<close> loop over whole blocks of the data; a block past the end of the data is undefined.\<close>

partial_function (option) update_loop :: "byte list \<Rightarrow> 32 word \<Rightarrow> 32 word \<Rightarrow> csha1 \<Rightarrow> (32 word \<times> csha1) option" where
  "update_loop pbData uLen i s =
     (if i + 63 < uLen then
        if length pbData < unat i + 64 then None
        else update_loop pbData uLen (i + 64) (Transform (take 64 (drop (unat i) pbData)) s)
      else Some (i, s))"

definition copy_in :: "nat \<Rightarrow> byte list \<Rightarrow> csha1 \<Rightarrow> csha1" where
  "copy_in j bs s = s\<lparr>m_buffer := take j (m_buffer s) @ bs @ drop (j + length bs) (m_buffer s)\<rparr>"

definition Update :: "byte list \<Rightarrow> 32 word \<Rightarrow> csha1 \<Rightarrow> (unit \<times> csha1) option" where
  "Update pbData uLen s = do {
     let j = drop_bit 3 (fst (m_count s)) AND 0x3F;
     let c0 = fst (m_count s) + push_bit 3 uLen;
     let c1 = (if c0 < push_bit 3 uLen then snd (m_count s) + 1 else snd (m_count s));
     let s = s\<lparr>m_count := (c0, c1 + drop_bit 29 uLen)\<rparr>;
     (i, j, s) \<leftarrow> (if 63 < j + uLen then do {
         let i = 64 - j;
         let s = copy_in (unat j) (take (unat i) pbData) s;
         (i, s) \<leftarrow> update_loop pbData uLen i (Transform (m_buffer s) s);
         Some (i, 0, s)
       } else Some (0, j, s));
     if uLen - i \<noteq> 0 then Some ((), copy_in (unat j) (take (unat (uLen - i)) (drop (unat i) pbData)) s)
     else Some ((), s)
   }"

text \<open>\<open>Final\<close>, with the wiping at its end.\<close>

definition pbFinalCount :: "32 word \<times> 32 word \<Rightarrow> byte list" where
  "pbFinalCount c = map (\<lambda>i. ucast (drop_bit ((3 - (i mod 4)) * 8) (if 4 \<le> i then fst c else snd c) AND 0xFF)) [0..<8]"

partial_function (option) pad_loop :: "csha1 \<Rightarrow> (unit \<times> csha1) option" where
  "pad_loop s =
     (if fst (m_count s) AND 504 \<noteq> 448 then do { (u, s) \<leftarrow> Update [0] 1 s; pad_loop s } else Some ((), s))"

definition wipe :: "csha1 \<Rightarrow> csha1" where
  "wipe s = Transform (replicate 64 0) (s\<lparr>m_buffer := replicate 64 0, m_state := replicate 5 0, m_count := (0, 0)\<rparr>)"

definition Final :: "csha1 \<Rightarrow> (unit \<times> csha1) option" where
  "Final s = do {
     let count = pbFinalCount (m_count s);
     (u, s) \<leftarrow> Update [0x80] 1 s;
     (u, s) \<leftarrow> pad_loop s;
     (u, s) \<leftarrow> Update count 8 s;
     let s = s\<lparr>m_digest := map (\<lambda>i. ucast (drop_bit ((3 - (i mod 4)) * 8) (m_state s ! (i div 4)) AND 0xFF)) [0..<20]\<rparr>;
     Some ((), wipe s)
   }"

text \<open>\<open>ReportHash\<close>: \<open>%02X\<close> and \<open>%u\<close> of the bytes.\<close>

datatype report_type = REPORT_HEX | REPORT_DIGIT | REPORT_HEX_SHORT

definition hex_char :: "nat \<Rightarrow> char" where
  "hex_char n = ''0123456789ABCDEF'' ! n"

definition hex2 :: "byte \<Rightarrow> string" where
  "hex2 b = [hex_char (unat b div 16), hex_char (unat b mod 16)]"

definition decimal :: "byte \<Rightarrow> string" where
  "decimal b = (let n = unat b in
     (if 100 \<le> n then [hex_char (n div 100)] else []) @ (if 10 \<le> n then [hex_char (n div 10 mod 10)] else []) @ [hex_char (n mod 10)])"

definition ReportHash :: "report_type \<Rightarrow> csha1 \<Rightarrow> string" where
  "ReportHash t s = (case t of
     REPORT_HEX \<Rightarrow> hex2 (m_digest s ! 0) @ concat (map (\<lambda>b. '' '' @ hex2 b) (tl (m_digest s)))
   | REPORT_HEX_SHORT \<Rightarrow> hex2 (m_digest s ! 0) @ concat (map hex2 (tl (m_digest s)))
   | REPORT_DIGIT \<Rightarrow> decimal (m_digest s ! 0) @ concat (map (\<lambda>b. '' '' @ decimal b) (tl (m_digest s))))"

definition GetHash :: "csha1 \<Rightarrow> byte list" where
  "GetHash = m_digest"


section \<open>The hash as the standard defines it\<close>

definition be32 :: "byte list \<Rightarrow> 32 word" where
  "be32 bs = push_bit 24 (ucast (bs ! 0)) OR push_bit 16 (ucast (bs ! 1)) OR push_bit 8 (ucast (bs ! 2)) OR ucast (bs ! 3)"

definition be_bytes :: "nat \<Rightarrow> nat \<Rightarrow> byte list" where
  "be_bytes n x = rev (le_bytes n x)"

fun schedule :: "byte list \<Rightarrow> nat \<Rightarrow> 32 word" where
  "schedule bs t =
     (if t < 16 then be32 (take 4 (drop (4 * t) bs))
      else word_rotl 1 (schedule bs (t - 3) XOR schedule bs (t - 8) XOR schedule bs (t - 14) XOR schedule bs (t - 16)))"

declare schedule.simps [simp del]

definition mix :: "nat \<Rightarrow> 32 word \<Rightarrow> 32 word \<Rightarrow> 32 word \<Rightarrow> 32 word" where
  "mix t x y z =
     (if t < 20 then (x AND y) XOR (NOT x AND z)
      else if 40 \<le> t \<and> t < 60 then (x AND y) XOR (x AND z) XOR (y AND z)
      else x XOR y XOR z)"

definition round_const :: "nat \<Rightarrow> 32 word" where
  "round_const t = (if t < 20 then 0x5A827999 else if t < 40 then 0x6ED9EBA1 else if t < 60 then 0x8F1BBCDC else 0xCA62C1D6)"

type_synonym five = "32 word \<times> 32 word \<times> 32 word \<times> 32 word \<times> 32 word"

definition spec_step :: "byte list \<Rightarrow> nat \<Rightarrow> five \<Rightarrow> five" where
  "spec_step bs t = (\<lambda>(a, b, c, d, e). (word_rotl 5 a + mix t b c d + e + round_const t + schedule bs t, a, word_rotl 30 b, c, d))"

definition spec_steps :: "byte list \<Rightarrow> nat \<Rightarrow> five \<Rightarrow> five" where
  "spec_steps bs n = fold (spec_step bs) [0..<n]"

definition compress :: "32 word list \<Rightarrow> byte list \<Rightarrow> 32 word list" where
  "compress h bs =
     (case spec_steps bs 80 (h ! 0, h ! 1, h ! 2, h ! 3, h ! 4) of
        (a, b, c, d, e) \<Rightarrow> [h ! 0 + a, h ! 1 + b, h ! 2 + c, h ! 3 + d, h ! 4 + e])"

definition initial_hash :: "32 word list" where
  "initial_hash = [0x67452301, 0xEFCDAB89, 0x98BADCFE, 0x10325476, 0xC3D2E1F0]"

definition sha_blocks :: "byte list \<Rightarrow> byte list list" where
  "sha_blocks m = map (\<lambda>i. take 64 (drop (64 * i) m)) [0..<length m div 64]"

definition sha_chain :: "byte list \<Rightarrow> 32 word list" where
  "sha_chain m = foldl compress initial_hash (sha_blocks m)"

definition padding :: "nat \<Rightarrow> byte list" where
  "padding n = 0x80 # replicate ((119 - n mod 64) mod 64) 0 @ be_bytes 8 (8 * n)"

definition sha1_spec :: "byte list \<Rightarrow> byte list" where
  "sha1_spec m = concat (map (\<lambda>w. be_bytes 4 (unat w)) (sha_chain (m @ padding (length m))))"


section \<open>The compression function\<close>

lemma ROL32_rotl:
  assumes "0 < n" and "n < 32"
  shows "ROL32 v n = word_rotl n v"
proof (rule bit_word_eqI)
  fix k :: nat
  assume "k < LENGTH(32)"
  then have k: "k < 32" by simp
  have r: "bit (word_rotl n v) k \<longleftrightarrow> bit v ((k + (32 - n)) mod 32)"
    using k assms by (simp only: bit_word_rotl_iff) simp
  have l: "bit (ROL32 v n) k \<longleftrightarrow> n \<le> k \<and> bit v (k - n) \<or> bit v (32 - n + k)"
    unfolding ROL32_def using k by (simp add: bit_or_iff bit_push_bit_iff bit_drop_bit_eq)
  have big: "\<not> bit v m" if "32 \<le> m" for m using that bit_imp_le_length [of v m] by auto
  show "bit (ROL32 v n) k = bit (word_rotl n v) k"
  proof (cases "k < n")
    case True
    then have "(k + (32 - n)) mod 32 = 32 - n + k" using assms by simp
    with True show ?thesis unfolding l r by simp
  next
    case False
    then have "(k + (32 - n)) mod 32 = k - n" using assms k by (simp add: mod_if)
    with False assms show ?thesis unfolding l r using big [of "32 - n + k"] by simp
  qed
qed

lemma byte_masks: "(0xFF00FF00 :: 32 word) = push_bit 24 (mask 8) OR push_bit 8 (mask 8)"
  "(0x00FF00FF :: 32 word) = push_bit 16 (mask 8) OR mask 8"
  by (simp_all add: mask_eq_exp_minus_1)

lemma bit_byte: "bit (b :: byte) m \<Longrightarrow> m < 8"
  using bit_imp_le_length [of b m] by simp

lemma byte_index:
  fixes n :: nat
  assumes "n < 32"
  obtains m where "n = m" "m < 8" | m where "n = 8 + m" "m < 8" | m where "n = 16 + m" "m < 8" | m where "n = 24 + m" "m < 8"
proof -
  consider "n < 8" | "8 \<le> n" "n < 16" | "16 \<le> n" "n < 24" | "24 \<le> n" using assms by linarith
  then show ?thesis
  proof cases
    case 1 then show ?thesis using that(1) [of n] by simp
  next
    case 2 then show ?thesis using that(2) [of "n - 8"] by simp
  next
    case 3 then show ?thesis using that(3) [of "n - 16"] by simp
  next
    case 4 then show ?thesis using that(4) [of "n - 24"] assms by simp
  qed
qed

lemma bit_le32:
  assumes "m < 8"
  shows "bit (le32 bs) m \<longleftrightarrow> bit (bs ! 0) m" "bit (le32 bs) (8 + m) \<longleftrightarrow> bit (bs ! 1) m"
    "bit (le32 bs) (16 + m) \<longleftrightarrow> bit (bs ! 2) m" "bit (le32 bs) (24 + m) \<longleftrightarrow> bit (bs ! 3) m"
  using assms by (auto simp: le32_def bit_simps dest: bit_byte)

lemma bit_be32:
  assumes "m < 8"
  shows "bit (be32 bs) m \<longleftrightarrow> bit (bs ! 3) m" "bit (be32 bs) (8 + m) \<longleftrightarrow> bit (bs ! 2) m"
    "bit (be32 bs) (16 + m) \<longleftrightarrow> bit (bs ! 1) m" "bit (be32 bs) (24 + m) \<longleftrightarrow> bit (bs ! 0) m"
  using assms by (auto simp: be32_def bit_simps dest: bit_byte)

lemma swap_bytes: "(ROL32 (le32 bs) 24 AND 0xFF00FF00) OR (ROL32 (le32 bs) 8 AND 0x00FF00FF) = be32 bs"
proof (rule bit_word_eqI)
  fix n :: nat
  assume "n < LENGTH(32)"
  then have n: "n < 32" by simp
  have rol: "bit (ROL32 (le32 bs) 24) n \<longleftrightarrow> bit (le32 bs) ((n + 8) mod 32)"
    "bit (ROL32 (le32 bs) 8) n \<longleftrightarrow> bit (le32 bs) ((n + 24) mod 32)"
    using n by (simp_all only: ROL32_rotl bit_word_rotl_iff) simp_all
  have mask: "bit (0xFF00FF00 :: 32 word) n \<longleftrightarrow> 24 \<le> n \<or> 8 \<le> n \<and> n < 16"
    "bit (0x00FF00FF :: 32 word) n \<longleftrightarrow> n < 8 \<or> 16 \<le> n \<and> n < 24"
    unfolding byte_masks using n by (auto simp: bit_simps)
  have wrapped: "m < 8 \<Longrightarrow> (40 + m) mod 32 = 8 + m" for m :: nat by (simp add: mod_if)
  show "bit ((ROL32 (le32 bs) 24 AND 0xFF00FF00) OR (ROL32 (le32 bs) 8 AND 0x00FF00FF)) n = bit (be32 bs) n"
    unfolding bit_or_iff bit_and_iff rol mask
    by (rule byte_index [OF n]) (simp_all add: bit_le32 bit_be32 wrapped add.commute [of _ 24] add.commute [of _ 8])
qed

lemma mix_0: "t < 20 \<Longrightarrow> (x AND (y XOR z)) XOR z = mix t x y z"
  by (rule bit_word_eqI) (auto simp: mix_def bit_simps)

lemma mix_3: "40 \<le> t \<Longrightarrow> t < 60 \<Longrightarrow> ((x OR y) AND z) OR (x AND y) = mix t x y z"
  by (rule bit_word_eqI) (auto simp: mix_def bit_simps)

lemma mix_parity: "20 \<le> t \<Longrightarrow> t < 40 \<or> 60 \<le> t \<Longrightarrow> x XOR y XOR z = mix t x y z"
  by (auto simp: mix_def)

text \<open>Step \<open>i\<close> gives the five variables the roles \<open>step_role i 0\<close> to \<open>step_role i 4\<close>.\<close>

definition step_role :: "nat \<Rightarrow> nat \<Rightarrow> reg" where
  "step_role i k = [RA, RB, RC, RD, RE] ! ((4 * i + k) mod 5)"

definition step_row :: "nat \<Rightarrow> reg \<times> reg \<times> reg \<times> reg \<times> reg \<times> nat" where
  "step_row i = (step_role i 0, step_role i 1, step_role i 2, step_role i 3, step_role i 4, i)"

lemma step_rows: "rows0 = map step_row [0..<16]" "rows1 = map step_row [16..<20]" "rows2 = map step_row [20..<40]"
  "rows3 = map step_row [40..<60]" "rows4 = map step_row [60..<80]"
  by (simp_all add: rows0_def rows1_def rows2_def rows3_def rows4_def step_row_def step_role_def upt_rec)

definition five_of :: "nat \<Rightarrow> (reg \<Rightarrow> 32 word) \<Rightarrow> five" where
  "five_of i r = (r (step_role i 0), r (step_role i 1), r (step_role i 2), r (step_role i 3), r (step_role i 4))"

lemma role_mod: "step_role i k = step_role (i mod 5) k"
proof -
  have "(4 * i + k) mod 5 = (4 * (i mod 5) + k) mod 5" by (metis mod_add_left_eq mod_mult_right_eq)
  then show ?thesis by (simp add: step_role_def)
qed

lemma five_step:
  "five_of (Suc i) (r(step_role i 4 := t, step_role i 1 := u)) = (t, r (step_role i 0), u, r (step_role i 2), r (step_role i 3))"
  "step_role i 4 \<noteq> step_role i 0" "step_role i 4 \<noteq> step_role i 1" "step_role i 4 \<noteq> step_role i 2" "step_role i 4 \<noteq> step_role i 3"
proof -
  have s: "step_role (Suc i) k = step_role (Suc (i mod 5)) k" for k by (metis mod_Suc_eq role_mod)
  have "i mod 5 < 5" by simp
  then consider "i mod 5 = 0" | "i mod 5 = 1" | "i mod 5 = 2" | "i mod 5 = 3" | "i mod 5 = 4" by linarith
  then show "five_of (Suc i) (r(step_role i 4 := t, step_role i 1 := u)) = (t, r (step_role i 0), u, r (step_role i 2), r (step_role i 3))"
    "step_role i 4 \<noteq> step_role i 0" "step_role i 4 \<noteq> step_role i 1" "step_role i 4 \<noteq> step_role i 2" "step_role i 4 \<noteq> step_role i 3"
    unfolding five_of_def s role_mod [of i] by (cases; simp add: step_role_def)+
qed

definition block_ok :: "byte list \<Rightarrow> nat \<Rightarrow> 32 word list \<Rightarrow> bool" where
  "block_ok bs i l \<longleftrightarrow> length l = 16 \<and> (\<forall>t < i. i \<le> t + 16 \<longrightarrow> l ! (t mod 16) = schedule bs t) \<and>
     (\<forall>k < 16. i \<le> k \<longrightarrow> l ! k = le32 (take 4 (drop (4 * k) bs)))"

lemma block_ok_load: "block_ok bs 0 (load_block bs)"
  by (simp add: block_ok_def load_block_def)

lemma SHABLK0_ok:
  assumes "block_ok bs i l" and "i < 16"
  shows "fst (SHABLK0 i l) = schedule bs i \<and> block_ok bs (Suc i) (snd (SHABLK0 i l))"
proof -
  have "l ! i = le32 (take 4 (drop (4 * i) bs))" using assms by (simp add: block_ok_def)
  then have "fst (SHABLK0 i l) = schedule bs i" using assms(2) by (simp add: SHABLK0_def Let_def schedule.simps [of bs i] swap_bytes)
  moreover have "snd (SHABLK0 i l) = l[i := fst (SHABLK0 i l)]" by (simp add: SHABLK0_def Let_def)
  ultimately show ?thesis using assms by (auto simp: block_ok_def less_Suc_eq nth_list_update)
qed

lemma SHABLK_ok:
  assumes "block_ok bs i l" and "16 \<le> i"
  shows "fst (SHABLK i l) = schedule bs i \<and> block_ok bs (Suc i) (snd (SHABLK i l))"
proof -
  have at: "l ! ((i + (16 - d)) mod 16) = schedule bs (i - d)" if "0 < d" "d \<le> 16" for d
  proof -
    have "(i + (16 - d)) mod 16 = (i - d + 16) mod 16" using that assms(2) by simp
    then have "(i + (16 - d)) mod 16 = (i - d) mod 16" by simp
    then show ?thesis using assms that by (simp add: block_ok_def)
  qed
  have "fst (SHABLK i l) = schedule bs i"
    using at [of 3] at [of 8] at [of 14] at [of 16] assms(2)
    by (simp add: SHABLK_def Let_def ROL32_rotl schedule.simps [of bs i])
  moreover have "snd (SHABLK i l) = l[i mod 16 := fst (SHABLK i l)]" by (simp add: SHABLK_def Let_def)
  moreover have "i mod 16 \<noteq> t mod 16" if "t < i" "Suc i \<le> t + 16" for t
  proof
    assume "i mod 16 = t mod 16"
    then have "16 dvd i - t" using that by (simp flip: mod_eq_dvd_iff_nat)
    then show False using that by (auto dest!: dvd_imp_le)
  qed
  ultimately show ?thesis using assms by (auto simp: block_ok_def less_Suc_eq nth_list_update)
qed

text \<open>After \<open>i\<close> steps the variables hold what the standard has, and the block the last words of the schedule.\<close>

definition step_ok :: "byte list \<Rightarrow> five \<Rightarrow> nat \<Rightarrow> step_state \<Rightarrow> bool" where
  "step_ok bs h i p \<longleftrightarrow> five_of i (fst p) = spec_steps bs i h \<and> block_ok bs i (snd p)"

lemma step_ok_next:
  assumes "step_ok bs h i (r, l)" and "k = schedule bs i" and "block_ok bs (Suc i) l'"
    and "m = mix i (r (step_role i 1)) (r (step_role i 2)) (r (step_role i 3))" and "c = round_const i"
  shows "step_ok bs h (Suc i) (r(step_role i 4 := r (step_role i 4) + (m + k + c + ROL32 (r (step_role i 0)) 5),
      step_role i 1 := ROL32 (r (step_role i 1)) 30), l')"
proof -
  have "spec_steps bs (Suc i) h = spec_step bs i (five_of i r)"
    using assms(1) by (simp add: step_ok_def spec_steps_def)
  then show ?thesis using assms(2-)
    by (simp add: step_ok_def five_step(1) [unfolded One_nat_def] five_of_def [of i] spec_step_def ROL32_rotl ac_simps)
qed

lemma S_R_ok:
  assumes "step_ok bs h i p"
  shows "i < 16 \<Longrightarrow> step_ok bs h (Suc i) (S_R0 (step_row i) p)"
    and "16 \<le> i \<Longrightarrow> i < 20 \<Longrightarrow> step_ok bs h (Suc i) (S_R1 (step_row i) p)"
    and "20 \<le> i \<Longrightarrow> i < 40 \<Longrightarrow> step_ok bs h (Suc i) (S_R2 (step_row i) p)"
    and "40 \<le> i \<Longrightarrow> i < 60 \<Longrightarrow> step_ok bs h (Suc i) (S_R3 (step_row i) p)"
    and "60 \<le> i \<Longrightarrow> step_ok bs h (Suc i) (S_R4 (step_row i) p)"
proof -
  obtain r l where p: "p = (r, l)" by fastforce
  have b: "block_ok bs i l" and s: "step_ok bs h i (r, l)" using assms by (simp_all add: step_ok_def p)
  have u: "(r(step_role i 4 := t)) (step_role i 1) = r (step_role i 1)" for t using five_step(3) [of i] by simp
  note d = p step_row_def case_prod_beta Let_def fst_conv snd_conv prod.case u
  show "step_ok bs h (Suc i) (S_R0 (step_row i) p)" if "i < 16"
    unfolding S_R0_def d using SHABLK0_ok [OF b that] that
    by (intro step_ok_next [OF s]) (simp_all add: mix_0 round_const_def)
  show "step_ok bs h (Suc i) (S_R1 (step_row i) p)" if "16 \<le> i" "i < 20"
    unfolding S_R1_def d using SHABLK_ok [OF b that(1)] that
    by (intro step_ok_next [OF s]) (simp_all add: mix_0 round_const_def)
  show "step_ok bs h (Suc i) (S_R2 (step_row i) p)" if "20 \<le> i" "i < 40"
    unfolding S_R2_def d using SHABLK_ok [OF b] that
    by (intro step_ok_next [OF s]) (simp_all add: mix_parity round_const_def)
  show "step_ok bs h (Suc i) (S_R3 (step_row i) p)" if "40 \<le> i" "i < 60"
    unfolding S_R3_def d using SHABLK_ok [OF b] that
    by (intro step_ok_next [OF s]) (simp_all add: mix_3 round_const_def)
  show "step_ok bs h (Suc i) (S_R4 (step_row i) p)" if "60 \<le> i"
    unfolding S_R4_def d using SHABLK_ok [OF b] that
    by (intro step_ok_next [OF s]) (simp_all add: mix_parity round_const_def)
qed

lemma fold_steps:
  assumes "step_ok bs h m p" and "m \<le> n"
    and "\<And>i p. step_ok bs h i p \<Longrightarrow> m \<le> i \<Longrightarrow> i < n \<Longrightarrow> step_ok bs h (Suc i) (S (step_row i) p)"
  shows "step_ok bs h n (fold S (map step_row [m..<n]) p)"
  using assms(2,3)
proof (induction n rule: dec_induct)
  case base
  then show ?case using assms(1) by simp
next
  case (step n)
  then show ?case by simp
qed

lemma Transform_ok:
  assumes "length (m_state s) = 5"
  shows "m_state (Transform bs s) = compress (m_state s) bs" and "m_count (Transform bs s) = m_count s"
    "m_buffer (Transform bs s) = m_buffer s" "m_digest (Transform bs s) = m_digest s"
proof -
  let ?h = "(m_state s ! 0, m_state s ! 1, m_state s ! 2, m_state s ! 3, m_state s ! 4)"
  have "step_ok bs ?h 0 (registers (m_state s), load_block bs)"
    by (simp add: step_ok_def spec_steps_def five_of_def step_role_def registers_def block_ok_load)
  then have "step_ok bs ?h 16 (fold S_R0 rows0 (registers (m_state s), load_block bs))"
    unfolding step_rows by (rule fold_steps) (simp_all add: S_R_ok)
  then have "step_ok bs ?h 20 (fold S_R1 rows1 (fold S_R0 rows0 (registers (m_state s), load_block bs)))"
    unfolding step_rows(2) by (rule fold_steps) (simp_all add: S_R_ok)
  then have "step_ok bs ?h 40 (fold S_R2 rows2 (fold S_R1 rows1 (fold S_R0 rows0 (registers (m_state s), load_block bs))))"
    unfolding step_rows(3) by (rule fold_steps) (simp_all add: S_R_ok)
  then have "step_ok bs ?h 60 (fold S_R3 rows3 (fold S_R2 rows2 (fold S_R1 rows1 (fold S_R0 rows0 (registers (m_state s), load_block bs)))))"
    unfolding step_rows(4) by (rule fold_steps) (simp_all add: S_R_ok)
  then have "step_ok bs ?h 80 (fold S_R4 rows4 (fold S_R3 rows3 (fold S_R2 rows2 (fold S_R1 rows1 (fold S_R0 rows0 (registers (m_state s), load_block bs))))))"
    unfolding step_rows(5) by (rule fold_steps) (simp_all add: S_R_ok)
  then have "spec_steps bs 80 ?h = five_of 80 (fst (fold S_R4 rows4 (fold S_R3 rows3 (fold S_R2 rows2 (fold S_R1 rows1
      (fold S_R0 rows0 (registers (m_state s), load_block bs)))))))"
    by (simp add: step_ok_def)
  then show "m_state (Transform bs s) = compress (m_state s) bs"
    unfolding Transform_def compress_def Let_def case_prod_beta by (simp add: five_of_def step_role_def)
  show "m_count (Transform bs s) = m_count s" "m_buffer (Transform bs s) = m_buffer s" "m_digest (Transform bs s) = m_digest s"
    by (simp_all add: Transform_def Let_def case_prod_beta)
qed

section \<open>Blocks of a message\<close>

lemma sha_blocks_append:
  assumes "length p mod 64 = 0"
  shows "sha_blocks (p @ r) = sha_blocks p @ sha_blocks r"
proof -
  obtain k where k: "length p = 64 * k" using assms by (auto simp: mod_eq_0_iff_dvd)
  have "[0..<k + length r div 64] = [0..<k] @ map (\<lambda>i. k + i) [0..<length r div 64]"
    by (rule nth_equalityI) (auto simp: nth_append)
  moreover have "take 64 (drop (64 * i) (p @ r)) = take 64 (drop (64 * i) p)" if "i < k" for i using that k by simp
  ultimately show ?thesis by (auto simp: sha_blocks_def k div_add1_eq algebra_simps)
qed

lemma sha_blocks_short [simp]: "length r < 64 \<Longrightarrow> sha_blocks r = []"
  by (simp add: sha_blocks_def)

lemma sha_blocks_one [simp]: "length b = 64 \<Longrightarrow> sha_blocks b = [b]"
  by (simp add: sha_blocks_def)

lemma length_compress: "length (foldl compress h bs) = 5" if "length h = 5"
  using that by (induction bs arbitrary: h) (simp_all add: compress_def split: prod.split)

lemma length_sha_chain [simp]: "length (sha_chain m) = 5"
  unfolding sha_chain_def by (rule length_compress) (simp add: initial_hash_def)


section \<open>Update\<close>

lemma update_loop_ok:
  assumes "length d < 2 ^ 32 - 64" and "i \<le> length d" and "length (m_state s) = 5"
  shows "\<exists>s'. update_loop d (word_of_nat (length d)) (word_of_nat i) s = Some (word_of_nat (i + 64 * ((length d - i) div 64)), s') \<and>
    m_state s' = foldl compress (m_state s) (sha_blocks (drop i d)) \<and> m_count s' = m_count s \<and> m_buffer s' = m_buffer s"
  using assms
proof (induction "length d - i" arbitrary: i s rule: less_induct)
  case less
  let ?u = "word_of_nat (length d) :: 32 word"
  have u: "unat ?u = length d" "unat (word_of_nat i :: 32 word) = i" using less.prems by (simp_all add: unat_of_nat)
  have w: "unat (word_of_nat i + 63 :: 32 word) = i + 63" "unat (word_of_nat i + 64 :: 32 word) = i + 64"
    using less.prems by (simp_all add: unat_word_ariths u)
  have c: "(word_of_nat i + 63 :: 32 word) < ?u \<longleftrightarrow> i + 63 < length d" by (simp only: word_less_nat_alt u w)
  show ?case
  proof (cases "i + 63 < length d")
    case False
    then have "(length d - i) div 64 = 0" by simp
    with False c show ?thesis by (subst update_loop.simps) simp
  next
    case True
    let ?s = "Transform (take 64 (drop i d)) s"
    note T = Transform_ok [OF less.prems(3)]
    have n: "word_of_nat i + 64 = (word_of_nat (i + 64) :: 32 word)" by simp
    have eq: "update_loop d ?u (word_of_nat i) s = update_loop d ?u (word_of_nat (i + 64)) ?s"
      using True by (subst update_loop.simps) (simp only: c u n, simp)
    have L: "length (m_state ?s) = 5" using T(1) length_compress [OF less.prems(3), of "[take 64 (drop i d)]"] by simp
    have D: "length d - (i + 64) < length d - i" "i + 64 \<le> length d" using True by simp_all
    obtain s' where s': "update_loop d ?u (word_of_nat (i + 64)) ?s = Some (word_of_nat (i + 64 + 64 * ((length d - (i + 64)) div 64)), s')"
      "m_state s' = foldl compress (m_state ?s) (sha_blocks (drop (i + 64) d))" "m_count s' = m_count ?s" "m_buffer s' = m_buffer ?s"
      using less.hyps [OF D(1) less.prems(1) D(2) L] by (elim exE conjE)
    have st: "length d - i = 64 + (length d - (i + 64))" using True by simp
    have "(64 + k) div 64 = Suc (k div 64)" for k :: nat by simp
    then have "(length d - i) div 64 = Suc ((length d - (i + 64)) div 64)" by (simp only: st)
    moreover have "sha_blocks (drop i d) = take 64 (drop i d) # sha_blocks (drop (i + 64) d)"
    proof -
      have "drop i d = take 64 (drop i d) @ drop (i + 64) d" by (metis append_take_drop_id drop_drop add.commute)
      moreover have "length (take 64 (drop i d)) = 64" using True by simp
      ultimately show ?thesis using sha_blocks_append [of "take 64 (drop i d)" "drop (i + 64) d"] by simp
    qed
    moreover have "i + 64 + 64 * ((length d - (i + 64)) div 64) = i + 64 * Suc ((length d - (i + 64)) div 64)" by simp
    ultimately show ?thesis unfolding eq s'(1) by (intro exI [of _ s']) (simp add: s' T)
  qed
qed

text \<open>The state after the bytes \<open>m\<close>.\<close>

definition hashed :: "byte list \<Rightarrow> csha1 \<Rightarrow> bool" where
  "hashed m s \<longleftrightarrow> m_state s = sha_chain m \<and> length (m_buffer s) = 64 \<and>
     take (length m mod 64) (m_buffer s) = drop (64 * (length m div 64)) m \<and>
     2 ^ 32 * unat (snd (m_count s)) + unat (fst (m_count s)) = 8 * length m"

lemma hashed_Reset: "length (m_buffer s) = 64 \<Longrightarrow> hashed [] (Reset s)"
  by (simp add: hashed_def Reset_def sha_chain_def initial_hash_def)

lemma count_mod:
  assumes "hashed m s"
  shows "unat (drop_bit 3 (fst (m_count s)) AND 0x3F) = length m mod 64"
proof -
  have "unat (fst (m_count s)) = 8 * length m - 2 ^ 32 * unat (snd (m_count s))"
    using assms unfolding hashed_def by linarith
  then have "unat (fst (m_count s)) div 8 = length m - 2 ^ 29 * unat (snd (m_count s))" by simp
  moreover have "(length m - 2 ^ 29 * unat (snd (m_count s))) mod 64 = length m mod 64"
  proof -
    have "2 ^ 32 * unat (snd (m_count s)) \<le> 8 * length m" using assms unfolding hashed_def by linarith
    then have "2 ^ 29 * unat (snd (m_count s)) \<le> length m" by simp
    then obtain k where "length m = 2 ^ 29 * unat (snd (m_count s)) + k" using le_Suc_ex by blast
    then show ?thesis by (simp add: mod_add_eq [symmetric] mod_mult_left_eq [symmetric])
  qed
  moreover have "drop_bit 3 (fst (m_count s)) AND 0x3F = take_bit 6 (drop_bit 3 (fst (m_count s)))"
    by (simp add: take_bit_eq_mask mask_eq_exp_minus_1)
  moreover have "unat (take_bit 6 (drop_bit 3 w)) = unat w div 8 mod 64" for w :: "32 word"
    using unsigned_less [of w, where ?'a = nat] by (simp only: unsigned_take_bit_eq unsigned_drop_bit_eq) (simp add: take_bit_eq_mod drop_bit_eq_div)
  ultimately show ?thesis by simp
qed

lemma count_add:
  fixes c0 c1 :: "32 word"
  assumes "2 ^ 32 * unat c1 + unat c0 + 8 * n < 2 ^ 64" and "n < 2 ^ 32"
  shows "2 ^ 32 * unat ((if c0 + push_bit 3 (word_of_nat n) < push_bit 3 (word_of_nat n) then c1 + 1 else c1) + drop_bit 29 (word_of_nat n)) +
    unat (c0 + push_bit 3 (word_of_nat n)) = 2 ^ 32 * unat c1 + unat c0 + 8 * n"
proof -
  have n: "unat (word_of_nat n :: 32 word) = n" using assms(2) by (simp add: unat_of_nat)
  obtain Q R where R: "unat (push_bit 3 (word_of_nat n) :: 32 word) = R" "R < 2 ^ 32"
    and Q: "unat (drop_bit 29 (word_of_nat n) :: 32 word) = Q" and split: "8 * n = 2 ^ 32 * Q + R"
  proof
    show "unat (push_bit 3 (word_of_nat n) :: 32 word) = 8 * n mod 2 ^ 32"
      by (simp only: unsigned_push_bit_eq n) (simp add: push_bit_eq_mult take_bit_eq_mod mult.commute)
    show "unat (drop_bit 29 (word_of_nat n) :: 32 word) = n div 2 ^ 29"
      using assms(2) by (simp only: unsigned_drop_bit_eq n) (simp add: take_bit_eq_mod drop_bit_eq_div)
    have "8 * n div 2 ^ 32 = n div 2 ^ 29" using div_mult_mult1 [of 8 n "2 ^ 29"] by simp
    then show "8 * n = 2 ^ 32 * (n div 2 ^ 29) + 8 * n mod 2 ^ 32" using div_mult_mod_eq [of "8 * n" "2 ^ 32"] by simp
  qed simp
  have A: "unat c0 < 2 ^ 32" using unsigned_less [of c0] by simp
  have sum: "unat (c0 + push_bit 3 (word_of_nat n)) = (unat c0 + R) mod 2 ^ 32" by (simp add: unat_word_ariths R)
  have fits: "2 ^ 32 * (unat c1 + Q) + (unat c0 + R) < 2 ^ 32 * 2 ^ 32" using assms(1) split by simp
  show ?thesis
  proof (cases "unat c0 + R < 2 ^ 32")
    case True
    then have s: "unat (c0 + push_bit 3 (word_of_nat n)) = unat c0 + R" using sum by simp
    then have "\<not> c0 + push_bit 3 (word_of_nat n) < push_bit 3 (word_of_nat n)" by (simp add: word_less_nat_alt R)
    moreover have "unat c1 + Q < 2 ^ 32" using fits by simp
    then have "unat (c1 + drop_bit 29 (word_of_nat n)) = unat c1 + Q" by (simp add: unat_word_ariths Q)
    ultimately show ?thesis using s split by simp
  next
    case False
    then have s: "unat (c0 + push_bit 3 (word_of_nat n)) = unat c0 + R - 2 ^ 32" using sum A R(2) by (simp add: mod_if)
    then have "c0 + push_bit 3 (word_of_nat n) < push_bit 3 (word_of_nat n)" using A False R by (simp add: word_less_nat_alt)
    moreover have "unat c1 + 1 + Q < 2 ^ 32" using fits False by simp
    then have "unat (c1 + 1 + drop_bit 29 (word_of_nat n)) = unat c1 + 1 + Q" by (simp add: unat_word_ariths Q)
    ultimately show ?thesis using s split False by simp
  qed
qed

lemma hashed_snoc_block:
  assumes "hashed m s" and "length (t @ b) = 64" and "t = drop (64 * (length m div 64)) m"
  shows "sha_chain (m @ b @ r) = foldl compress (m_state s) (sha_blocks ((t @ b) @ r))"
    and "sha_chain (m @ b) = foldl compress (m_state s) [t @ b]"
proof -
  let ?p = "take (64 * (length m div 64)) m"
  have p: "length ?p mod 64 = 0" by simp
  have m: "m = ?p @ t" using assms(3) by simp
  have t: "length t < 64" using assms(3) by simp
  have c: "sha_chain m = foldl compress initial_hash (sha_blocks ?p)"
    using sha_blocks_append [OF p, of t] t m by (simp add: sha_chain_def)
  have "sha_chain (m @ x) = foldl compress (m_state s) (sha_blocks (t @ x))" for x
  proof -
    have "m @ x = ?p @ (t @ x)" using m by (metis append_assoc)
    then have "sha_blocks (m @ x) = sha_blocks ?p @ sha_blocks (t @ x)" using sha_blocks_append [OF p, of "t @ x"] by metis
    moreover have "m_state s = foldl compress initial_hash (sha_blocks ?p)" using assms(1) c by (simp add: hashed_def)
    ultimately show ?thesis by (simp add: sha_chain_def)
  qed
  from this [of "b @ r"] this [of b] show "sha_chain (m @ b @ r) = foldl compress (m_state s) (sha_blocks ((t @ b) @ r))"
    "sha_chain (m @ b) = foldl compress (m_state s) [t @ b]" using sha_blocks_one [OF assms(2)] by simp_all
qed

lemma div_mod_64: "r < 64 \<Longrightarrow> (64 * q + r) div 64 = q" "r < 64 \<Longrightarrow> (64 * q + r) mod 64 = r" for q r :: nat
  by simp_all

text \<open>The last copy of \<open>Update\<close>.\<close>

lemma rest_copied:
  assumes "m_state s = sha_chain m" and "length (m_buffer s) = 64"
    and "2 ^ 32 * unat (snd (m_count s)) + unat (fst (m_count s)) = 8 * length m"
    and "i \<le> length d" and "length d < 2 ^ 32" and j: "j \<le> 64"
    and t: "take j (m_buffer s) @ drop i d = drop (64 * (length m div 64)) m"
  shows "wp (if word_of_nat (length d) - word_of_nat i \<noteq> (0 :: 32 word)
      then Some ((), copy_in j (take (unat (word_of_nat (length d) - word_of_nat i :: 32 word)) (drop (unat (word_of_nat i :: 32 word)) d)) s)
      else Some ((), s)) (\<lambda>_ s'. hashed m s')"
proof -
  have "length (take j (m_buffer s) @ drop i d) = length m mod 64" unfolding t by (simp add: minus_mult_div_eq_mod)
  then have l: "j + (length d - i) = length m mod 64" using assms(2) j by simp
  then have l64: "j + (length d - i) < 64" by simp
  have i: "unat (word_of_nat i :: 32 word) = i" "unat (word_of_nat (length d) - word_of_nat i :: 32 word) = length d - i"
    using assms(4,5) by (simp_all add: unat_of_nat flip: of_nat_diff)
  have z: "word_of_nat (length d) - word_of_nat i = (0 :: 32 word) \<longleftrightarrow> length d - i = 0" using i(2) by (metis unat_eq_zero)
  have "hashed m (copy_in j (drop i d) s)"
    using assms(1-3) l64 t by (simp add: hashed_def copy_in_def flip: l)
  moreover have "copy_in j [] s = s" by (simp add: copy_in_def)
  ultimately show ?thesis using assms(4) by (cases "length d - i = 0") (simp_all only: i z, simp_all)
qed

lemma hashed_Update:
  assumes m: "hashed m s" and n: "length d < 2 ^ 32 - 64" and small: "8 * (length m + length d) < 2 ^ 64"
  shows "wp (Update d (word_of_nat (length d)) s) (\<lambda>_ s'. hashed (m @ d) s')"
proof -
  let ?u = "word_of_nat (length d) :: 32 word"
  let ?q = "64 * (length m div 64)"
  define j where "j = drop_bit 3 (fst (m_count s)) AND 0x3F"
  define c where "c = (fst (m_count s) + push_bit 3 ?u,
    (if fst (m_count s) + push_bit 3 ?u < push_bit 3 ?u then snd (m_count s) + 1 else snd (m_count s)) + drop_bit 29 ?u)"
  define t where "t = drop ?q m"
  define s1 where "s1 = s\<lparr>m_count := c\<rparr>"
  have h: "m_state s = sha_chain m" "length (m_buffer s) = 64" "take (length m mod 64) (m_buffer s) = t"
    "2 ^ 32 * unat (snd (m_count s)) + unat (fst (m_count s)) = 8 * length m"
    using m by (simp_all add: hashed_def t_def)
  have s1: "m_state s1 = sha_chain m" "m_buffer s1 = m_buffer s" "m_count s1 = c" by (simp_all add: s1_def h(1))
  have c: "2 ^ 32 * unat (snd c) + unat (fst c) = 8 * (length (m @ d))"
    using count_add [of "snd (m_count s)" "fst (m_count s)" "length d"] small n h(4) unfolding c_def by simp
  have u: "unat ?u = length d" using n by (simp add: unat_of_nat)
  have j: "unat j = length m mod 64" unfolding j_def by (rule count_mod [OF m])
  have t: "length t = length m mod 64" "m = take ?q m @ t" by (simp_all add: t_def minus_mult_div_eq_mod)
  have ju: "unat (j + ?u) = length m mod 64 + length d" using n by (simp add: unat_word_ariths u j)
  have upd: "Update d ?u s = do {
     (i, j, s) \<leftarrow> (if 63 < j + ?u then do {
         let s = copy_in (unat j) (take (unat (64 - j)) d) s1;
         (i, s) \<leftarrow> update_loop d ?u (64 - j) (Transform (m_buffer s) s);
         Some (i, 0, s)
       } else Some (0, j, s1));
     if ?u - i \<noteq> 0 then Some ((), copy_in (unat j) (take (unat (?u - i)) (drop (unat i) d)) s)
     else Some ((), s)
   }"
    unfolding Update_def Let_def j_def s1_def c_def by simp
  show ?thesis
  proof (cases "63 < length m mod 64 + length d")
    case False
    then have nb: "\<not> 63 < j + ?u" by (simp only: word_less_nat_alt ju) simp
    have short: "length t + length d < 64" using False t by simp
    have len: "length (m @ d) = 64 * (length m div 64) + (length t + length d)" using t(1) by simp
    have "sha_chain (m @ d) = sha_chain m"
    proof -
      have p: "length (take ?q m) mod 64 = 0" by simp
      have "sha_blocks (take ?q m @ t @ d) = sha_blocks (take ?q m @ t)"
        using short unfolding sha_blocks_append [OF p] by simp
      then show ?thesis using t(2) unfolding sha_chain_def by (metis append_assoc)
    qed
    moreover have "drop (64 * (length (m @ d) div 64)) (m @ d) = t @ d"
      unfolding len div_mod_64(1) [OF short] by (simp add: t_def)
    ultimately show ?thesis
      unfolding upd if_not_P [OF nb] using rest_copied [of s1 "m @ d" 0 d "length m mod 64"] h(1-3) s1 c n t(1)
      by (cases "?u = 0") (simp_all add: j)
  next
    case True
    then have nb: "63 < j + ?u" by (simp only: word_less_nat_alt ju) simp
    define i where "i = 64 - length m mod 64"
    define b where "b = take i d"
    have i: "64 - j = word_of_nat i" "unat (64 - j) = i" "i \<le> length d" "length m mod 64 + i = 64"
    proof -
      have "j \<le> 64" using j by (simp add: word_le_nat_alt)
      then show "unat (64 - j) = i" by (simp add: unat_sub j i_def)
      then have "word_of_nat (unat (64 - j)) = (word_of_nat i :: 32 word)" by (rule arg_cong)
      then show "64 - j = word_of_nat i" by simp
    qed (use True in \<open>simp_all add: i_def\<close>)
    let ?s = "copy_in (unat j) b s1"
    have buf: "m_buffer ?s = t @ b" "m_state ?s = sha_chain m" "m_count ?s = c" "length (t @ b) = 64"
      using i t(1) h(2,3) s1 by (simp_all add: copy_in_def b_def j)
    have T: "m_state (Transform (t @ b) ?s) = foldl compress (m_state s) [t @ b]" "m_count (Transform (t @ b) ?s) = c"
      "m_buffer (Transform (t @ b) ?s) = t @ b" "length (m_state (Transform (t @ b) ?s)) = 5"
      using Transform_ok [of ?s "t @ b"] buf h(1) length_compress [of "sha_chain m" "[t @ b]"] by simp_all
    obtain s' where s': "update_loop d ?u (word_of_nat i) (Transform (t @ b) ?s) = Some (word_of_nat (i + 64 * ((length d - i) div 64)), s')"
      "m_state s' = foldl compress (m_state (Transform (t @ b) ?s)) (sha_blocks (drop i d))" "m_count s' = c" "m_buffer s' = t @ b"
      using update_loop_ok [OF n i(3) T(4)] T by auto
    have "m @ d = m @ b @ drop i d" by (simp add: b_def)
    then have "sha_chain (m @ d) = foldl compress (m_state s) (sha_blocks ((t @ b) @ drop i d))"
      using hashed_snoc_block(1) [OF m buf(4) t_def, of "drop i d"] by (simp only:)
    also have "\<dots> = m_state s'" using sha_blocks_append [of "t @ b" "drop i d"] buf(4) sha_blocks_one [OF buf(4)]
      by (simp add: s' T)
    finally have chain: "m_state s' = sha_chain (m @ d)" by simp
    let ?i = "i + 64 * ((length d - i) div 64)"
    have le: "?i \<le> length d" using i(3) times_div_less_eq_dividend [of 64 "length d - i"] by linarith
    have "length (m @ d) = 64 * (length m div 64) + (length m mod 64 + i) + (length d - i)" using i(3) by simp
    then have "length (m @ d) = 64 * (Suc (length m div 64) + (length d - i) div 64) + (length d - i) mod 64" using i(4) by simp
    then have e1: "length (m @ d) div 64 = Suc (length m div 64) + (length d - i) div 64" by (simp only: div_mod_64 mod_less_divisor zero_less_numeral)
    have e2: "64 * (Suc (length m div 64) + (length d - i) div 64) = length m + ?i"
      using i(4) mult_div_mod_eq [of 64 "length m"] unfolding distrib_left mult_Suc_right by linarith
    have "drop (64 * (length (m @ d) div 64)) (m @ d) = drop ?i d" unfolding e1 e2 by simp
    then have t0: "take 0 (m_buffer s') @ drop ?i d = drop (64 * (length (m @ d) div 64)) (m @ d)" by simp
    have run: "(let s = copy_in (unat j) (take (unat (64 - j)) d) s1 in Option.bind (update_loop d ?u (64 - j) (Transform (m_buffer s) s))
        (\<lambda>(i, s). Some (i, 0 :: 32 word, s))) = Some (word_of_nat ?i, 0, s')"
      unfolding Let_def i(2) b_def [symmetric] buf(1) unfolding i(1) s'(1) by simp
    have fits: "length (m_buffer s') = 64" "2 ^ 32 * unat (snd (m_count s')) + unat (fst (m_count s')) = 8 * length (m @ d)"
      "length d < 2 ^ 32" "unat (0 :: 32 word) = 0" using s'(3,4) buf(4) c n by simp_all
    show ?thesis
      unfolding upd if_P [OF nb] run Option.bind.bind_lunit prod.case fits(4)
      by (rule rest_copied [OF chain fits(1,2) le fits(3) _ t0]) simp
  qed
qed


section \<open>Final\<close>

lemma pad_bits: "(w :: 32 word) AND 504 = 448 \<longleftrightarrow> unat (drop_bit 3 w AND 0x3F) = 56"
proof -
  have "w AND 504 = push_bit 3 (drop_bit 3 w AND 0x3F)"
  proof (rule bit_word_eqI)
    fix n :: nat
    assume "n < LENGTH(32)"
    have m: "(504 :: 32 word) = push_bit 3 (mask 6)" "(0x3F :: 32 word) = mask 6" by (simp_all add: mask_eq_exp_minus_1)
    show "bit (w AND 504) n = bit (push_bit 3 (drop_bit 3 w AND 0x3F)) n"
      unfolding m using \<open>n < LENGTH(32)\<close> by (auto simp: bit_simps simp del: push_bit_numeral)
  qed
  moreover have "push_bit 3 x = 448 \<longleftrightarrow> unat x = 56" if "unat x < 64" for x :: "32 word"
  proof -
    have "unat (push_bit 3 x) = 8 * unat x"
      using that by (simp only: unsigned_push_bit_eq) (simp add: push_bit_eq_mult take_bit_eq_mod)
    then have "unat (push_bit 3 x) = unat (448 :: 32 word) \<longleftrightarrow> unat x = 56" by simp
    then show ?thesis by (metis word_unat_eq_iff)
  qed
  moreover have "unat (drop_bit 3 w AND 0x3F) < 64" using word_and_le1 [of "drop_bit 3 w" "0x3F"] by (simp add: word_le_nat_alt)
  ultimately show ?thesis by metis
qed

lemma hashed_pad: "hashed m s \<Longrightarrow> fst (m_count s) AND 504 = 448 \<longleftrightarrow> length m mod 64 = 56"
  using count_mod pad_bits by metis

lemma pad_loop_ok:
  assumes "hashed m s" and "k < 64" and "(length m + k) mod 64 = 56" and "8 * (length m + k) < 2 ^ 64"
  shows "wp (pad_loop s) (\<lambda>_ s'. hashed (m @ replicate k 0) s')"
  using assms
proof (induction k arbitrary: m s)
  case 0
  then show ?case using hashed_pad [of m s] by (subst pad_loop.simps) simp
next
  case (Suc k)
  have "length m mod 64 \<noteq> 56"
  proof
    assume "length m mod 64 = 56"
    then have "(length m + Suc k) mod 64 = (56 + Suc k) mod 64" by (metis mod_add_left_eq)
    then show False using Suc.prems(2,3) by (simp add: mod_if split: if_splits)
  qed
  then have eq: "pad_loop s = Option.bind (Update [0] 1 s) (\<lambda>(u, s). pad_loop s)"
    using hashed_pad [OF Suc.prems(1)] by (subst pad_loop.simps) simp
  have up: "wp (Update [0] 1 s) (\<lambda>_. hashed (m @ [0]))"
    using hashed_Update [OF Suc.prems(1), of "[0]"] Suc.prems(4) by simp
  have rest: "wp (pad_loop s') (\<lambda>_. hashed (m @ replicate (Suc k) 0))" if "hashed (m @ [0]) s'" for s'
    using Suc.IH [OF that] Suc.prems by simp
  show ?case unfolding eq by (rule wp_then [OF up]) (simp add: rest del: replicate_Suc)
qed

lemma byte_of: "ucast (drop_bit k (w :: 32 word) AND 0xFF) = (word_of_nat (unat w div 2 ^ k mod 256) :: byte)"
proof -
  have "drop_bit k w AND 0xFF = take_bit 8 (drop_bit k w)" by (simp add: take_bit_eq_mask mask_eq_exp_minus_1)
  moreover have "unat (take_bit 8 (drop_bit k w)) = unat w div 2 ^ k mod 256"
  proof -
    have "unat w div 2 ^ k < 2 ^ 32" "unat w < 2 ^ 32" using unsigned_less [of w, where ?'a = nat]
      by (simp_all add: le_less_trans [OF div_le_dividend])
    then show ?thesis by (simp only: unsigned_take_bit_eq unsigned_drop_bit_eq) (simp add: take_bit_eq_mod drop_bit_eq_div)
  qed
  ultimately show ?thesis by (metis of_nat_unat)
qed

lemma be_bytes_4: "be_bytes 4 x = [word_of_nat (x div 2 ^ 24 mod 256), word_of_nat (x div 2 ^ 16 mod 256),
    word_of_nat (x div 2 ^ 8 mod 256), word_of_nat (x mod 256)]"
proof -
  have "le_bytes 4 x = le_bytes (Suc (Suc (Suc (Suc 0)))) x" by (rule arg_cong [where f = "\<lambda>n. le_bytes n x"]) simp
  then show ?thesis by (simp add: be_bytes_def flip: div_mult2_eq)
qed

lemma le_bytes_mod: "le_bytes n (x mod 256 ^ n) = le_bytes n x"
  using le_bytes_le_nat [of "le_bytes n x"] by (simp add: le_nat_le_bytes)

lemma be_bytes_8: "b < 2 ^ 32 \<Longrightarrow> be_bytes 8 (2 ^ 32 * a + b) = be_bytes 4 a @ be_bytes 4 b"
  using le_bytes_append [of 4 "2 ^ 32 * a + b" 4] le_bytes_mod [of 4 "2 ^ 32 * a + b"]
  by (simp add: be_bytes_def flip: rev_append)

lemma digest_words:
  assumes "length st = 5"
  shows "map (\<lambda>i. ucast (drop_bit ((3 - (i mod 4)) * 8) (st ! (i div 4)) AND 0xFF)) [0..<20] =
    concat (map (\<lambda>w. be_bytes 4 (unat w)) (st :: 32 word list))"
proof -
  obtain a b c d e where "st = [a, b, c, d, e]" using assms by (auto simp: numeral_eq_Suc length_Suc_conv)
  then show ?thesis by (simp add: upt_rec byte_of be_bytes_4)
qed

lemma pbFinalCount_bytes: "pbFinalCount c = be_bytes 8 (2 ^ 32 * unat (snd c) + unat (fst c))"
proof -
  have c: "unat (fst c) < 2 ^ 32" using unsigned_less [of "fst c", where ?'a = nat] by simp
  show ?thesis unfolding be_bytes_8 [OF c] pbFinalCount_def by (simp add: upt_rec byte_of be_bytes_4)
qed


lemma pad_length: "(r + 1 + (119 - r) mod 64) mod 64 = 56" if "r < 64" for r :: nat
proof (cases "r \<le> 55")
  case True
  then have "119 - r = 64 + (55 - r)" by simp
  then have "(119 - r) mod 64 = (55 - r) mod 64" by (simp only: mod_add_self1)
  also have "\<dots> = 55 - r" by (rule mod_less) simp
  finally show ?thesis using True by simp
next
  case False
  then have "(119 - r) mod 64 = 119 - r" using that by (intro mod_less) simp
  then have "r + 1 + (119 - r) mod 64 = 64 + 56" using that by simp
  then show ?thesis by (simp only:) simp
qed
lemma Final_ok:
  assumes m: "hashed m s" and small: "length m < 2 ^ 60"
  shows "wp (Final s) (\<lambda>_ s'. m_digest s' = sha1_spec m)"
proof -
  define k where "k = (119 - length m mod 64) mod 64"
  let ?m1 = "m @ [0x80]" and ?m2 = "m @ 0x80 # replicate k 0" and ?m3 = "m @ padding (length m)"
  have k: "k < 64" "(length ?m1 + k) mod 64 = 56"
  proof -
    have "(length m mod 64 + 1 + k) mod 64 = 56" unfolding k_def by (rule pad_length) simp
    moreover have "(length m + (1 + k)) mod 64 = (length m mod 64 + (1 + k)) mod 64" by (rule mod_add_left_eq [symmetric])
    ultimately show "(length ?m1 + k) mod 64 = 56" by (simp add: add.assoc)
  qed (simp add: k_def)
  have c: "pbFinalCount (m_count s) = be_bytes 8 (8 * length m)" using m by (simp add: pbFinalCount_bytes hashed_def)
  have u1: "wp (Update [0x80] 1 s) (\<lambda>_. hashed ?m1)" using hashed_Update [OF m, of "[0x80]"] small by simp
  have u2: "wp (pad_loop s1) (\<lambda>_. hashed ?m2)" if "hashed ?m1 s1" for s1
    using pad_loop_ok [OF that k] k(1) small by simp
  have l8: "length (be_bytes 8 x) = 8" for x by (simp add: be_bytes_def)
  have u3: "wp (Update (be_bytes 8 (8 * length m)) 8 s2) (\<lambda>_. hashed ?m3)" if "hashed ?m2 s2" for s2
    using hashed_Update [OF that, of "be_bytes 8 (8 * length m)"] k(1) small by (simp add: l8 padding_def k_def)
  have d: "m_digest (wipe (s\<lparr>m_digest := map (\<lambda>i. ucast (drop_bit ((3 - (i mod 4)) * 8) (m_state s ! (i div 4)) AND 0xFF)) [0..<20]\<rparr>)) =
      sha1_spec m" if "hashed ?m3 s" for s
    using that digest_words [of "m_state s"] by (simp add: wipe_def Transform_ok(4) sha1_spec_def hashed_def)
  show ?thesis
    unfolding Final_def Let_def c
    by (rule wp_then [OF u1], simp only: prod.case, rule wp_then [OF u2], assumption, simp only: prod.case,
        rule wp_then [OF u3], assumption) (simp add: d del: upt_rec_numeral)
qed

text \<open>The calls of \<open>Update\<close> with the parts of a message.\<close>

primrec feed :: "byte list list \<Rightarrow> csha1 \<Rightarrow> (unit \<times> csha1) option" where
  "feed [] s = Some ((), s)"
| "feed (c # cs) s = do { (u, s) \<leftarrow> Update c (word_of_nat (length c)) s; feed cs s }"

lemma feed_ok:
  assumes "hashed m s" and "\<forall>c \<in> set cs. length c < 2 ^ 32 - 64" and "length m + length (concat cs) < 2 ^ 60"
  shows "wp (feed cs s) (\<lambda>_ s'. hashed (m @ concat cs) s')"
  using assms
proof (induction cs arbitrary: m s)
  case (Cons c cs)
  have up: "wp (Update c (word_of_nat (length c)) s) (\<lambda>_. hashed (m @ c))"
    using hashed_Update [OF Cons.prems(1), of c] Cons.prems(2,3) by simp
  have rest: "wp (feed cs s') (\<lambda>_. hashed ((m @ c) @ concat cs))" if "hashed (m @ c) s'" for s'
    using Cons.IH [OF that] Cons.prems(2,3) by simp
  show ?case unfolding feed.simps by (rule wp_then [OF up]) (use rest in simp)
qed simp


section \<open>The test vector of the header file\<close>

text \<open>For evaluation: the steps with the next 16 words of the schedule.\<close>

definition fast_step :: "nat \<Rightarrow> 32 word list \<times> five \<Rightarrow> 32 word list \<times> five" where
  "fast_step t = (\<lambda>(w, a, b, c, d, e).
     (tl w @ [ROL32 (w ! 13 XOR w ! 8 XOR w ! 2 XOR w ! 0) 1],
      ROL32 a 5 + mix t b c d + e + round_const t + w ! 0, a, ROL32 b 30, c, d))"

lemma fast_step_ok: "fast_step t (map (schedule bs) [t..<t + 16], h) = (map (schedule bs) [Suc t..<Suc t + 16], spec_step bs t h)"
proof -
  have w: "schedule bs (t + 16) = word_rotl 1 (schedule bs (t + 13) XOR schedule bs (t + 8) XOR schedule bs (t + 2) XOR schedule bs t)"
    by (subst schedule.simps) (simp add: add.commute)
  have "[t..<t + 16] = t # [Suc t..<t + 16]" by (rule upt_conv_Cons) simp
  moreover have "[Suc t..<Suc t + 16] = [Suc t..<t + 16] @ [t + 16]" using upt_Suc_append [of "Suc t" "t + 16"] by (simp only: add_Suc)
  moreover have "map (schedule bs) [t..<t + 16] ! k = schedule bs (t + k)" if "k < 16" for k using that by simp
  ultimately show ?thesis by (auto simp: fast_step_def spec_step_def ROL32_rotl w ac_simps split: prod.splits)
qed

lemma fast_steps: "fold fast_step [0..<n] (map (schedule bs) [0..<16], h) = (map (schedule bs) [n..<n + 16], spec_steps bs n h)"
proof (induction n)
  case (Suc n)
  then show ?case using fast_step_ok [of n bs "spec_steps bs n h"] by (simp add: spec_steps_def)
qed (simp add: spec_steps_def)

definition abc_block :: "byte list" where
  "abc_block = [0x61, 0x62, 0x63, 0x80] @ replicate 59 0 @ [0x18]"

lemma abc_schedule: "map (schedule abc_block) [0..<16] = [0x61626380, 0, 0, 0, 0, 0, 0, 0, 0, 0, 0, 0, 0, 0, 0, 0x18]"
proof -
  have "schedule abc_block t = be32 (take 4 (drop (4 * t) abc_block))" if "t < 16" for t using that by (simp add: schedule.simps)
  then have "map (schedule abc_block) [0..<16] = map (\<lambda>t. be32 (take 4 (drop (4 * t) abc_block))) [0..<16]" by simp
  also have "\<dots> = [0x61626380, 0, 0, 0, 0, 0, 0, 0, 0, 0, 0, 0, 0, 0, 0, 0x18]" by code_simp
  finally show ?thesis .
qed

lemma abc_steps_0:
  "fold fast_step [0, 1, 2, 3, 4, 5, 6, 7, 8, 9, 10, 11, 12, 13, 14, 15, 16, 17, 18, 19]
    ([0x61626380, 0, 0, 0, 0, 0, 0, 0, 0, 0, 0, 0, 0, 0, 0, 0x18],
      0x67452301, 0xEFCDAB89, 0x98BADCFE, 0x10325476, 0xC3D2E1F0) =
    ([0, 0x60, 0xB131C03, 0x30, 0x85898EC1, 0x16263806, 0, 0x180, 0x2C4C700C, 0xF0, 0x93AFB507, 0x5898E048, 0x8E9A9202, 0x600, 0xB131C0F0, 0x16263BC6],
      0xFD9E1D7D, 0xDC64901D, 0x20AA99CA, 0xD3A49608, 0xC82F758B)"
  by (simp add: fast_step_def ROL32_def mix_def round_const_def)

lemma abc_steps_1:
  "fold fast_step [20, 21, 22, 23, 24, 25, 26, 27, 28, 29, 30, 31, 32, 33, 34, 35, 36, 37, 38, 39]
    ([0, 0x60, 0xB131C03, 0x30, 0x85898EC1, 0x16263806, 0, 0x180, 0x2C4C700C, 0xF0, 0x93AFB507, 0x5898E048, 0x8E9A9202, 0x600, 0xB131C0F0, 0x16263BC6],
      0xFD9E1D7D, 0xDC64901D, 0x20AA99CA, 0xD3A49608, 0xC82F758B) =
    ([0xD2E138C4, 0xF00, 0x3AFB5079, 0x898E04E5, 0xE2BA3C2B, 0x60C0, 0x53A37CD, 0x74458547, 0xDA9415ED, 0x26380A16, 0x626383A1, 0x4EBF54DE, 0x3835B44B, 0xF600, 0x1E84C7A3, 0x98E04D98],
      0x32DE1CBA, 0x4C986405, 0xF718E5CF, 0x3D447F6, 0xF72EEC32)"
  by (simp add: fast_step_def ROL32_def mix_def round_const_def)

lemma abc_steps_2:
  "fold fast_step [40, 41, 42, 43, 44, 45, 46, 47, 48, 49, 50, 51, 52, 53, 54, 55, 56, 57, 58, 59]
    ([0xD2E138C4, 0xF00, 0x3AFB5079, 0x898E04E5, 0xE2BA3C2B, 0x60C0, 0x53A37CD, 0x74458547, 0xDA9415ED, 0x26380A16, 0x626383A1, 0x4EBF54DE, 0x3835B44B, 0xF600, 0x1E84C7A3, 0x98E04D98],
      0x32DE1CBA, 0x4C986405, 0xF718E5CF, 0x3D447F6, 0xF72EEC32) =
    ([0x7BA06619, 0x6380AEA2, 0xAE55269, 0x627B49A1, 0x7CD45C9D, 0xF0000, 0xFB50753A, 0xEC6765E8, 0xBA3C2BE2, 0x60C000, 0x3A37CD05, 0x458546F4, 0xB8599DD6, 0x380A1A26, 0x1E02203, 0xE7CC3456],
      0x3F52DE5A, 0x9D785FD, 0x3498BFD4, 0xF211824F, 0xD79915AB)"
  by (simp add: fast_step_def ROL32_def mix_def round_const_def)

lemma abc_steps_3:
  "fold fast_step [60, 61, 62, 63, 64, 65, 66, 67, 68, 69, 70, 71, 72, 73, 74, 75, 76, 77, 78, 79]
    ([0x7BA06619, 0x6380AEA2, 0xAE55269, 0x627B49A1, 0x7CD45C9D, 0xF0000, 0xFB50753A, 0xEC6765E8, 0xBA3C2BE2, 0x60C000, 0x3A37CD05, 0x458546F4, 0xB8599DD6, 0x380A1A26, 0x1E02203, 0xE7CC3456],
      0x3F52DE5A, 0x9D785FD, 0x3498BFD4, 0xF211824F, 0xD79915AB) =
    ([0x7E577CE2, 0x7EF2103, 0x8544E945, 0xEB39DAB8, 0xC205991A, 0x80AECB63, 0x7D84CA48, 0x7B499B62, 0x8E8010A8, 0x4B5B8A77, 0x3216B69A, 0x507E88D, 0x705BEE96, 0x60C0FF00, 0xA28362D0, 0x1DA6B91D],
      0x42541B35, 0x5738D5E1, 0x21834873, 0x681E6DF6, 0xD8FDF6AD)"
  by (simp add: fast_step_def ROL32_def mix_def round_const_def)

lemma upt_80: "[0..<80] =
    [0, 1, 2, 3, 4, 5, 6, 7, 8, 9, 10, 11, 12, 13, 14, 15, 16, 17, 18, 19] @
    [20, 21, 22, 23, 24, 25, 26, 27, 28, 29, 30, 31, 32, 33, 34, 35, 36, 37, 38, 39] @
    [40, 41, 42, 43, 44, 45, 46, 47, 48, 49, 50, 51, 52, 53, 54, 55, 56, 57, 58, 59] @
    [60, 61, 62, 63, 64, 65, 66, 67, 68, 69, 70, 71, 72, 73, 74, 75, 76, 77, 78, 79]"
  by (simp add: upt_rec)

lemma abc_compress: "compress initial_hash abc_block = [0xA9993E36, 0x4706816A, 0xBA3E2571, 0x7850C26C, 0x9CD0D89D]"
proof -
  have "snd (fold fast_step [0..<80] (map (schedule abc_block) [0..<16], 0x67452301, 0xEFCDAB89, 0x98BADCFE, 0x10325476, 0xC3D2E1F0)) =
      (0x42541B35, 0x5738D5E1, 0x21834873, 0x681E6DF6, 0xD8FDF6AD)"
    unfolding upt_80 abc_schedule fold_append comp_apply abc_steps_0 abc_steps_1 abc_steps_2 abc_steps_3 by simp
  then have "spec_steps abc_block 80 (0x67452301, 0xEFCDAB89, 0x98BADCFE, 0x10325476, 0xC3D2E1F0) =
      (0x42541B35, 0x5738D5E1, 0x21834873, 0x681E6DF6, 0xD8FDF6AD)"
    unfolding fast_steps by simp
  then show ?thesis by (simp add: compress_def initial_hash_def)
qed

lemma abc_hash: "sha1_spec [0x61, 0x62, 0x63] = [0xA9, 0x99, 0x3E, 0x36, 0x47, 0x06, 0x81, 0x6A, 0xBA, 0x3E,
    0x25, 0x71, 0x78, 0x50, 0xC2, 0x6C, 0x9C, 0xD0, 0xD8, 0x9D]"
proof -
  have "be_bytes 8 24 = replicate 7 0 @ [0x18]" by code_simp
  then have "[0x61, 0x62, 0x63] @ padding 3 = abc_block" by (simp add: padding_def abc_block_def replicate_append_same flip: replicate_add)
  moreover have "length abc_block = 64" by (simp add: abc_block_def)
  ultimately have c: "sha_chain ([0x61, 0x62, 0x63] @ padding 3) = [0xA9993E36, 0x4706816A, 0xBA3E2571, 0x7850C26C, 0x9CD0D89D]"
    by (simp only: sha_chain_def sha_blocks_one foldl.simps abc_compress)
  have l: "length [0x61, 0x62, 0x63 :: byte] = 3" by simp
  show ?thesis unfolding sha1_spec_def l c by (simp add: be_bytes_4)
qed


section \<open>Properties\<close>

lemma length_digest: "length (sha1_spec m) = 20"
proof -
  obtain a b c d e where "sha_chain (m @ padding (length m)) = [a, b, c, d, e]"
    using length_sha_chain [of "m @ padding (length m)"] by (auto simp: numeral_eq_Suc length_Suc_conv simp del: length_sha_chain)
  then show ?thesis by (simp add: sha1_spec_def be_bytes_def)
qed

text \<open>C21. From any object (its buffer has the 64 bytes it is declared with), \<open>Reset\<close>, then \<open>Update\<close> with
  the parts of a message, each shorter than 4 GiB less 64 bytes and fewer than 2 ^ 60 bytes in all, and \<open>Final\<close>
  come back and leave in \<open>m_digest\<close> the SHA-1 hash of the message that the standard defines, however it is cut
  into parts.\<close>

theorem sha1_is_standard:
  assumes "\<forall>c \<in> set cs. length c < 2 ^ 32 - 64" and "length (concat cs) < 2 ^ 60" and "length (m_buffer s) = 64"
  shows "wp (feed cs (Reset s)) (\<lambda>_ s'. wp (Final s') (\<lambda>_ s''. GetHash s'' = sha1_spec (concat cs)))"
proof -
  have "wp (feed cs (Reset s)) (\<lambda>_ s'. hashed (concat cs) s')"
    using feed_ok [OF hashed_Reset [OF assms(3)] assms(1)] assms(2) by simp
  then show ?thesis unfolding GetHash_def by (rule wp_mono) (rule Final_ok [OF _ assms(2)])
qed

theorem sha1_is_standard_witness:
  "wp (feed [[0x61], [0x62, 0x63]] (Reset (csha1.make [] (0, 0) (replicate 64 0) [] [])))
     (\<lambda>_ s. wp (Final s) (\<lambda>_ s. ReportHash REPORT_HEX_SHORT s = ''A9993E364706816ABA3E25717850C26C9CD0D89D''))"
  by (rule wp_mono [OF sha1_is_standard [of "[[0x61], [0x62, 0x63]]"]], simp, simp, simp add: csha1.defs, erule wp_mono)
    (simp add: abc_hash GetHash_def ReportHash_def hex2_def hex_char_def)

end
