(* ===== verification/Numbers.thy ===== *)
theory Numbers
  imports Prelude
begin

text \<open>
  \<open>parseLong\<close> and \<open>parseUlong\<close> of \<open>src/ThornUtil.cpp\<close>, which the commands of the shell use for their
  arguments. \<open>strtol\<close> and \<open>strtoul\<close> are the functions of the C standard, for the bases from 2 to 36 that
  the callers pass: \<open>scan_number\<close> gives the sign, the magnitude and what is left of the string.
\<close>

definition is_space :: "char \<Rightarrow> bool" where
  "is_space c \<longleftrightarrow> (of_char c :: nat) \<in> {9, 10, 11, 12, 13, 32}"

definition digit_of :: "char \<Rightarrow> nat" where
  "digit_of c =
     (let n = of_char c
      in if 48 \<le> n \<and> n \<le> 57 then n - 48 else if 97 \<le> n \<and> n \<le> 122 then n - 87 else if 65 \<le> n \<and> n \<le> 90 then n - 55 else 36)"

definition magnitude :: "nat \<Rightarrow> string \<Rightarrow> nat" where
  "magnitude base ds = foldl (\<lambda>v c. v * base + digit_of c) 0 ds"

definition scan_number :: "nat \<Rightarrow> string \<Rightarrow> bool \<times> nat \<times> string" where
  "scan_number base str =
     (let s = dropWhile is_space str;
          neg = (s \<noteq> [] \<and> hd s = CHR ''-'');
          s = (if s \<noteq> [] \<and> (hd s = CHR ''-'' \<or> hd s = CHR ''+'') then tl s else s);
          s = (if base = 16 \<and> 3 \<le> length s \<and> s ! 0 = CHR ''0'' \<and> (s ! 1 = CHR ''x'' \<or> s ! 1 = CHR ''X'') \<and> digit_of (s ! 2) < 16
               then drop 2 s else s);
          ds = takeWhile (\<lambda>c. digit_of c < base) s
      in if ds = [] then (False, 0, str) else (neg, magnitude base ds, drop (length ds) s))"

definition strtoul_value :: "bool \<Rightarrow> nat \<Rightarrow> nat" where
  "strtoul_value neg v = (if 2 ^ 64 \<le> v then 2 ^ 64 - 1 else if neg then u64 (- int v) else v)"

definition strtol_value :: "bool \<Rightarrow> nat \<Rightarrow> int" where
  "strtol_value neg v = (if neg then max (- (2 ^ 63)) (- int v) else min (2 ^ 63 - 1) (int v))"

text \<open>The result is \<open>None\<close> where the functions return \<open>false\<close> and leave \<open>out\<close> alone.\<close>

definition parseLong :: "string \<Rightarrow> nat \<Rightarrow> int option" where
  "parseLong str base =
     (case scan_number base str of (neg, v, rest) \<Rightarrow> if rest \<noteq> [] then None else Some (strtol_value neg v))"

definition parseUlong :: "string \<Rightarrow> nat \<Rightarrow> nat option" where
  "parseUlong str base =
     (case scan_number base str of (neg, v, rest) \<Rightarrow> if rest \<noteq> [] then None else Some (strtoul_value neg v))"

text \<open>Digits alone give their value, cut at the largest number; the empty string gives 0.\<close>

lemma digit_not_space: "digit_of c < 36 \<Longrightarrow> \<not> is_space c \<and> c \<noteq> CHR ''-'' \<and> c \<noteq> CHR ''+''"
  by (auto simp: digit_of_def is_space_def Let_def split: if_splits)

lemma digit_not_x: "digit_of c < 16 \<Longrightarrow> c \<noteq> CHR ''x'' \<and> c \<noteq> CHR ''X''"
  by (auto simp: digit_of_def Let_def split: if_splits)

lemma scan_digits:
  assumes "\<forall>c \<in> set ds. digit_of c < base" and "base \<le> 36" and "ds \<noteq> []"
  shows "scan_number base ds = (False, magnitude base ds, [])"
proof -
  have h: "digit_of (hd ds) < 36" using assms by (cases ds) auto
  then have s: "dropWhile is_space ds = ds" using digit_not_space by (cases ds) auto
  have sign: "\<not> (hd ds = CHR ''-'')" "\<not> (hd ds = CHR ''+'')" using digit_not_space [OF h] by auto
  have hex: "\<not> (base = 16 \<and> 3 \<le> length ds \<and> ds ! 0 = CHR ''0'' \<and> (ds ! 1 = CHR ''x'' \<or> ds ! 1 = CHR ''X'') \<and> digit_of (ds ! 2) < 16)"
  proof
    assume a: "base = 16 \<and> 3 \<le> length ds \<and> ds ! 0 = CHR ''0'' \<and> (ds ! 1 = CHR ''x'' \<or> ds ! 1 = CHR ''X'') \<and> digit_of (ds ! 2) < 16"
    then have "ds ! 1 \<in> set ds" by (intro nth_mem) simp
    then have "digit_of (ds ! 1) < 16" using assms(1) a by blast
    then show False using digit_not_x [of "ds ! 1"] a by simp
  qed
  have all: "takeWhile (\<lambda>c. digit_of c < base) ds = ds" using assms(1) by (simp add: takeWhile_eq_all_conv)
  show ?thesis unfolding scan_number_def Let_def s using sign assms(3) by (simp only: if_False simp_thms if_not_P [OF hex] all) simp
qed

lemma parse_digits:
  assumes "\<forall>c \<in> set ds. digit_of c < base" and "base \<le> 36" and "ds \<noteq> []"
  shows "parseUlong ds base = Some (min (magnitude base ds) (2 ^ 64 - 1))"
    and "parseLong ds base = Some (min (int (magnitude base ds)) (2 ^ 63 - 1))"
  by (simp_all add: parseUlong_def parseLong_def scan_digits [OF assms] strtoul_value_def strtol_value_def)

lemma parse_empty: "parseUlong [] base = Some 0"
  by (simp add: parseUlong_def scan_number_def strtoul_value_def Let_def)

text \<open>Decimal numerals are read back.\<close>

definition digit_char :: "nat \<Rightarrow> char" where
  "digit_char n = char_of (48 + n)"

fun numeral_of :: "nat \<Rightarrow> string" where
  "numeral_of n = (if n < 10 then [digit_char n] else numeral_of (n div 10) @ [digit_char (n mod 10)])"

declare numeral_of.simps [simp del]

lemma digit_of_char [simp]: "n < 10 \<Longrightarrow> digit_of (digit_char n) = n"
  by (simp add: digit_of_def digit_char_def)

lemma numeral_of_digits: "(\<forall>c \<in> set (numeral_of n). digit_of c < 10) \<and> numeral_of n \<noteq> [] \<and> magnitude 10 (numeral_of n) = n"
proof (induction n rule: numeral_of.induct)
  case (1 n)
  then show ?case by (subst (1 2 3) numeral_of.simps) (auto simp: magnitude_def)
qed

lemma parse_numeral: "parseUlong (numeral_of n) 10 = Some n" if "n < 2 ^ 64"
  using parse_digits(1) [of "numeral_of n" 10] numeral_of_digits [of n] that by simp

end
