(* ===== verification/Serial.thy ===== *)
theory Serial
  imports Ports
begin

text \<open>
  The serial line: \<open>src/hardware/Serial.cpp\<close> on the byte ports of \<open>Ports\<close>, and the loop of the command
  \<open>readserial\<close> of the shell that takes its input from there. The loops that wait for the line are partial
  functions: on a line that never gets ready they do not return. The state is the flag \<open>ready\<close> with what is
  behind the ports.

  \<open>uart\<close> is a 16550 as its data sheet describes it, as far as the driver uses it: bytes that arrive after
  some polls of the status register, a transmitter that is busy for some polls, the divisor latch, and the
  loopback mode in which \<open>init\<close> tests the chip.
\<close>

section \<open>The driver\<close>

abbreviation COM1 :: nat where
  "COM1 \<equiv> 0x3f8"

definition serial_init :: "'p ports \<Rightarrow> nat \<Rightarrow> bool \<times> 'p \<Rightarrow> bool \<times> bool \<times> 'p" where
  "serial_init P base = (\<lambda>(ready, p).
     if base = COM1 \<and> ready then (True, ready, p)
     else
       let p = outb P (base + 1) 0x00 p;
           p = outb P (base + 3) 0x80 p;
           p = outb P (base + 0) 0x03 p;
           p = outb P (base + 1) 0x00 p;
           p = outb P (base + 3) 0x03 p;
           p = outb P (base + 2) 0xc7 p;
           p = outb P (base + 4) 0x0b p;
           p = outb P (base + 4) 0x1e p;
           p = outb P (base + 0) 0xae p;
           (b, p) = inb P (base + 0) p
       in if b \<noteq> 0xae then (False, ready, p)
          else let p = outb P (base + 4) 0x0f p in (True, (if base = COM1 then True else ready), p))"

partial_function (option) await :: "'p ports \<Rightarrow> nat \<Rightarrow> byte \<Rightarrow> 'p \<Rightarrow> 'p option" where
  "await W base b p =
     (let (s, p) = inb W (base + 5) p in if and s b = 0 then await W base b p else Some p)"

definition serial_read :: "'p ports \<Rightarrow> nat \<Rightarrow> 'p \<Rightarrow> (byte \<times> 'p) option" where
  "serial_read P base p = do { p \<leftarrow> await P base 1 p; Some (inb P base p) }"

definition serial_write :: "'p ports \<Rightarrow> nat \<Rightarrow> byte \<Rightarrow> 'p \<Rightarrow> (unit \<times> 'p) option" where
  "serial_write P base data p = do { p \<leftarrow> await P base 0x20 p; Some ((), outb P base data p) }"

primrec serial_puts :: "'p ports \<Rightarrow> nat \<Rightarrow> byte list \<Rightarrow> 'p \<Rightarrow> (unit \<times> 'p) option" where
  "serial_puts P base [] p = Some ((), p)"
| "serial_puts P base (c # cs) p =
     (if c = 0 then Some ((), p)
      else do { (u, p) \<leftarrow> serial_write P base c p; serial_puts P base cs p })"

text \<open>The loop of \<open>readSerial\<close>: \<open>^^\<close> stands for a caret, \<open>^q\<close> ends the input.\<close>

partial_function (option) read_input :: "'p ports \<Rightarrow> nat \<Rightarrow> byte list \<Rightarrow> 'p \<Rightarrow> (byte list \<times> 'p) option" where
  "read_input W base input p = do {
     (ch, p) \<leftarrow> serial_read W base p;
     if ch = 0x5e then do {
       (nxt, p) \<leftarrow> serial_read W base p;
       if nxt = 0x5e then read_input W base (input @ [ch]) p
       else if nxt = 0x71 then Some (input, p)
       else read_input W base input p
     }
     else read_input W base (input @ [ch]) p
   }"


section \<open>The chip\<close>

record uart =
  rx :: "byte list"
  coming :: "(nat \<times> byte) list"
  tx :: "byte list"
  tx_busy :: nat
  ier :: byte
  lcr :: byte
  mcr :: byte
  dll :: byte
  dlm :: byte

definition uart_tick :: "uart \<Rightarrow> uart" where
  "uart_tick u =
     (let u = u\<lparr>tx_busy := tx_busy u - 1\<rparr>
      in case coming u of
           [] \<Rightarrow> u
         | (0, b) # bs \<Rightarrow> u\<lparr>rx := rx u @ [b], coming := bs\<rparr>
         | (Suc n, b) # bs \<Rightarrow> u\<lparr>coming := (n, b) # bs\<rparr>)"

definition uart_in :: "nat \<Rightarrow> nat \<Rightarrow> uart \<Rightarrow> byte \<times> uart" where
  "uart_in base a u =
     (if a = base then
        (if bit (lcr u) 7 then (dll u, u)
         else case rx u of [] \<Rightarrow> (0, u) | b # bs \<Rightarrow> (b, u\<lparr>rx := bs\<rparr>))
      else if a = base + 5 then
        ((if rx u = [] then 0 else 1) + (if tx_busy u = 0 then 0x20 else 0), uart_tick u)
      else (0, u))"

definition uart_out :: "nat \<Rightarrow> nat \<Rightarrow> nat \<Rightarrow> byte \<Rightarrow> uart \<Rightarrow> uart" where
  "uart_out lag base a v u =
     (if a = base then
        (if bit (lcr u) 7 then u\<lparr>dll := v\<rparr>
         else if bit (mcr u) 4 then u\<lparr>rx := rx u @ [v]\<rparr>
         else u\<lparr>tx := tx u @ [v], tx_busy := lag\<rparr>)
      else if a = base + 1 then (if bit (lcr u) 7 then u\<lparr>dlm := v\<rparr> else u\<lparr>ier := v\<rparr>)
      else if a = base + 2 then (if bit v 1 then u\<lparr>rx := []\<rparr> else u)
      else if a = base + 3 then u\<lparr>lcr := v\<rparr>
      else if a = base + 4 then u\<lparr>mcr := v\<rparr>
      else u)"

definition uart_ports :: "nat \<Rightarrow> nat \<Rightarrow> uart ports" where
  "uart_ports lag base =
     \<lparr>inb = uart_in base, outb = uart_out lag base, insw = (\<lambda>a n u. ([], u)), outsw = (\<lambda>a bs u. u),
      insl = (\<lambda>a n u. ([], u))\<rparr>"

lemma uart_ports_simps [simp]: "inb (uart_ports lag base) = uart_in base" "outb (uart_ports lag base) = uart_out lag base"
  by (simp_all add: uart_ports_def)

text \<open>All bytes that are still to be read, and the mode in which the chip transmits and receives.\<close>

definition input_of :: "uart \<Rightarrow> byte list" where
  "input_of u = rx u @ map snd (coming u)"

definition normal_mode :: "uart \<Rightarrow> bool" where
  "normal_mode u \<longleftrightarrow> \<not> bit (lcr u) 7 \<and> \<not> bit (mcr u) 4"

definition same_line :: "uart \<Rightarrow> uart \<Rightarrow> bool" where
  "same_line u u' \<longleftrightarrow> lcr u' = lcr u \<and> mcr u' = mcr u \<and> ier u' = ier u \<and> dll u' = dll u \<and> dlm u' = dlm u"

lemma uart_tick_simps [simp]: "input_of (uart_tick u) = input_of u" "tx (uart_tick u) = tx u" "same_line u (uart_tick u)" "tx_busy (uart_tick u) = tx_busy u - 1"
  by (simp_all add: uart_tick_def input_of_def same_line_def Let_def split: list.split nat.split)

lemma same_line_trans: "same_line u u' \<Longrightarrow> same_line u' u'' \<Longrightarrow> same_line u u''"
  by (simp add: same_line_def)

lemma same_line_mode: "same_line u u' \<Longrightarrow> normal_mode u' = normal_mode u"
  by (simp add: same_line_def normal_mode_def)

lemma await_step: "await (uart_ports lag base) base b u =
    (if and (fst (uart_in base (base + 5) u)) b = 0 then await (uart_ports lag base) base b (uart_tick u) else Some (uart_tick u))"
  by (subst await.simps) (simp add: uart_in_def Let_def)

text \<open>The transmitter gets ready, and a byte arrives.\<close>

lemma await_tx: "\<exists>u'. await (uart_ports lag base) base 0x20 u = Some u' \<and> input_of u' = input_of u \<and> tx u' = tx u \<and> same_line u u'"
proof (induction "tx_busy u" arbitrary: u)
  case 0
  then show ?case by (subst await_step) (auto simp: uart_in_def)
next
  case (Suc n)
  then have "n = tx_busy (uart_tick u)" by simp
  from Suc.hyps(1) [OF this] obtain u' where "await (uart_ports lag base) base 0x20 (uart_tick u) = Some u'"
    "input_of u' = input_of (uart_tick u)" "tx u' = tx (uart_tick u)" "same_line (uart_tick u) u'" by blast
  moreover have "and (fst (uart_in base (base + 5) u)) 0x20 = 0" using Suc.hyps(2) by (auto simp: uart_in_def)
  ultimately show ?case using same_line_trans [OF uart_tick_simps(3)] by (subst await_step) auto
qed

definition wait_of :: "uart \<Rightarrow> nat" where
  "wait_of u = (if rx u \<noteq> [] then 0 else case coming u of [] \<Rightarrow> 0 | (n, b) # bs \<Rightarrow> Suc n)"

lemma await_rx: "input_of u \<noteq> [] \<Longrightarrow>
    \<exists>u'. await (uart_ports lag base) base 1 u = Some u' \<and> rx u' \<noteq> [] \<and> input_of u' = input_of u \<and> tx u' = tx u \<and> same_line u u'"
proof (induction "wait_of u" arbitrary: u)
  case 0
  then have "rx u \<noteq> []" by (auto simp: wait_of_def input_of_def split: if_splits list.splits)
  then have "rx (uart_tick u) \<noteq> []" by (simp add: uart_tick_def Let_def split: list.split nat.split)
  with \<open>rx u \<noteq> []\<close> show ?case by (subst await_step) (auto simp: uart_in_def)
next
  case (Suc n)
  then have r: "rx u = []" by (auto simp: wait_of_def split: if_splits)
  then obtain k b bs where c: "coming u = (k, b) # bs" using Suc.prems by (cases "coming u") (auto simp: input_of_def)
  have "n = wait_of (uart_tick u)" using Suc.hyps(2) r c by (auto simp: wait_of_def uart_tick_def Let_def split: nat.split)
  from Suc.hyps(1) [OF this] Suc.prems obtain u' where "await (uart_ports lag base) base 1 (uart_tick u) = Some u'" "rx u' \<noteq> []"
    "input_of u' = input_of u" "tx u' = tx u" "same_line (uart_tick u) u'" by auto
  moreover have "and (fst (uart_in base (base + 5) u)) 1 = 0" using r by (simp add: uart_in_def)
  ultimately show ?case using same_line_trans [OF uart_tick_simps(3)] by (subst await_step) auto
qed

lemma await_arrives:
  assumes "await W base b u = Some u'"
  shows "W = uart_ports lag base \<longrightarrow> b = 1 \<longrightarrow> input_of u \<noteq> []"
proof (rule await.raw_induct [where P = "\<lambda>W base b u u'. W = uart_ports lag base \<longrightarrow> b = 1 \<longrightarrow> input_of u \<noteq> []", OF _ assms], intro impI)
  fix f W base b and u u' :: uart
  assume IH: "\<And>W base b u u'. f W base b u = Some u' \<Longrightarrow> W = uart_ports lag base \<longrightarrow> b = 1 \<longrightarrow> input_of u \<noteq> []"
    and run: "(let (s, p) = inb W (base + 5) u in if and s b = 0 then f W base b p else Some p) = Some u'"
    and W: "W = uart_ports lag base" "b = 1"
  show "input_of u \<noteq> []"
  proof (cases "rx u = []")
    case True
    then have "f W base b (uart_tick u) = Some u'" using run W by (auto simp: uart_in_def split: if_splits)
    from IH [OF this] W show ?thesis by simp
  qed (simp add: input_of_def)
qed

lemma await_nothing: "input_of u = [] \<Longrightarrow> await (uart_ports lag base) base 1 u = None"
  using await_arrives [of "uart_ports lag base" base 1 u _ lag] by (cases "await (uart_ports lag base) base 1 u") auto


section \<open>Reading and writing\<close>

lemma serial_read_ok:
  assumes "normal_mode u" and "input_of u = b # bs"
  shows "wp (serial_read (uart_ports lag base) base u) (\<lambda>r u'. r = b \<and> input_of u' = bs \<and> tx u' = tx u \<and> same_line u u')"
proof -
  obtain u1 where u1: "await (uart_ports lag base) base 1 u = Some u1" "rx u1 \<noteq> []" "input_of u1 = b # bs" "tx u1 = tx u" "same_line u u1"
    using await_rx [of u lag base] assms(2) by auto
  then obtain rs where rs: "rx u1 = b # rs" by (cases "rx u1") (auto simp: input_of_def)
  have "\<not> bit (lcr u1) 7" using same_line_mode [OF u1(5)] assms(1) by (simp add: normal_mode_def)
  then show ?thesis using u1 rs by (auto simp: serial_read_def uart_in_def input_of_def same_line_def)
qed

lemma serial_read_stuck: "input_of u = [] \<Longrightarrow> serial_read (uart_ports lag base) base u = None"
  by (simp add: serial_read_def await_nothing)

lemma serial_write_ok:
  assumes "normal_mode u"
  shows "wp (serial_write (uart_ports lag base) base b u) (\<lambda>_ u'. tx u' = tx u @ [b] \<and> input_of u' = input_of u \<and> same_line u u')"
proof -
  obtain u1 where u1: "await (uart_ports lag base) base 0x20 u = Some u1" "input_of u1 = input_of u" "tx u1 = tx u" "same_line u u1"
    using await_tx [of lag base u] by blast
  have "normal_mode u1" using same_line_mode [OF u1(4)] assms by simp
  then show ?thesis using u1 by (simp add: serial_write_def uart_out_def normal_mode_def input_of_def same_line_def)
qed

lemma serial_puts_ok:
  assumes "normal_mode u" and "0 \<notin> set cs"
  shows "wp (serial_puts (uart_ports lag base) base cs u) (\<lambda>_ u'. tx u' = tx u @ cs \<and> input_of u' = input_of u \<and> same_line u u')"
  using assms
proof (induction cs arbitrary: u)
  case (Cons c cs)
  have rest: "wp (serial_puts (uart_ports lag base) base cs u1) (\<lambda>_ u'. tx u' = tx u @ c # cs \<and> input_of u' = input_of u \<and> same_line u u')"
    if u1: "tx u1 = tx u @ [c] \<and> input_of u1 = input_of u \<and> same_line u u1" for u1
  proof (rule wp_mono [OF Cons.IH])
    show "normal_mode u1" using same_line_mode [of u u1] u1 Cons.prems(1) by simp
  qed (use u1 same_line_trans [of u u1] Cons.prems(2) in auto)
  have "serial_puts (uart_ports lag base) base (c # cs) u =
      Option.bind (serial_write (uart_ports lag base) base c u) (\<lambda>(_, u). serial_puts (uart_ports lag base) base cs u)"
    using Cons.prems(2) by simp
  then show ?case by (simp only:) (rule wp_then [OF serial_write_ok [OF Cons.prems(1)]], simp add: rest)
qed (simp add: same_line_def)

lemma serial_init_ok:
  "\<exists>u'. serial_init (uart_ports lag base) base (ready, u) = (True, base = COM1 \<or> ready, u') \<and>
     (if base = COM1 \<and> ready then u' = u
      else dll u' = 3 \<and> dlm u' = 0 \<and> lcr u' = 3 \<and> mcr u' = 0x0f \<and> ier u' = (if bit (lcr u) 7 then ier u else 0) \<and> rx u' = [] \<and> coming u' = coming u \<and> tx u' = tx u)"
  by (simp add: serial_init_def uart_out_def uart_in_def Let_def)

lemma normal_after_init: "lcr u = 3 \<Longrightarrow> mcr u = 0x0f \<Longrightarrow> normal_mode u"
  by (simp add: normal_mode_def)

text \<open>What the input means: the text up to the first \<open>^q\<close>, and what is left.\<close>

fun unescape :: "byte list \<Rightarrow> (byte list \<times> byte list) option" where
  "unescape [] = None"
| "unescape [c] = None"
| "unescape (c # d # bs) =
     (if c \<noteq> 0x5e then map_option (apfst ((#) c)) (unescape (d # bs))
      else if d = 0x71 then Some ([], bs)
      else if d = 0x5e then map_option (apfst ((#) c)) (unescape bs)
      else unescape bs)"

definition escape :: "byte list \<Rightarrow> byte list" where
  "escape bs = concat (map (\<lambda>b. if b = 0x5e then [0x5e, 0x5e] else [b]) bs)"

lemma unescape_escape: "unescape (escape bs @ 0x5e # 0x71 # rest) = Some (bs, rest)"
proof (induction bs)
  case (Cons b bs)
  have "\<exists>x xs. escape bs @ 0x5e # 0x71 # rest = x # xs" by (cases "escape bs") auto
  then show ?case using Cons by (auto simp: escape_def)
qed (simp add: escape_def)

text \<open>What \<open>read_input\<close> does is what \<open>unescape\<close> says of the bytes that come.\<close>

definition decodes :: "nat \<Rightarrow> nat \<Rightarrow> byte list \<Rightarrow> uart \<Rightarrow> bool" where
  "decodes lag base acc u \<longleftrightarrow>
     (case unescape (input_of u) of
        None \<Rightarrow> read_input (uart_ports lag base) base acc u = None
      | Some (t, rest) \<Rightarrow> wp (read_input (uart_ports lag base) base acc u)
          (\<lambda>r u'. r = acc @ t \<and> input_of u' = rest \<and> tx u' = tx u \<and> same_line u u'))"

lemma decodes_step:
  assumes "read_input (uart_ports lag base) base acc u = read_input (uart_ports lag base) base acc' u1"
    and "decodes lag base acc' u1" and "acc' = acc @ add" and "tx u1 = tx u" and "same_line u u1"
    and "unescape (input_of u) = map_option (apfst ((@) add)) (unescape (input_of u1))"
  shows "decodes lag base acc u"
  using assms same_line_trans [OF assms(5)]
  by (auto simp: decodes_def split: option.splits elim!: wp_mono)

lemma read_input_nothing: "input_of u = [] \<Longrightarrow> read_input (uart_ports lag base) base acc u = None"
  by (subst read_input.simps) (simp add: serial_read_stuck)

lemma read_input_byte:
  assumes "normal_mode u" and "input_of u = c # bs" and "c \<noteq> 0x5e"
  shows "\<exists>u1. read_input (uart_ports lag base) base acc u = read_input (uart_ports lag base) base (acc @ [c]) u1 \<and>
    input_of u1 = bs \<and> tx u1 = tx u \<and> same_line u u1"
proof -
  obtain u1 where u1: "serial_read (uart_ports lag base) base u = Some (c, u1)" "input_of u1 = bs" "tx u1 = tx u" "same_line u u1"
    using serial_read_ok [OF assms(1,2), of lag base] by (auto elim!: wpE)
  then show ?thesis using assms(3) by (subst read_input.simps) auto
qed

lemma read_input_caret:
  assumes "normal_mode u" and "input_of u = 0x5e # d # bs"
  shows "\<exists>u1. read_input (uart_ports lag base) base acc u =
      (if d = 0x71 then Some (acc, u1) else read_input (uart_ports lag base) base (if d = 0x5e then acc @ [d] else acc) u1) \<and>
    input_of u1 = bs \<and> tx u1 = tx u \<and> same_line u u1"
proof -
  obtain u1 where u1: "serial_read (uart_ports lag base) base u = Some (0x5e, u1)" "input_of u1 = d # bs" "tx u1 = tx u" "same_line u u1"
    using serial_read_ok [OF assms, of lag base] by (auto elim!: wpE)
  have "normal_mode u1" using same_line_mode [OF u1(4)] assms(1) by simp
  then obtain u2 where u2: "serial_read (uart_ports lag base) base u1 = Some (d, u2)" "input_of u2 = bs" "tx u2 = tx u1" "same_line u1 u2"
    using serial_read_ok [OF _ u1(2), of lag base] by (auto elim!: wpE)
  then show ?thesis using u1 same_line_trans [OF u1(4) u2(4)]
    by (subst read_input.simps) (auto intro!: exI [of _ u2])
qed

lemma read_input_ok: "normal_mode u \<Longrightarrow> decodes lag base acc u"
proof (induction "input_of u" arbitrary: u acc rule: unescape.induct)
  case 1
  then show ?case by (simp add: decodes_def read_input_nothing flip: 1(1))
next
  case (2 c)
  note c = 2(1) [symmetric]
  show ?case
  proof (cases "c = 0x5e")
    case True
    obtain u1 where u1: "serial_read (uart_ports lag base) base u = Some (c, u1)" "input_of u1 = []"
      using serial_read_ok [OF 2(2) c, of lag base] by (auto elim!: wpE)
    then show ?thesis using True c by (simp add: decodes_def) (subst read_input.simps, simp add: serial_read_stuck)
  next
    case False
    from read_input_byte [OF 2(2) c False, of lag base acc] show ?thesis
      by (auto simp: decodes_def c read_input_nothing)
  qed
next
  case (3 c d bs)
  note c = 3(4) [symmetric]
  show ?case
  proof (cases "c = 0x5e")
    case False
    obtain u1 where u1: "read_input (uart_ports lag base) base acc u = read_input (uart_ports lag base) base (acc @ [c]) u1"
      "input_of u1 = d # bs" "tx u1 = tx u" "same_line u u1" using read_input_byte [OF 3(5) c False] by blast
    have "decodes lag base (acc @ [c]) u1"
      using 3(1) [OF False u1(2) [symmetric]] same_line_mode [OF u1(4)] 3(5) by simp
    then show ?thesis by (rule decodes_step [OF u1(1) _ refl u1(3,4)])
      (use False c u1(2) in \<open>simp add: apfst_def map_prod_def\<close>)
  next
    case True
    note c' = c [unfolded True]
    obtain u1 where u1: "read_input (uart_ports lag base) base acc u =
        (if d = 0x71 then Some (acc, u1) else read_input (uart_ports lag base) base (if d = 0x5e then acc @ [d] else acc) u1)"
      "input_of u1 = bs" "tx u1 = tx u" "same_line u u1" using read_input_caret [OF 3(5) c'] by blast
    have n: "normal_mode u1" using same_line_mode [OF u1(4)] 3(5) by simp
    consider "d = 0x71" | "d = 0x5e" | "d \<noteq> 0x71" "d \<noteq> 0x5e" by blast
    then show ?thesis
    proof cases
      case 1
      then show ?thesis using u1 c' by (simp add: decodes_def)
    next
      case 2
      then have "decodes lag base (acc @ [d]) u1" using 3(2) [OF _ _ _ u1(2) [symmetric] n] True by simp
      then show ?thesis by (rule decodes_step [rotated, OF _ refl u1(3,4)]) (use u1(1,2) 2 c' in \<open>simp_all add: apfst_def map_prod_def\<close>)
    next
      case d: 3
      then have "decodes lag base acc u1" using 3(3) [OF _ _ _ u1(2) [symmetric] n] True by simp
      then show ?thesis by (rule decodes_step [where add = "[]", rotated, OF _ _ u1(3,4)]) (use u1(1,2) d c' in \<open>simp_all add: apfst_def map_prod_def option.map_id0 flip: id_def\<close>)
    qed
  qed
qed


section \<open>The line as a whole\<close>

text \<open>
  On a 16550 in any state, at any base, \<open>init\<close> reports success (on \<open>COM1\<close> only the first time, while \<open>ready\<close> is
  false, does it do anything). It leaves 38400 baud, 8 bits, no parity and empties the receiver; the interrupts
  are off only when the divisor latch was closed, since the first write goes to the latch otherwise. Then a text
  without the byte 0 is sent as it is, and \<open>readserial\<close> gives the text before the first \<open>^q\<close>, in which carets come
  doubled, and waits for ever when there is none.
\<close>

lemma serial_line:
  assumes "base \<noteq> COM1 \<or> \<not> ready" and "0 \<notin> set cs"
  shows "\<exists>u1. serial_init (uart_ports lag base) base (ready, u) = (True, base = COM1 \<or> ready, u1) \<and>
    dll u1 = 3 \<and> dlm u1 = 0 \<and> lcr u1 = 3 \<and> ier u1 = (if bit (lcr u) 7 then ier u else 0) \<and> input_of u1 = map snd (coming u) \<and>
    wp (serial_puts (uart_ports lag base) base cs u1) (\<lambda>_ u2. tx u2 = tx u @ cs \<and> input_of u2 = input_of u1) \<and>
    (\<forall>t rest. map snd (coming u) = escape t @ 0x5e # 0x71 # rest \<longrightarrow>
      wp (read_input (uart_ports lag base) base [] u1) (\<lambda>r u2. r = t \<and> input_of u2 = rest \<and> tx u2 = tx u)) \<and>
    (unescape (map snd (coming u)) = None \<longrightarrow> read_input (uart_ports lag base) base [] u1 = None)"
proof -
  obtain u1 where u1: "serial_init (uart_ports lag base) base (ready, u) = (True, base = COM1 \<or> ready, u1)"
      "dll u1 = 3" "dlm u1 = 0" "lcr u1 = 3" "mcr u1 = 0x0f" "ier u1 = (if bit (lcr u) 7 then ier u else 0)"
      "rx u1 = []" "coming u1 = coming u" "tx u1 = tx u"
    using serial_init_ok [of lag base ready u] assms(1) by auto
  have n: "normal_mode u1" by (rule normal_after_init [OF u1(4,5)])
  have i: "input_of u1 = map snd (coming u)" by (simp add: input_of_def u1)
  show ?thesis
    using u1 i serial_puts_ok [OF n assms(2), of lag base] read_input_ok [OF n, of lag base "[]"]
    by (intro exI [of _ u1]) (auto simp: decodes_def unescape_escape elim!: wp_mono)
qed

text \<open>A letter and \<open>^q\<close> arrive with pauses at a chip whose latch was open and whose receiver held an old byte.\<close>

definition sample_uart :: uart where
  "sample_uart = \<lparr>rx = [7], coming = [(2, 0x61), (0, 0x5e), (5, 0x71)], tx = [], tx_busy = 4, ier = 9, lcr = 0x80, mcr = 0, dll = 0, dlm = 0\<rparr>"

lemma serial_line_witness:
  "\<exists>u1. serial_init (uart_ports 3 COM1) COM1 (False, sample_uart) = (True, True, u1) \<and> ier u1 = 9 \<and>
    wp (read_input (uart_ports 3 COM1) COM1 [] u1) (\<lambda>r u2. r = [0x61])"
proof -
  have l: "bit (lcr sample_uart) 7" by (simp add: sample_uart_def)
  have c: "map snd (coming sample_uart) = escape [0x61] @ 0x5e # 0x71 # []" by (simp add: sample_uart_def escape_def)
  obtain u1 where u1: "serial_init (uart_ports 3 COM1) COM1 (False, sample_uart) = (True, True, u1)" "ier u1 = ier sample_uart"
    "wp (read_input (uart_ports 3 COM1) COM1 [] u1) (\<lambda>r u2. r = [0x61] \<and> input_of u2 = [] \<and> tx u2 = tx sample_uart)"
    using serial_line [of COM1 False "[]" 3 sample_uart] l c by auto
  moreover have "ier sample_uart = 9" by (simp add: sample_uart_def)
  ultimately show ?thesis by (auto elim!: wp_mono)
qed

end
