(* ===== verification/Shell.thy ===== *)
theory Shell
  imports ThornFAT AHCI_Device Partition_Readers Numbers Serial SHA1
begin

text \<open>
  The commands of the test shell: \<open>handleInput\<close> of \<open>src/Test.cpp\<close> and the functions it calls, with the
  \<open>InputContext\<close> that they share.

  The objects that the commands create and delete are kept at addresses: AHCI ports, devices, partitions
  and drivers. An address without an object is a pointer to something that has been deleted: using it or
  deleting it again is undefined, \<open>None\<close>. A controller is an element of the vector \<open>AHCI::controllers\<close>, named by
  its index; to delete one is undefined. The driver of the context and the partition and device it points to
  make up the state that the operations of \<open>ThornFAT\<close> take (\<open>fetch\<close>), and are stored back after them. A device is
  one of the two classes, and \<open>dev_ops\<close> its virtual functions.

  \<open>tprintf\<close> and \<open>printf\<close> append their format, without the line feed, and their arguments to \<open>printed\<close>, and
  calls that print one text piece by piece are one message; \<open>Err n\<close> is
  \<open>strerror(n)\<close>. The hardware, the search for AHCI controllers (\<open>initAHCI\<close>), the memory that is not initialised,
  and the commands that only print or do not end (\<open>list\<close>, \<open>find\<close>, \<open>parseelf\<close>, \<open>clear\<close>, \<open>loader\<close>, \<open>loop\<close>) are
  in \<open>env\<close>, an argument of every command.
\<close>

section \<open>State\<close>

datatype arg = Str string | Num int | Err int

datatype dev = AHCI_dev "nat ahci_device" | IDE_dev nat

record part_object =
  parent :: nat
  part_offset :: nat
  part_length :: nat
  part_writes :: "(nat \<times> nat) list"
  part_reads :: "(nat \<times> nat) list"

record driver_object =
  d_partition :: nat
  d_sblk :: superblock
  d_free :: int
  d_root :: dirent
  d_offset :: nat

record ('p, 'h, 'u) session =
  s_controller :: "nat option"
  s_port :: "nat option"
  s_ahci :: bool
  s_idePort :: int
  s_device :: "nat option"
  s_partition :: "nat option"
  s_driver :: "nat option"
  s_path :: string
  portBase :: nat
  s_controllers :: "(nat \<Rightarrow> nat option) list"
  o_ports :: "nat \<Rightarrow> ahci_port option"
  o_devices :: "nat \<Rightarrow> dev option"
  o_partitions :: "nat \<Rightarrow> part_object option"
  o_drivers :: "nat \<Rightarrow> driver_object option"
  fresh :: nat
  ide_hw :: "'p ide"
  hba_hw :: 'h
  line_ready :: bool
  line_hw :: 'u
  printed :: "(string \<times> arg list) list"

record ('p, 'h, 'u) env =
  ide_io :: "'p ports"
  hba_io :: "'h hba"
  line_io :: "'u ports"
  stack :: "nat \<Rightarrow> byte"
  old_superblock :: superblock
  old_sha :: csha1
  find_controllers :: "'h \<Rightarrow> ((nat \<Rightarrow> ahci_port option) list \<times> 'h) option"
  other_command :: "string list \<Rightarrow> ('p, 'h, 'u) session \<Rightarrow> (unit \<times> ('p, 'h, 'u) session) option"

definition say :: "string \<Rightarrow> arg list \<Rightarrow> ('p, 'h, 'u) session \<Rightarrow> ('p, 'h, 'u) session" where
  "say fmt args s = s\<lparr>printed := printed s @ [(fmt, args)]\<rparr>"

type_synonym ('p, 'h, 'u) run = "(unit \<times> ('p, 'h, 'u) session) option"

abbreviation says :: "string \<Rightarrow> arg list \<Rightarrow> ('p, 'h, 'u) session \<Rightarrow> ('p, 'h, 'u) run" where
  "says fmt args s \<equiv> Some ((), say fmt args s)"

text \<open>The virtual functions of a device, on the device and what is behind the IDE channels.\<close>

definition dev_ops :: "'p ports \<Rightarrow> (nat \<Rightarrow> byte) \<Rightarrow> (dev \<times> 'p ide) storage" where
  "dev_ops P junk = \<lparr>
     sread = (\<lambda>n off (d, w). case d of
         AHCI_dev a \<Rightarrow> do { (r, a) \<leftarrow> sread (ahci_ops junk) n off a; Some (r, AHCI_dev a, w) }
       | IDE_dev i \<Rightarrow> do { (r, w) \<leftarrow> sread (ide_ops P junk i) n off w; Some (r, IDE_dev i, w) }),
     swrite = (\<lambda>bs off (d, w). case d of
         AHCI_dev a \<Rightarrow> do { (r, a) \<leftarrow> swrite (ahci_ops junk) bs off a; Some (r, AHCI_dev a, w) }
       | IDE_dev i \<Rightarrow> do { (r, w) \<leftarrow> swrite (ide_ops P junk i) bs off w; Some (r, IDE_dev i, w) }),
     sclear = (\<lambda>off n (d, w). case d of
         AHCI_dev a \<Rightarrow> do { (r, a) \<leftarrow> sclear (ahci_ops junk) off n a; Some (r, AHCI_dev a, w) }
       | IDE_dev i \<Rightarrow> do { (r, w) \<leftarrow> sclear (ide_ops P junk i) off n w; Some (r, IDE_dev i, w) })\<rparr>"

abbreviation ops_of :: "('p, 'h, 'u) env \<Rightarrow> (dev \<times> 'p ide) storage" where
  "ops_of E \<equiv> dev_ops (ide_io E) (stack E)"

definition whole_partition :: "part_object \<Rightarrow> dev \<Rightarrow> 'p ide \<Rightarrow> (dev \<times> 'p ide) partition" where
  "whole_partition q v w =
     \<lparr>writeRecords = part_writes q, readRecords = part_reads q, pdev = (v, w), poffset = part_offset q, plength = part_length q\<rparr>"

definition keep_partition :: "nat \<Rightarrow> part_object \<Rightarrow> (dev \<times> 'p ide) partition \<Rightarrow> ('p, 'h, 'u) session \<Rightarrow> ('p, 'h, 'u) session" where
  "keep_partition a q p s = s\<lparr>
     o_partitions := (o_partitions s)(a \<mapsto> q\<lparr>part_writes := writeRecords p, part_reads := readRecords p\<rparr>),
     o_devices := (o_devices s)(parent q \<mapsto> fst (pdev p)), ide_hw := snd (pdev p)\<rparr>"

definition fetch :: "('p, 'h, 'u) session \<Rightarrow> (nat \<times> driver_object \<times> part_object \<times> (dev \<times> 'p ide) driver) option" where
  "fetch s = do {
     r \<leftarrow> s_driver s;
     d \<leftarrow> o_drivers s r;
     q \<leftarrow> o_partitions s (d_partition d);
     v \<leftarrow> o_devices s (parent q);
     Some (r, d, q, \<lparr>partition = whole_partition q v (ide_hw s), sblk = d_sblk d, blocksFree = d_free d, root = d_root d,
       writeOffset = d_offset d\<rparr>)
   }"

definition keep_driver :: "nat \<Rightarrow> nat \<Rightarrow> (dev \<times> 'p ide) driver \<Rightarrow> ('p, 'h, 'u) session \<Rightarrow> ('p, 'h, 'u) session" where
  "keep_driver r a x s = s\<lparr>o_drivers := (o_drivers s)(r \<mapsto>
     \<lparr>d_partition = a, d_sblk = sblk x, d_free = blocksFree x, d_root = root x, d_offset = writeOffset x\<rparr>)\<rparr>"

definition on_driver :: "((dev \<times> 'p ide) driver \<Rightarrow> ('a \<times> (dev \<times> 'p ide) driver) option) \<Rightarrow> ('p, 'h, 'u) session \<Rightarrow> ('a \<times> ('p, 'h, 'u) session) option" where
  "on_driver f s = do {
     (r, d, q, x) \<leftarrow> fetch s;
     (y, x) \<leftarrow> f x;
     Some (y, keep_driver r (d_partition d) x (keep_partition (d_partition d) q (partition x) s))
   }"


section \<open>Commands on files\<close>

text \<open>The tests with which the commands on files begin.\<close>

definition checked :: "('p, 'h, 'u) env \<Rightarrow> (('p, 'h, 'u) session \<Rightarrow> ('p, 'h, 'u) run) \<Rightarrow> ('p, 'h, 'u) session \<Rightarrow> ('p, 'h, 'u) run" where
  "checked E body s =
     (if s_driver s = None then says ''Driver isn't ready.'' [] s
      else do {
        (ok, s) \<leftarrow> on_driver (verify (ops_of E)) s;
        if \<not> ok then says ''Driver couldn't verify filesystem validity.'' [] s else body s
      })"

definition cd :: "('p, 'h, 'u) env \<Rightarrow> string list \<Rightarrow> ('p, 'h, 'u) session \<Rightarrow> ('p, 'h, 'u) run" where
  "cd E pieces s =
     (if length pieces \<noteq> 2 then says ''Usage: - cd <path>'' [] s
      else checked E (\<lambda>s. do {
        path \<leftarrow> simplifyPath_cwd (s_path s) (pieces ! 1);
        (status, s) \<leftarrow> on_driver (isdir (ops_of E) path) s;
        if status = 0 then says ''Can't change directory: path is a file'' [] s
        else if status < 0 then says ''Can't change directory: %s (%d)'' [Err (- status), Num status] s
        else Some ((), s\<lparr>s_path := path\<rparr>)
      }) s)"

definition rmdir_command :: "('p, 'h, 'u) env \<Rightarrow> string list \<Rightarrow> ('p, 'h, 'u) session \<Rightarrow> ('p, 'h, 'u) run" where
  "rmdir_command E pieces s =
     (if length pieces \<noteq> 2 then says ''Usage: - rmdir <path>'' [] s
      else checked E (\<lambda>s. do {
        path \<leftarrow> simplifyPath_cwd (s_path s) (pieces ! 1);
        (status, s) \<leftarrow> on_driver (rmdir (ops_of E) path) s;
        if status \<noteq> 0 then says ''Couldn't remove directory: %s (%d)'' [Err (- status), Num status] s
        else says ''Removed %s.'' [Str path] s
      }) s)"

definition remove_command :: "('p, 'h, 'u) env \<Rightarrow> string list \<Rightarrow> ('p, 'h, 'u) session \<Rightarrow> ('p, 'h, 'u) run" where
  "remove_command E pieces s =
     (if length pieces \<noteq> 2 then says ''Usage: - rm <path>'' [] s
      else checked E (\<lambda>s. do {
        path \<leftarrow> simplifyPath_cwd (s_path s) (pieces ! 1);
        (status, s) \<leftarrow> on_driver (unlink (ops_of E) path) s;
        if status \<noteq> 0 then says ''Couldn't remove file: %s (%d)'' [Err (- status), Num status] s
        else says ''Removed %s.'' [Str path] s
      }) s)"

definition create_command :: "('p, 'h, 'u) env \<Rightarrow> string list \<Rightarrow> ('p, 'h, 'u) session \<Rightarrow> ('p, 'h, 'u) run" where
  "create_command E pieces s =
     (if length pieces \<noteq> 2 \<and> length pieces \<noteq> 3 then says ''Usage: - create <path> [modes]'' [] s
      else checked E (\<lambda>s. do {
        path \<leftarrow> simplifyPath_cwd (s_path s) (pieces ! 1);
        case (if length pieces = 3 then parseUlong (pieces ! 2) 8 else Some 420) of
          None \<Rightarrow> says ''Couldn't parse modes.'' [] s
        | Some m \<Rightarrow> do {
            (status, s) \<leftarrow> on_driver (create (ops_of E) path (u32 (int m))) s;
            if status \<noteq> 0 then says ''Couldn't create file: %s (%d)'' [Err (- status), Num status] s
            else says ''Created %s.'' [Str path] s
          }
      }) s)"

text \<open>The pieces from \<open>i\<close> on, joined by spaces, and as bytes.\<close>

definition joined :: "nat \<Rightarrow> string list \<Rightarrow> string" where
  "joined i pieces = foldl (\<lambda>t p. t @ '' '' @ p) (pieces ! i) (drop (i + 1) pieces)"

definition char_bytes :: "string \<Rightarrow> byte list" where
  "char_bytes = map of_char"

definition byte_text :: "byte list \<Rightarrow> string" where
  "byte_text = map (\<lambda>b. char_of (unat b))"

definition write_file ::
  "('p, 'h, 'u) env \<Rightarrow> string \<Rightarrow> byte list \<Rightarrow> (int \<Rightarrow> string \<times> arg list) \<Rightarrow> string \<times> arg list \<Rightarrow> ('p, 'h, 'u) session \<Rightarrow> ('p, 'h, 'u) run" where
  "write_file E path bytes failure success s = do {
     (status, s) \<leftarrow> on_driver (truncate_path (ops_of E) path (int (length bytes))) s;
     if status < 0 then says ''Couldn't truncate file: %s (%d)'' [Err (- status), Num status] s
     else do {
       (status, s) \<leftarrow> on_driver (write_path (ops_of E) path bytes 0) s;
       let m = (if status < 0 then failure status else success);
       says (fst m) (snd m) s
     }
   }"

definition write_command :: "('p, 'h, 'u) env \<Rightarrow> string list \<Rightarrow> ('p, 'h, 'u) session \<Rightarrow> ('p, 'h, 'u) run" where
  "write_command E pieces s =
     (if length pieces < 3 then says ''Usage: - write <path> <contents...>'' [] s
      else checked E (\<lambda>s. do {
        path \<leftarrow> simplifyPath_cwd (s_path s) (pieces ! 1);
        let bytes = char_bytes (joined 2 pieces);
        write_file E path bytes (\<lambda>status. (''Couldn't write to file: %s (%d)'', [Err (- status), Num status]))
          (''Wrote %lu bytes to %s.'', [Num (int (length bytes)), Str path]) s
      }) s)"

text \<open>
  The part that \<open>read\<close> and \<open>sha1\<close> share: \<open>buffer\<close> is on the heap and not initialised; what is not read
  into it stays as it was.
\<close>

definition read_file :: "('p, 'h, 'u) env \<Rightarrow> string \<Rightarrow> (byte list \<Rightarrow> ('p, 'h, 'u) session \<Rightarrow> ('p, 'h, 'u) run) \<Rightarrow> ('p, 'h, 'u) session \<Rightarrow> ('p, 'h, 'u) run" where
  "read_file E path use s = do {
     ((status, sz), s) \<leftarrow> on_driver (getsize (ops_of E) path) s;
     case sz of
       None \<Rightarrow> says ''Couldn't read filesize: %s (%d)'' [Err (- status), Num status] s
     | Some sz \<Rightarrow>
         if sz = 0 then says ''File is empty.'' [] s
         else do {
           ((status, got), s) \<leftarrow> on_driver (read_path (ops_of E) path sz 0) s;
           if status < 0 then says ''Couldn't read file: %s (%d)'' [Err (- status), Num status] s
           else if sz < length got then None
           else use (overlay got (map (stack E) [0..<sz])) s
         }
   }"

definition read_command :: "('p, 'h, 'u) env \<Rightarrow> string list \<Rightarrow> ('p, 'h, 'u) session \<Rightarrow> ('p, 'h, 'u) run" where
  "read_command E pieces s =
     (if length pieces \<noteq> 2 then says ''Usage: - read <path>'' [] s
      else checked E (\<lambda>s. do {
        path \<leftarrow> simplifyPath_cwd (s_path s) (pieces ! 1);
        read_file E path (\<lambda>bytes. says ''%s: [%s]'' [Str path, Str (byte_text bytes)]) s
      }) s)"

definition hash_of :: "csha1 \<Rightarrow> byte list \<Rightarrow> string option" where
  "hash_of junk bytes = do {
     (_, h) \<leftarrow> Update bytes (word_of_nat (length bytes)) (Reset junk);
     (_, h) \<leftarrow> Final h;
     Some (ReportHash REPORT_HEX_SHORT h)
   }"

definition sha1_command :: "('p, 'h, 'u) env \<Rightarrow> string list \<Rightarrow> ('p, 'h, 'u) session \<Rightarrow> ('p, 'h, 'u) run" where
  "sha1_command E pieces s =
     (if length pieces = 3 then do {
        hash \<leftarrow> hash_of (old_sha E) (char_bytes (pieces ! 2));
        says ''Result: %s'' [Str hash] s
      }
      else if length pieces \<noteq> 2 then says ''Usage: - sha1 <path>'' [] s
      else checked E (\<lambda>s. do {
        path \<leftarrow> simplifyPath_cwd (s_path s) (pieces ! 1);
        read_file E path (\<lambda>bytes s. do {
          hash \<leftarrow> hash_of (old_sha E) bytes;
          says ''Result: %s'' [Str hash] s
        }) s
      }) s)"

definition mkdir_command :: "('p, 'h, 'u) env \<Rightarrow> string list \<Rightarrow> ('p, 'h, 'u) session \<Rightarrow> ('p, 'h, 'u) run" where
  "mkdir_command E pieces s =
     (if length pieces \<noteq> 2 then says ''Usage: - mkdir <path>'' [] s
      else checked E (\<lambda>s. do {
        path \<leftarrow> simplifyPath_cwd (s_path s) (pieces ! 1);
        (status, s) \<leftarrow> on_driver (mkdir (ops_of E) path 511) s;
        if status \<noteq> 0 then says ''mkdir failed: %s (%d)'' [Err (- status), Num status] s else Some ((), s)
      }) s)"

definition ls :: "('p, 'h, 'u) env \<Rightarrow> string list \<Rightarrow> ('p, 'h, 'u) session \<Rightarrow> ('p, 'h, 'u) run" where
  "ls E pieces s = checked E (\<lambda>s. do {
     path \<leftarrow> (if length pieces = 2 then simplifyPath_cwd (s_path s) (pieces ! 1) else Some (s_path s));
     if length pieces \<noteq> 1 \<and> length pieces \<noteq> 2 then says ''Usage: - ls [path]'' [] s
     else do {
       ((status, items), s) \<leftarrow> on_driver (readdir (ops_of E) path) s;
       let s = foldl (\<lambda>s item. say ''%s'' [Str (fst item)] s) s items;
       if status \<noteq> 0 then says ''readdir(%s) failed: %s (%d)'' [Str path, Err (- status), Num status] s else Some ((), s)
     }
   }) s"

definition printSize :: "('p, 'h, 'u) env \<Rightarrow> string list \<Rightarrow> ('p, 'h, 'u) session \<Rightarrow> ('p, 'h, 'u) run" where
  "printSize E pieces s =
     (if length pieces \<noteq> 2 then says ''Usage: - size <file>'' [] s
      else checked E (\<lambda>s. do {
        path \<leftarrow> simplifyPath_cwd (s_path s) (pieces ! 1);
        ((status, sz), s) \<leftarrow> on_driver (getsize (ops_of E) path) s;
        case sz of
          None \<Rightarrow> says ''Couldn't check filesize: %s (%d)'' [Err (- status), Num status] s
        | Some sz \<Rightarrow> says ''Filesize of %s: %lu'' [Str path, Num (int sz)] s
      }) s)"

text \<open>\<open>make\<close> does not look at the result of the driver's \<open>make\<close>.\<close>

definition make_command :: "('p, 'h, 'u) env \<Rightarrow> string list \<Rightarrow> ('p, 'h, 'u) session \<Rightarrow> ('p, 'h, 'u) run" where
  "make_command E pieces s =
     (if s_driver s = None then says ''Driver isn't ready. Try init driver.'' [] s
      else do {
        let s = say ''Creating partition...'' [] s;
        (_, s) \<leftarrow> on_driver (make_fs (ops_of E) (sizeof_DirEntry * 8)) s;
        says ''Initialized ThornFAT partition.'' [] s
      })"

primrec print_entries :: "('p, 'h, 'u) env \<Rightarrow> nat list \<Rightarrow> ('p, 'h, 'u) session \<Rightarrow> ('p, 'h, 'u) run" where
  "print_entries E [] s = Some ((), s)"
| "print_entries E (i # is) s = do {
     (v, s) \<leftarrow> on_driver (readFAT (ops_of E) i) s;
     print_entries E is (say ''%lu -> %d'' [Num (int i), Num v] s)
   }"

definition printfat :: "('p, 'h, 'u) env \<Rightarrow> string list \<Rightarrow> ('p, 'h, 'u) session \<Rightarrow> ('p, 'h, 'u) run" where
  "printfat E pieces s = checked E (\<lambda>s.
     let count = (if 1 < length pieces then case parseUlong (pieces ! 1) 10 of None \<Rightarrow> 100 | Some n \<Rightarrow> n else 100)
     in print_entries E [0..<count] s) s"

text \<open>\<open>records\<close> reads the partition of the context.\<close>

definition records_command :: "('p, 'h, 'u) env \<Rightarrow> string list \<Rightarrow> ('p, 'h, 'u) session \<Rightarrow> ('p, 'h, 'u) run" where
  "records_command E pieces s =
     (case s_partition s of
        None \<Rightarrow> says ''Partition is invalid.'' [] s
      | Some a \<Rightarrow>
          let list = (\<lambda>rs. foldl (\<lambda>s (sz, off). say ''[s=%lu, o=%lu]'' [Num (int sz), Num (int off)] s) s rs)
          in if length pieces \<noteq> 2 then says ''Usage: - records write - records read'' [] s
             else if pieces ! 1 = ''write'' then do { q \<leftarrow> o_partitions s a; Some ((), list (part_writes q)) }
             else if pieces ! 1 = ''read'' then do { q \<leftarrow> o_partitions s a; Some ((), list (part_reads q)) }
             else says ''Usage: - records write - records read'' [] s)"


section \<open>The serial line\<close>

definition writeSerial :: "('p, 'h, 'u) env \<Rightarrow> string list \<Rightarrow> ('p, 'h, 'u) session \<Rightarrow> ('p, 'h, 'u) run" where
  "writeSerial E pieces s =
     (if length pieces < 2 then says ''Usage: - serial <text...>'' [] s
      else
        let (ok, ready, u) = serial_init (line_io E) (portBase s) (False, line_hw s);
            s = s\<lparr>line_ready := ready, line_hw := u\<rparr>
        in if \<not> ok then says ''Serial failed to initialize for base 0x%x.'' [Num (int (portBase s))] s
           else do {
             (_, u) \<leftarrow> serial_puts (line_io E) (portBase s) (char_bytes (joined 1 pieces)) (line_hw s);
             (_, u) \<leftarrow> serial_write (line_io E) (portBase s) 10 u;
             Some ((), s\<lparr>line_hw := u\<rparr>)
           })"

definition receive :: "('p, 'h, 'u) env \<Rightarrow> ('p, 'h, 'u) session \<Rightarrow> (byte list \<times> ('p, 'h, 'u) session) option" where
  "receive E s = do {
     (input, u) \<leftarrow> read_input (line_io E) (portBase s) [] (line_hw s);
     Some (input, s\<lparr>line_hw := u\<rparr>)
   }"

definition readSerial :: "('p, 'h, 'u) env \<Rightarrow> string list \<Rightarrow> ('p, 'h, 'u) session \<Rightarrow> ('p, 'h, 'u) run" where
  "readSerial E pieces s =
     (if 2 < length pieces then says ''Usage: - readserial [file]'' [] s
      else if length pieces = 2 then checked E (\<lambda>s. do {
        path \<leftarrow> simplifyPath_cwd (s_path s) (pieces ! 1);
        (status, s) \<leftarrow> on_driver (isfile (ops_of E) path) s;
        if status < 0 then says ''Couldn't check for file: %s (%d)'' [Err (- status), Num status] s
        else if status = 0 then says ''%s is a directory.'' [Str path] s
        else do {
          (input, s) \<leftarrow> receive E s;
          write_file E path input (\<lambda>status. (''Couldn't write to %s: %s (%d)'', [Str path, Err (- status), Num status]))
            (''Wrote %lu byte%s to %s.'', [Num (int (length input)), Str (if length input = 1 then [] else ''s''), Str path]) s
        }
      }) s
      else do {
        (input, s) \<leftarrow> receive E s;
        says ''Serial input: [%s]'' [Str (byte_text input)] s
      })"

definition set_command :: "('p, 'h, 'u) env \<Rightarrow> string list \<Rightarrow> ('p, 'h, 'u) session \<Rightarrow> ('p, 'h, 'u) run" where
  "set_command E pieces s =
     (if length pieces < 2 \<or> pieces ! 1 \<noteq> ''baseport'' \<or> length pieces \<noteq> 3 then says ''Usage: - set baseport <baseport>'' [] s
      else
        case (if 2 < length (pieces ! 2) \<and> take 2 (pieces ! 2) = ''0x'' then parseLong (drop 2 (pieces ! 2)) 16
              else parseLong (pieces ! 2) 10) of
          None \<Rightarrow> says ''Invalid baseport.'' [] s
        | Some baseport \<Rightarrow>
            let base = nat (baseport mod 2 ^ 16)
            in says ''baseport set to 0x%x.'' [Num (int base)] (s\<lparr>portBase := base\<rparr>))"


section \<open>Selecting what the commands work on\<close>

definition delete_object :: "(nat \<Rightarrow> 'o option) \<Rightarrow> nat option \<Rightarrow> (nat \<Rightarrow> 'o option) option" where
  "delete_object heap a =
     (case a of None \<Rightarrow> Some heap | Some a \<Rightarrow> if heap a = None then None else Some (heap(a := None)))"

definition delete_driver :: "('p, 'h, 'u) session \<Rightarrow> ('p, 'h, 'u) run" where
  "delete_driver s = do {
     objects \<leftarrow> delete_object (o_drivers s) (s_driver s);
     Some ((), s\<lparr>o_drivers := objects, s_driver := None\<rparr>)
   }"

definition delete_partition :: "('p, 'h, 'u) session \<Rightarrow> ('p, 'h, 'u) run" where
  "delete_partition s = do {
     objects \<leftarrow> delete_object (o_partitions s) (s_partition s);
     Some ((), s\<lparr>o_partitions := objects, s_partition := None\<rparr>)
   }"

definition delete_device :: "('p, 'h, 'u) session \<Rightarrow> ('p, 'h, 'u) run" where
  "delete_device s = do {
     objects \<leftarrow> delete_object (o_devices s) (s_device s);
     Some ((), s\<lparr>o_devices := objects, s_device := None\<rparr>)
   }"

definition delete_port :: "('p, 'h, 'u) session \<Rightarrow> ('p, 'h, 'u) run" where
  "delete_port s = do {
     objects \<leftarrow> delete_object (o_ports s) (s_port s);
     Some ((), s\<lparr>o_ports := objects, s_port := None\<rparr>)
   }"

text \<open>\<open>mode\<close>: with the wrong number of arguments the code goes on after printing how to use it.\<close>

definition leave_mode :: "('p, 'h, 'u) session \<Rightarrow> ('p, 'h, 'u) run" where
  "leave_mode s = do {
     (_, s) \<leftarrow> delete_driver s;
     (_, s) \<leftarrow> delete_partition s;
     (_, s) \<leftarrow> delete_port s;
     if s_controller s \<noteq> None then None
     else
       let s = s\<lparr>s_path := ''/'', s_idePort := -1\<rparr>
       in says ''Switched to %s mode.'' [Str (if s_ahci s then ''AHCI'' else ''IDE'')] s
   }"

definition mode_command :: "string list \<Rightarrow> ('p, 'h, 'u) session \<Rightarrow> ('p, 'h, 'u) run" where
  "mode_command pieces s =
     (if length pieces \<noteq> 2 then leave_mode (say ''Usage: - mode ahci - mode ide'' [] s)
      else if pieces ! 1 = ''ahci'' then
        (if s_ahci s then says ''Already in AHCI mode.'' [] s else leave_mode (s\<lparr>s_ahci := True\<rparr>))
      else if pieces ! 1 = ''ide'' then
        (if \<not> s_ahci s then says ''Already in IDE mode.'' [] s else leave_mode (s\<lparr>s_ahci := False\<rparr>))
      else says ''Usage: - mode ahci - mode ide'' [] s)"

text \<open>
  \<open>initAHCI\<close> clears the vector and fills it with the controllers found; their ports are new objects. The
  constructor of the driver reads the superblock.
\<close>

definition install :: "(nat \<Rightarrow> ahci_port option) list \<Rightarrow> ('p, 'h, 'u) session \<Rightarrow> ('p, 'h, 'u) session" where
  "install cs s = s\<lparr>
     s_controllers := map (\<lambda>i j. if j < 32 \<and> (cs ! i) j \<noteq> None then Some (fresh s + (32 * i + j)) else None) [0..<length cs],
     o_ports := (\<lambda>a. if fresh s \<le> a \<and> a < fresh s + 32 * length cs then (cs ! ((a - fresh s) div 32)) ((a - fresh s) mod 32)
       else o_ports s a),
     fresh := fresh s + 32 * length cs\<rparr>"

definition init_ahci :: "('p, 'h, 'u) env \<Rightarrow> ('p, 'h, 'u) session \<Rightarrow> ('p, 'h, 'u) run" where
  "init_ahci E s = do {
     let s = s\<lparr>s_controller := None, s_port := None\<rparr>;
     (_, s) \<leftarrow> delete_partition s;
     (_, s) \<leftarrow> delete_device s;
     (_, s) \<leftarrow> delete_driver s;
     (cs, h) \<leftarrow> find_controllers E (hba_hw s);
     Some ((), install cs (s\<lparr>hba_hw := h\<rparr>))
   }"

definition init_driver :: "('p, 'h, 'u) env \<Rightarrow> ('p, 'h, 'u) session \<Rightarrow> ('p, 'h, 'u) run" where
  "init_driver E s =
     (case (s_device s, s_partition s) of
        (Some _, Some a) \<Rightarrow> do {
          q \<leftarrow> o_partitions s a;
          v \<leftarrow> o_devices s (parent q);
          (_, x) \<leftarrow> new_driver (ops_of E) (old_superblock E) (whole_partition q v (ide_hw s));
          let s = keep_driver (fresh s) a x (keep_partition a q (partition x) s);
          says ''Initialized ThornFAT driver.'' [] (s\<lparr>s_driver := Some (fresh s), fresh := fresh s + 1\<rparr>)
        }
      | _ \<Rightarrow> says ''No partition is selected.'' [] s)"

definition init_command :: "('p, 'h, 'u) env \<Rightarrow> string list \<Rightarrow> ('p, 'h, 'u) session \<Rightarrow> ('p, 'h, 'u) run" where
  "init_command E pieces s =
     (if length pieces < 2 then says ''Usage: - init ahci - init ide - init thornfat'' [] s
      else if pieces ! 1 = ''ahci'' then init_ahci E s
      else if pieces ! 1 = ''ide'' then do {
        (n, w) \<leftarrow> ide_init (ide_io E) (ide_hw s);
        let s = s\<lparr>ide_hw := w\<rparr>;
        if n = 0 then says ''No IDE devices found.'' [] s else Some ((), s)
      }
      else if pieces ! 1 \<in> {''thornfat'', ''tfat'', ''driver''} then init_driver E s
      else says ''Usage: - init ahci - init ide - init thornfat'' [] s)"

text \<open>\<open>selectPartition\<close> looks the partition up (\<open>Partition_Table\<close>) and makes a device and a partition for it.\<close>

definition no_port :: "('p, 'h, 'u) session \<Rightarrow> bool" where
  "no_port s \<longleftrightarrow> s_ahci s \<and> s_port s = None \<or> \<not> s_ahci s \<and> s_idePort s = -1"

definition lookup_partition :: "('p, 'h, 'u) env \<Rightarrow> nat \<Rightarrow> ('p, 'h, 'u) session \<Rightarrow> (selection \<times> ('p, 'h, 'u) session) option" where
  "lookup_partition E i s =
     (if s_ahci s then do {
        a \<leftarrow> s_port s;
        p \<leftarrow> o_ports s a;
        (r, h) \<leftarrow> selectPartition (ahci_reader (hba_io E) p) i (stack E) (hba_hw s);
        Some (r, s\<lparr>hba_hw := h\<rparr>)
      }
      else do {
        (r, w) \<leftarrow> selectPartition (ide_reader (ide_io E) (nat (s_idePort s))) i (stack E) (ide_hw s);
        Some (r, s\<lparr>ide_hw := w\<rparr>)
      })"

definition use_partition :: "nat \<Rightarrow> nat \<Rightarrow> ('p, 'h, 'u) session \<Rightarrow> ('p, 'h, 'u) run" where
  "use_partition off len s = do {
     (_, s) \<leftarrow> delete_device s;
     v \<leftarrow> (if s_ahci s then do { a \<leftarrow> s_port s; d \<leftarrow> new_ahci_device a; Some (AHCI_dev d) }
           else Some (IDE_dev (nat (s_idePort s mod 256))));
     let a = fresh s;
     let q = \<lparr>parent = a, part_offset = off, part_length = len, part_writes = [], part_reads = []\<rparr>;
     Some ((), s\<lparr>o_devices := (o_devices s)(a \<mapsto> v), s_device := Some a,
       o_partitions := (o_partitions s)(a + 1 \<mapsto> q), s_partition := Some (a + 1), fresh := a + 2\<rparr>)
   }"

definition select_partition :: "('p, 'h, 'u) env \<Rightarrow> nat \<Rightarrow> ('p, 'h, 'u) session \<Rightarrow> ('p, 'h, 'u) run" where
  "select_partition E i s =
     (if no_port s then says ''No port is selected.'' [] s
      else do {
        (r, s) \<leftarrow> lookup_partition E i s;
        case r of
          No_gpt \<Rightarrow> says ''MBR doesn't indicate the presence of a GPT.'' [] s
        | Bad_entry_size \<Rightarrow> says ''Unsupported partition entry size.'' [] s
        | Invalid_partition \<Rightarrow> says ''Invalid partition.'' [] s
        | Selected off len name \<Rightarrow> do {
            (_, s) \<leftarrow> use_partition off len s;
            says ''Selected partition (%s).'' [Str (byte_text name)] s
          }
      })"

definition select_controller :: "string \<Rightarrow> ('p, 'h, 'u) session \<Rightarrow> ('p, 'h, 'u) run" where
  "select_controller arg s =
     (if \<not> s_ahci s then says ''Can't select AHCI controller: not in AHCI mode.'' [] s
      else case parseUlong arg 10 of
          None \<Rightarrow> says ''Usage: - select controller <#> - select port <#> - select partition <#>'' [] s
        | Some i \<Rightarrow>
            if length (s_controllers s) \<le> i then says ''Controller index out of range.'' [] s
            else do {
              (_, s) \<leftarrow> delete_partition (s\<lparr>s_controller := Some i, s_port := None\<rparr>);
              (_, s) \<leftarrow> delete_driver s;
              says ''Selected controller %lu.'' [Num (int i)] s
            })"

definition select_port :: "string \<Rightarrow> ('p, 'h, 'u) session \<Rightarrow> ('p, 'h, 'u) run" where
  "select_port arg s =
     (if s_ahci s then
        (case s_controller s of
           None \<Rightarrow> says ''No controller is selected.'' [] s
         | Some c \<Rightarrow>
             case parseUlong arg 10 of
               None \<Rightarrow> says ''Usage: - select controller <#> - select port <#> - select partition <#>'' [] s
             | Some i \<Rightarrow>
                 if 32 \<le> i then says ''Port index out of range.'' [] s
                 else if length (s_controllers s) \<le> c then None
                 else if (s_controllers s ! c) i = None then says ''Invalid port.'' [] s
                 else says ''Selected port %lu.'' [Num (int i)] (s\<lparr>s_port := (s_controllers s ! c) i\<rparr>))
      else
        case parseUlong arg 10 of
          None \<Rightarrow> says ''Usage: - select controller <#> - select port <#> - select partition <#>'' [] s
        | Some i \<Rightarrow>
            if 4 \<le> i then says ''Port index out of range.'' [] s
            else says ''Selected port %d.'' [Num (int i)] (s\<lparr>s_idePort := int i\<rparr>))"

definition select_command :: "('p, 'h, 'u) env \<Rightarrow> string list \<Rightarrow> ('p, 'h, 'u) session \<Rightarrow> ('p, 'h, 'u) run" where
  "select_command E pieces s =
     (if length pieces \<noteq> 3 then says ''Usage: - select controller <#> - select port <#> - select partition <#>'' [] s
      else if pieces ! 1 \<in> {''controller'', ''ahci'', ''cont''} then select_controller (pieces ! 2) s
      else if pieces ! 1 = ''port'' then select_port (pieces ! 2) s
      else if pieces ! 1 \<in> {''part'', ''partition''} then
        (if no_port s then says ''No port selected.'' [] s
         else case parseUlong (pieces ! 2) 10 of
             None \<Rightarrow> says ''Unable to parse partition index: %s'' [Str (pieces ! 2)] s
           | Some i \<Rightarrow> select_partition E i s)
      else says ''Usage: - select controller <#> - select port <#> - select partition <#>'' [] s)"


section \<open>A line of input\<close>

text \<open>
  The pieces of a line, \<open>None\<close> for an empty one. \<open>run_command\<close> is the chain of tests on the first piece; the
  commands \<open>0\<close> and \<open>0i\<close> call \<open>handleInput\<close> with fixed lines, none of which is one of the two.
\<close>

definition pieces_of :: "string \<Rightarrow> string list option" where
  "pieces_of str =
     (let str = dropWhile (\<lambda>c. c = CHR '' '') str;
          str = rev (dropWhile (\<lambda>c. c = CHR '' '') (rev str))
      in if str = [] then None else split str '' '' True)"

definition run_command :: "('p, 'h, 'u) env \<Rightarrow> string list \<Rightarrow> ('p, 'h, 'u) session \<Rightarrow> ('p, 'h, 'u) run" where
  "run_command E pieces s =
     (let w = pieces ! 0; s = say [] [] s
      in if w = ''hello'' then says ''How are you?'' [] s
         else if w = ''init'' then init_command E pieces s
         else if w = ''select'' \<or> w = ''sel'' then select_command E pieces s
         else if w = ''make'' then make_command E pieces s
         else if w = ''ls'' then ls E pieces s
         else if w = ''mkdir'' then mkdir_command E pieces s
         else if w = ''read'' then read_command E pieces s
         else if w = ''write'' then write_command E pieces s
         else if w = ''create'' then create_command E pieces s
         else if w = ''rm'' then remove_command E pieces s
         else if w = ''rmdir'' then rmdir_command E pieces s
         else if w = ''cd'' then cd E pieces s
         else if w = ''serial'' then writeSerial E pieces s
         else if w = ''set'' then set_command E pieces s
         else if w = ''readserial'' then readSerial E pieces s
         else if w = ''size'' then printSize E pieces s
         else if w = ''records'' then records_command E pieces s
         else if w = ''mode'' then mode_command pieces s
         else if w = ''sha1'' then sha1_command E pieces s
         else if w = ''printfat'' then printfat E pieces s
         else if w \<in> {''list'', ''find'', ''parseelf'', ''clear'', ''loader'', ''loop''} then other_command E pieces s
         else says ''Unknown command.'' [] s)"

primrec command_lines :: "('p, 'h, 'u) env \<Rightarrow> string list \<Rightarrow> ('p, 'h, 'u) session \<Rightarrow> ('p, 'h, 'u) run" where
  "command_lines E [] s = Some ((), s)"
| "command_lines E (l # rest) s = do {
     (_, s) \<leftarrow> (if pieces_of l = None then Some ((), s) else run_command E (the (pieces_of l)) s);
     command_lines E rest s
   }"

definition start_ahci :: "string list" where
  "start_ahci = [''init ahci'', ''sel cont 0'', ''sel port 0'', ''sel part 0'', ''init tfat'']"

definition start_ide :: "string list" where
  "start_ide = [''mode ide'', ''init ide'', ''sel port 0'', ''sel part 0'', ''init tfat'']"

definition handleInput :: "('p, 'h, 'u) env \<Rightarrow> string \<Rightarrow> ('p, 'h, 'u) session \<Rightarrow> ('p, 'h, 'u) run" where
  "handleInput E str s =
     (case pieces_of str of
        None \<Rightarrow> Some ((), s)
      | Some pieces \<Rightarrow>
          if pieces ! 0 = ''0'' then command_lines E start_ahci (say [] [] s)
          else if pieces ! 0 = ''0i'' then command_lines E start_ide (say [] [] s)
          else run_command E pieces s)"

primrec handle_lines :: "('p, 'h, 'u) env \<Rightarrow> string list \<Rightarrow> ('p, 'h, 'u) session \<Rightarrow> ('p, 'h, 'u) run" where
  "handle_lines E [] s = Some ((), s)"
| "handle_lines E (l # rest) s = do { (_, s) \<leftarrow> handleInput E l s; handle_lines E rest s }"

end
