(* ===== verification/Shell_Files.thy ===== *)
theory Shell_Files
  imports Shell Sample_Volume
begin

text \<open>
  The commands that show a file, on a session whose driver works on a device of the AHCI class: \<open>dev_ops\<close> meets the contract
  \<open>storage_device\<close> there, so that what holds of the driver holds of the commands.
\<close>

section \<open>The device and the driver of a session\<close>

definition dev_bytes :: "dev \<times> 'p ide \<Rightarrow> nat \<Rightarrow> byte" where
  "dev_bytes d = (case fst d of AHCI_dev a \<Rightarrow> ahci_abs a | IDE_dev i \<Rightarrow> (\<lambda>_. 0))"

definition dev_good :: "dev \<times> 'p ide \<Rightarrow> bool" where
  "dev_good d \<longleftrightarrow> (case fst d of AHCI_dev a \<Rightarrow> ahci_inv a | IDE_dev i \<Rightarrow> False)"

lemma dev_goodE:
  assumes "dev_good d"
  obtains a w where "d = (AHCI_dev a, w)" and "ahci_inv a"
  using assms by (cases d) (auto simp: dev_good_def split: dev.splits)

lemma dev_simps [simp]:
  "dev_bytes (AHCI_dev a, w) = ahci_abs a" "dev_good (AHCI_dev a, w) = ahci_inv a"
  by (simp_all add: dev_bytes_def dev_good_def)

interpretation session: storage_device "dev_ops P junk" dev_bytes dev_good ahci_cap for P junk
proof
  show "ahci_cap \<le> 2 ^ 64" by (simp add: ahci_cap_val)
next
  fix d :: "dev \<times> 'a ide" and n off
  assume "dev_good d" "0 < n" "off + n \<le> ahci_cap"
  then show "wp (sread (dev_ops P junk) n off d)
      (\<lambda>r d'. r = (0, rd (dev_bytes d) off n) \<and> dev_good d' \<and> dev_bytes d' = dev_bytes d)"
    by (elim dev_goodE) (auto simp: dev_ops_def intro!: wp_mono [OF ahci.read_law])
next
  fix d :: "dev \<times> 'a ide" and bs :: "byte list" and off
  assume "dev_good d" "bs \<noteq> []" "off + length bs \<le> ahci_cap"
  then show "wp (swrite (dev_ops P junk) bs off d)
      (\<lambda>st d'. st = 0 \<and> dev_good d' \<and> dev_bytes d' = upd (dev_bytes d) off bs)"
    by (elim dev_goodE) (auto simp: dev_ops_def intro!: wp_mono [OF ahci.write_law])
next
  fix d :: "dev \<times> 'a ide" and n off
  assume "dev_good d" "0 < n" "off + n \<le> ahci_cap"
  then show "wp (sclear (dev_ops P junk) off n d) (\<lambda>st d'. st = 0 \<and> dev_good d' \<and>
      (\<forall>i. i < off \<or> off + n \<le> i \<longrightarrow> dev_bytes d' i = dev_bytes d i))"
    by (elim dev_goodE) (auto simp: dev_ops_def intro!: wp_mono [OF ahci.clear_law])
qed

abbreviation on_dev :: "observation \<Rightarrow> (dev \<times> 'p ide) driver \<Rightarrow> bool" where
  "on_dev \<equiv> shows_obs dev_bytes dev_good ahci_cap"

text \<open>The session has a driver, on a partition of a device of the AHCI class, that shows \<open>v\<close>.\<close>

definition session_on :: "observation \<Rightarrow> ('p, 'h, 'u) session \<Rightarrow> bool" where
  "session_on v s \<longleftrightarrow> (\<exists>r d q x. fetch s = Some (r, d, q, x) \<and> on_dev v x)"

text \<open>What a command on files leaves as it was.\<close>

definition quiet :: "('p, 'h, 'u) session \<Rightarrow> ('p, 'h, 'u) session \<Rightarrow> bool" where
  "quiet s s' \<longleftrightarrow> s_path s' = s_path s \<and> printed s' = printed s"

lemma fetch_keep:
  assumes "fetch s = Some (r, d, q, x)" and "poffset (partition x') = poffset (partition x)" and "plength (partition x') = plength (partition x)"
  shows "\<exists>d' q'. fetch (keep_driver r (d_partition d) x' (keep_partition (d_partition d) q (partition x') s)) = Some (r, d', q', x')"
  using assms
  by (cases x'; cases "partition x'")
    (auto simp: fetch_def keep_driver_def keep_partition_def whole_partition_def bind_eq_Some_conv)

lemma on_driver_ok:
  assumes s: "session_on v s" and f: "\<And>x. on_dev v x \<Longrightarrow> wp (f x) (\<lambda>y x'. Q y \<and> on_dev w x')"
    and w: "o_offset w = o_offset v" "o_length w = o_length v"
  shows "wp (on_driver f s) (\<lambda>y s'. Q y \<and> session_on w s' \<and> quiet s s')"
proof -
  obtain r d q x where x: "fetch s = Some (r, d, q, x)" "on_dev v x" using s by (auto simp: session_on_def)
  obtain y x' where y: "f x = Some (y, x')" "Q y" "on_dev w x'" using f [OF x(2)] by (auto elim: wpE)
  have "poffset (partition x') = poffset (partition x)" "plength (partition x') = plength (partition x)"
    using x(2) y(3) w by (auto simp: shows_obs_def obs_def)
  from fetch_keep [OF x(1) this] x y show ?thesis
    by (auto simp: on_driver_def session_on_def quiet_def keep_driver_def keep_partition_def)
qed

definition mounted :: "observation \<Rightarrow> bool" where
  "mounted v \<longleftrightarrow> 24 \<le> o_length v \<and> decode_superblock (rd (disk v) 0 24) = o_sblk v \<and> magic (o_sblk v) = MAGIC"

lemma checked_ok:
  assumes "session_on v s" and "mounted v" and "\<And>s'. session_on v s' \<Longrightarrow> quiet s s' \<Longrightarrow> wp (body s') Q"
  shows "wp (checked E body s) Q"
proof -
  have "s_driver s \<noteq> None" using assms(1) by (auto simp: session_on_def fetch_def bind_eq_Some_conv)
  moreover have "wp (on_driver (verify (ops_of E)) s) (\<lambda>y s'. y \<and> session_on v s' \<and> quiet s s')"
  proof (rule on_driver_ok [OF assms(1)])
    fix x :: "(dev \<times> 'a ide) driver" assume x: "on_dev v x"
    have "v\<lparr>o_sblk := decode_superblock (rd (disk v) 0 24)\<rparr> = v" using assms(2) by (simp add: mounted_def)
    then show "wp (verify (ops_of E) x) (\<lambda>y x'. y \<and> on_dev v x')"
      using session.verify_ok [OF x] assms(2) by (auto simp: mounted_def elim!: wp_mono)
  qed simp_all
  ultimately show ?thesis using assms(3) by (auto simp: checked_def elim!: wp_mono)
qed

section \<open>Reading a file\<close>

definition file_text :: "observation \<Rightarrow> found \<Rightarrow> nat list \<Rightarrow> byte list" where
  "file_text v f bs = take (dlength (f_entry f)) (contents v bs)"

lemma length_file_text: "file_at v names f bs \<Longrightarrow> length (file_text v f bs) = dlength (f_entry f)"
  by (simp add: file_text_def file_at_def length_contents)

lemma quiet_trans: "quiet s s' \<Longrightarrow> quiet s' s'' \<Longrightarrow> quiet s s''"
  by (simp add: quiet_def)

lemma put_entry_fields: "o_offset (put_entry off e v) = o_offset v" "o_length (put_entry off e v) = o_length v"
  by (simp_all add: put_entry_def Let_def)

lemma getsize_command:
  assumes "session_on v s" and "tree_ok v D" and "file_at v names f bs"
  shows "wp (on_driver (getsize (ops_of E) (join_path names)) s)
    (\<lambda>y s'. y = (0, Some (dlength (f_entry f))) \<and> session_on v s' \<and> quiet s s')"
  by (rule on_driver_ok [OF assms(1)])
    (auto simp: getsize_def intro!: wp_mono [OF session.find_file [OF _ assms(2,3)]])

lemma read_file_ok:
  assumes s: "session_on v s" and tree: "tree_ok v D" and f: "file_at v names f bs"
    and sz: "0 < dlength (f_entry f)" "dlength (f_entry f) < 2 ^ 31"
    and use: "\<And>s'. quiet s s' \<Longrightarrow> wp (use (file_text v f bs) s') Q"
  shows "wp (read_file E (join_path names) use s) Q"
proof -
  let ?n = "dlength (f_entry f)" and ?t = "file_text v f bs"
  have len: "length ?t = ?n" by (rule length_file_text [OF f])
  have read: "wp (on_driver (read_path (ops_of E) (join_path names) ?n 0) s')
      (\<lambda>y s''. y = (int ?n, ?t) \<and> session_on (put_entry (f_offset f) (f_entry f) v) s'' \<and> quiet s' s'')" if "session_on v s'" for s'
  proof (rule on_driver_ok [OF that])
    fix x :: "(dev \<times> 'a ide) driver" assume "on_dev v x"
    from session.read_path_ok [OF this tree f sz(1,2), of 0 "ide_io E" "stack E"] sz(1) len
    show "wp (read_path (ops_of E) (join_path names) ?n 0 x) (\<lambda>y x'. y = (int ?n, ?t) \<and> on_dev (put_entry (f_offset f) (f_entry f) v) x')"
      by (auto simp: file_text_def elim!: wp_mono)
  qed (simp_all add: put_entry_fields)
  have over: "overlay ?t (map (stack E) [0..<?n]) = ?t" using len by (simp add: overlay_def)
  show ?thesis
    unfolding read_file_def wp_bind
    by (rule wp_mono [OF getsize_command [OF s tree f]])
      (use sz(1) len over use in \<open>auto intro!: wp_mono [OF read] dest: quiet_trans\<close>)
qed


section \<open>Lines of input\<close>

lemma pieces_two:
  assumes "w \<noteq> []" and "p \<noteq> []" and "CHR '' '' \<notin> set w" and "CHR '' '' \<notin> set p"
  shows "pieces_of (w @ '' '' @ p) = Some [w, p]"
proof -
  let ?l = "w @ '' '' @ p"
  obtain a u where w: "w = a # u" "a \<noteq> CHR '' ''" using assms(1,3) by (cases w) auto
  obtain b u' where p: "p = u' @ [b]" "b \<noteq> CHR '' ''" using assms(2,4) by (cases p rule: rev_cases) auto
  have trim: "dropWhile (\<lambda>c. c = CHR '' '') ?l = ?l" "rev (dropWhile (\<lambda>c. c = CHR '' '') (rev ?l)) = ?l"
    using w p by simp_all
  have "Thorn_Util.fields CHR '' '' ?l = [w, p]"
    using fields_append [OF assms(3), of p] fields_id [OF assms(4)] by simp
  then have "split ?l '' '' True = Some [w, p]" using assms(2) w by (simp add: split_char)
  then show ?thesis using assms(1) unfolding pieces_of_def Let_def trim by simp
qed

lemma fetch_say [simp]: "fetch (say fmt args s) = fetch s"
  by (simp add: fetch_def say_def)

lemma session_on_say [simp]: "session_on v (say fmt args s) = session_on v s"
  by (simp add: session_on_def)

lemma same_path: "simplifyPath_cwd (s_path s) p = Some path \<Longrightarrow> quiet (say fmt args s) s' \<Longrightarrow> simplifyPath_cwd (s_path s') p = Some path"
  by (simp add: quiet_def say_def)

text \<open>The hash of a buffer, in capital hexadecimal digits.\<close>

definition hex_text :: "byte list \<Rightarrow> string" where
  "hex_text bytes = concat (map hex2 bytes)"

lemma hash_of_ok:
  assumes "length bytes < 2 ^ 31" and "length (m_buffer junk) = 64"
  shows "hash_of junk bytes = Some (hex_text (sha1_spec bytes))"
proof -
  have "wp (feed [bytes] (Reset junk)) (\<lambda>_ s. hashed ([] @ concat [bytes]) s)"
    by (rule feed_ok [OF hashed_Reset [OF assms(2)]]) (use assms(1) in simp_all)
  then obtain s where s: "Update bytes (word_of_nat (length bytes)) (Reset junk) = Some ((), s)" "hashed bytes s"
    by (auto elim!: wpE simp: bind_eq_Some_conv)
  obtain t where t: "Final s = Some ((), t)" "m_digest t = sha1_spec bytes"
    using Final_ok [OF s(2)] assms(1) by (auto elim!: wpE)
  have "sha1_spec bytes \<noteq> []" using length_digest [of bytes] by auto
  then have "ReportHash REPORT_HEX_SHORT t = hex_text (sha1_spec bytes)"
    unfolding ReportHash_def hex_text_def t(2) by (cases "sha1_spec bytes") simp_all
  then show ?thesis by (simp add: hash_of_def s(1) t(1))
qed

text \<open>A command on one path, after the tests: the path is that of \<open>names\<close>.\<close>

definition word_ok :: "string \<Rightarrow> bool" where
  "word_ok p \<longleftrightarrow> p \<noteq> [] \<and> CHR '' '' \<notin> set p"

lemma commands_for:
  assumes "word_ok p"
  shows "handleInput E (''read '' @ p) s = read_command E [''read'', p] (say [] [] s)"
    and "handleInput E (''size '' @ p) s = printSize E [''size'', p] (say [] [] s)"
    and "handleInput E (''sha1 '' @ p) s = sha1_command E [''sha1'', p] (say [] [] s)"
    and "handleInput E (''cd '' @ p) s = cd E [''cd'', p] (say [] [] s)"
  using pieces_two [of "''read''" p] pieces_two [of "''size''" p] pieces_two [of "''sha1''" p] pieces_two [of "''cd''" p] assms
  by (simp_all add: word_ok_def handleInput_def run_command_def)

lemma shell_read:
  assumes s: "session_on v s" and v: "mounted v" "tree_ok v D" and f: "file_at v names f bs"
    and sz: "0 < dlength (f_entry f)" "dlength (f_entry f) < 2 ^ 31"
    and p: "word_ok p" "simplifyPath_cwd (s_path s) p = Some (join_path names)"
  shows "wp (handleInput E (''read '' @ p) s) (\<lambda>_ s'. printed s' = printed s @
      [([], []), (''%s: [%s]'', [Str (join_path names), Str (byte_text (file_text v f bs))])])"
proof -
  have s0: "session_on v (say [] [] s)" using s by simp
  show ?thesis
    unfolding commands_for [OF p(1)] read_command_def
    by (auto intro!: checked_ok [OF s0 v(1)] read_file_ok [OF _ v(2) f sz] simp: same_path [OF p(2)]) (auto simp: quiet_def say_def)
qed

lemma shell_sha1:
  assumes s: "session_on v s" and v: "mounted v" "tree_ok v D" and f: "file_at v names f bs"
    and sz: "0 < dlength (f_entry f)" "dlength (f_entry f) < 2 ^ 31"
    and p: "word_ok p" "simplifyPath_cwd (s_path s) p = Some (join_path names)"
    and sha: "length (m_buffer (old_sha E)) = 64"
  shows "wp (handleInput E (''sha1 '' @ p) s) (\<lambda>_ s'. printed s' = printed s @
      [([], []), (''Result: %s'', [Str (hex_text (sha1_spec (file_text v f bs)))])])"
proof -
  have s0: "session_on v (say [] [] s)" using s by simp
  have small: "length (file_text v f bs) < 2 ^ 31" using sz(2) length_file_text [OF f] by simp
  show ?thesis
    unfolding commands_for [OF p(1)] sha1_command_def
    by (auto intro!: checked_ok [OF s0 v(1)] read_file_ok [OF _ v(2) f sz] simp: same_path [OF p(2)] hash_of_ok [OF small sha])
      (auto simp: quiet_def say_def)
qed

lemma shell_size:
  assumes s: "session_on v s" and v: "mounted v" "tree_ok v D" and f: "file_at v names f bs"
    and p: "word_ok p" "simplifyPath_cwd (s_path s) p = Some (join_path names)"
  shows "wp (handleInput E (''size '' @ p) s) (\<lambda>_ s'. printed s' = printed s @
      [([], []), (''Filesize of %s: %lu'', [Str (join_path names), Num (int (dlength (f_entry f)))])])"
proof -
  have s0: "session_on v (say [] [] s)" using s by simp
  show ?thesis
    unfolding commands_for [OF p(1)] printSize_def
    by (auto intro!: checked_ok [OF s0 v(1)] wp_mono [OF getsize_command [OF _ v(2) f]] simp: same_path [OF p(2)]) (auto simp: quiet_def say_def)
qed

lemma on_driver_None: "fetch s = Some (r, d, q, x) \<Longrightarrow> f x = None \<Longrightarrow> on_driver f s = None"
  by (simp add: on_driver_def)

text \<open>The blocks of 2560 bytes that \<open>make\<close> asks for are a multiple of 512.\<close>

lemma shell_make:
  assumes "session_on v s" and "o_offset v mod 512 = 0" and "3 * 2560 \<le> o_length v"
  shows "handleInput E ''make'' s = None"
proof -
  obtain r d q x where x: "fetch s = Some (r, d, q, x)" "on_dev v x" using assms(1) by (auto simp: session_on_def)
  have len: "o_length v \<le> 67108864" using x(2) by (auto simp: shows_obs_def drv_ok_def part_ok_def obs_def ahci_cap_val)
  then have "o_length v div 2560 div 640 \<le> 67108864" by (intro le_trans [OF div_le_dividend]) simp
  then have "tableSize (o_length v div 2560) 2560 < 2 ^ 32 - 1" by (auto simp: tableSize_def updiv_def)
  then have "make_accepts (o_length v) 2560" using assms(3) by (simp add: make_accepts_def MINBLOCKS_def)
  moreover have "swrite (ops_of E) [] off d = None" if "dev_good d" "off mod 512 = 0" for off and d :: "dev \<times> 'a ide"
    using that by (elim dev_goodE) (simp add: dev_ops_def ahci_ops_def writeCache_empty_halts)
  ultimately have "make_fs (ops_of E) 2560 x = None"
    using len assms(2) by (intro session.make_never_returns [OF x(2)]) simp_all
  then have never: "on_driver (make_fs (ops_of E) 2560) (say f m (say f' m' s)) = None" for f m f' m'
    using x(1) by (intro on_driver_None) simp_all
  have "s_driver (say [] [] s) \<noteq> None" using x(1) by (auto simp: fetch_def bind_eq_Some_conv say_def)
  moreover have "pieces_of ''make'' = Some [''make'']" by (simp add: pieces_of_def split_char)
  ultimately show ?thesis by (simp add: handleInput_def run_command_def make_command_def Let_def never)
qed


section \<open>Properties\<close>

text \<open>C22. On a session whose driver works on an AHCI device and is mounted (the superblock on the disk is the one in memory
  and has the magic number), with directories that form a tree: a line with a word for a path that leads,
  from the current directory, to a file of more than 0 and fewer than \<open>2 ^ 31\<close> bytes, makes \<open>read\<close>
  print the bytes of the file, \<open>sha1\<close> the SHA-1 hash of the standard of these bytes, \<open>size\<close> their
  number, after an empty line and nothing else.\<close>

theorem shell_shows_files:
  assumes "session_on v s" and "mounted v" and "tree_ok v D" and "file_at v names f bs"
    and "0 < dlength (f_entry f)" and "dlength (f_entry f) < 2 ^ 31"
    and "word_ok p" and "simplifyPath_cwd (s_path s) p = Some (join_path names)"
    and "length (m_buffer (old_sha E)) = 64"
  shows "wp (handleInput E (''read '' @ p) s) (\<lambda>_ s'. printed s' = printed s @
      [([], []), (''%s: [%s]'', [Str (join_path names), Str (byte_text (file_text v f bs))])]) \<and>
    wp (handleInput E (''sha1 '' @ p) s) (\<lambda>_ s'. printed s' = printed s @
      [([], []), (''Result: %s'', [Str (hex_text (sha1_spec (file_text v f bs)))])]) \<and>
    wp (handleInput E (''size '' @ p) s) (\<lambda>_ s'. printed s' = printed s @
      [([], []), (''Filesize of %s: %lu'', [Str (join_path names), Num (int (dlength (f_entry f)))])])"
  by (intro conjI shell_read [OF assms(1-8)] shell_size [OF assms(1-4,7,8)] shell_sha1 [OF assms])

text \<open>A session on the sample volume.\<close>

definition session_of :: "nat ahci_device driver \<Rightarrow> ('p, 'h, 'u) session \<Rightarrow> ('p, 'h, 'u) session" where
  "session_of x s = s\<lparr>s_device := Some 0, s_partition := Some 1, s_driver := Some 2, s_path := ''/'',
     o_devices := [0 \<mapsto> AHCI_dev (pdev (partition x))],
     o_partitions := [1 \<mapsto> \<lparr>parent = 0, part_offset = poffset (partition x), part_length = plength (partition x), part_writes = [], part_reads = []\<rparr>],
     o_drivers := [2 \<mapsto> \<lparr>d_partition = 1, d_sblk = sblk x, d_free = blocksFree x, d_root = root x, d_offset = writeOffset x\<rparr>]\<rparr>"

lemma session_of_on: "on_ahci v x \<Longrightarrow> session_on v (session_of x s)"
  by (auto simp: session_on_def session_of_def fetch_def whole_partition_def shows_obs_def drv_ok_def part_ok_def obs_def part_bytes_def)

lemma sample_session: "\<exists>s :: (unit, unit, unit) session. session_on sample_tree s \<and> s_path s = ''/''"
proof -
  obtain x :: "nat ahci_device driver" where "on_ahci sample_tree x" using on_ahci_sample_tree by blast
  then have "session_on sample_tree (session_of x s)" for s :: "(unit, unit, unit) session" by (rule session_of_on)
  moreover have "s_path (session_of x s) = ''/''" for s :: "(unit, unit, unit) session" by (simp add: session_of_def)
  ultimately show ?thesis by blast
qed

lemma sample_mounted: "mounted sample_tree"
  using sample_tree_superblock by (simp add: mounted_def) (simp add: sample_sb_def)

theorem shell_shows_files_witness:
  "\<exists>(s :: (unit, unit, unit) session) E. session_on sample_tree s \<and>
     wp (handleInput E ''read a'' s) (\<lambda>_ s'. \<exists>t. length t = 700 \<and> printed s' = printed s @ [([], []), (''%s: [%s]'', [Str ''/a'', Str t])]) \<and>
     wp (handleInput E ''size a'' s) (\<lambda>_ s'. printed s' = printed s @ [([], []), (''Filesize of %s: %lu'', [Str ''/a'', Num 700])])"
proof -
  obtain s :: "(unit, unit, unit) session" where s: "session_on sample_tree s" "s_path s = ''/''" using sample_session by blast
  obtain E :: "(unit, unit, unit) env" where E: "length (m_buffer (old_sha E)) = 64"
    by (rule that [of "undefined\<lparr>old_sha := csha1.make [] (0, 0) (replicate 64 0) [] []\<rparr>"]) (simp add: csha1.defs)
  have path: "simplifyPath_cwd (s_path s) ''a'' = Some (join_path [''a''])"
    by (simp add: s(2) simplifyPath_cwd_def split_char Let_def join_path_def)
  have word: "word_ok ''a''" by (simp add: word_ok_def)
  have text_length: "length (byte_text (file_text sample_tree sample_found [4, 6])) = 700"
    using length_file_text [OF sample_file_at] by (simp add: byte_text_def)
  from shell_shows_files [OF s(1) sample_mounted sample_tree_ok sample_file_at _ _ word path E] text_length show ?thesis
    by (intro exI [of _ s] exI [of _ E] conjI s(1)) (auto simp: join_path_def elim!: wp_mono)
qed

end
