(* ===== verification/Spec2Isabelle.thy ===== *)
theory Spec2Isabelle
  imports Volume Memory Mutexes Page_Meta Memset Line_Editor Locks IDE_Drive AHCI_Disk Partition_Select PCI_Bus Processes SHA1 Shell_Files
begin

text \<open>
  A model of the kernel dsOS (Thorn): the ThornFAT file system on its stack of storage devices, the drivers
  of the disks and of the buses they hang on, the allocators of memory and of physical frames, interrupts and
  processes, the locks, the serial line, the text console, the commands of the test shell, and SHA-1.

  \<^bold>\<open>How the code is modelled.\<close> A call that changes state is a function from the state to
  \<open>('a \<times> state) option\<close>: \<open>Some (x, s)\<close> is a return of \<open>x\<close> in the new state, \<open>None\<close> a call that
  never comes back (a failed \<open>assert\<close>, \<open>Kernel::perish\<close>, a fault, an endless loop) or whose outcome
  C++ leaves undefined. \<open>wp m Q\<close> (\<open>Prelude\<close>) says that the call comes back and ends in \<open>Q\<close>. Status
  codes are the negative integers of the code. \<open>size_t\<close> values are natural numbers with \<open>wrap64\<close> and
  \<open>u64\<close> where an operation can wrap, 32-bit ones are converted by \<open>u32\<close> and \<open>i32\<close>, bytes are \<open>8 word\<close>.
  Loops that C++ does not bound are \<open>partial_function (option)\<close>, so that not returning is \<open>None\<close>; there
  is no fuel. Debug output, logging to the serial port and \<open>printf\<close> are left out; a read that a call
  makes only to print its result is kept.

  \<^bold>\<open>The file system.\<close> A file operation goes from a path to directory entries, to the allocation table,
  to a partition, to a device and its cache:

  \<^item> \<open>Cache\<close> (\<open>include/Cache.h\<close>): the LRU cache, a list of keys and a map, tied together by the
    invariant \<open>cache_inv\<close>.
  \<^item> \<open>Storage\<close> (\<open>include/device/Storage.h\<close>): the interface of a device, as three locales that extend one
    another. \<open>sector_device\<close>: below a capacity and up to a size of a transfer, reads of bytes and writes of whole
    sectors behave as on an array of bytes; \<open>transfer_device\<close>: writes of any bytes do; \<open>storage_device\<close>: so does
    \<open>clear\<close>, and transfers have no limit of size. All lemmas about the file system are proved in the last one. A
    sequence of requests is served as by an array (\<open>serve\<close>, \<open>array_serve\<close>).
  \<^item> \<open>AHCI_Device\<close> (\<open>src/device/AHCIDevice.cpp\<close>): the device with its cache of blocks of 512 bytes. It
    interprets the locale with a capacity of 64 MiB, the size from which on the cache evicts. The
    port of the controller is a parameter.
  \<^item> \<open>Partition\<close> (\<open>src/fs/Partition.cpp\<close>): a range of a device.
  \<^item> \<open>Paths\<close>, \<open>Thorn_Util\<close> (\<open>src/fs/Util.cpp\<close>, \<open>src/fs/ThornFAT/Util.cpp\<close>, \<open>include/ThornUtil.h\<close>):
    splitting and simplifying paths, arithmetic helpers.
  \<^item> \<open>Dir_Entry\<close> (\<open>include/fs/ThornFAT/Types.h\<close>): superblock and directory entry with their packed
    layouts of 24 and 320 bytes.
  \<^item> \<open>ThornFAT\<close> (\<open>src/fs/ThornFAT/ThornFAT.cpp\<close>): all operations of the driver, one definition per
    method, its loops and lambdas as definitions of their own, in the order of the code.
  \<^item> \<open>FAT_Table\<close>, \<open>FAT_Data\<close>, \<open>FAT_Dirs\<close>, \<open>FAT_Resize\<close>, \<open>FAT_Files\<close>, \<open>FAT_Format\<close>: the lemmas, in the
    context of \<open>storage_device\<close>. They see a driver through an observation (\<open>at_obs v s\<close>): the bytes of
    the partition, the superblock, the free count. The allocation table, the chain of blocks of a file,
    its contents and the tree of directories are functions of that observation.
  \<^item> \<open>Sample_Volume\<close> and \<open>Volume\<close>: a small file system on the AHCI device, and the properties of the
    driver over the model's own device, with the sample as the witness of their hypotheses.

  \<^bold>\<open>The disks and their buses.\<close> A driver of registers takes the state behind them and the functions that read and
  write them as arguments. The theorems are about these functions for a device as its specification
  describes it, a model written next to the driver and said to be one; only the driver is the code.

  \<^item> \<open>Ports\<close> (\<open>src/hardware/Ports.cpp\<close>): the port instructions as a record of functions.
  \<^item> \<open>IDE\<close> (\<open>src/hardware/IDE.cpp\<close>, \<open>src/device/IDEDevice.cpp\<close>): the registers of a channel, polling,
    identification, transfers of sectors and of bytes. \<open>IDE_Drive\<close> is a disk with programmed input and output, as ATA
    documents it, the proof that the device on it is a \<open>transfer_device\<close>, and the property.
  \<^item> \<open>AHCI_Port\<close> (\<open>src/hardware/AHCI.cpp\<close>): the registers of a port, the command list and table in memory,
    \<open>access\<close>, \<open>identify\<close>, reads and writes of blocks and of bytes. \<open>AHCI_Disk\<close> is a controller that reads a command from
    memory and carries it out after \<open>lag\<close> ticks, and the proof that a port on it is a \<open>sector_device\<close>.
  \<^item> \<open>Partition_Table\<close> (\<open>include/hardware/MBR.h\<close>, \<open>src/hardware/GPT.cpp\<close>, \<open>src/Test.cpp\<close>): MBR, GPT and
    \<open>selectPartition\<close>, over readers of the two kinds of port (locale \<open>disk_reader\<close>), which are in
    \<open>Partition_Readers\<close> and which \<open>Partition_Select\<close> interprets on the IDE device and on the AHCI port.
  \<^item> \<open>PCI\<close> (\<open>src/hardware/PCI.cpp\<close>): the access to the configuration space, the search for devices, the
    list of capabilities, message signalled interrupts. \<open>PCI_Bus\<close> is a host bridge with a configuration space for every
    function, and the lemmas about the driver on it.
  \<^item> \<open>Interrupts\<close> (\<open>src/arch/x86_64/Interrupts.cpp\<close>): the descriptor table, its vectors, the calls that
    program the two 8259 controllers, and a model of these.
  \<^item> \<open>Serial\<close> (\<open>src/hardware/Serial.cpp\<close>): \<open>init\<close>, reads and writes of the serial line and the loop of
    \<open>readserial\<close>, with a model of a 16550.

  \<^bold>\<open>The other parts.\<close>

  \<^item> \<open>Memory\<close> (\<open>src/memory/Memory.cpp\<close>): the first-fit allocator; headers are records at addresses, the
    list through \<open>next\<close> is part of the state. \<open>heap_inv\<close> says which blocks the list describes.
  \<^item> \<open>Memset\<close> (\<open>src/memory/memset.cpp\<close>): the four loops of \<open>memset\<close>.
  \<^item> \<open>Mutexes\<close> (\<open>include/Mutex.h\<close>, \<open>include/Locked.h\<close>, \<open>include/Atomic.h\<close>): each method is a program of
    atomic points, the threads interleave by \<open>mstep\<close> and \<open>rstep\<close>; the theorems are about every
    reachable state. \<open>Locks\<close> holds the templates \<open>Lock\<close> and \<open>Locked\<close>, for one thread and for every
    class of mutex that fulfils the locale \<open>lockable\<close>, as both do.
  \<^item> \<open>Page_Meta\<close> (\<open>src/arch/x86_64/PageMeta.cpp\<close>): the bitmap of frames and the four levels of page
    tables in physical memory; \<open>walk\<close> is the walk of the processor.
  \<^item> \<open>Processes\<close> (\<open>src/Kernel.cpp\<close>, \<open>src/Process.cpp\<close>): the identifiers, the creation of processes with
    their page tables, the layout of the memory at boot, backtraces.
  \<^item> \<open>SHA1\<close> (\<open>src/SHA1.cpp\<close>): \<open>Reset\<close>, \<open>Transform\<close> with its 80 unrolled steps, \<open>Update\<close>, \<open>Final\<close>, and the
    hash of the standard as folds over the blocks of the padded message.
  \<^item> \<open>Terminal\<close> (\<open>src/Terminal.cpp\<close>), \<open>Keyboard\<close> (\<open>src/hardware/Keyboard.cpp\<close>,
    \<open>src/hardware/PS2Keyboard.cpp\<close>) and \<open>Line_Editor\<close> (\<open>src/Test.cpp\<close>): the text screen, the keys and
    the line that the test shell edits; the command of a finished line is an argument.
  \<^item> \<open>Shell\<close> (\<open>src/Test.cpp\<close>, \<open>include/Test.h\<close>): \<open>handleInput\<close>, its commands and the context they share. The
    objects that the commands create and delete lie at addresses, so that the use of a deleted one is seen.
    \<open>Numbers\<close> (\<open>src/ThornUtil.cpp\<close>) reads the numbers of the commands. In \<open>Shell_Files\<close> the devices of a session meet the
    contract \<open>storage_device\<close>, and what holds of the driver is carried to the lines that a user types.

  \<^bold>\<open>What the theorems show.\<close> That the file system finds, reads and writes files as a tree of directories
  with contents does, that freeing does what it says, which sizes \<open>make\<close> refuses and for which it
  leaves a volume that \<open>verify\<close> accepts, and where the code departs from this (reads that cross blocks,
  resizing, block sizes for which \<open>make\<close> never returns); that the cached device, the IDE device and the
  AHCI port are arrays, each within the conditions its property states; that a partition is contained and is
  found where the tables put it, on-disk records round-trip, paths have a normal form; that the
  allocators hand out disjoint memory and keep their structure; that the locks exclude threads with ids of their own,
  and do not exclude those of this kernel, whose ids are all 0; that mapping a page has the effect the processor
  sees; that the access to the configuration space reaches the function that is named; that
  interrupts are delivered to their handlers and the controllers are programmed line by line; that process
  identifiers are the least free ones; that SHA-1 is that of the standard; that \<open>memset\<close> fills a range;
  that the console stays on the screen but for tabs and that keys and line editing agree; that lines of the shell
  show a file, its hash and its size as the tree of directories says.

  \<^bold>\<open>Not modelled.\<close> APIC, UHCI and the timers, boot and interrupt entry (assembly), the commands of the shell that only
  list or print what the hardware says, the search for AHCI controllers, the vendored C and C++ libraries, the ELF
  reader and \<open>printf\<close>. A file system call is modelled
  for one thread. The capacity of 64 MiB is a hypothesis of the theorems on the AHCI device, since beyond it
  an evicted block loses its data.
\<close>

end
